(* ===== verification/Prelude.thy ===== *)
theory Prelude
  imports "HOL-Library.Word"
begin

text \<open>
  Shared vocabulary of the development: the machine integer types of the Rust
  source, fallible results and their sequencing (the \<^verbatim>\<open>?\<close> operator), positions in
  a byte buffer, Rust's \<^verbatim>\<open>BTreeMap\<close> as an association list sorted by key, slices, and
  three interfaces as locales: \<open>ordered_map\<close> (what \<^verbatim>\<open>BTreeMap\<close> promises),
  \<open>codec\<close> (an encoder and a decoder that undo each other and never read past what
  they need) and \<open>invariant_machine\<close> (a step function that keeps an invariant).
\<close>

unbundle bit_operations_syntax

named_theorems codec_laws \<open>decoding undoes encoding, one law per field reader\<close>
named_theorems codec_steps \<open>how far a successful read advances\<close>

type_synonym u8 = "8 word"
type_synonym u16 = "16 word"
type_synonym u32 = "32 word"
type_synonym u64 = "64 word"
type_synonym bytes = "u8 list"


section \<open>Fallible results\<close>

text \<open>A Rust \<^verbatim>\<open>Result<A, E>\<close> is \<open>E + A\<close>; \<open>rbind\<close> is the \<^verbatim>\<open>?\<close> operator.\<close>

definition rbind :: "'e + 'a \<Rightarrow> ('a \<Rightarrow> 'e + 'b) \<Rightarrow> 'e + 'b" where
  "rbind r f = (case r of Inl e \<Rightarrow> Inl e | Inr x \<Rightarrow> f x)"

lemma rbind_simps [simp]:
  "rbind (Inl e) f = Inl e"
  "rbind (Inr x) f = f x"
  by (simp_all add: rbind_def)

lemma rbind_eq_Inr_conv: "rbind r f = Inr y \<longleftrightarrow> (\<exists>x. r = Inr x \<and> f x = Inr y)"
  by (cases r) auto

lemma rbind_InrE [elim!]:
  assumes "rbind r f = Inr y"
  obtains x where "r = Inr x" and "f x = Inr y"
  using assms by (auto simp: rbind_eq_Inr_conv)

text \<open>
  \<open>res_le r r'\<close>: whenever \<open>r\<close> succeeds, \<open>r'\<close> gives the same. The rules
  in \<open>res_mono\<close> lift it through decoders, so that "appending bytes does not change a
  successful read" is proved once per field reader.
\<close>

definition res_le :: "'e + 'a \<Rightarrow> 'f + 'a \<Rightarrow> bool" where
  "res_le r r' \<longleftrightarrow> (\<forall>x. r = Inr x \<longrightarrow> r' = Inr x)"

named_theorems res_mono \<open>monotonicity rules for \<open>res_le\<close>\<close>

lemma res_leD: "res_le r r' \<Longrightarrow> r = Inr x \<Longrightarrow> r' = Inr x"
  by (simp add: res_le_def)

lemma res_le_refl [res_mono]: "res_le r r"
  by (simp add: res_le_def)

lemma res_le_Inl [res_mono]: "res_le (Inl e) r"
  by (simp add: res_le_def)

lemma res_le_rbind [res_mono]:
  "res_le r r' \<Longrightarrow> (\<And>x. res_le (f x) (f' x)) \<Longrightarrow> res_le (rbind r f) (rbind r' f')"
  by (auto simp: res_le_def)

lemma res_le_prod [res_mono]:
  "(\<And>a b. res_le (f a b) (f' a b)) \<Longrightarrow>
   res_le (case p of (a, b) \<Rightarrow> f a b) (case p of (a, b) \<Rightarrow> f' a b)"
  by (cases p) simp

lemma res_le_if [res_mono]:
  "(b \<Longrightarrow> res_le r r') \<Longrightarrow> (\<not> b \<Longrightarrow> res_le q q') \<Longrightarrow>
   res_le (if b then r else q) (if b then r' else q')"
  by simp

text \<open>\<^verbatim>\<open>map_err\<close>: the automatic conversion of an error by \<^verbatim>\<open>#[from]\<close>.\<close>

definition map_err :: "('e \<Rightarrow> 'f) \<Rightarrow> 'e + 'a \<Rightarrow> 'f + 'a" where
  "map_err f r = (case r of Inl e \<Rightarrow> Inl (f e) | Inr x \<Rightarrow> Inr x)"

lemma map_err_simps [simp]:
  "map_err f (Inl e) = Inl (f e)"
  "map_err f (Inr x) = Inr x"
  "map_err f r = Inr x \<longleftrightarrow> r = Inr x"
  by (cases r, simp_all add: map_err_def)+

lemma res_le_map_err [res_mono]: "res_le r r' \<Longrightarrow> res_le (map_err f r) (map_err g r')"
  by (auto simp: res_le_def)

definition is_ok :: "'e + 'a \<Rightarrow> bool" where
  "is_ok r = (case r of Inl _ \<Rightarrow> False | Inr _ \<Rightarrow> True)"

lemma is_ok_simps [simp]: "is_ok (Inr x)" "\<not> is_ok (Inl e)"
  by (simp_all add: is_ok_def)

lemma is_ok_iff: "is_ok r \<longleftrightarrow> (\<exists>x. r = Inr x)"
  by (cases r) auto

lemma not_is_ok_iff: "\<not> is_ok r \<longleftrightarrow> (\<exists>e. r = Inl e)"
  by (cases r) auto


section \<open>Unsigned arithmetic at 64 bits on \<open>nat\<close>\<close>

definition two64 :: nat where
  "two64 = 2 ^ 64"

definition wrap64 :: "nat \<Rightarrow> nat" where
  "wrap64 n = n mod two64"

definition checked_add64 :: "nat \<Rightarrow> nat \<Rightarrow> nat option" where
  "checked_add64 a b = (if a + b < two64 then Some (a + b) else None)"

definition saturating_add64 :: "nat \<Rightarrow> nat \<Rightarrow> nat" where
  "saturating_add64 a b = min (a + b) (two64 - 1)"

definition two32 :: nat where
  "two32 = 2 ^ 32"

definition wrap32 :: "nat \<Rightarrow> nat" where
  "wrap32 n = n mod two32"

definition saturating_add32 :: "nat \<Rightarrow> nat \<Rightarrow> nat" where
  "saturating_add32 a b = min (a + b) (two32 - 1)"

definition saturating_mul32 :: "nat \<Rightarrow> nat \<Rightarrow> nat" where
  "saturating_mul32 a b = min (a * b) (two32 - 1)"

lemma wrap32_id [simp]: "n < two32 \<Longrightarrow> wrap32 n = n"
  by (simp add: wrap32_def)

lemma unat_lt_two32 [simp]: "unat (w :: u32) < two32"
  using unsigned_less [of w, where ?'a = nat] by (simp add: two32_def)

lemma unat_of_nat32 [simp]: "n < two32 \<Longrightarrow> unat (of_nat n :: u32) = n"
  by (simp add: two32_def unat_of_nat)

lemma wrap64_id [simp]: "n < two64 \<Longrightarrow> wrap64 n = n"
  by (simp add: wrap64_def)

lemma wrap64_lt [simp]: "wrap64 n < two64"
  by (simp add: wrap64_def two64_def)

lemma wrap64_le: "wrap64 n \<le> n"
  by (simp add: wrap64_def)

lemma unat_lt_two64 [simp]: "unat (w :: u64) < two64"
  using unsigned_less [of w, where ?'a = nat] by (simp add: two64_def)

lemma unat_of_nat64 [simp]: "n < two64 \<Longrightarrow> unat (of_nat n :: u64) = n"
  by (simp add: two64_def unat_of_nat)

lemma of_nat_eq_u64: "m < two64 \<Longrightarrow> n < two64 \<Longrightarrow> (of_nat m :: u64) = of_nat n \<longleftrightarrow> m = n"
  by (metis unat_of_nat64)

lemma checked_add64_SomeD:
  "checked_add64 a b = Some c \<Longrightarrow> c = a + b \<and> a + b < two64"
  by (auto simp: checked_add64_def split: if_splits)


section \<open>Positions in a buffer\<close>

text \<open>\<open>reads buf pos bs\<close>: the bytes \<open>bs\<close> stand in \<open>buf\<close> at position \<open>pos\<close>.\<close>

definition reads :: "'a list \<Rightarrow> nat \<Rightarrow> 'a list \<Rightarrow> bool" where
  "reads buf pos bs \<longleftrightarrow> pos \<le> length buf \<and> (\<exists>rest. drop pos buf = bs @ rest)"

lemma reads_Nil [simp]: "reads buf pos [] \<longleftrightarrow> pos \<le> length buf"
  by (simp add: reads_def)

lemma reads_Cons [simp]:
  "reads buf pos (b # bs) \<longleftrightarrow> pos < length buf \<and> buf ! pos = b \<and> reads buf (Suc pos) bs"
proof (cases "pos < length buf")
  case True
  then have "drop pos buf = buf ! pos # drop (Suc pos) buf"
    by (simp add: Cons_nth_drop_Suc)
  with True show ?thesis
    by (auto simp: reads_def)
next
  case False
  then show ?thesis
    by (auto simp: reads_def)
qed

lemma reads_append [simp]:
  "reads buf pos (as @ bs) \<longleftrightarrow> reads buf pos as \<and> reads buf (pos + length as) bs"
proof (induction as arbitrary: pos)
  case Nil
  then show ?case by (auto simp: reads_def)
next
  case (Cons a as)
  then show ?case by simp
qed

lemma reads_at_end: "reads (pre @ bs @ post) (length pre) bs"
  by (auto simp: reads_def)

lemma reads_self [simp]: "reads bs 0 bs"
  by (simp add: reads_def)

lemma reads_prefix [simp]: "reads (bs @ post) 0 bs"
  by (simp add: reads_def)

lemma reads_length: "reads buf pos bs \<Longrightarrow> pos + length bs \<le> length buf"
proof -
  assume "reads buf pos bs"
  then obtain rest where "pos \<le> length buf" "drop pos buf = bs @ rest"
    by (auto simp: reads_def)
  then have "length (drop pos buf) = length bs + length rest"
    by simp
  with \<open>pos \<le> length buf\<close> show ?thesis by simp
qed

lemma reads_take: "reads buf pos bs \<Longrightarrow> take (length bs) (drop pos buf) = bs"
  by (auto simp: reads_def)


section \<open>Slices\<close>

text \<open>\<open>copy_slice buf pos xs\<close> is \<^verbatim>\<open>buf[pos..pos+xs.len()].copy_from_slice(xs)\<close>; the source
  only calls it within bounds, which the lemmas that use it establish.\<close>

definition copy_slice :: "'a list \<Rightarrow> nat \<Rightarrow> 'a list \<Rightarrow> 'a list" where
  "copy_slice buf pos xs = take pos buf @ xs @ drop (pos + length xs) buf"

lemma length_copy_slice [simp]:
  "pos + length xs \<le> length buf \<Longrightarrow> length (copy_slice buf pos xs) = length buf"
  by (simp add: copy_slice_def)

lemma nth_copy_slice:
  assumes "pos + length xs \<le> length buf" and "i < length buf"
  shows "copy_slice buf pos xs ! i =
    (if pos \<le> i \<and> i < pos + length xs then xs ! (i - pos) else buf ! i)"
  using assms by (auto simp: copy_slice_def nth_append min_def)


section \<open>\<open>BTreeMap\<close> as a sorted association list\<close>

type_synonym ('k, 'v) btree = "('k \<times> 'v) list"

definition bt_ok :: "('k::linorder, 'v) btree \<Rightarrow> bool" where
  "bt_ok m \<longleftrightarrow> sorted_wrt (<) (map fst m)"

definition bt_empty :: "('k::linorder, 'v) btree" where
  "bt_empty = []"

fun bt_get :: "('k::linorder, 'v) btree \<Rightarrow> 'k \<Rightarrow> 'v option" where
  "bt_get [] k = None"
| "bt_get ((a, v) # m) k = (if k = a then Some v else bt_get m k)"

fun bt_insert :: "'k::linorder \<Rightarrow> 'v \<Rightarrow> ('k, 'v) btree \<Rightarrow> ('k, 'v) btree" where
  "bt_insert k v [] = [(k, v)]"
| "bt_insert k v ((a, w) # m) =
     (if k < a then (k, v) # (a, w) # m
      else if k = a then (k, v) # m
      else (a, w) # bt_insert k v m)"

fun bt_remove :: "'k::linorder \<Rightarrow> ('k, 'v) btree \<Rightarrow> ('k, 'v) btree" where
  "bt_remove k [] = []"
| "bt_remove k ((a, w) # m) = (if k = a then m else (a, w) # bt_remove k m)"

definition bt_keys :: "('k::linorder, 'v) btree \<Rightarrow> 'k list" where
  "bt_keys m = map fst m"

lemma bt_ok_Nil [simp]: "bt_ok []"
  by (simp add: bt_ok_def)

lemma bt_ok_Cons [simp]: "bt_ok ((k, v) # m) \<longleftrightarrow> (\<forall>p \<in> set m. k < fst p) \<and> bt_ok m"
  by (simp add: bt_ok_def)

lemma set_bt_insert: "set (bt_insert k v m) \<subseteq> insert (k, v) (set m)"
  by (induction m) (auto split: if_splits)

lemma set_bt_remove: "set (bt_remove k m) \<subseteq> set m"
  by (induction m) (auto split: if_splits)

lemma bt_get_None_iff: "bt_get m k = None \<longleftrightarrow> k \<notin> fst ` set m"
  by (induction m) (auto split: if_splits)

lemma bt_get_SomeD: "bt_get m k = Some v \<Longrightarrow> (k, v) \<in> set m"
  by (induction m) (auto split: if_splits)

lemma bt_get_iff: "bt_ok m \<Longrightarrow> bt_get m k = Some v \<longleftrightarrow> (k, v) \<in> set m"
  by (induction m) (force split: if_splits)+

lemma bt_get_insert [simp]: "bt_get (bt_insert k v m) = (bt_get m)(k \<mapsto> v)"
  by (induction m) auto

lemma bt_get_remove: "bt_ok m \<Longrightarrow> bt_get (bt_remove k m) = (bt_get m)(k := None)"
proof (induction m)
  case Nil
  then show ?case by auto
next
  case (Cons p m)
  obtain a w where p: "p = (a, w)" by (cases p)
  from Cons.prems p have "a \<notin> fst ` set m" by auto
  then have "bt_get m a = None" by (simp add: bt_get_None_iff)
  with Cons p show ?case by auto
qed

lemma bt_ok_insert [simp]: "bt_ok m \<Longrightarrow> bt_ok (bt_insert k v m)"
proof (induction m)
  case (Cons p m)
  then show ?case
    using set_bt_insert [of k v m] by (cases p) (force dest: subsetD)
qed simp

lemma bt_ok_remove [simp]: "bt_ok m \<Longrightarrow> bt_ok (bt_remove k m)"
proof (induction m)
  case (Cons p m)
  then show ?case
    using set_bt_remove [of k m] by (cases p) (auto dest: subsetD)
qed simp

lemma length_bt_insert: "length (bt_insert k v m) \<le> Suc (length m)"
  by (induction m) auto

lemma bt_ok_filter [simp]: "bt_ok m \<Longrightarrow> bt_ok (filter P m)"
  by (induction m) auto

lemma bt_get_filter_keys:
  "bt_get (filter (\<lambda>p. P (fst p)) m) k = (if P k then bt_get m k else None)"
  by (induction m) auto

text \<open>What a client of \<^verbatim>\<open>BTreeMap\<close> relies on.\<close>

locale ordered_map =
  fixes empty :: "'m"
    and insert_kv :: "'k \<Rightarrow> 'v \<Rightarrow> 'm \<Rightarrow> 'm"
    and remove_k :: "'k \<Rightarrow> 'm \<Rightarrow> 'm"
    and get :: "'m \<Rightarrow> 'k \<Rightarrow> 'v option"
    and ok :: "'m \<Rightarrow> bool"
  assumes ok_empty: "ok empty"
    and ok_insert: "ok m \<Longrightarrow> ok (insert_kv k v m)"
    and ok_remove: "ok m \<Longrightarrow> ok (remove_k k m)"
    and get_empty: "get empty k = None"
    and get_insert: "ok m \<Longrightarrow> get (insert_kv k v m) = (get m)(k \<mapsto> v)"
    and get_remove: "ok m \<Longrightarrow> get (remove_k k m) = (get m)(k := None)"
begin

lemma get_insert_same: "ok m \<Longrightarrow> get (insert_kv k v m) k = Some v"
  by (simp add: get_insert)

lemma get_insert_other: "ok m \<Longrightarrow> k \<noteq> k' \<Longrightarrow> get (insert_kv k v m) k' = get m k'"
  by (simp add: get_insert)

lemma remove_all:
  "ok m \<Longrightarrow> ok (fold remove_k ks m) \<and>
     get (fold remove_k ks m) = (\<lambda>k. if k \<in> set ks then None else get m k)"
  by (induction ks arbitrary: m) (auto simp: ok_remove get_remove fun_eq_iff)

end

interpretation bt: ordered_map bt_empty bt_insert bt_remove bt_get bt_ok
  by unfold_locales (simp_all add: bt_empty_def bt_get_remove)


section \<open>Codecs\<close>

text \<open>
  The contract of every field reader and writer of the wire formats. A decoder takes
  the buffer and a position and returns the value with the position after it.
\<close>

locale codec =
  fixes enc :: "'a \<Rightarrow> bytes"
    and dec :: "bytes \<Rightarrow> nat \<Rightarrow> 'e + ('a \<times> nat)"
    and valid :: "'a \<Rightarrow> bool"
  assumes dec_enc: "valid x \<Longrightarrow> reads buf pos (enc x) \<Longrightarrow> length buf < two64 \<Longrightarrow>
      dec buf pos = Inr (x, pos + length (enc x))"
    and dec_ext: "dec buf pos = Inr (x, pos') \<Longrightarrow> length (buf @ more) < two64 \<Longrightarrow>
      dec (buf @ more) pos = Inr (x, pos')"
    and dec_step: "dec buf pos = Inr (x, pos') \<Longrightarrow> pos < pos' \<and> pos' \<le> length buf"
begin

lemma roundtrip: "valid x \<Longrightarrow> length (enc x) < two64 \<Longrightarrow> dec (enc x) 0 = Inr (x, length (enc x))"
  using dec_enc [of x "enc x" 0] by simp

lemma enc_nonempty:
  assumes "valid x" and "length (enc x) < two64"
  shows "enc x \<noteq> []"
  using dec_step [OF roundtrip [OF assms]] by auto

lemma enc_prefix_free:
  assumes "valid x" "valid y" "enc x @ xs = enc y @ ys" "length (enc x @ xs) < two64"
  shows "x = y"
proof -
  have "dec (enc x @ xs) 0 = Inr (x, length (enc x))"
    using dec_enc [OF assms(1) reads_prefix assms(4)] by simp
  moreover have "dec (enc y @ ys) 0 = Inr (y, length (enc y))"
    using dec_enc [OF assms(2) reads_prefix] assms(3,4) by simp
  ultimately show ?thesis using assms(3) by simp
qed

lemma truncated_at:
  assumes "valid x" and rd: "reads (buf @ more) pos (enc x)" and "length buf < pos + length (enc x)"
    and "length (buf @ more) < two64"
  shows "\<exists>e. dec buf pos = Inl e"
proof (cases "dec buf pos")
  case (Inr r)
  obtain y p where r: "r = (y, p)" by (cases r)
  have "dec (buf @ more) pos = Inr (y, p)"
    using dec_ext [of buf pos y p more] Inr r assms by simp
  moreover have "dec (buf @ more) pos = Inr (x, pos + length (enc x))"
    using dec_enc [OF assms(1) rd assms(4)] .
  ultimately have "p = pos + length (enc x)" by auto
  moreover have "p \<le> length buf"
    using dec_step [of buf pos y p] Inr r by simp
  ultimately show ?thesis using assms(3) by simp
qed auto

lemma truncated_fails:
  "valid x \<Longrightarrow> enc x = bs @ more \<Longrightarrow> more \<noteq> [] \<Longrightarrow> length (enc x) < two64 \<Longrightarrow> \<exists>e. dec bs 0 = Inl e"
  using truncated_at [of x bs more 0] by (metis add_0 length_append length_greater_0_conv less_add_same_cancel1 reads_self)

end


section \<open>Machines that keep an invariant\<close>

locale invariant_machine =
  fixes step :: "'i \<Rightarrow> 's \<Rightarrow> 's"
    and inv :: "'s \<Rightarrow> bool"
    and guard :: "'i \<Rightarrow> bool"
  assumes step_inv: "inv s \<Longrightarrow> guard i \<Longrightarrow> inv (step i s)"
begin

lemma run_inv: "inv s \<Longrightarrow> \<forall>i \<in> set is. guard i \<Longrightarrow> inv (fold step is s)"
  by (induction "is" arbitrary: s) (auto intro: step_inv)

end

end
