(* ===== verification/Wire.thy ===== *)
theory Wire
  imports Prelude
begin

text \<open>
  The frame codec, \<^verbatim>\<open>crates/wire/src/lib.rs\<close>: LEB128 varints, length-prefixed byte
  fields, zig-zag integers, the twelve frame types and their packing into one payload.
  A writer returns the bytes it appends to \<^verbatim>\<open>out\<close>; a reader takes the buffer and
  \<^verbatim>\<open>pos\<close> and returns the value and the new \<^verbatim>\<open>pos\<close>, or the \<^verbatim>\<open>WireError\<close>.
\<close>

section \<open>Data\<close>

datatype wire_error =
    UnexpectedEof
  | UnknownFrame u8
  | VarintOverflow
  | BadLength
  | BadUtf8

datatype stream_kind = Session | Forward | FileTransfer | Agent | Exec

definition kind_as_u8 :: "stream_kind \<Rightarrow> u8" where
  "kind_as_u8 k = (case k of Session \<Rightarrow> 0 | Forward \<Rightarrow> 1 | FileTransfer \<Rightarrow> 2 | Agent \<Rightarrow> 3 | Exec \<Rightarrow> 4)"

definition kind_from_u8 :: "u8 \<Rightarrow> wire_error + stream_kind" where
  "kind_from_u8 v =
     (if v = 0 then Inr Session else if v = 1 then Inr Forward
      else if v = 2 then Inr FileTransfer else if v = 3 then Inr Agent
      else if v = 4 then Inr Exec else Inl (UnknownFrame v))"

datatype frame =
    Ack u64
  | Input u64 bytes
  | StateDiff u64 u64 bytes
  | Resize u16 u16
  | Ping u64
  | Pong u64
  | StreamOpen u64 stream_kind bytes
  | StreamData u64 u64 bytes bool
  | StreamAck u64 u64 u32
  | StreamClose u64 u32  \<comment> \<open>\<open>i32\<close> status, two's complement\<close>
  | StreamReset u64
  | Control bytes

definition T_ACK :: u8 where "T_ACK = 0x01"
definition T_INPUT :: u8 where "T_INPUT = 0x02"
definition T_STATEDIFF :: u8 where "T_STATEDIFF = 0x03"
definition T_RESIZE :: u8 where "T_RESIZE = 0x04"
definition T_PING :: u8 where "T_PING = 0x05"
definition T_PONG :: u8 where "T_PONG = 0x06"
definition T_STREAM_OPEN :: u8 where "T_STREAM_OPEN = 0x10"
definition T_STREAM_DATA :: u8 where "T_STREAM_DATA = 0x11"
definition T_STREAM_ACK :: u8 where "T_STREAM_ACK = 0x12"
definition T_STREAM_CLOSE :: u8 where "T_STREAM_CLOSE = 0x13"
definition T_STREAM_RESET :: u8 where "T_STREAM_RESET = 0x14"
definition T_CONTROL :: u8 where "T_CONTROL = 0x20"

lemmas tag_defs = T_ACK_def T_INPUT_def T_STATEDIFF_def T_RESIZE_def T_PING_def T_PONG_def
  T_STREAM_OPEN_def T_STREAM_DATA_def T_STREAM_ACK_def T_STREAM_CLOSE_def
  T_STREAM_RESET_def T_CONTROL_def


section \<open>Varints\<close>

lemma drop_bit7_less: "drop_bit 7 v \<noteq> 0 \<Longrightarrow> unat (drop_bit 7 v) < unat (v :: u64)"
proof -
  assume nz: "drop_bit 7 v \<noteq> 0"
  have "unat (drop_bit 7 v) = unat v div 128"
    by (simp add: drop_bit_eq_div unat_div_distrib)
  moreover from nz have "v \<noteq> 0" by auto
  then have "0 < unat v" by (simp add: unat_gt_0)
  ultimately show ?thesis by simp
qed

function put_varint :: "u64 \<Rightarrow> bytes" where
  "put_varint v =
     (let byte = ucast (v AND 0x7f) :: u8;
          v' = drop_bit 7 v
      in if v' \<noteq> 0 then (byte OR 0x80) # put_varint v' else [byte])"
  by pat_completeness auto
termination
  by (relation "measure unat") (auto simp: drop_bit7_less)

declare put_varint.simps [simp del]

function get_varint_loop :: "bytes \<Rightarrow> nat \<Rightarrow> u64 \<Rightarrow> nat \<Rightarrow> wire_error + (u64 \<times> nat)" where
  "get_varint_loop buf pos result shift =
     (if pos < length buf then
        (let byte = buf ! pos
         in if shift \<ge> 64 \<or> (shift = 63 \<and> byte AND 0x7e \<noteq> 0) then Inl VarintOverflow
            else let result' = result OR push_bit shift (ucast (byte AND 0x7f))
                 in if byte AND 0x80 = 0 then Inr (result', pos + 1)
                    else get_varint_loop buf (pos + 1) result' (shift + 7))
      else Inl UnexpectedEof)"
  by pat_completeness auto
termination
  by (relation "measure (\<lambda>(buf, pos, _). length buf - pos)") auto

declare get_varint_loop.simps [simp del]

definition get_varint :: "bytes \<Rightarrow> nat \<Rightarrow> wire_error + (u64 \<times> nat)" where
  "get_varint buf pos = get_varint_loop buf pos 0 0"

definition put_bytes :: "bytes \<Rightarrow> bytes" where
  "put_bytes data = put_varint (of_nat (length data)) @ data"

definition get_bytes :: "bytes \<Rightarrow> nat \<Rightarrow> wire_error + (bytes \<times> nat)" where
  "get_bytes buf pos =
     rbind (get_varint buf pos) (\<lambda>(len, pos).
       case checked_add64 pos (unat len) of
         None \<Rightarrow> Inl BadLength
       | Some end \<Rightarrow>
           if end > length buf then Inl BadLength
           else Inr (take (end - pos) (drop pos buf), end))"

definition get_u8 :: "bytes \<Rightarrow> nat \<Rightarrow> wire_error + (u8 \<times> nat)" where
  "get_u8 buf pos = (if pos < length buf then Inr (buf ! pos, pos + 1) else Inl UnexpectedEof)"

definition zigzag :: "u64 \<Rightarrow> u64" where
  "zigzag v = push_bit 1 v XOR signed_drop_bit 63 v"

definition unzigzag :: "u64 \<Rightarrow> u64" where
  "unzigzag v = drop_bit 1 v XOR (- (v AND 1))"


section \<open>Frames\<close>

fun frame_encode :: "frame \<Rightarrow> bytes" where
  "frame_encode (Ack seq) = T_ACK # put_varint seq"
| "frame_encode (Input offset data) = T_INPUT # put_varint offset @ put_bytes data"
| "frame_encode (StateDiff seq base data) =
     T_STATEDIFF # put_varint seq @ put_varint base @ put_bytes data"
| "frame_encode (Resize cols rows) =
     T_RESIZE # put_varint (ucast cols) @ put_varint (ucast rows)"
| "frame_encode (Ping stamp) = T_PING # put_varint stamp"
| "frame_encode (Pong stamp) = T_PONG # put_varint stamp"
| "frame_encode (StreamOpen sid kind meta) =
     T_STREAM_OPEN # put_varint sid @ [kind_as_u8 kind] @ put_bytes meta"
| "frame_encode (StreamData sid offset data fin) =
     T_STREAM_DATA # put_varint sid @ put_varint offset @ [if fin then 1 else 0] @ put_bytes data"
| "frame_encode (StreamAck sid ack window) =
     T_STREAM_ACK # put_varint sid @ put_varint ack @ put_varint (ucast window)"
| "frame_encode (StreamClose sid status) =
     T_STREAM_CLOSE # put_varint sid @ put_varint (zigzag (scast status))"
| "frame_encode (StreamReset sid) = T_STREAM_RESET # put_varint sid"
| "frame_encode (Control data) = T_CONTROL # put_bytes data"

definition frame_decode :: "bytes \<Rightarrow> nat \<Rightarrow> wire_error + (frame \<times> nat)" where
  "frame_decode buf pos =
     rbind (get_u8 buf pos) (\<lambda>(tag, pos).
       if tag = T_ACK then
         rbind (get_varint buf pos) (\<lambda>(seq, pos). Inr (Ack seq, pos))
       else if tag = T_INPUT then
         rbind (get_varint buf pos) (\<lambda>(offset, pos).
         rbind (get_bytes buf pos) (\<lambda>(data, pos). Inr (Input offset data, pos)))
       else if tag = T_STATEDIFF then
         rbind (get_varint buf pos) (\<lambda>(seq, pos).
         rbind (get_varint buf pos) (\<lambda>(base, pos).
         rbind (get_bytes buf pos) (\<lambda>(data, pos). Inr (StateDiff seq base data, pos))))
       else if tag = T_RESIZE then
         rbind (get_varint buf pos) (\<lambda>(cols, pos).
         rbind (get_varint buf pos) (\<lambda>(rows, pos). Inr (Resize (ucast cols) (ucast rows), pos)))
       else if tag = T_PING then
         rbind (get_varint buf pos) (\<lambda>(stamp, pos). Inr (Ping stamp, pos))
       else if tag = T_PONG then
         rbind (get_varint buf pos) (\<lambda>(stamp, pos). Inr (Pong stamp, pos))
       else if tag = T_STREAM_OPEN then
         rbind (get_varint buf pos) (\<lambda>(sid, pos).
         rbind (get_u8 buf pos) (\<lambda>(k, pos).
         rbind (kind_from_u8 k) (\<lambda>kind.
         rbind (get_bytes buf pos) (\<lambda>(meta, pos). Inr (StreamOpen sid kind meta, pos)))))
       else if tag = T_STREAM_DATA then
         rbind (get_varint buf pos) (\<lambda>(sid, pos).
         rbind (get_varint buf pos) (\<lambda>(offset, pos).
         rbind (get_u8 buf pos) (\<lambda>(fin, pos).
         rbind (get_bytes buf pos) (\<lambda>(data, pos).
           Inr (StreamData sid offset data (fin \<noteq> 0), pos)))))
       else if tag = T_STREAM_ACK then
         rbind (get_varint buf pos) (\<lambda>(sid, pos).
         rbind (get_varint buf pos) (\<lambda>(ack, pos).
         rbind (get_varint buf pos) (\<lambda>(window, pos). Inr (StreamAck sid ack (ucast window), pos))))
       else if tag = T_STREAM_CLOSE then
         rbind (get_varint buf pos) (\<lambda>(sid, pos).
         rbind (get_varint buf pos) (\<lambda>(status, pos).
           Inr (StreamClose sid (ucast (unzigzag status)), pos)))
       else if tag = T_STREAM_RESET then
         rbind (get_varint buf pos) (\<lambda>(sid, pos). Inr (StreamReset sid, pos))
       else if tag = T_CONTROL then
         rbind (get_bytes buf pos) (\<lambda>(data, pos). Inr (Control data, pos))
       else Inl (UnknownFrame tag))"

definition encode_frames :: "frame list \<Rightarrow> bytes" where
  "encode_frames frames = concat (map frame_encode frames)"


section \<open>Bit-level facts\<close>

lemma mask7: "(0x7f :: 'a::len word) = mask 7"
  by (simp add: mask_numeral)

lemma byte_of_low: "ucast (ucast (v AND 0x7f) :: u8) = (v :: u64) AND 0x7f"
  by (rule bit_word_eqI) (auto simp: bit_simps mask7)

lemma low_byte_and: "(ucast (v AND 0x7f) :: u8) AND 0x7f = ucast ((v :: u64) AND 0x7f)"
  by (rule bit_word_eqI) (auto simp: bit_simps mask7)

lemma low_byte_or_and: "((ucast (v AND 0x7f) :: u8) OR 0x80) AND 0x7f = ucast ((v :: u64) AND 0x7f)"
proof -
  have "(0x80 :: u8) AND 0x7f = 0" by simp
  then show ?thesis
    by (simp add: bit.conj_disj_distrib2 low_byte_and)
qed

lemma low_byte_cont: "(ucast ((v :: u64) AND 0x7f) :: u8) AND 0x80 = 0"
proof -
  have "(ucast (v AND 0x7f) :: u8) AND 0x80 = (ucast (v AND 0x7f) AND 0x7f) AND 0x80"
    by (simp only: low_byte_and)
  also have "\<dots> = ucast (v AND 0x7f) AND (0x7f AND 0x80)"
    by (simp only: and.assoc)
  finally show ?thesis by simp
qed

lemma or_cont_nonzero: "((b :: u8) OR 0x80) AND 0x80 \<noteq> 0"
  by (simp add: bit.conj_disj_distrib2 and.commute)

lemma low_or_high: "(v AND 0x7f) OR push_bit 7 (drop_bit 7 v) = (v :: u64)"
  by (rule bit_word_eqI) (auto simp: bit_simps mask7 not_le, metis le_add_diff_inverse not_le)

lemma unat_drop7: "unat (drop_bit 7 (v :: u64)) = unat v div 128"
  by (simp add: drop_bit_eq_div unat_div_distrib)


section \<open>Field readers undo field writers\<close>

lemma put_varint_final: "drop_bit 7 v = 0 \<Longrightarrow> put_varint v = [ucast (v AND 0x7f)]"
  by (subst put_varint.simps) (simp add: Let_def)

lemma put_varint_more:
  "drop_bit 7 v \<noteq> 0 \<Longrightarrow> put_varint v = (ucast (v AND 0x7f) OR 0x80) # put_varint (drop_bit 7 v)"
  by (subst put_varint.simps) (simp add: Let_def)

lemma low_shift_room:
  assumes "drop_bit 7 v \<noteq> 0" and "unat (v :: u64) * 2 ^ shift < two64"
  shows "shift < 57"
proof -
  from assms(1) have "0 < unat v div 128"
    by (metis unat_drop7 unat_gt_0)
  then have "128 \<le> unat v" by (simp add: div_greater_zero_iff)
  then have "128 * 2 ^ shift \<le> unat v * 2 ^ shift" by (rule mult_le_mono1)
  also have "\<dots> < 2 ^ 64" using assms(2) by (simp only: two64_def)
  finally have "(2::nat) ^ (shift + 7) < 2 ^ 64"
    by (simp only: power_add) (simp add: mult.commute)
  then have "shift + 7 < 64"
    by (rule power_less_imp_less_exp [rotated]) simp
  then show ?thesis by simp
qed

lemma last_group_fits:
  assumes "unat (v :: u64) * 2 ^ 63 < two64"
  shows "(ucast (v AND 0x7f) :: u8) AND 0x7e = 0"
proof -
  from assms have "unat v < 2" by (simp add: two64_def)
  then have "unat v = 0 \<or> unat v = 1" by auto
  then have "v = 0 \<or> v = 1" by (simp add: word_unat_eq_iff)
  then show ?thesis by auto
qed

lemma get_varint_loop_put:
  assumes "reads buf pos (put_varint v)" "unat v * 2 ^ shift < two64" "shift \<le> 63"
  shows "get_varint_loop buf pos r shift =
    Inr (r OR push_bit shift v, pos + length (put_varint v))"
  using assms
proof (induction v arbitrary: pos r shift rule: put_varint.induct)
  case (1 v)
  let ?b = "ucast (v AND 0x7f) :: u8"
  show ?case
  proof (cases "drop_bit 7 v = 0")
    case True
    then have "v AND 0x7f = v" using low_or_high [of v] by simp
    moreover have "ucast (?b AND 0x7f) = v AND 0x7f" by (simp only: low_byte_and byte_of_low)
    ultimately have e: "ucast (?b AND 0x7f) = v" by simp
    have ok: "\<not> (shift \<ge> 64 \<or> (shift = 63 \<and> ?b AND 0x7e \<noteq> 0))"
      using "1.prems" last_group_fits [of v] by auto
    from "1.prems"(1) True have "pos < length buf" "buf ! pos = ?b"
      by (simp_all add: put_varint_final)
    with ok show ?thesis
      by (subst get_varint_loop.simps)
        (simp only: Let_def put_varint_final [OF True] low_byte_cont e if_True if_False, simp)
  next
    case False
    let ?v = "drop_bit 7 v"
    have s: "shift < 57" by (rule low_shift_room [OF False "1.prems"(2)])
    from "1.prems"(1) False have p: "pos < length buf" "buf ! pos = ?b OR 0x80"
      and rest: "reads buf (pos + 1) (put_varint ?v)"
      by (simp_all add: put_varint_more)
    have "unat ?v * 2 ^ (shift + 7) \<le> unat v * 2 ^ shift"
      by (simp add: unat_drop7 power_add algebra_simps)
    then have room: "unat ?v * 2 ^ (shift + 7) < two64" using "1.prems"(2) by simp
    have IH: "get_varint_loop buf (pos + 1) r' (shift + 7) =
        Inr (r' OR push_bit (shift + 7) ?v, pos + 1 + length (put_varint ?v))" for r'
      using "1.IH" [OF refl refl False rest room] s by simp
    have "push_bit shift (v AND 0x7f) OR push_bit (shift + 7) ?v = push_bit shift v"
      using arg_cong [OF low_or_high [of v], of "push_bit shift"]
      by (simp add: push_bit_or add.commute)
    then have acc: "(r OR push_bit shift (v AND 0x7f)) OR push_bit (shift + 7) ?v = r OR push_bit shift v"
      by (simp only: or.assoc)
    have ok: "\<not> (shift \<ge> 64 \<or> (shift = 63 \<and> (?b OR 0x80) AND 0x7e \<noteq> 0))"
      using s by simp
    have low: "ucast ((?b OR 0x80) AND 0x7f) = v AND 0x7f"
      by (simp only: low_byte_or_and byte_of_low)
    show ?thesis
      by (subst get_varint_loop.simps)
        (simp only: Let_def p ok or_cont_nonzero low IH acc if_True if_False
          put_varint_more [OF False], simp)
  qed
qed

lemma get_varint_put [codec_laws]:
  "reads buf pos (put_varint v) \<Longrightarrow> get_varint buf pos = Inr (v, pos + length (put_varint v))"
  unfolding get_varint_def by (subst get_varint_loop_put) simp_all

lemma get_varint_loop_step:
  "get_varint_loop buf pos r shift = Inr (v, pos') \<Longrightarrow> pos < pos' \<and> pos' \<le> length buf"
proof (induction buf pos r shift rule: get_varint_loop.induct)
  case (1 buf pos r shift)
  from "1.prems" show ?case
    by (subst (asm) get_varint_loop.simps)
      (auto simp: Let_def dest: "1.IH" [OF _ refl] split: if_splits)
qed

lemma get_varint_loop_ext:
  "get_varint_loop buf pos r shift = Inr (v, pos') \<Longrightarrow>
   get_varint_loop (buf @ more) pos r shift = Inr (v, pos')"
proof (induction buf pos r shift rule: get_varint_loop.induct)
  case (1 buf pos r shift)
  from "1.prems" show ?case
    by (subst (asm) get_varint_loop.simps, subst get_varint_loop.simps)
      (auto simp: Let_def nth_append dest: "1.IH" [OF _ refl] split: if_splits)
qed

lemma get_varint_step [codec_steps]:
  "get_varint buf pos = Inr (v, pos') \<Longrightarrow> pos < pos' \<and> pos' \<le> length buf"
  unfolding get_varint_def by (rule get_varint_loop_step)

lemma get_varint_ext:
  "get_varint buf pos = Inr (v, pos') \<Longrightarrow> get_varint (buf @ more) pos = Inr (v, pos')"
  unfolding get_varint_def by (rule get_varint_loop_ext)

lemma get_bytes_put [codec_laws]:
  assumes "reads buf pos (put_bytes data)" and "length buf < two64"
  shows "get_bytes buf pos = Inr (data, pos + length (put_bytes data))"
proof -
  let ?hd = "put_varint (of_nat (length data))"
  have rd: "reads buf pos ?hd" "reads buf (pos + length ?hd) data"
    using assms(1) by (simp_all add: put_bytes_def)
  have fits: "pos + length ?hd + length data \<le> length buf"
    using reads_length [OF rd(2)] by simp
  then have "length data < two64" using assms(2) by simp
  moreover have "checked_add64 (pos + length ?hd) (length data) = Some (pos + length ?hd + length data)"
    using fits assms(2) by (simp add: checked_add64_def)
  ultimately show ?thesis
    using fits reads_take [OF rd(2)]
    by (simp add: get_bytes_def get_varint_put [OF rd(1)] put_bytes_def add.assoc)
qed

lemma get_bytes_step [codec_steps]:
  "get_bytes buf pos = Inr (d, pos') \<Longrightarrow> pos < pos' \<and> pos' \<le> length buf"
  by (auto simp: get_bytes_def checked_add64_def split: if_splits dest!: get_varint_step)

lemma get_bytes_ext:
  assumes "get_bytes buf pos = Inr (d, pos')"
  shows "get_bytes (buf @ more) pos = Inr (d, pos')"
proof -
  from assms obtain len p where v: "get_varint buf pos = Inr (len, p)"
    and c: "checked_add64 p (unat len) = Some pos'" "pos' \<le> length buf"
    and d: "d = take (pos' - p) (drop p buf)"
    by (auto simp: get_bytes_def split: option.splits if_splits)
  have "take (pos' - p) (drop p (buf @ more)) = d"
    using d c(2) by (auto simp: take_append)
  then show ?thesis
    using get_varint_ext [OF v, of more] c by (simp add: get_bytes_def)
qed

lemma get_u8_law [codec_laws]: "reads buf pos [b] \<Longrightarrow> get_u8 buf pos = Inr (b, pos + 1)"
  by (simp add: get_u8_def)

lemma get_u8_step [codec_steps]: "get_u8 buf pos = Inr (b, pos') \<Longrightarrow> pos < pos' \<and> pos' \<le> length buf"
  by (auto simp: get_u8_def split: if_splits)

lemma get_u8_ext: "get_u8 buf pos = Inr (b, pos') \<Longrightarrow> get_u8 (buf @ more) pos = Inr (b, pos')"
  by (auto simp: get_u8_def nth_append split: if_splits)

lemma reader_mono [res_mono]:
  "res_le (get_varint buf pos) (get_varint (buf @ more) pos)"
  "res_le (get_bytes buf pos) (get_bytes (buf @ more) pos)"
  "res_le (get_u8 buf pos) (get_u8 (buf @ more) pos)"
  by (auto simp: res_le_def intro: get_varint_ext get_bytes_ext get_u8_ext)

interpretation varint: codec put_varint get_varint "\<lambda>_. True"
  by unfold_locales (simp_all add: get_varint_put get_varint_ext get_varint_step)

interpretation lenbytes: codec put_bytes get_bytes "\<lambda>_. True"
  by unfold_locales (simp_all add: get_bytes_put get_bytes_ext get_bytes_step)

lemma kind_roundtrip [simp]: "kind_from_u8 (kind_as_u8 k) = Inr k"
  by (cases k) (simp_all add: kind_from_u8_def kind_as_u8_def)

lemma minus_and_one: "- ((x :: u64) AND 1) = (if bit x 0 then - 1 else 0)"
  by (simp add: and_one_eq bit_0 mod_2_eq_odd)

lemma unzigzag_zigzag [simp]: "unzigzag (zigzag v) = v"
proof (rule bit_word_eqI)
  fix n
  assume n: "n < LENGTH(64)"
  have top: "bit (zigzag v) 0 = bit v 63"
    by (simp only: zigzag_def bit_simps) simp
  have "bit (zigzag v) (Suc n) = (bit v n \<noteq> bit v 63)" if "n < 63"
    using that by (simp only: zigzag_def bit_simps) simp
  moreover have "\<not> bit (zigzag v) 64"
    using bit_imp_le_length [of "zigzag v" 64] by auto
  ultimately show "bit (unzigzag (zigzag v)) n = bit v n"
    using n top by (cases "n = 63") (auto simp: unzigzag_def minus_and_one bit_simps)
qed

lemma status_roundtrip [simp]: "ucast (scast (st :: u32) :: u64) = st"
  by (rule bit_word_eqI) (simp add: bit_simps)

lemma u16_roundtrip [simp]: "ucast (ucast (c :: u16) :: u64) = c"
  by (rule bit_word_eqI) (simp add: bit_simps)

lemma u32_roundtrip [simp]: "ucast (ucast (c :: u32) :: u64) = c"
  by (rule bit_word_eqI) (simp add: bit_simps)


section \<open>The frame codec\<close>

lemma frame_decode_encode [codec_laws]:
  assumes "reads buf pos (frame_encode f)" and "length buf < two64"
  shows "frame_decode buf pos = Inr (f, pos + length (frame_encode f))"
  using assms
  by (cases f) (auto simp: frame_decode_def tag_defs codec_laws get_u8_def add.assoc)

lemma frame_decode_step [codec_steps]:
  "frame_decode buf pos = Inr (f, pos') \<Longrightarrow> pos < pos' \<and> pos' \<le> length buf"
  unfolding frame_decode_def
  by (auto split: if_splits dest!: codec_steps)

lemma frame_decode_ext:
  "frame_decode buf pos = Inr (f, pos') \<Longrightarrow> frame_decode (buf @ more) pos = Inr (f, pos')"
  by (rule res_leD [of "frame_decode buf pos"], unfold frame_decode_def) (intro res_mono)

interpretation frame_codec: codec frame_encode frame_decode "\<lambda>_. True"
  by unfold_locales (simp_all add: frame_decode_encode frame_decode_ext frame_decode_step)


section \<open>Payloads\<close>

function decode_frames_loop :: "bytes \<Rightarrow> nat \<Rightarrow> frame list \<Rightarrow> wire_error + frame list" where
  "decode_frames_loop buf pos frames =
     (if pos < length buf then
        (case frame_decode buf pos of
           Inl e \<Rightarrow> Inl e
         | Inr (f, pos') \<Rightarrow> decode_frames_loop buf pos' (frames @ [f]))
      else Inr frames)"
  by pat_completeness auto
termination
  by (relation "measure (\<lambda>(buf, pos, _). length buf - pos)")
    (auto dest!: frame_decode_step)

declare decode_frames_loop.simps [simp del]

definition decode_frames :: "bytes \<Rightarrow> wire_error + frame list" where
  "decode_frames buf = decode_frames_loop buf 0 []"

lemma decode_frames_loop_prefix:
  "reads buf pos (encode_frames fs) \<Longrightarrow> length buf < two64 \<Longrightarrow>
   decode_frames_loop buf pos acc = decode_frames_loop buf (pos + length (encode_frames fs)) (acc @ fs)"
proof (induction fs arbitrary: pos acc)
  case Nil
  then show ?case by (simp add: encode_frames_def)
next
  case (Cons f fs)
  have rd: "reads buf pos (frame_encode f)"
    "reads buf (pos + length (frame_encode f)) (encode_frames fs)"
    using Cons.prems(1) by (simp_all add: encode_frames_def)
  have dec: "frame_decode buf pos = Inr (f, pos + length (frame_encode f))"
    using rd(1) Cons.prems(2) by (rule frame_decode_encode)
  have "pos < length buf"
    using frame_decode_step [OF dec] by linarith
  then have "decode_frames_loop buf pos acc =
      decode_frames_loop buf (pos + length (frame_encode f)) (acc @ [f])"
    by (subst decode_frames_loop.simps) (simp add: dec)
  then show ?case
    using Cons.IH [OF rd(2)] Cons.prems by (simp add: encode_frames_def add.assoc)
qed

lemma decode_frames_loop_end [simp]: "decode_frames_loop buf (length buf) acc = Inr acc"
  by (subst decode_frames_loop.simps) simp

text \<open>How many bytes of the receiver's memory a frame's variable-length field takes.\<close>

fun frame_payload :: "frame \<Rightarrow> bytes" where
  "frame_payload (Input offset data) = data"
| "frame_payload (StateDiff seq base data) = data"
| "frame_payload (StreamOpen sid kind meta) = meta"
| "frame_payload (StreamData sid offset data fin) = data"
| "frame_payload (Control data) = data"
| "frame_payload _ = []"

lemma get_bytes_size:
  "get_bytes buf pos = Inr (d, pos') \<Longrightarrow> pos < pos' \<and> pos' \<le> length buf \<and> length d < pos' - pos"
  by (auto simp: get_bytes_def checked_add64_def split: if_splits dest!: get_varint_step)

lemma frame_decode_size:
  "frame_decode buf pos = Inr (f, pos') \<Longrightarrow> length (frame_payload f) < pos' - pos"
  unfolding frame_decode_def
  by (auto split: if_splits dest!: get_bytes_size get_varint_step get_u8_step)

lemma decode_frames_loop_size:
  "decode_frames_loop buf pos acc = Inr fs \<Longrightarrow> pos \<le> length buf \<Longrightarrow>
   (\<Sum>f\<leftarrow>fs. Suc (length (frame_payload f))) \<le>
     (\<Sum>f\<leftarrow>acc. Suc (length (frame_payload f))) + (length buf - pos)"
proof (induction buf pos acc rule: decode_frames_loop.induct)
  case (1 buf pos acc)
  show ?case
  proof (cases "pos < length buf")
    case True
    with "1.prems"(1) obtain f p where f: "frame_decode buf pos = Inr (f, p)"
      and rest: "decode_frames_loop buf p (acc @ [f]) = Inr fs"
      by (subst (asm) decode_frames_loop.simps) (auto split: sum.splits)
    show ?thesis
      using "1.IH" [OF True f refl rest] frame_decode_step [OF f] frame_decode_size [OF f]
      by (simp, linarith)
  next
    case False
    with "1.prems"(1) show ?thesis
      by (subst (asm) decode_frames_loop.simps) simp
  qed
qed

text \<open>The number a run of varint bytes stands for, as the format defines it: little-endian
  groups of seven bits.\<close>

fun varint_value :: "bytes \<Rightarrow> nat" where
  "varint_value [] = 0"
| "varint_value (b # bs) = unat (b AND 0x7f) + 128 * varint_value bs"

lemma or_shifted_nat:
  assumes "(r :: nat) < 2 ^ s"
  shows "r OR (b * 2 ^ s) = r + b * 2 ^ s"
proof -
  have t: "take_bit s r = r" using assms by (simp add: take_bit_nat_eq_self_iff)
  have "r AND push_bit s b = 0"
    by (subst t [symmetric], rule bit_eqI) (auto simp: bit_simps)
  then show ?thesis
    by (simp add: disjunctive_add_eq_or push_bit_eq_mult)
qed

lemma varint_group:
  assumes "unat (r :: u64) < 2 ^ shift" and "unat (b :: u8) * 2 ^ shift < two64"
  shows "unat (r OR push_bit shift (ucast b)) = unat r + unat b * 2 ^ shift"
proof -
  have b: "unat (ucast b :: u64) = unat b"
    using unsigned_less [of b, where ?'a = nat]
    by (simp add: unsigned_ucast_eq take_bit_nat_eq_self)
  have "unat (push_bit shift (ucast b :: u64)) = unat b * 2 ^ shift"
    using assms(2) unfolding unsigned_push_bit_eq b
    by (simp add: push_bit_eq_mult take_bit_nat_eq_self two64_def)
  then show ?thesis
    using or_shifted_nat [OF assms(1)] by (simp only: unsigned_or_eq)
qed

lemma byte_low_less: "unat ((b :: u8) AND 0x7f) < 128"
  by (simp add: mask7 unsigned_take_bit_eq take_bit_eq_mask [symmetric] take_bit_nat_def)

lemma last_byte_low: "(b :: u8) AND 0x7e = 0 \<Longrightarrow> unat (b AND 0x7f) \<le> 1"
proof -
  assume "b AND 0x7e = 0"
  moreover have "(0x7f :: u8) = 0x7e OR 1" by simp
  ultimately have "b AND 0x7f = b AND 1"
    by (simp only: bit.conj_disj_distrib) simp
  then show ?thesis by (simp add: and_one_eq mod_2_eq_odd)
qed

lemma varint_group_fits:
  assumes "shift mod 7 = 0" "\<not> (shift \<ge> 64 \<or> (shift = 63 \<and> (b :: u8) AND 0x7e \<noteq> 0))"
  shows "unat (b AND 0x7f) * 2 ^ shift < two64"
proof (cases "shift = 63")
  case True
  then show ?thesis using assms(2) last_byte_low [of b] by (simp add: two64_def)
next
  case False
  with assms have "shift < 63" "shift mod 7 = 0" by auto
  then have "shift \<le> 56" by presburger
  then have "(2::nat) ^ shift \<le> 2 ^ 56" by (rule power_increasing) simp
  then have "unat (b AND 0x7f) * 2 ^ shift \<le> 127 * 2 ^ 56"
    using byte_low_less [of b] by (intro mult_le_mono) auto
  then show ?thesis by (simp add: two64_def)
qed

lemma get_varint_loop_value:
  "get_varint_loop buf pos r shift = Inr (v, pos') \<Longrightarrow> unat r < 2 ^ shift \<Longrightarrow> shift mod 7 = 0 \<Longrightarrow>
   unat v = unat r + 2 ^ shift * varint_value (take (pos' - pos) (drop pos buf)) \<and>
   7 * (pos' - pos) + shift \<le> 70"
proof (induction buf pos r shift rule: get_varint_loop.induct)
  case (1 buf pos r shift)
  let ?b = "buf ! pos"
  let ?r = "r OR push_bit shift (ucast (?b AND 0x7f))"
  from "1.prems"(1) have lt: "pos < length buf"
    and ok: "\<not> (shift \<ge> 64 \<or> (shift = 63 \<and> ?b AND 0x7e \<noteq> 0))"
    by (auto simp: get_varint_loop.simps [of buf pos r shift] Let_def split: if_splits)
  have sh: "shift \<le> 63" using ok by simp
  have dr: "drop pos buf = ?b # drop (Suc pos) buf"
    using lt by (simp add: Cons_nth_drop_Suc)
  have val: "unat ?r = unat r + unat (?b AND 0x7f) * 2 ^ shift"
    using varint_group [OF "1.prems"(2) varint_group_fits [OF "1.prems"(3) ok]] .
  show ?case
  proof (cases "?b AND 0x80 = 0")
    case True
    then have "v = ?r" "pos' = pos + 1"
      using "1.prems"(1) lt ok
      by (simp_all add: get_varint_loop.simps [of buf pos r shift] Let_def)
    then show ?thesis using val sh by (simp add: dr)
  next
    case False
    have rest: "get_varint_loop buf (pos + 1) ?r (shift + 7) = Inr (v, pos')"
      using "1.prems"(1) lt ok False
      by (simp only: get_varint_loop.simps [of buf pos r shift] Let_def if_True if_False)
    have "unat ?r < 2 ^ (shift + 7)"
    proof -
      have "unat (?b AND 0x7f) * 2 ^ shift \<le> 127 * 2 ^ shift"
        using byte_low_less [of ?b] by (intro mult_le_mono1) simp
      then have "unat ?r < 2 ^ shift + 127 * 2 ^ shift" using val "1.prems"(2) by linarith
      then show ?thesis by (simp add: power_add)
    qed
    then have IH: "unat v = unat ?r + 2 ^ (shift + 7) *
          varint_value (take (pos' - (pos + 1)) (drop (pos + 1) buf))"
        "7 * (pos' - (pos + 1)) + (shift + 7) \<le> 70"
      using "1.IH" [OF lt refl ok refl False rest] "1.prems"(3) by auto
    have "pos' - pos = Suc (pos' - (pos + 1))"
      using get_varint_loop_step [OF rest] by linarith
    then show ?thesis using IH val by (simp add: dr power_add algebra_simps)
  qed
qed

lemma put_varint_length: "0 < length (put_varint v) \<and> length (put_varint v) \<le> 10"
  using get_varint_loop_value [of "put_varint v" 0 0 0 v "length (put_varint v)"]
    get_varint_put [OF reads_self, of v] get_varint_step [of "put_varint v" 0]
  by (fastforce simp: get_varint_def)


section \<open>Properties of the codec\<close>

text \<open>C21: every list of frames survives encoding into one payload and decoding it
  (\<^verbatim>\<open>decode_frames\<close> of \<^verbatim>\<open>encode_frames\<close>), whatever frame types it mixes.\<close>

theorem frames_roundtrip:
  assumes "length (encode_frames fs) < two64"
  shows "decode_frames (encode_frames fs) = Inr fs"
  using decode_frames_loop_prefix [OF reads_self assms, of "[]"]
  by (simp add: decode_frames_def)

theorem frames_roundtrip_witness:
  "decode_frames (encode_frames [Input 300 [1, 2], StreamClose 4 (- 7), Resize 80 24]) =
     Inr [Input 300 [1, 2], StreamClose 4 (- 7), Resize 80 24]"
proof -
  have "length (encode_frames [Input 300 [1, 2], StreamClose 4 (- 7), Resize 80 24]) < two64"
    using put_varint_length [of "zigzag (scast (- 7 :: u32))"]
    by (simp add: encode_frames_def put_bytes_def put_varint.simps two64_def)
  then show ?thesis by (rule frames_roundtrip)
qed

text \<open>A payload whose last frame is cut anywhere is rejected as a whole: no frame is
  made up from a truncated encoding, and the complete frames before it are not returned.\<close>

theorem truncated_payload_rejected:
  assumes "frame_encode f = got @ missing" and "got \<noteq> []" and "missing \<noteq> []"
    and "length (encode_frames fs @ frame_encode f) < two64"
  shows "\<exists>e. decode_frames (encode_frames fs @ got) = Inl e"
proof -
  let ?buf = "encode_frames fs @ got" and ?n = "length (encode_frames fs)"
  have "decode_frames ?buf = decode_frames_loop ?buf ?n fs"
    using decode_frames_loop_prefix [of ?buf 0 fs "[]"] assms(1,4) by (simp add: decode_frames_def)
  moreover have "\<exists>e. frame_decode ?buf ?n = Inl e"
  proof (rule frame_codec.truncated_at [where more = missing])
    show "reads (?buf @ missing) ?n (frame_encode f)"
      using assms(1) reads_at_end [of "encode_frames fs" "frame_encode f" "[]"] by simp
  qed (use assms in auto)
  ultimately show ?thesis
    using assms(2) by (subst (asm) decode_frames_loop.simps) auto
qed

theorem truncated_payload_rejected_witness:
  "\<exists>e. decode_frames (encode_frames [Ping 5] @ [T_INPUT, 0, 3, 9]) = Inl e"
  by (rule truncated_payload_rejected [of "Input 0 [9, 9, 9]" "[T_INPUT, 0, 3, 9]" "[9, 9]"])
    (simp_all add: put_bytes_def put_varint.simps encode_frames_def two64_def)

text \<open>Decoding is bounded by the input. On any received bytes, the decoded frames and
  the payload bytes they carry number at most the bytes received, so a peer cannot make the
  decoder allocate more than it was sent.\<close>

theorem decode_frames_bounded:
  assumes "decode_frames buf = Inr fs"
  shows "(\<Sum>f\<leftarrow>fs. Suc (length (frame_payload f))) \<le> length buf"
  using decode_frames_loop_size [OF assms [unfolded decode_frames_def]] by simp

theorem decode_frames_bounded_witness:
  "(\<Sum>f\<leftarrow>[Ping 5]. Suc (length (frame_payload f))) \<le> length (encode_frames [Ping 5])"
  by (rule decode_frames_bounded, rule trans [OF _ refl])
    (simp add: encode_frames_def put_varint.simps decode_frames_def tag_defs
      decode_frames_loop.simps frame_decode_def get_u8_def get_varint_def get_varint_loop.simps)

text \<open>\<^verbatim>\<open>get_varint\<close> never loses bits. Whatever bytes it accepts, the result is the number
  their seven-bit groups denote (so an over-long number is an error, not a truncation), and it
  reads between one and ten bytes, all inside the buffer.\<close>

theorem get_varint_exact:
  assumes "get_varint buf pos = Inr (v, pos')"
  shows "unat v = varint_value (take (pos' - pos) (drop pos buf)) \<and>
    pos < pos' \<and> pos' \<le> pos + 10 \<and> pos' \<le> length buf"
  using get_varint_loop_value [OF assms [unfolded get_varint_def]] get_varint_step [OF assms]
  by auto

theorem get_varint_exact_witness:
  "unat (300 :: u64) = varint_value (take (3 - 1) (drop 1 [7, 0xac, 2])) \<and>
    (1::nat) < 3 \<and> (3::nat) \<le> 1 + 10 \<and> 3 \<le> length [7 :: u8, 0xac, 2]"
  by (rule get_varint_exact) (simp add: get_varint_def get_varint_loop.simps)

end
