(* ===== verification/Input.thy ===== *)
theory Input
  imports Wire
begin

text \<open>
  The reliable keystroke channel, \<^verbatim>\<open>crates/transport/src/input.rs\<close>: a sender that
  retransmits its unacknowledged suffix and a receiver that rebuilds the stream in order.
  The two ends and a network that loses, duplicates and reorders both frames and
  acknowledgements form a step relation. The locale \<open>inorder_receiver\<close> states what any
  receiver of this kind promises; the stream reassembler is its second instance.
\<close>

section \<open>Sender\<close>

record input_sender =
  ibuffer :: bytes
  ibase :: nat

definition input_sender_new :: input_sender where
  "input_sender_new = \<lparr>ibuffer = [], ibase = 0\<rparr>"

definition input_push :: "bytes \<Rightarrow> input_sender \<Rightarrow> input_sender" where
  "input_push data s = s\<lparr>ibuffer := ibuffer s @ data\<rparr>"

definition input_pending :: "input_sender \<Rightarrow> frame option" where
  "input_pending s =
     (if ibuffer s = [] then None else Some (Input (of_nat (ibase s)) (ibuffer s)))"

definition input_total :: "input_sender \<Rightarrow> nat" where
  "input_total s = wrap64 (ibase s + length (ibuffer s))"

definition input_on_ack :: "nat \<Rightarrow> input_sender \<Rightarrow> input_sender" where
  "input_on_ack sq s =
     (let total = input_total s;
          new_base = min sq total
      in if new_base > ibase s then
           s\<lparr>ibuffer := drop (new_base - ibase s) (ibuffer s), ibase := new_base\<rparr>
         else s)"


section \<open>Receiver\<close>

record input_receiver =
  received :: nat

definition input_receiver_new :: input_receiver where
  "input_receiver_new = \<lparr>received = 0\<rparr>"

definition input_ingest :: "nat \<Rightarrow> bytes \<Rightarrow> input_receiver \<Rightarrow> bytes \<times> input_receiver" where
  "input_ingest offset data r =
     (let end = wrap64 (offset + length data)
      in if end \<le> received r then ([], r)
         else if offset > received r then ([], r)
         else let skip = received r - offset
              in (drop skip data, r\<lparr>received := end\<rparr>))"

definition input_ack :: "input_receiver \<Rightarrow> nat" where
  "input_ack r = received r"


section \<open>In-order receivers\<close>

text \<open>\<open>segment src off d\<close>: \<open>d\<close> is what \<open>src\<close> holds from \<open>off\<close> on.\<close>

definition segment :: "'a list \<Rightarrow> nat \<Rightarrow> 'a list \<Rightarrow> bool" where
  "segment src off d \<longleftrightarrow> off + length d \<le> length src \<and> take (length d) (drop off src) = d"

lemma segment_extend: "segment src off d \<Longrightarrow> segment (src @ ys) off d"
  by (auto simp: segment_def)

lemma segment_suffix: "b \<le> length src \<Longrightarrow> segment src b (drop b src)"
  by (simp add: segment_def)

lemma segment_take: "b \<le> length src \<Longrightarrow> segment src b (take n (drop b src))"
  by (auto simp: segment_def min_def)

lemma segment_drop: "segment src off d \<Longrightarrow> k \<le> length d \<Longrightarrow> segment src (off + k) (drop k d)"
  unfolding segment_def
  by (metis add.assoc add.commute drop_drop drop_take le_add_diff_inverse length_drop)

lemma segment_nth: "segment src off d \<Longrightarrow> i < length d \<Longrightarrow> src ! (off + i) = d ! i"
  unfolding segment_def
  by (metis add_leD1 nth_drop nth_take)

lemma take_append_segment:
  "segment src n d \<Longrightarrow> take (n + length d) src = take n src @ d"
  by (simp add: segment_def take_add)

text \<open>A receiver is given pieces of one byte source, in any order and any number of times;
  \<open>agrees r src\<close> says that what it buffers comes from \<open>src\<close>.\<close>

locale inorder_receiver =
  fixes fresh :: 'r
    and deliver :: "nat \<Rightarrow> 'b list \<Rightarrow> 'r \<Rightarrow> 'b list \<times> 'r"
    and position :: "'r \<Rightarrow> nat"
    and agrees :: "'r \<Rightarrow> 'b list \<Rightarrow> bool"
    and fits :: "'b list \<Rightarrow> bool"
  assumes fresh_agrees: "agrees fresh src"
    and fresh_position: "position fresh = 0"
    and deliver_agrees: "fits src \<Longrightarrow> agrees r src \<Longrightarrow> segment src off d \<Longrightarrow> position r \<le> length src \<Longrightarrow>
      agrees (snd (deliver off d r)) src"
    and deliver_segment: "fits src \<Longrightarrow> agrees r src \<Longrightarrow> segment src off d \<Longrightarrow> position r \<le> length src \<Longrightarrow>
      segment src (position r) (fst (deliver off d r))"
    and deliver_position: "fits src \<Longrightarrow> agrees r src \<Longrightarrow> segment src off d \<Longrightarrow> position r \<le> length src \<Longrightarrow>
      position (snd (deliver off d r)) = position r + length (fst (deliver off d r))"
begin

primrec run :: "(nat \<times> 'b list) list \<Rightarrow> 'r \<Rightarrow> 'b list \<times> 'r" where
  "run [] r = ([], r)"
| "run (p # ps) r =
     (case deliver (fst p) (snd p) r of (out, r') \<Rightarrow>
        (case run ps r' of (outs, r'') \<Rightarrow> (out @ outs, r'')))"

lemma deliver_take:
  assumes "fits src" "agrees r src" "segment src off d" "position r \<le> length src"
  shows "take (position (snd (deliver off d r))) src = take (position r) src @ fst (deliver off d r)"
  using deliver_segment [OF assms] deliver_position [OF assms] take_append_segment by metis

lemma deliver_le:
  assumes "fits src" "agrees r src" "segment src off d" "position r \<le> length src"
  shows "position (snd (deliver off d r)) \<le> length src"
  using deliver_segment [OF assms] deliver_position [OF assms] by (simp add: segment_def)

lemma run_prefix:
  assumes "fits src" "\<forall>p \<in> set ps. segment src (fst p) (snd p)" "agrees r src" "position r \<le> length src"
  shows "take (position r) src @ fst (run ps r) = take (position (snd (run ps r))) src \<and>
    position (snd (run ps r)) \<le> length src"
  using assms(2-)
proof (induction ps arbitrary: r)
  case Nil
  then show ?case by simp
next
  case (Cons p ps)
  let ?q = "deliver (fst p) (snd p) r"
  have seg: "segment src (fst p) (snd p)" using Cons.prems(1) by simp
  note facts = assms(1) Cons.prems(2) seg Cons.prems(3)
  have "take (position (snd ?q)) src @ fst (run ps (snd ?q)) = take (position (snd (run ps (snd ?q)))) src \<and>
      position (snd (run ps (snd ?q))) \<le> length src"
    using Cons.IH [OF _ deliver_agrees [OF facts] deliver_le [OF facts]] Cons.prems(1) by simp
  then show ?case
    using deliver_take [OF facts] by (simp add: case_prod_unfold)
qed

lemma run_fresh_prefix:
  assumes "fits src" "\<forall>p \<in> set ps. segment src (fst p) (snd p)"
  shows "fst (run ps fresh) = take (position (snd (run ps fresh))) src"
  using run_prefix [OF assms fresh_agrees] by (simp add: fresh_position)

end

lemma input_ingest_new:
  assumes "length src < two64" "segment src off d" "received r \<le> length src"
  shows "segment src (received r) (fst (input_ingest off d r))"
    and "received (snd (input_ingest off d r)) = received r + length (fst (input_ingest off d r))"
proof -
  have "off + length d < two64" using assms by (simp add: segment_def)
  moreover have "segment src (received r) (drop (received r - off) d)"
    if "off \<le> received r" "received r < off + length d"
    using segment_drop [OF assms(2), of "received r - off"] that by simp
  ultimately show "segment src (received r) (fst (input_ingest off d r))"
    and "received (snd (input_ingest off d r)) = received r + length (fst (input_ingest off d r))"
    using assms(3) by (auto simp: input_ingest_def Let_def segment_def)
qed

interpretation keys: inorder_receiver input_receiver_new input_ingest received
  "\<lambda>_ _. True" "\<lambda>src. length src < two64"
  by unfold_locales (simp_all add: input_ingest_new input_receiver_new_def)


section \<open>Both ends over a lossy network\<close>

text \<open>
  \<open>typed\<close> and \<open>delivered\<close> are histories. \<open>net\<close> holds every frame ever sent and \<open>acks\<close>
  every acknowledgement ever sent: the network may hand over any of them at any time, any
  number of times, or never, which covers loss, duplication and reordering. The one bound is
  that fewer than $2^{64}$ bytes are typed in a session.
\<close>

record input_net =
  tx :: input_sender
  rx :: input_receiver
  typed :: bytes
  delivered :: bytes
  net :: "frame set"
  acks :: "nat set"

definition input_net_new :: input_net where
  "input_net_new = \<lparr>tx = input_sender_new, rx = input_receiver_new, typed = [], delivered = [],
     net = {}, acks = {}\<rparr>"

definition net_deliver :: "u64 \<Rightarrow> bytes \<Rightarrow> input_net \<Rightarrow> input_net" where
  "net_deliver off d n =
     (case input_ingest (unat off) d (rx n) of (out, r) \<Rightarrow>
        n\<lparr>rx := r, delivered := delivered n @ out, acks := insert (input_ack r) (acks n)\<rparr>)"

inductive input_step :: "input_net \<Rightarrow> input_net \<Rightarrow> bool" where
  keystrokes: "length (typed n) + length d < two64 \<Longrightarrow>
     input_step n (n\<lparr>tx := input_push d (tx n), typed := typed n @ d\<rparr>)"
| transmit: "input_pending (tx n) = Some f \<Longrightarrow> input_step n (n\<lparr>net := insert f (net n)\<rparr>)"
| arrive: "Input off d \<in> net n \<Longrightarrow> input_step n (net_deliver off d n)"
| acknowledge: "a \<in> acks n \<Longrightarrow> input_step n (n\<lparr>tx := input_on_ack a (tx n)\<rparr>)"

inductive_cases input_stepE: "input_step n n'"

definition input_reachable :: "input_net \<Rightarrow> bool" where
  "input_reachable n \<longleftrightarrow> input_step\<^sup>*\<^sup>* input_net_new n"

definition input_inv :: "input_net \<Rightarrow> bool" where
  "input_inv n \<longleftrightarrow>
     length (typed n) < two64 \<and>
     delivered n = take (received (rx n)) (typed n) \<and>
     ibuffer (tx n) = drop (ibase (tx n)) (typed n) \<and>
     ibase (tx n) \<le> received (rx n) \<and> received (rx n) \<le> length (typed n) \<and>
     (\<forall>a \<in> acks n. a \<le> received (rx n)) \<and>
     (\<forall>f \<in> net n. \<exists>off d. f = Input off d \<and> segment (typed n) (unat off) d)"

lemma input_inv_new: "input_inv input_net_new"
  by (simp add: input_inv_def input_net_new_def input_sender_new_def input_receiver_new_def two64_def)

lemma input_total_inv: "input_inv n \<Longrightarrow> input_total (tx n) = length (typed n)"
  by (auto simp: input_inv_def input_total_def)

lemma input_inv_pending:
  assumes "input_inv n" "input_pending (tx n) = Some f"
  shows "\<exists>off d. f = Input off d \<and> segment (typed n) (unat off) d"
  using assms segment_suffix [of "ibase (tx n)" "typed n"]
  by (auto simp: input_inv_def input_pending_def split: if_splits)

lemma input_inv_arrive:
  assumes "input_inv n" "segment (typed n) (unat off) d"
  shows "input_inv (net_deliver off d n)"
proof -
  have lim: "length (typed n) < two64" "received (rx n) \<le> length (typed n)"
    using assms(1) by (auto simp: input_inv_def)
  note facts = keys.deliver_take [OF lim(1) TrueI assms(2) lim(2)]
    keys.deliver_le [OF lim(1) TrueI assms(2) lim(2)]
    keys.deliver_position [OF lim(1) TrueI assms(2) lim(2)]
  show ?thesis
    using assms(1) facts unfolding input_inv_def net_deliver_def
    by (auto simp: case_prod_unfold input_ack_def)
qed

lemma input_inv_ack:
  assumes "input_inv n" "a \<in> acks n"
  shows "input_inv (n\<lparr>tx := input_on_ack a (tx n)\<rparr>)"
  using assms input_total_inv [OF assms(1)]
  by (auto simp: input_inv_def input_on_ack_def Let_def add.commute)

lemma input_inv_type:
  assumes "input_inv n" "length (typed n) + length d < two64"
  shows "input_inv (n\<lparr>tx := input_push d (tx n), typed := typed n @ d\<rparr>)"
  using assms by (fastforce simp: input_inv_def input_push_def intro: segment_extend)

lemma input_inv_step: "input_step n n' \<Longrightarrow> input_inv n \<Longrightarrow> input_inv n'"
proof (induction rule: input_step.induct)
  case (transmit n f)
  then show ?case using input_inv_pending [OF transmit(2,1)] by (simp add: input_inv_def)
next
  case (arrive off d n)
  then show ?case by (intro input_inv_arrive) (auto simp: input_inv_def)
qed (simp_all add: input_inv_ack input_inv_type)

lemma input_inv_reachable: "input_reachable n \<Longrightarrow> input_inv n"
  unfolding input_reachable_def
  by (induction rule: rtranclp_induct) (auto intro: input_inv_new input_inv_step)


section \<open>Properties of the channel\<close>

text \<open>A concrete session: two bytes typed, sent, and delivered twice.\<close>

definition input_demo :: input_net where
  "input_demo = net_deliver 0 [65, 66] (net_deliver 0 [65, 66]
     (input_net_new\<lparr>tx := input_push [65, 66] input_sender_new, typed := [65, 66],
        net := {Input 0 [65, 66]}\<rparr>))"

lemma input_demo_reachable: "input_reachable input_demo"
proof -
  let ?a = "input_net_new\<lparr>tx := input_push [65, 66] input_sender_new, typed := [65, 66]\<rparr>"
  let ?b = "?a\<lparr>net := {Input 0 [65, 66]}\<rparr>"
  have "input_step input_net_new ?a"
    using keystrokes [of input_net_new "[65, 66]"] by (simp add: input_net_new_def two64_def)
  moreover have "input_step ?a ?b"
    using transmit [of ?a "Input 0 [65, 66]"]
    by (simp add: input_net_new_def input_pending_def input_push_def input_sender_new_def)
  moreover have "input_step ?b (net_deliver 0 [65, 66] ?b)"
    by (rule arrive) simp
  moreover have "input_step (net_deliver 0 [65, 66] ?b) input_demo"
    unfolding input_demo_def
    by (rule arrive [of _ _ "net_deliver 0 [65, 66] ?b", simplified]) (simp add: net_deliver_def case_prod_unfold)
  ultimately show ?thesis
    unfolding input_reachable_def by (meson rtranclp.rtrancl_into_rtrancl rtranclp.rtrancl_refl)
qed

text \<open>C18: whatever the network loses, repeats or reorders, the bytes handed to the shell are
  exactly a prefix of the bytes typed, with nothing lost, repeated or swapped; the sender
  drops only bytes that were delivered and still holds all the others.\<close>

theorem input_stream_exact:
  assumes "input_reachable n"
  shows "delivered n = take (length (delivered n)) (typed n) \<and>
    ibase (tx n) \<le> length (delivered n) \<and> ibuffer (tx n) = drop (ibase (tx n)) (typed n)"
  using input_inv_reachable [OF assms] by (auto simp: input_inv_def min_def)

theorem input_stream_exact_witness:
  "delivered input_demo = take (length (delivered input_demo)) (typed input_demo) \<and>
    ibase (tx input_demo) \<le> length (delivered input_demo) \<and>
    ibuffer (tx input_demo) = drop (ibase (tx input_demo)) (typed input_demo)"
  by (rule input_stream_exact [OF input_demo_reachable])

lemma input_pending_catches_up:
  assumes inv: "input_inv n" and pend: "input_pending (tx n) = Some (Input off d)"
  shows "delivered (net_deliver off d n) = typed n"
    and "input_ack (rx (net_deliver off d n)) = length (typed n)"
proof -
  have d: "unat off = ibase (tx n)" "d = drop (ibase (tx n)) (typed n)"
    using inv pend by (auto simp: input_inv_def input_pending_def split: if_splits)
  have "ibase (tx n) + length d = length (typed n)"
    using inv d by (auto simp: input_inv_def)
  then show "delivered (net_deliver off d n) = typed n"
    and "input_ack (rx (net_deliver off d n)) = length (typed n)"
    using inv d
    by (auto simp: input_inv_def net_deliver_def input_ingest_def input_ack_def Let_def
        case_prod_unfold)
qed

text \<open>The channel never gets stuck. From every reachable state, one round in which the
  pending frame and the acknowledgement of it get through delivers everything typed and
  leaves nothing to retransmit.\<close>

theorem input_one_exchange_completes:
  assumes "input_reachable n"
  shows "\<exists>n'. input_step\<^sup>*\<^sup>* n n' \<and> typed n' = typed n \<and> delivered n' = typed n \<and>
    input_pending (tx n') = None"
proof (cases "input_pending (tx n)")
  case None
  then show ?thesis
    using input_inv_reachable [OF assms]
    by (intro exI [of _ n]) (auto simp: input_inv_def input_pending_def split: if_splits)
next
  case (Some f)
  have inv: "input_inv n" by (rule input_inv_reachable [OF assms])
  obtain off d where f: "f = Input off d" using Some input_inv_pending [OF inv] by blast
  let ?s = "n\<lparr>net := insert f (net n)\<rparr>"
  let ?r = "net_deliver off d ?s"
  let ?e = "?r\<lparr>tx := input_on_ack (input_ack (rx ?r)) (tx ?r)\<rparr>"
  have s: "input_step n ?s" using Some by (rule transmit)
  have r: "input_step ?s ?r" by (rule arrive) (simp add: f)
  have e: "input_step ?r ?e"
    by (rule acknowledge) (simp add: net_deliver_def case_prod_unfold)
  have invs: "input_inv ?s" using input_inv_step [OF s inv] .
  have up: "delivered ?r = typed n" "input_ack (rx ?r) = length (typed n)"
    using input_pending_catches_up [OF invs, of off d] Some f by simp_all
  have tx: "tx ?r = tx n" "typed ?r = typed n" "delivered ?e = delivered ?r"
    by (simp_all add: net_deliver_def case_prod_unfold)
  have "ibuffer (tx ?e) = []"
    using inv up(2) input_total_inv [OF inv]
    by (auto simp: tx input_inv_def input_on_ack_def Let_def)
  then have "typed ?e = typed n \<and> delivered ?e = typed n \<and> input_pending (tx ?e) = None"
    using up tx by (simp add: input_pending_def)
  moreover have "input_step\<^sup>*\<^sup>* n ?e" using s r e by auto
  ultimately show ?thesis by blast
qed

theorem input_one_exchange_completes_witness:
  "\<exists>n'. input_step\<^sup>*\<^sup>* input_demo n' \<and> typed n' = typed input_demo \<and>
    delivered n' = typed input_demo \<and> input_pending (tx n') = None"
  by (rule input_one_exchange_completes [OF input_demo_reachable])

end
