(* ===== verification/Reassembly.thy ===== *)
theory Reassembly
  imports Input
begin

text \<open>
  The out-of-order reassembly buffer of a stream, \<^verbatim>\<open>Reassembler\<close> in
  \<^verbatim>\<open>crates/transport/src/stream.rs\<close>: coalesced segments in a \<^verbatim>\<open>BTreeMap\<close> keyed by start
  offset. Its specification is the partial map from absolute offsets to received bytes.
  Offsets are natural numbers: the only caller has checked that \<open>offset + len\<close> fits in 64
  bits, and \<open>reasm_insert_bound\<close> keeps every segment end below any such bound.
\<close>

section \<open>The buffer\<close>

type_synonym segments = "(nat, bytes) btree"

record reassembler =
  rdelivered :: nat
  segs :: segments

definition reassembler_new :: reassembler where
  "reassembler_new = \<lparr>rdelivered = 0, segs = bt_empty\<rparr>"

definition seg_hits :: "segments \<Rightarrow> nat \<Rightarrow> nat \<Rightarrow> segments" where
  "seg_hits m offset end = filter (\<lambda>(k, v). k \<le> end \<and> k + length v \<ge> offset) m"

definition reasm_merge :: "nat \<Rightarrow> bytes \<Rightarrow> segments \<Rightarrow> segments" where
  "reasm_merge offset data m =
     (let end = offset + length data;
          hits = seg_hits m offset end;
          start = fold (\<lambda>(k, v) s. min s k) hits offset;
          merged_end = fold (\<lambda>(k, v) e. max e (k + length v)) hits end;
          buf = fold (\<lambda>(k, v) b. copy_slice b (k - start) v) hits (replicate (merged_end - start) 0);
          m' = fold (\<lambda>(k, v) m. bt_remove k m) hits m
      in bt_insert start (copy_slice buf (offset - start) data) m')"

definition reasm_insert :: "nat \<Rightarrow> bytes \<Rightarrow> reassembler \<Rightarrow> reassembler" where
  "reasm_insert offset data r =
     (if data = [] then r
      else if offset < rdelivered r then
        (let skip = rdelivered r - offset
         in if skip \<ge> length data then r
            else r\<lparr>segs := reasm_merge (rdelivered r) (drop skip data) (segs r)\<rparr>)
      else r\<lparr>segs := reasm_merge offset data (segs r)\<rparr>)"

definition reasm_read :: "reassembler \<Rightarrow> bytes \<times> reassembler" where
  "reasm_read r =
     (case bt_get (segs r) (rdelivered r) of
        Some seg \<Rightarrow> (seg, r\<lparr>segs := bt_remove (rdelivered r) (segs r),
                            rdelivered := rdelivered r + length seg\<rparr>)
      | None \<Rightarrow> ([], r))"

definition ack_point :: "reassembler \<Rightarrow> nat" where
  "ack_point r =
     (case bt_get (segs r) (rdelivered r) of
        Some seg \<Rightarrow> rdelivered r + length seg
      | None \<Rightarrow> rdelivered r)"

definition unread :: "reassembler \<Rightarrow> nat" where
  "unread r = ack_point r - rdelivered r"


section \<open>Specification\<close>

fun seg_byte :: "segments \<Rightarrow> nat \<Rightarrow> u8 option" where
  "seg_byte [] i = None"
| "seg_byte ((k, v) # m) i =
     (if k \<le> i \<and> i < k + length v then Some (v ! (i - k)) else seg_byte m i)"

text \<open>Segments are non-empty, not yet delivered, disjoint and not adjacent (coalesced).\<close>

definition seg_ok :: "nat \<Rightarrow> segments \<Rightarrow> bool" where
  "seg_ok d m \<longleftrightarrow> bt_ok m \<and> (\<forall>(k, v) \<in> set m. v \<noteq> [] \<and> d \<le> k) \<and>
     (\<forall>(k, v) \<in> set m. \<forall>(k', v') \<in> set m. k < k' \<longrightarrow> k + length v < k')"

definition reasm_ok :: "reassembler \<Rightarrow> bool" where
  "reasm_ok r \<longleftrightarrow> seg_ok (rdelivered r) (segs r)"

definition held :: "segments \<Rightarrow> nat \<Rightarrow> u8 \<Rightarrow> bool" where
  "held m i b \<longleftrightarrow> (\<exists>k v. (k, v) \<in> set m \<and> k \<le> i \<and> i < k + length v \<and> v ! (i - k) = b)"

lemma seg_okD:
  assumes "seg_ok d m"
  shows "bt_ok m"
    and "(k, v) \<in> set m \<Longrightarrow> v \<noteq> [] \<and> d \<le> k"
    and "(k, v) \<in> set m \<Longrightarrow> (k', v') \<in> set m \<Longrightarrow> k < k' \<Longrightarrow> k + length v < k'"
  using assms by (auto simp: seg_ok_def)

lemma seg_ok_disjoint:
  assumes "seg_ok d m" "(k, v) \<in> set m" "(k', v') \<in> set m"
    and "k \<le> i" "i < k + length v" "k' \<le> i" "i < k' + length v'"
  shows "k = k' \<and> v = v'"
proof -
  have "k = k'"
    using seg_okD(3) [OF assms(1,2,3)] seg_okD(3) [OF assms(1,3,2)] assms(4-)
    by (cases k k' rule: linorder_cases) auto
  moreover have "bt_get m k = Some v" "bt_get m k' = Some v'"
    using assms(2,3) seg_okD(1) [OF assms(1)] by (simp_all add: bt_get_iff)
  ultimately show ?thesis by simp
qed

lemma held_cong: "set m = set m' \<Longrightarrow> held m i b = held m' i b"
  by (simp add: held_def)

lemma held_segI: "(k, v) \<in> set m \<Longrightarrow> j < length v \<Longrightarrow> held m (k + j) (v ! j)"
  unfolding held_def by (intro exI [of _ k] exI [of _ v]) simp

lemma held_Nil [simp]: "\<not> held [] i b"
  by (simp add: held_def)

lemma held_Cons [simp]:
  "held ((k, v) # m) i b \<longleftrightarrow> (k \<le> i \<and> i < k + length v \<and> v ! (i - k) = b) \<or> held m i b"
  by (auto simp: held_def)

lemma seg_byte_held: "seg_byte m i = Some b \<Longrightarrow> held m i b"
  by (induction m i rule: seg_byte.induct) (auto split: if_splits)

lemma held_seg_byte: "held m i b \<Longrightarrow> \<exists>c. seg_byte m i = Some c"
  by (induction m i rule: seg_byte.induct) auto

lemma held_unique: "seg_ok d m \<Longrightarrow> held m i b \<Longrightarrow> held m i c \<Longrightarrow> b = c"
  unfolding held_def using seg_ok_disjoint by blast

lemma seg_byte_iff: "seg_ok d m \<Longrightarrow> seg_byte m i = Some b \<longleftrightarrow> held m i b"
  by (metis seg_byte_held held_seg_byte held_unique)

lemma seg_byte_eqI:
  assumes "seg_ok d m" and "\<And>b. held m i b \<longleftrightarrow> f i = Some b"
  shows "seg_byte m i = f i"
  using assms by (metis not_None_eq seg_byte_iff)



section \<open>Merging\<close>

lemma bt_remove_filter: "bt_ok m \<Longrightarrow> bt_remove k m = filter (\<lambda>p. fst p \<noteq> k) m"
proof (induction m)
  case (Cons p m)
  then have "filter (\<lambda>q. fst q \<noteq> fst p) m = m"
    by (cases p) (auto simp: filter_id_conv)
  with Cons show ?case by (cases p) auto
qed simp

lemma set_bt_insert_ok: "bt_ok m \<Longrightarrow> set (bt_insert k v m) = insert (k, v) {p \<in> set m. fst p \<noteq> k}"
  by (rule set_eqI) (auto simp: bt_get_iff [symmetric] split: if_splits)

lemma fold_remove_filter:
  "bt_ok m \<Longrightarrow> fold (\<lambda>(k, v) m. bt_remove k m) hits m = filter (\<lambda>p. fst p \<notin> fst ` set hits) m"
proof (induction hits arbitrary: m)
  case (Cons h hits)
  obtain k v where h: "h = (k, v)" by (cases h)
  have "fold (\<lambda>(k, v) m. bt_remove k m) (h # hits) m =
      filter (\<lambda>p. fst p \<notin> fst ` set hits) (filter (\<lambda>p. fst p \<noteq> k) m)"
    using Cons by (simp add: h bt_remove_filter)
  also have "\<dots> = filter (\<lambda>p. fst p \<notin> fst ` set (h # hits)) m"
    by (simp add: h conj_commute)
  finally show ?case .
qed simp

lemma removed_segments:
  assumes "bt_ok m"
  shows "set (fold (\<lambda>(k, v) m. bt_remove k m) (seg_hits m a b) m) =
    {(k, v) \<in> set m. \<not> (k \<le> b \<and> a \<le> k + length v)}"
proof -
  have uniq: "w = v" if "(k, v) \<in> set m" "(k, w) \<in> set m" for k v w
    using that assms by (metis bt_get_iff option.inject)
  have "k \<in> fst ` set (seg_hits m a b) \<longleftrightarrow> k \<le> b \<and> a \<le> k + length v" if "(k, v) \<in> set m" for k v
  proof
    assume "k \<in> fst ` set (seg_hits m a b)"
    then obtain w where "(k, w) \<in> set m" "k \<le> b" "a \<le> k + length w"
      by (auto simp: seg_hits_def)
    with uniq [OF that] show "k \<le> b \<and> a \<le> k + length v" by blast
  next
    assume "k \<le> b \<and> a \<le> k + length v"
    with that have "(k, v) \<in> set (seg_hits m a b)" by (simp add: seg_hits_def)
    then show "k \<in> fst ` set (seg_hits m a b)" by (metis fst_conv imageI)
  qed
  then show ?thesis
    unfolding fold_remove_filter [OF assms] by (simp add: set_eq_iff cong: conj_cong)
qed

lemma fold_min_le0: "fold (\<lambda>(k, v) s. min s k) hits a \<le> (a :: nat)"
  by (induction hits arbitrary: a) (auto, meson dual_order.trans min.cobounded1)

lemma fold_min_le:
  "(k, v) \<in> set hits \<Longrightarrow> fold (\<lambda>(k, v) s. min s k) hits a \<le> (k :: nat)"
  by (induction hits arbitrary: a) (auto intro: order_trans [OF fold_min_le0 min.cobounded2])

lemma fold_min_in:
  "fold (\<lambda>(k, v) s. min s k) hits a = (a :: nat) \<or> fold (\<lambda>(k, v) s. min s k) hits a \<in> fst ` set hits"
  by (induction hits arbitrary: a) (force simp: min_def split: if_splits)+

lemma fold_max_ge0: "(a :: nat) \<le> fold (\<lambda>(k, v) e. max e (k + length v)) hits a"
  by (induction hits arbitrary: a) (auto, meson dual_order.trans max.cobounded1)

lemma fold_max_ge:
  "(k, v) \<in> set hits \<Longrightarrow> k + length v \<le> fold (\<lambda>(k, v) e. max e (k + length v)) hits a"
  by (induction hits arbitrary: a) (auto intro: order_trans [OF max.cobounded2 fold_max_ge0])

lemma fold_max_in:
  "fold (\<lambda>(k, v) e. max e (k + length v)) hits a = (a :: nat) \<or>
   (\<exists>(k, v) \<in> set hits. fold (\<lambda>(k, v) e. max e (k + length v)) hits a = k + length v)"
  by (induction hits arbitrary: a) (force simp: max_def split: if_splits)+

text \<open>Writing disjoint pieces into a buffer.\<close>

lemma fold_copy_slice_length:
  "\<forall>(k, v) \<in> set hits. start \<le> k \<and> k - start + length v \<le> length b \<Longrightarrow>
   length (fold (\<lambda>(k, v) b. copy_slice b (k - start) v) hits b) = length b"
  by (induction hits arbitrary: b) auto

lemma fold_copy_slice_other:
  "\<forall>(k, v) \<in> set hits. start \<le> k \<and> k - start + length v \<le> length b \<Longrightarrow> j < length b \<Longrightarrow>
   \<forall>(k, v) \<in> set hits. \<not> (k - start \<le> j \<and> j < k - start + length v) \<Longrightarrow>
   fold (\<lambda>(k, v) b. copy_slice b (k - start) v) hits b ! j = b ! j"
  by (induction hits arbitrary: b) (auto simp: nth_copy_slice)

lemma fold_copy_slice_hit:
  assumes "\<forall>(k, v) \<in> set hits. start \<le> k \<and> k - start + length v \<le> length b"
    and "(k, v) \<in> set hits" "k \<le> i" "i < k + length v"
    and "\<forall>(k', v') \<in> set hits. k' \<le> i \<and> i < k' + length v' \<longrightarrow> k' = k \<and> v' = v"
  shows "fold (\<lambda>(k, v) b. copy_slice b (k - start) v) hits b ! (i - start) = v ! (i - k)"
  using assms
proof (induction hits arbitrary: b)
  case (Cons h hits)
  obtain kh vh where h: "h = (kh, vh)" by (cases h)
  let ?b = "copy_slice b (kh - start) vh"
  have fits: "start \<le> kh" "kh - start + length vh \<le> length b" "length ?b = length b"
    using Cons.prems(1) h by auto
  have rest: "\<forall>(k, v) \<in> set hits. start \<le> k \<and> k - start + length v \<le> length ?b"
    using Cons.prems(1) fits by simp
  show ?case
  proof (cases "(k, v) \<in> set hits")
    case True
    then show ?thesis
      using Cons.IH [OF rest True Cons.prems(3,4)] Cons.prems(5) by (simp add: h)
  next
    case False
    with Cons.prems(2) h have e: "kh = k" "vh = v" by auto
    have "\<forall>(k', v') \<in> set hits. \<not> (k' - start \<le> i - start \<and> i - start < k' - start + length v')"
      using Cons.prems(1,3,5) False fits e by fastforce
    then have "fold (\<lambda>(k, v) b. copy_slice b (k - start) v) hits ?b ! (i - start) = ?b ! (i - start)"
      using fold_copy_slice_other [OF rest, of "i - start"] fits Cons.prems(3,4) e by simp
    also have "\<dots> = v ! (i - k)"
      using fits Cons.prems(3,4) e by (subst nth_copy_slice) auto
    finally show ?thesis by (simp add: h)
  qed
qed simp

text \<open>The merged segment, and what the buffer holds afterwards.\<close>

definition merge_start :: "nat \<Rightarrow> bytes \<Rightarrow> segments \<Rightarrow> nat" where
  "merge_start offset data m =
     fold (\<lambda>(k, v) s. min s k) (seg_hits m offset (offset + length data)) offset"

definition merge_end :: "nat \<Rightarrow> bytes \<Rightarrow> segments \<Rightarrow> nat" where
  "merge_end offset data m =
     fold (\<lambda>(k, v) e. max e (k + length v)) (seg_hits m offset (offset + length data)) (offset + length data)"

definition merge_buf :: "nat \<Rightarrow> bytes \<Rightarrow> segments \<Rightarrow> bytes" where
  "merge_buf offset data m =
     (let start = merge_start offset data m
      in copy_slice (fold (\<lambda>(k, v) b. copy_slice b (k - start) v) (seg_hits m offset (offset + length data))
           (replicate (merge_end offset data m - start) 0)) (offset - start) data)"

lemma reasm_merge_alt:
  "reasm_merge offset data m = bt_insert (merge_start offset data m) (merge_buf offset data m)
     (fold (\<lambda>(k, v) m. bt_remove k m) (seg_hits m offset (offset + length data)) m)"
  by (simp add: reasm_merge_def merge_start_def merge_end_def merge_buf_def Let_def)

lemma merge_bounds:
  "merge_start offset data m \<le> offset" "offset + length data \<le> merge_end offset data m"
  "(k, v) \<in> set (seg_hits m offset (offset + length data)) \<Longrightarrow>
     merge_start offset data m \<le> k \<and> k + length v \<le> merge_end offset data m"
  unfolding merge_start_def merge_end_def
  by (auto simp: fold_min_le0 fold_max_ge0 intro: fold_min_le fold_max_ge)

lemma merge_hits_fit:
  "\<forall>(k, v) \<in> set (seg_hits m offset (offset + length data)).
     merge_start offset data m \<le> k \<and>
     k - merge_start offset data m + length v \<le>
       length (replicate (merge_end offset data m - merge_start offset data m) (0 :: u8))"
  using merge_bounds(3) by fastforce

definition merge_base :: "nat \<Rightarrow> bytes \<Rightarrow> segments \<Rightarrow> bytes" where
  "merge_base offset data m =
     fold (\<lambda>(k, v) b. copy_slice b (k - merge_start offset data m) v)
       (seg_hits m offset (offset + length data))
       (replicate (merge_end offset data m - merge_start offset data m) 0)"

lemma merge_buf_alt:
  "merge_buf offset data m = copy_slice (merge_base offset data m) (offset - merge_start offset data m) data"
  by (simp add: merge_buf_def merge_base_def Let_def)

lemma length_merge_base:
  "length (merge_base offset data m) = merge_end offset data m - merge_start offset data m"
  using fold_copy_slice_length [OF merge_hits_fit [of m offset data]] by (simp add: merge_base_def)

lemma merge_data_fits:
  "offset - merge_start offset data m + length data \<le> length (merge_base offset data m)"
  using merge_bounds(1,2) [of offset data m] by (simp add: length_merge_base)

lemma length_merge_buf:
  "length (merge_buf offset data m) = merge_end offset data m - merge_start offset data m"
  using merge_data_fits [of offset data m] by (simp add: merge_buf_alt length_merge_base)

lemma merge_buf_nth:
  assumes "merge_start offset data m \<le> i" "i < merge_end offset data m"
  shows "merge_buf offset data m ! (i - merge_start offset data m) =
    (if offset \<le> i \<and> i < offset + length data then data ! (i - offset)
     else merge_base offset data m ! (i - merge_start offset data m))"
  using assms merge_bounds(1,2) [of offset data m] merge_data_fits [of offset data m]
  unfolding merge_buf_alt by (subst nth_copy_slice) (auto simp: length_merge_base)

lemma merge_base_hit:
  assumes "seg_ok d m" "(k, v) \<in> set (seg_hits m offset (offset + length data))" "k \<le> i" "i < k + length v"
  shows "merge_base offset data m ! (i - merge_start offset data m) = v ! (i - k)"
  unfolding merge_base_def
proof (rule fold_copy_slice_hit [OF merge_hits_fit assms(2-4)])
  show "\<forall>(k', v') \<in> set (seg_hits m offset (offset + length data)).
      k' \<le> i \<and> i < k' + length v' \<longrightarrow> k' = k \<and> v' = v"
    using assms seg_ok_disjoint [OF assms(1)] by (auto simp: seg_hits_def)
qed

lemma merge_covered:
  assumes "merge_start offset data m \<le> i" "i < merge_end offset data m"
    and "\<not> (offset \<le> i \<and> i < offset + length data)"
  shows "\<exists>(k, v) \<in> set (seg_hits m offset (offset + length data)). k \<le> i \<and> i < k + length v"
proof (cases "i < offset")
  case True
  then have "merge_start offset data m \<noteq> offset" using assms(1) by simp
  then obtain k v where "(k, v) \<in> set (seg_hits m offset (offset + length data))" "k = merge_start offset data m"
    using fold_min_in [of "seg_hits m offset (offset + length data)" offset]
    by (auto simp: merge_start_def)
  with True assms(1) show ?thesis by (force simp: seg_hits_def)
next
  case False
  then have "merge_end offset data m \<noteq> offset + length data" using assms by simp
  then obtain k v where "(k, v) \<in> set (seg_hits m offset (offset + length data))"
      "merge_end offset data m = k + length v"
    using fold_max_in [of "seg_hits m offset (offset + length data)" "offset + length data"]
    by (auto simp: merge_end_def)
  with False assms show ?thesis by (force simp: seg_hits_def)
qed

lemma set_reasm_merge:
  assumes "seg_ok d m"
  shows "set (reasm_merge offset data m) =
    insert (merge_start offset data m, merge_buf offset data m)
      {(k, v) \<in> set m. \<not> (k \<le> offset + length data \<and> offset \<le> k + length v)}"
proof -
  let ?m = "fold (\<lambda>(k, v) m. bt_remove k m) (seg_hits m offset (offset + length data)) m"
  have "bt_ok ?m"
    unfolding fold_remove_filter [OF seg_okD(1) [OF assms]] using seg_okD(1) [OF assms] by simp
  moreover have "merge_start offset data m \<noteq> k"
    if "(k, v) \<in> set m" "\<not> (k \<le> offset + length data \<and> offset \<le> k + length v)" for k v
  proof
    assume "merge_start offset data m = k"
    then have "k = offset \<or> (\<exists>w. (k, w) \<in> set (seg_hits m offset (offset + length data)))"
      using fold_min_in [of "seg_hits m offset (offset + length data)" offset]
      by (force simp: merge_start_def)
    then show False
      using that seg_okD(1) [OF assms] by (auto simp: seg_hits_def) (metis bt_get_iff option.inject)+
  qed
  ultimately show ?thesis
    unfolding reasm_merge_alt
    by (subst set_bt_insert_ok) (fastforce simp: removed_segments [OF seg_okD(1) [OF assms]])+
qed

lemma merge_apart:
  assumes ok: "seg_ok d m" and kv: "(k, v) \<in> set m"
    and far: "\<not> (k \<le> offset + length data \<and> offset \<le> k + length v)"
  shows "k + length v < merge_start offset data m \<or> merge_end offset data m < k"
proof (cases "k \<le> offset + length data")
  case True
  with far have left: "k + length v < offset" by simp
  have "merge_start offset data m = offset \<or>
      (\<exists>w. (merge_start offset data m, w) \<in> set (seg_hits m offset (offset + length data)))"
    using fold_min_in [of "seg_hits m offset (offset + length data)" offset]
    by (force simp: merge_start_def)
  then show ?thesis
  proof
    assume "\<exists>w. (merge_start offset data m, w) \<in> set (seg_hits m offset (offset + length data))"
    then obtain w where w: "(merge_start offset data m, w) \<in> set m"
      "offset \<le> merge_start offset data m + length w" by (auto simp: seg_hits_def)
    have "k = merge_start offset data m \<Longrightarrow> v = w"
      using w(1) kv seg_okD(1) [OF ok] by (metis bt_get_iff option.inject)
    then show ?thesis
      using seg_okD(3) [OF ok kv w(1)] seg_okD(3) [OF ok w(1) kv] left w(2)
      by (cases k "merge_start offset data m" rule: linorder_cases) auto
  qed (use left in simp)
next
  case False
  have "merge_end offset data m = offset + length data \<or>
      (\<exists>(k', v') \<in> set (seg_hits m offset (offset + length data)). merge_end offset data m = k' + length v')"
    using fold_max_in [of "seg_hits m offset (offset + length data)" "offset + length data"]
    by (simp add: merge_end_def)
  then show ?thesis
    using seg_okD(3) [OF ok _ kv] False by (force simp: seg_hits_def)
qed

lemma seg_ok_merge:
  assumes ok: "seg_ok d m" and "d \<le> offset" "data \<noteq> []"
  shows "seg_ok d (reasm_merge offset data m)"
proof -
  let ?s = "merge_start offset data m" and ?e = "merge_end offset data m"
  have bt: "bt_ok (reasm_merge offset data m)"
    unfolding reasm_merge_alt fold_remove_filter [OF seg_okD(1) [OF ok]]
    using seg_okD(1) [OF ok] by simp
  have se: "?s \<le> offset" "offset + length data \<le> ?e" by (rule merge_bounds)+
  have len: "?s + length (merge_buf offset data m) = ?e"
    using se by (simp add: length_merge_buf)
  have "d \<le> ?s"
    using fold_min_in [of "seg_hits m offset (offset + length data)" offset] assms(2) seg_okD(2) [OF ok]
    by (force simp: merge_start_def seg_hits_def)
  moreover have "merge_buf offset data m \<noteq> []"
    using len se assms(3) by (cases data; cases "merge_buf offset data m") auto
  ultimately have two: "v \<noteq> [] \<and> d \<le> k" if "(k, v) \<in> set (reasm_merge offset data m)" for k v
    using that seg_okD(2) [OF ok] unfolding set_reasm_merge [OF ok] by auto
  have "k + length v < k'" if p: "(k, v) \<in> set (reasm_merge offset data m)"
    and q: "(k', v') \<in> set (reasm_merge offset data m)" and lt: "k < k'" for k v k' v'
  proof -
    have ap: "k + length v < ?s \<or> ?e < k"
      if "(k, v) \<in> set m" "\<not> (k \<le> offset + length data \<and> offset \<le> k + length v)" for k v
      by (rule merge_apart [OF ok that])
    from p q show ?thesis
      unfolding set_reasm_merge [OF ok]
      using ap [of k v] ap [of k' v'] seg_okD(3) [OF ok, of k v k' v'] lt len se by auto
  qed
  with bt two show ?thesis unfolding seg_ok_def by auto
qed

lemma held_merge:
  assumes ok: "seg_ok d m"
  shows "held (reasm_merge offset data m) i b \<longleftrightarrow>
    (if offset \<le> i \<and> i < offset + length data then data ! (i - offset) = b else held m i b)"
proof -
  let ?s = "merge_start offset data m" and ?e = "merge_end offset data m"
  let ?hits = "seg_hits m offset (offset + length data)"
  have se: "?s \<le> offset" "offset + length data \<le> ?e" by (rule merge_bounds)+
  have hits: "held ?hits i b \<longleftrightarrow> merge_buf offset data m ! (i - ?s) = b"
    if r: "?s \<le> i" "i < ?e" "\<not> (offset \<le> i \<and> i < offset + length data)"
  proof -
    obtain k v where kv: "(k, v) \<in> set ?hits" "k \<le> i" "i < k + length v"
      using merge_covered [OF r] by auto
    then have "merge_buf offset data m ! (i - ?s) = v ! (i - k)"
      using merge_base_hit [OF ok kv] merge_buf_nth [OF r(1,2)] r(3) by auto
    moreover have "held ?hits i b \<longleftrightarrow> v ! (i - k) = b"
      using kv seg_ok_disjoint [OF ok] unfolding held_def seg_hits_def by fastforce
    ultimately show ?thesis by simp
  qed
  have outside: "\<not> held ?hits i b" if "\<not> (?s \<le> i \<and> i < ?e)"
    using merge_bounds(3) [of _ _ m offset data] that unfolding held_def by fastforce
  have split: "held m i b \<longleftrightarrow> held ?hits i b \<or>
      held (filter (\<lambda>(k, v). \<not> (k \<le> offset + length data \<and> offset \<le> k + length v)) m) i b"
    unfolding held_def seg_hits_def by auto
  have far: "\<not> held (filter (\<lambda>(k, v). \<not> (k \<le> offset + length data \<and> offset \<le> k + length v)) m) i b"
    if "?s \<le> i" "i < ?e"
    using merge_apart [OF ok, of _ _ offset data] that unfolding held_def by fastforce
  have "held (reasm_merge offset data m) i b \<longleftrightarrow>
      (?s \<le> i \<and> i < ?e \<and> merge_buf offset data m ! (i - ?s) = b) \<or>
      held (filter (\<lambda>(k, v). \<not> (k \<le> offset + length data \<and> offset \<le> k + length v)) m) i b"
  proof -
    have "set (reasm_merge offset data m) = set ((?s, merge_buf offset data m) #
        filter (\<lambda>(k, v). \<not> (k \<le> offset + length data \<and> offset \<le> k + length v)) m)"
      unfolding set_reasm_merge [OF ok] by auto
    from held_cong [OF this, of i b] show ?thesis
      using se by (simp only: held_Cons length_merge_buf) auto
  qed
  then show ?thesis
    using hits outside split far se merge_buf_nth [of offset data m i] by auto
qed



section \<open>The operations against the specification\<close>

lemma reasm_ok_new [simp]: "reasm_ok reassembler_new"
  by (simp add: reasm_ok_def reassembler_new_def bt_empty_def seg_ok_def)

lemma reasm_ok_insert [simp]: "reasm_ok r \<Longrightarrow> reasm_ok (reasm_insert offset data r)"
  by (auto simp: reasm_ok_def reasm_insert_def Let_def intro!: seg_ok_merge)

lemma rdelivered_insert [simp]: "rdelivered (reasm_insert offset data r) = rdelivered r"
  by (simp add: reasm_insert_def Let_def)

lemma reasm_held_delivered: "reasm_ok r \<Longrightarrow> held (segs r) i b \<Longrightarrow> rdelivered r \<le> i"
  unfolding reasm_ok_def held_def using seg_okD(2) by fastforce

lemma held_insert:
  assumes "reasm_ok r"
  shows "held (segs (reasm_insert offset data r)) i b \<longleftrightarrow>
    (if rdelivered r \<le> i \<and> offset \<le> i \<and> i < offset + length data then data ! (i - offset) = b
     else held (segs r) i b)"
proof -
  have ok: "seg_ok (rdelivered r) (segs r)" using assms by (simp add: reasm_ok_def)
  show ?thesis
    using reasm_held_delivered [OF assms, of i b]
    by (auto simp: reasm_insert_def Let_def held_merge [OF ok])
qed

lemma seg_ok_remove:
  assumes ok: "seg_ok d m" and get: "bt_get m d = Some seg"
  shows "seg_ok (d + length seg) (bt_remove d m)"
    and "held (bt_remove d m) i b \<longleftrightarrow> d + length seg \<le> i \<and> held m i b"
proof -
  have m: "set (bt_remove d m) = {p \<in> set m. fst p \<noteq> d}"
    using seg_okD(1) [OF ok] by (simp add: bt_remove_filter)
  have mem: "(d, seg) \<in> set m" using get by (rule bt_get_SomeD)
  have after: "d + length seg < k" if "(k, v) \<in> set m" "k \<noteq> d" for k v
    using seg_okD(3) [OF ok mem that(1)] seg_okD(2) [OF ok that(1)] that(2) by linarith
  then have "\<forall>(k, v) \<in> set (bt_remove d m). v \<noteq> [] \<and> d + length seg \<le> k"
    using seg_okD(2) [OF ok] m by fastforce
  moreover have "\<forall>(k, v) \<in> set (bt_remove d m). \<forall>(k', v') \<in> set (bt_remove d m). k < k' \<longrightarrow> k + length v < k'"
    using seg_okD(3) [OF ok] m by auto
  ultimately show "seg_ok (d + length seg) (bt_remove d m)"
    using seg_okD(1) [OF ok] by (simp add: seg_ok_def)
  have "v = seg" if "(d, v) \<in> set m" for v
    using that mem seg_okD(1) [OF ok] by (metis bt_get_iff option.inject)
  then show "held (bt_remove d m) i b \<longleftrightarrow> d + length seg \<le> i \<and> held m i b"
    using after unfolding held_def m by fastforce
qed

lemma reasm_ok_read [simp]: "reasm_ok r \<Longrightarrow> reasm_ok (snd (reasm_read r))"
  unfolding reasm_ok_def reasm_read_def by (auto simp: seg_ok_remove split: option.splits)

lemma rdelivered_read: "rdelivered (snd (reasm_read r)) = rdelivered r + length (fst (reasm_read r))"
  by (simp add: reasm_read_def split: option.splits)

lemma held_read:
  "reasm_ok r \<Longrightarrow> held (segs (snd (reasm_read r))) i b \<longleftrightarrow>
     rdelivered (snd (reasm_read r)) \<le> i \<and> held (segs r) i b"
  using reasm_held_delivered [of r i b]
  by (auto simp: reasm_ok_def reasm_read_def seg_ok_remove split: option.splits)

lemma read_held:
  assumes "reasm_ok r" "i < length (fst (reasm_read r))"
  shows "held (segs r) (rdelivered r + i) (fst (reasm_read r) ! i)"
  using assms by (auto simp: reasm_read_def intro: held_segI dest!: bt_get_SomeD split: option.splits)

lemma ack_point_read: "ack_point r = rdelivered (snd (reasm_read r))"
  by (simp add: ack_point_def reasm_read_def split: option.splits)

lemma ack_point_gap:
  assumes "reasm_ok r"
  shows "\<not> held (segs r) (ack_point r) b"
proof
  assume "held (segs r) (ack_point r) b"
  then obtain k v where kv: "(k, v) \<in> set (segs r)" "k \<le> ack_point r" "ack_point r < k + length v"
    by (auto simp: held_def)
  have ok: "seg_ok (rdelivered r) (segs r)" using assms by (simp add: reasm_ok_def)
  have dk: "rdelivered r \<le> k" using seg_okD(2) [OF ok kv(1)] by simp
  show False
  proof (cases "bt_get (segs r) (rdelivered r)")
    case None
    then have "k = rdelivered r" using kv dk by (simp add: ack_point_def)
    then show False using None kv(1) by (force simp: bt_get_None_iff)
  next
    case (Some seg)
    have "k \<noteq> rdelivered r"
      using Some kv seg_okD(1) [OF ok] by (auto simp: ack_point_def bt_get_iff dest!: bt_get_iff [THEN iffD2, rotated])
    then show False
      using seg_okD(3) [OF ok bt_get_SomeD [OF Some] kv(1)] kv dk Some by (simp add: ack_point_def)
  qed
qed

text \<open>What is buffered comes from \<open>src\<close>.\<close>

definition reasm_agrees :: "reassembler \<Rightarrow> bytes \<Rightarrow> bool" where
  "reasm_agrees r src \<longleftrightarrow> reasm_ok r \<and> (\<forall>i b. held (segs r) i b \<longrightarrow> i < length src \<and> src ! i = b)"

lemma reasm_agrees_new: "reasm_agrees reassembler_new src"
  using reasm_ok_new by (simp add: reasm_agrees_def reassembler_new_def bt_empty_def)

lemma reasm_agrees_insert:
  assumes "reasm_agrees r src" "segment src off d"
  shows "reasm_agrees (reasm_insert off d r) src"
proof -
  have ok: "reasm_ok r" using assms(1) by (simp add: reasm_agrees_def)
  have "src ! i = d ! (i - off)" if "off \<le> i" "i < off + length d" for i
    using segment_nth [OF assms(2), of "i - off"] that by simp
  moreover have "off + length d \<le> length src" using assms(2) by (simp add: segment_def)
  ultimately show ?thesis
    using assms(1) unfolding reasm_agrees_def held_insert [OF ok] by auto
qed

lemma reasm_agrees_read: "reasm_agrees r src \<Longrightarrow> reasm_agrees (snd (reasm_read r)) src"
  by (auto simp: reasm_agrees_def held_read)

lemma reasm_read_segment:
  assumes "reasm_agrees r src" "rdelivered r \<le> length src"
  shows "segment src (rdelivered r) (fst (reasm_read r))"
proof -
  let ?o = "fst (reasm_read r)"
  have ok: "reasm_ok r" using assms(1) by (simp add: reasm_agrees_def)
  have h: "rdelivered r + i < length src \<and> src ! (rdelivered r + i) = ?o ! i" if "i < length ?o" for i
    using read_held [OF ok that] assms(1) by (simp add: reasm_agrees_def)
  have len: "rdelivered r + length ?o \<le> length src"
    using h [of "length ?o - 1"] assms(2) by (cases "?o = []") auto
  moreover have "take (length ?o) (drop (rdelivered r) src) = ?o"
    using len h by (intro nth_equalityI) auto
  ultimately show ?thesis by (simp add: segment_def)
qed

definition reasm_deliver :: "nat \<Rightarrow> bytes \<Rightarrow> reassembler \<Rightarrow> bytes \<times> reassembler" where
  "reasm_deliver off d r = reasm_read (reasm_insert off d r)"

interpretation reasm: inorder_receiver reassembler_new reasm_deliver rdelivered reasm_agrees "\<lambda>_. True"
proof
  fix src off d r
  assume r: "reasm_agrees r src" "segment src off d" "rdelivered r \<le> length src"
  note ins = reasm_agrees_insert [OF r(1,2)]
  show "reasm_agrees (snd (reasm_deliver off d r)) src"
    unfolding reasm_deliver_def by (rule reasm_agrees_read [OF ins])
  show "segment src (rdelivered r) (fst (reasm_deliver off d r))"
    using reasm_read_segment [OF ins] r(3) by (simp add: reasm_deliver_def)
  show "rdelivered (snd (reasm_deliver off d r)) = rdelivered r + length (fst (reasm_deliver off d r))"
    by (simp add: reasm_deliver_def rdelivered_read)
qed (simp_all add: reasm_agrees_new, simp add: reassembler_new_def)

text \<open>Segment ends stay below any bound the frames respect, in particular $2^{64}$.\<close>

definition reasm_below :: "nat \<Rightarrow> reassembler \<Rightarrow> bool" where
  "reasm_below n r \<longleftrightarrow> (\<forall>i b. held (segs r) i b \<longrightarrow> i < n)"

lemma reasm_insert_bound:
  "reasm_ok r \<Longrightarrow> reasm_below n r \<Longrightarrow> offset + length data \<le> n \<Longrightarrow> reasm_below n (reasm_insert offset data r)"
  by (auto simp: reasm_below_def held_insert split: if_splits)

lemma reasm_read_bound: "reasm_ok r \<Longrightarrow> reasm_below n r \<Longrightarrow> reasm_below n (snd (reasm_read r))"
  by (auto simp: reasm_below_def held_read)

lemma ack_point_bound:
  assumes "reasm_ok r" "reasm_below n r" "rdelivered r \<le> n"
  shows "ack_point r \<le> n"
proof (cases "fst (reasm_read r) = []")
  case False
  then have "held (segs r) (rdelivered r + (length (fst (reasm_read r)) - 1)) (fst (reasm_read r) ! (length (fst (reasm_read r)) - 1))"
    by (intro read_held [OF assms(1)]) simp
  then show ?thesis
    using assms(2) False unfolding ack_point_read rdelivered_read reasm_below_def
    by (cases "fst (reasm_read r)") fastforce+
qed (simp add: ack_point_read rdelivered_read assms(3))


section \<open>Arrivals and reads in any order\<close>

datatype reasm_op = Arrive nat bytes | Drain

primrec reasm_run :: "reasm_op list \<Rightarrow> reassembler \<Rightarrow> bytes \<times> reassembler" where
  "reasm_run [] r = ([], r)"
| "reasm_run (op # ops) r =
     (case op of
        Arrive off d \<Rightarrow> reasm_run ops (reasm_insert off d r)
      | Drain \<Rightarrow> (case reasm_read r of (out, r') \<Rightarrow>
                   (case reasm_run ops r' of (outs, r'') \<Rightarrow> (out @ outs, r''))))"

definition op_from :: "bytes \<Rightarrow> reasm_op \<Rightarrow> bool" where
  "op_from src op = (case op of Arrive off d \<Rightarrow> segment src off d | Drain \<Rightarrow> True)"

lemma reasm_run_prefix:
  "\<forall>op \<in> set ops. op_from src op \<Longrightarrow> reasm_agrees r src \<Longrightarrow> rdelivered r \<le> length src \<Longrightarrow>
   take (rdelivered r) src @ fst (reasm_run ops r) = take (rdelivered (snd (reasm_run ops r))) src \<and>
   rdelivered (snd (reasm_run ops r)) \<le> length src \<and> reasm_agrees (snd (reasm_run ops r)) src"
proof (induction ops arbitrary: r)
  case Nil
  then show ?case by simp
next
  case (Cons op ops)
  show ?case
  proof (cases op)
    case (Arrive off d)
    then show ?thesis
      using Cons.IH [of "reasm_insert off d r"] Cons.prems
      by (simp add: op_from_def reasm_agrees_insert)
  next
    case Drain
    let ?q = "reasm_read r"
    have seg: "segment src (rdelivered r) (fst ?q)"
      using Cons.prems reasm_read_segment by simp
    then have "take (rdelivered (snd ?q)) src = take (rdelivered r) src @ fst ?q"
      "rdelivered (snd ?q) \<le> length src"
      by (simp_all add: rdelivered_read take_append_segment) (simp add: segment_def)
    then show ?thesis
      using Cons.IH [of "snd ?q"] Cons.prems Drain
      by (simp add: case_prod_unfold reasm_agrees_read)
  qed
qed

text \<open>A byte that arrived is either still buffered or already read.\<close>

definition reasm_has :: "reassembler \<Rightarrow> nat \<Rightarrow> bool" where
  "reasm_has r i \<longleftrightarrow> i < rdelivered r \<or> (\<exists>b. held (segs r) i b)"

lemma reasm_has_insert: "reasm_ok r \<Longrightarrow> reasm_has (reasm_insert off d r) i \<longleftrightarrow>
    reasm_has r i \<or> (off \<le> i \<and> i < off + length d)"
  by (auto simp: reasm_has_def held_insert)

lemma reasm_has_read: "reasm_ok r \<Longrightarrow> reasm_has r i \<Longrightarrow> reasm_has (snd (reasm_read r)) i"
  by (auto simp: reasm_has_def held_read rdelivered_read)

lemma reasm_run_has:
  "reasm_ok r \<Longrightarrow> reasm_has r i \<or> (\<exists>off d. Arrive off d \<in> set ops \<and> off \<le> i \<and> i < off + length d) \<Longrightarrow>
   reasm_has (snd (reasm_run ops r)) i \<and> reasm_ok (snd (reasm_run ops r))"
proof (induction ops arbitrary: r)
  case (Cons op ops)
  show ?case
  proof (cases op)
    case (Arrive off d)
    have "reasm_has (reasm_insert off d r) i \<or>
        (\<exists>off d. Arrive off d \<in> set ops \<and> off \<le> i \<and> i < off + length d)"
      using Cons.prems Arrive by (auto simp: reasm_has_insert)
    then show ?thesis using Cons.IH [of "reasm_insert off d r"] Cons.prems(1) Arrive by simp
  next
    case Drain
    have "reasm_has (snd (reasm_read r)) i \<or>
        (\<exists>off d. Arrive off d \<in> set ops \<and> off \<le> i \<and> i < off + length d)"
      using Cons.prems Drain by (auto simp: reasm_has_read)
    then show ?thesis
      using Cons.IH [of "snd (reasm_read r)"] Cons.prems(1) Drain by (simp add: case_prod_unfold)
  qed
qed simp

lemma drain_reaches:
  assumes "reasm_ok r" "\<forall>i < n. reasm_has r i"
  shows "n \<le> rdelivered (snd (reasm_read r))"
proof (rule ccontr)
  assume "\<not> n \<le> rdelivered (snd (reasm_read r))"
  then have "reasm_has r (ack_point r)" using assms(2) by (simp add: ack_point_read)
  moreover have "rdelivered r \<le> ack_point r" by (simp add: ack_point_read rdelivered_read)
  ultimately show False
    using ack_point_gap [OF assms(1)] by (auto simp: reasm_has_def)
qed

lemma reasm_run_append:
  "reasm_run (ops @ ops') r =
     (case reasm_run ops r of (out, r') \<Rightarrow> (case reasm_run ops' r' of (out', r'') \<Rightarrow> (out @ out', r'')))"
proof (induction ops arbitrary: r)
  case (Cons op ops)
  then show ?case by (cases op) (simp_all add: case_prod_unfold)
qed simp


section \<open>Properties of the buffer\<close>

text \<open>\<^verbatim>\<open>insert\<close> refines an update of the map from offsets to bytes, whatever segments
  overlap or touch the new data. Exactly the undelivered bytes of the frame are written, every
  other buffered byte is kept, no byte of the zero-filled work buffer is ever exposed, and the
  segments stay disjoint and coalesced.\<close>

theorem reassembler_insert_refines:
  assumes "reasm_ok r"
  shows "reasm_ok (reasm_insert offset data r) \<and>
    seg_byte (segs (reasm_insert offset data r)) =
      (\<lambda>i. if rdelivered r \<le> i \<and> offset \<le> i \<and> i < offset + length data
           then Some (data ! (i - offset)) else seg_byte (segs r) i)"
proof
  show ok: "reasm_ok (reasm_insert offset data r)" using assms by simp
  have s: "seg_ok (rdelivered r) (segs r)" "seg_ok (rdelivered r) (segs (reasm_insert offset data r))"
    using assms ok by (simp_all add: reasm_ok_def)
  show "seg_byte (segs (reasm_insert offset data r)) =
      (\<lambda>i. if rdelivered r \<le> i \<and> offset \<le> i \<and> i < offset + length data
           then Some (data ! (i - offset)) else seg_byte (segs r) i)"
    by (rule ext, rule seg_byte_eqI [OF s(2)]) (auto simp: held_insert [OF assms] seg_byte_iff [OF s(1)])
qed

theorem reassembler_insert_refines_witness:
  "reasm_ok (reasm_insert 3 [30, 40, 50] \<lparr>rdelivered = 0, segs = [(2, [2, 3]), (7, [7])]\<rparr>) \<and>
    seg_byte (segs (reasm_insert 3 [30, 40, 50] \<lparr>rdelivered = 0, segs = [(2, [2, 3]), (7, [7])]\<rparr>)) =
      (\<lambda>i. if 0 \<le> i \<and> 3 \<le> i \<and> i < 3 + length [30, 40, 50 :: u8]
           then Some ([30, 40, 50] ! (i - 3)) else seg_byte [(2, [2, 3]), (7, [7])] i)"
proof -
  have "reasm_ok \<lparr>rdelivered = 0, segs = [(2, [2, 3]), (7, [7])]\<rparr>"
    by (simp add: reasm_ok_def seg_ok_def)
  from reassembler_insert_refines [OF this, of 3 "[30, 40, 50]"] show ?thesis
    by (simp only: reassembler.select_convs)
qed

text \<open>Reassembly is exact. For any pieces of a byte stream, arriving in any order with any
  overlap and repetition and read at any moments, the bytes read are a prefix of the stream;
  and once every byte below \<open>n\<close> has arrived, reading yields at least \<open>n\<close> bytes.\<close>

theorem reassembly_exact:
  assumes "\<forall>op \<in> set ops. op_from src op"
    and "\<forall>i < n. \<exists>off d. Arrive off d \<in> set ops \<and> off \<le> i \<and> i < off + length d"
  shows "fst (reasm_run (ops @ [Drain]) reassembler_new) =
      take (length (fst (reasm_run (ops @ [Drain]) reassembler_new))) src \<and>
    n \<le> length (fst (reasm_run (ops @ [Drain]) reassembler_new))"
proof -
  let ?run = "reasm_run (ops @ [Drain]) reassembler_new"
  have d0: "rdelivered reassembler_new = 0" by (simp add: reassembler_new_def)
  have "\<forall>op \<in> set (ops @ [Drain]). op_from src op" using assms(1) by (simp add: op_from_def)
  from reasm_run_prefix [OF this reasm_agrees_new] d0
  have pre: "fst ?run = take (rdelivered (snd ?run)) src" "rdelivered (snd ?run) \<le> length src" by simp_all
  have "\<forall>i < n. reasm_has (snd (reasm_run ops reassembler_new)) i"
    using reasm_run_has [OF reasm_ok_new, of _ ops] assms(2) by blast
  moreover have "reasm_agrees (snd (reasm_run ops reassembler_new)) src"
    using reasm_run_prefix [OF assms(1) reasm_agrees_new] d0 by simp
  ultimately have "n \<le> rdelivered (snd ?run)"
    using drain_reaches by (simp add: reasm_run_append case_prod_unfold reasm_agrees_def)
  with pre show ?thesis by (simp add: min_def)
qed

theorem reassembly_exact_witness:
  "fst (reasm_run ([Arrive 2 [7, 8], Drain, Arrive 0 [5, 6, 7]] @ [Drain]) reassembler_new) =
      take (length (fst (reasm_run ([Arrive 2 [7, 8], Drain, Arrive 0 [5, 6, 7]] @ [Drain]) reassembler_new)))
        [5, 6, 7, 8, 9] \<and>
    4 \<le> length (fst (reasm_run ([Arrive 2 [7, 8], Drain, Arrive 0 [5, 6, 7]] @ [Drain]) reassembler_new))"
proof (rule reassembly_exact)
  show "\<forall>op \<in> set [Arrive 2 [7, 8], Drain, Arrive 0 [5, 6, 7]]. op_from [5, 6, 7, 8, 9] op"
    by (simp add: op_from_def segment_def)
  show "\<forall>i < 4. \<exists>off d. Arrive off d \<in> set [Arrive 2 [7, 8 :: u8], Drain, Arrive 0 [5, 6, 7]] \<and>
      off \<le> i \<and> i < off + length d"
  proof (intro allI impI)
    fix i :: nat
    assume "i < 4"
    then show "\<exists>off d. Arrive off d \<in> set [Arrive 2 [7, 8 :: u8], Drain, Arrive 0 [5, 6, 7]] \<and>
        off \<le> i \<and> i < off + length d"
      by (intro exI [of _ "if i < 2 then 0 else 2"] exI [of _ "if i < 2 then [5, 6, 7] else [7, 8]"]) simp
  qed
qed

end
