(* ===== verification/Stream.thy ===== *)
theory Stream
  imports Reassembly
begin

text \<open>
  One multiplexed stream, \<^verbatim>\<open>StreamState\<close> in \<^verbatim>\<open>crates/transport/src/stream.rs\<close>: the send
  buffer with its acknowledgement point, retransmission timer, RTT estimator and congestion
  window, the receive side, and the close handshake. Byte offsets and 32-bit counters are
  natural numbers; the 32-bit sums that can wrap or saturate say so (\<open>wrap32\<close>,
  \<open>saturating_add32\<close>). Offsets count bytes of one stream; the properties that put them
  into 64-bit frame fields assume fewer than $2^{64}$ bytes were written.
\<close>

section \<open>Constants and state\<close>

definition DEFAULT_WINDOW :: nat where "DEFAULT_WINDOW = 256 * 1024"
definition MAX_STREAMS :: nat where "MAX_STREAMS = 1024"
definition MAX_STREAM_CHUNK :: nat where "MAX_STREAM_CHUNK = 1024"
definition MSS :: nat where "MSS = MAX_STREAM_CHUNK"
definition INIT_CWND :: nat where "INIT_CWND = 10 * MSS"
definition MAX_CWND :: nat where "MAX_CWND = DEFAULT_WINDOW"
definition INIT_RTO :: nat where "INIT_RTO = 8"
definition MIN_RTO :: nat where "MIN_RTO = 2"
definition MAX_RTO :: nat where "MAX_RTO = 240"
definition CLOSE_GRACE_TICKS :: nat where "CLOSE_GRACE_TICKS = 100"

lemmas stream_consts = DEFAULT_WINDOW_def MAX_STREAMS_def MAX_STREAM_CHUNK_def MSS_def
  INIT_CWND_def MAX_CWND_def INIT_RTO_def MIN_RTO_def MAX_RTO_def CLOSE_GRACE_TICKS_def

datatype half_state = Open | Finished nat

record stream_state =
  st_id :: u64
  st_kind :: stream_kind
  st_meta :: bytes
  needs_open :: bool
  send_buf :: bytes
  send_base :: nat
  send_high :: nat
  send_next :: nat
  peer_window :: nat
  send_fin :: bool
  fin_sent :: bool
  fin_acked :: bool
  close_status :: "u32 option"
  rto_start :: "nat option"
  rto :: nat
  srtt :: nat
  rttvar :: nat
  timed :: "(nat \<times> nat) option"
  cwnd :: nat
  ssthresh :: nat
  recv :: reassembler
  recv_window :: nat
  peer_fin :: half_state
  close_received :: bool
  close_ticks :: nat
  st_reset :: bool

definition stream_state_new :: "u64 \<Rightarrow> stream_kind \<Rightarrow> bytes \<Rightarrow> bool \<Rightarrow> stream_state" where
  "stream_state_new sid kind meta no = \<lparr>st_id = sid, st_kind = kind, st_meta = meta, needs_open = no,
     send_buf = [], send_base = 0, send_high = 0, send_next = 0, peer_window = DEFAULT_WINDOW,
     send_fin = False, fin_sent = False, fin_acked = False, close_status = None,
     rto_start = None, rto = INIT_RTO, srtt = 0, rttvar = 0, timed = None,
     cwnd = INIT_CWND, ssthresh = MAX_CWND,
     recv = reassembler_new, recv_window = DEFAULT_WINDOW, peer_fin = Open,
     close_received = False, close_ticks = 0, st_reset = False\<rparr>"

definition recv_finished :: "stream_state \<Rightarrow> bool" where
  "recv_finished s =
     (case peer_fin s of
        Finished at \<Rightarrow> rdelivered (recv s) \<ge> at \<and> unread (recv s) = 0
      | Open \<Rightarrow> False)"

definition fully_done :: "stream_state \<Rightarrow> bool" where
  "fully_done s =
     (if \<not> send_fin s then False
      else if fin_acked s \<and> recv_finished s then True
      else close_received s \<and> close_ticks s \<ge> CLOSE_GRACE_TICKS)"

definition stream_write :: "bytes \<Rightarrow> stream_state \<Rightarrow> stream_state" where
  "stream_write data s = s\<lparr>send_buf := send_buf s @ data, send_next := send_next s + length data\<rparr>"


section \<open>Timers and congestion control\<close>

definition recompute_rto :: "stream_state \<Rightarrow> stream_state" where
  "recompute_rto s =
     s\<lparr>rto := (if srtt s > 0
              then min MAX_RTO (max MIN_RTO (wrap32 (srtt s + max (wrap32 (4 * rttvar s)) 1)))
              else INIT_RTO)\<rparr>"

definition update_rtt :: "nat \<Rightarrow> stream_state \<Rightarrow> stream_state" where
  "update_rtt r s =
     recompute_rto
       (if srtt s = 0 then s\<lparr>srtt := r, rttvar := r div 2\<rparr>
        else (let delta = (if srtt s \<le> r then r - srtt s else srtt s - r)
              in s\<lparr>rttvar := wrap32 (wrap32 (3 * rttvar s) + delta) div 4,
                   srtt := wrap32 (wrap32 (7 * srtt s) + r) div 8\<rparr>))"

definition grow_cwnd :: "nat \<Rightarrow> stream_state \<Rightarrow> stream_state" where
  "grow_cwnd acked s =
     (let inc = (if cwnd s < ssthresh s then min (wrap32 acked) MSS
                 else wrap32 (max ((MSS * MSS) div max (cwnd s) 1) 1))
      in s\<lparr>cwnd := min (saturating_add32 (cwnd s) inc) MAX_CWND\<rparr>)"

definition on_rto :: "stream_state \<Rightarrow> stream_state" where
  "on_rto s = s\<lparr>ssthresh := max (cwnd s div 2) (2 * MSS), cwnd := MSS,
     rto := min (saturating_mul32 (rto s) 2) MAX_RTO, timed := None\<rparr>"

definition ack_progress :: "nat \<Rightarrow> nat \<Rightarrow> stream_state \<Rightarrow> stream_state" where
  "ack_progress ack nw s =
     (let advance = min (ack - send_base s) (length (send_buf s));
          s1 = s\<lparr>send_buf := drop advance (send_buf s), send_base := send_base s + advance,
                 send_high := max (send_high s) (send_base s + advance)\<rparr>;
          s2 = grow_cwnd advance s1;
          s3 = s2\<lparr>rto_start := (if send_base s2 < send_high s2 then Some nw else None)\<rparr>
      in recompute_rto s3)"

definition ack_sample :: "nat \<Rightarrow> nat \<Rightarrow> stream_state \<Rightarrow> stream_state" where
  "ack_sample ack nw s =
     (case timed s of
        Some (sq, sent) \<Rightarrow>
          if ack \<ge> sq then (update_rtt (wrap32 (max (nw - sent) 1)) s)\<lparr>timed := None\<rparr> else s
      | None \<Rightarrow> s)"

definition stream_on_ack :: "nat \<Rightarrow> nat \<Rightarrow> nat \<Rightarrow> stream_state \<Rightarrow> stream_state" where
  "stream_on_ack ack window nw s =
     (if ack > send_next s then s
      else
        let s1 = s\<lparr>peer_window := window\<rparr>;
            s2 = (if ack > send_base s1 then ack_progress ack nw s1 else s1);
            s3 = ack_sample ack nw s2
        in if send_fin s3 \<and> fin_sent s3 \<and> ack \<ge> send_next s3 then s3\<lparr>fin_acked := True\<rparr> else s3)"


section \<open>Transmission\<close>

function emit_range :: "frame list \<Rightarrow> nat \<Rightarrow> nat \<Rightarrow> stream_state \<Rightarrow> frame list \<times> stream_state" where
  "emit_range out off to s =
     (if off < to then
        (let chunk_end = min (off + MAX_STREAM_CHUNK) to;
             lo = off - send_base s;
             hi = chunk_end - send_base s;
             fin = (send_fin s \<and> chunk_end = send_next s \<and> \<not> fin_acked s);
             s' = (if fin then s\<lparr>fin_sent := True\<rparr> else s);
             f = StreamData (st_id s) (of_nat off) (take (hi - lo) (drop lo (send_buf s))) fin
         in emit_range (out @ [f]) chunk_end to s')
      else (out, s))"
  by pat_completeness auto
termination
  by (relation "measure (\<lambda>(out, off, to, s). to - off)") (auto simp: MAX_STREAM_CHUNK_def)

declare emit_range.simps [simp del]

definition rto_due :: "nat \<Rightarrow> stream_state \<Rightarrow> bool" where
  "rto_due nw s = (case rto_start s of Some t \<Rightarrow> nw - t \<ge> rto s | None \<Rightarrow> True)"

definition transmit_open :: "frame list \<Rightarrow> stream_state \<Rightarrow> frame list \<times> stream_state" where
  "transmit_open out s =
     (if needs_open s then (out @ [StreamOpen (st_id s) (st_kind s) (st_meta s)], s\<lparr>needs_open := False\<rparr>)
      else (out, s))"

definition transmit_data :: "nat \<Rightarrow> frame list \<Rightarrow> stream_state \<Rightarrow> frame list \<times> stream_state" where
  "transmit_data nw out s =
     (let cap = min (peer_window s) (cwnd s);
          send_end = min (send_next s) (send_base s + cap)
      in if send_high s < send_end then
           (let from = max (send_high s) (send_base s);
                (out, s) = emit_range out from send_end s;
                s = (if timed s = None then s\<lparr>timed := Some (send_end, nw)\<rparr> else s);
                s = s\<lparr>send_high := send_end\<rparr>;
                s = (if rto_start s = None then s\<lparr>rto_start := Some nw\<rparr> else s)
            in (out, s))
         else if send_base s < send_high s then
           (if rto_due nw s then
              (let (out, s) = emit_range out (send_base s) (send_high s) s
               in (out, on_rto (s\<lparr>rto_start := Some nw\<rparr>)))
            else (out, s))
         else if send_fin s \<and> \<not> fin_acked s \<and> send_next s = send_base s then
           (if \<not> fin_sent s \<or> rto_due nw s then
              (out @ [StreamData (st_id s) (of_nat (send_next s)) [] True],
               s\<lparr>fin_sent := True, rto_start := Some nw\<rparr>)
            else (out, s))
         else (out, s))"

definition transmit_ack :: "frame list \<Rightarrow> stream_state \<Rightarrow> frame list \<times> stream_state" where
  "transmit_ack out s =
     (let unr = min (unread (recv s)) DEFAULT_WINDOW;
          s = s\<lparr>recv_window := DEFAULT_WINDOW - unr\<rparr>
      in (out @ [StreamAck (st_id s) (of_nat (ack_point (recv s))) (of_nat (recv_window s))], s))"

definition transmit_close :: "frame list \<Rightarrow> stream_state \<Rightarrow> frame list \<times> stream_state" where
  "transmit_close out s =
     ((case close_status s of
         Some status \<Rightarrow> if \<not> fin_acked s then out @ [StreamClose (st_id s) status] else out
       | None \<Rightarrow> out),
      (if close_received s \<and> send_fin s \<and> peer_fin s = Open
       then s\<lparr>close_ticks := saturating_add32 (close_ticks s) 1\<rparr> else s))"

definition transmit :: "nat \<Rightarrow> frame list \<Rightarrow> stream_state \<Rightarrow> frame list \<times> stream_state" where
  "transmit nw out s =
     (if st_reset s then (out, s)
      else
        let (out, s) = transmit_open out s;
            (out, s) = transmit_data nw out s;
            (out, s) = transmit_ack out s
        in transmit_close out s)"


section \<open>Receiving\<close>

text \<open>The \<^verbatim>\<open>StreamData\<close> arm of \<^verbatim>\<open>StreamMux::on_frame\<close>, once the stream is found; the
  boolean says whether a \<^verbatim>\<open>Readable\<close> event is due.\<close>

definition stream_on_data :: "nat \<Rightarrow> bytes \<Rightarrow> bool \<Rightarrow> stream_state \<Rightarrow> bool \<times> stream_state" where
  "stream_on_data offset data fin s =
     (case checked_add64 offset (length data) of
        None \<Rightarrow> (False, s)
      | Some end \<Rightarrow>
          if offset > saturating_add64 (rdelivered (recv s)) DEFAULT_WINDOW then (False, s)
          else
            let had = ack_point (recv s);
                s = (if fin \<and> peer_fin s = Open then s\<lparr>peer_fin := Finished end\<rparr> else s);
                s = s\<lparr>recv := reasm_insert offset data (recv s)\<rparr>
            in (ack_point (recv s) > had, s))"

definition stream_on_close :: "stream_state \<Rightarrow> bool \<times> stream_state" where
  "stream_on_close s = (\<not> close_received s, s\<lparr>close_received := True\<rparr>)"

definition stream_close :: "u32 \<Rightarrow> stream_state \<Rightarrow> stream_state" where
  "stream_close status s = s\<lparr>send_fin := True, close_status := Some status\<rparr>"

definition stream_read :: "stream_state \<Rightarrow> bytes \<times> stream_state" where
  "stream_read s = (case reasm_read (recv s) of (out, r) \<Rightarrow> (out, s\<lparr>recv := r\<rparr>))"


section \<open>Invariants of the send side\<close>

text \<open>\<open>w\<close> is everything the application ever wrote to the stream.\<close>

definition send_ok :: "bytes \<Rightarrow> stream_state \<Rightarrow> bool" where
  "send_ok w s \<longleftrightarrow> send_buf s = drop (send_base s) w \<and> send_next s = length w \<and>
     send_base s \<le> send_high s \<and> send_high s \<le> send_next s"

definition cc_ok :: "stream_state \<Rightarrow> bool" where
  "cc_ok s \<longleftrightarrow> MIN_RTO \<le> rto s \<and> rto s \<le> MAX_RTO \<and> MSS \<le> cwnd s \<and> cwnd s \<le> MAX_CWND \<and>
     2 * MSS \<le> ssthresh s \<and> ssthresh s \<le> MAX_CWND"

lemma send_ok_new [simp]: "send_ok [] (stream_state_new sid kind meta no)"
  by (simp add: send_ok_def stream_state_new_def)

lemma cc_ok_new [simp]: "cc_ok (stream_state_new sid kind meta no)"
  by (simp add: cc_ok_def stream_state_new_def stream_consts)

lemma send_ok_write [simp]: "send_ok w s \<Longrightarrow> send_ok (w @ d) (stream_write d s)"
  by (auto simp: send_ok_def stream_write_def)

lemma cc_ok_write [simp]: "cc_ok (stream_write d s) = cc_ok s"
  by (simp add: cc_ok_def stream_write_def)

lemma recompute_rto_ok: "MIN_RTO \<le> rto (recompute_rto s)" "rto (recompute_rto s) \<le> MAX_RTO"
  by (simp_all add: recompute_rto_def stream_consts)

lemma recompute_rto_frame [simp]:
  "send_ok w (recompute_rto s) = send_ok w s" "cwnd (recompute_rto s) = cwnd s"
  "ssthresh (recompute_rto s) = ssthresh s" "recv (recompute_rto s) = recv s"
  "send_base (recompute_rto s) = send_base s" "send_fin (recompute_rto s) = send_fin s"
  "st_id (recompute_rto s) = st_id s" "peer_fin (recompute_rto s) = peer_fin s"
  "send_next (recompute_rto s) = send_next s" "fin_sent (recompute_rto s) = fin_sent s"
  "fin_acked (recompute_rto s) = fin_acked s" "needs_open (recompute_rto s) = needs_open s"
  by (simp_all add: recompute_rto_def send_ok_def)

lemma update_rtt_frame [simp]:
  "send_ok w (update_rtt r s) = send_ok w s" "cwnd (update_rtt r s) = cwnd s"
  "ssthresh (update_rtt r s) = ssthresh s" "recv (update_rtt r s) = recv s"
  "send_base (update_rtt r s) = send_base s" "send_fin (update_rtt r s) = send_fin s"
  "st_id (update_rtt r s) = st_id s" "peer_fin (update_rtt r s) = peer_fin s"
  "send_next (update_rtt r s) = send_next s" "fin_sent (update_rtt r s) = fin_sent s"
  "fin_acked (update_rtt r s) = fin_acked s" "needs_open (update_rtt r s) = needs_open s"
  by (simp_all add: update_rtt_def recompute_rto_def Let_def send_ok_def)

lemma update_rtt_ok: "MIN_RTO \<le> rto (update_rtt r s)" "rto (update_rtt r s) \<le> MAX_RTO"
  by (simp_all add: update_rtt_def recompute_rto_ok)

lemma grow_cwnd_ok: "MSS \<le> cwnd s \<Longrightarrow> MSS \<le> cwnd (grow_cwnd n s)" "cwnd (grow_cwnd n s) \<le> MAX_CWND"
  by (auto simp: grow_cwnd_def Let_def saturating_add32_def stream_consts two32_def)

lemma grow_cwnd_frame [simp]:
  "send_ok w (grow_cwnd n s) = send_ok w s" "ssthresh (grow_cwnd n s) = ssthresh s"
  "recv (grow_cwnd n s) = recv s" "send_base (grow_cwnd n s) = send_base s"
  "send_high (grow_cwnd n s) = send_high s"
  "send_fin (grow_cwnd n s) = send_fin s" "st_id (grow_cwnd n s) = st_id s"
  "peer_fin (grow_cwnd n s) = peer_fin s" "send_next (grow_cwnd n s) = send_next s"
  "fin_sent (grow_cwnd n s) = fin_sent s" "fin_acked (grow_cwnd n s) = fin_acked s"
  "needs_open (grow_cwnd n s) = needs_open s"
  by (simp_all add: grow_cwnd_def Let_def send_ok_def)

lemma ack_progress_send_ok:
  "send_ok w s \<Longrightarrow> send_ok w (ack_progress ack nw s)"
  by (auto simp: ack_progress_def Let_def recompute_rto_def grow_cwnd_def send_ok_def add.commute)

lemma ack_progress_cc_ok: "cc_ok s \<Longrightarrow> cc_ok (ack_progress ack nw s)"
  unfolding ack_progress_def Let_def cc_ok_def
  by (simp add: recompute_rto_ok grow_cwnd_ok)

lemma ack_progress_frame [simp]:
  "recv (ack_progress a nw s) = recv s" "send_fin (ack_progress a nw s) = send_fin s"
  "st_id (ack_progress a nw s) = st_id s" "peer_fin (ack_progress a nw s) = peer_fin s"
  "send_next (ack_progress a nw s) = send_next s" "fin_sent (ack_progress a nw s) = fin_sent s"
  "fin_acked (ack_progress a nw s) = fin_acked s" "needs_open (ack_progress a nw s) = needs_open s"
  "send_base (ack_progress a nw s) = send_base s + min (a - send_base s) (length (send_buf s))"
  by (simp_all add: ack_progress_def Let_def)

lemma ack_sample_frame [simp]:
  "recv (ack_sample a nw s) = recv s" "send_fin (ack_sample a nw s) = send_fin s"
  "st_id (ack_sample a nw s) = st_id s" "peer_fin (ack_sample a nw s) = peer_fin s"
  "send_next (ack_sample a nw s) = send_next s" "fin_sent (ack_sample a nw s) = fin_sent s"
  "fin_acked (ack_sample a nw s) = fin_acked s" "send_base (ack_sample a nw s) = send_base s"
  "needs_open (ack_sample a nw s) = needs_open s"
  by (simp_all add: ack_sample_def split: option.splits prod.splits)

lemma ack_sample_ok:
  "send_ok w s \<Longrightarrow> send_ok w (ack_sample a nw s)" "cc_ok s \<Longrightarrow> cc_ok (ack_sample a nw s)"
proof -
  have "send_ok w (update_rtt r s\<lparr>timed := None\<rparr>) = send_ok w (update_rtt r s)" for r
    by (simp add: send_ok_def)
  then show "send_ok w s \<Longrightarrow> send_ok w (ack_sample a nw s)"
    by (simp add: ack_sample_def split: option.splits prod.splits)
  show "cc_ok s \<Longrightarrow> cc_ok (ack_sample a nw s)"
    by (auto simp: ack_sample_def cc_ok_def update_rtt_ok split: option.splits)
qed

text \<open>Every acknowledgement, honest or not, keeps the buffer in step with what was written.\<close>

lemma stream_on_ack_send_ok: "send_ok w s \<Longrightarrow> send_ok w (stream_on_ack a win nw s)"
proof -
  assume ok: "send_ok w s"
  have f: "send_ok w (t\<lparr>fin_acked := True\<rparr>) = send_ok w t" "send_ok w (t\<lparr>peer_window := win\<rparr>) = send_ok w t" for t
    by (simp_all add: send_ok_def)
  show ?thesis
    using ok by (simp add: stream_on_ack_def Let_def f ack_sample_ok ack_progress_send_ok)
qed

lemma stream_on_ack_cc_ok: "cc_ok s \<Longrightarrow> cc_ok (stream_on_ack a win nw s)"
proof -
  assume ok: "cc_ok s"
  have f: "cc_ok (t\<lparr>fin_acked := True\<rparr>) = cc_ok t" "cc_ok (t\<lparr>peer_window := win\<rparr>) = cc_ok t" for t
    by (simp_all add: cc_ok_def)
  show ?thesis
    using ok by (simp add: stream_on_ack_def Let_def f ack_sample_ok ack_progress_cc_ok)
qed

lemma stream_on_ack_frame [simp]:
  "recv (stream_on_ack a win nw s) = recv s" "send_fin (stream_on_ack a win nw s) = send_fin s"
  "st_id (stream_on_ack a win nw s) = st_id s" "peer_fin (stream_on_ack a win nw s) = peer_fin s"
  "needs_open (stream_on_ack a win nw s) = needs_open s"
  by (simp_all add: stream_on_ack_def Let_def)

lemma stream_on_ack_base:
  "send_base (stream_on_ack a win nw s) =
     (if a \<le> send_next s \<and> send_base s < a then send_base s + min (a - send_base s) (length (send_buf s))
      else send_base s)"
  by (simp add: stream_on_ack_def Let_def)


section \<open>What is sent\<close>

text \<open>\<open>data_from w s lo hi f\<close>: \<open>f\<close> is a data frame of this stream that carries exactly the
  bytes of \<open>w\<close> at its offset, within \<open>[lo, hi)\<close> and one chunk, and is marked FIN only
  at the very end of a closed stream.\<close>

definition data_from :: "bytes \<Rightarrow> stream_state \<Rightarrow> nat \<Rightarrow> nat \<Rightarrow> frame \<Rightarrow> bool" where
  "data_from w s lo hi f \<longleftrightarrow> (\<exists>off d fin. f = StreamData (st_id s) (of_nat off) d fin \<and>
     lo \<le> off \<and> off + length d \<le> hi \<and> segment w off d \<and> length d \<le> MAX_STREAM_CHUNK \<and>
     (fin \<longrightarrow> send_fin s \<and> off + length d = length w))"

lemma data_from_mono: "data_from w s lo hi f \<Longrightarrow> lo' \<le> lo \<Longrightarrow> hi \<le> hi' \<Longrightarrow> data_from w s lo' hi' f"
  unfolding data_from_def by force

text \<open>The frames \<open>emit_range\<close> appends, without its accumulator.\<close>

definition chunk_frame :: "stream_state \<Rightarrow> nat \<Rightarrow> nat \<Rightarrow> frame" where
  "chunk_frame s off ce = StreamData (st_id s) (of_nat off)
     (take (ce - send_base s - (off - send_base s)) (drop (off - send_base s) (send_buf s)))
     (send_fin s \<and> ce = send_next s \<and> \<not> fin_acked s)"

function chunk_frames :: "stream_state \<Rightarrow> nat \<Rightarrow> nat \<Rightarrow> frame list" where
  "chunk_frames s off to =
     (if off < to then chunk_frame s off (min (off + MAX_STREAM_CHUNK) to) #
        chunk_frames s (min (off + MAX_STREAM_CHUNK) to) to
      else [])"
  by pat_completeness auto
termination
  by (relation "measure (\<lambda>(s, off, to). to - off)") (auto simp: MAX_STREAM_CHUNK_def)

declare chunk_frames.simps [simp del]

lemma chunk_frame_fin_sent [simp]: "chunk_frame (s\<lparr>fin_sent := b\<rparr>) off ce = chunk_frame s off ce"
  by (simp add: chunk_frame_def)

lemma chunk_frames_fin_sent [simp]: "chunk_frames (s\<lparr>fin_sent := b\<rparr>) off to = chunk_frames s off to"
proof (induction s off to rule: chunk_frames.induct)
  case (1 s off to)
  then show ?case by (subst (1 2) chunk_frames.simps) simp
qed

fun frame_fin :: "frame \<Rightarrow> bool" where
  "frame_fin (StreamData i off d fin) = fin"
| "frame_fin _ = False"

lemma emit_range_eq:
  "emit_range out off to s = (out @ chunk_frames s off to,
     s\<lparr>fin_sent := fin_sent s \<or> (\<exists>f \<in> set (chunk_frames s off to). frame_fin f)\<rparr>)"
proof (induction out off to s rule: emit_range.induct)
  case (1 out off to s)
  show ?case
  proof (cases "off < to")
    case True
    let ?e = "min (off + MAX_STREAM_CHUNK) to"
    let ?fin = "send_fin s \<and> ?e = send_next s \<and> \<not> fin_acked s"
    let ?s = "if ?fin then s\<lparr>fin_sent := True\<rparr> else s"
    have step: "emit_range out off to s = emit_range (out @ [chunk_frame s off ?e]) ?e to ?s"
      using True by (subst emit_range.simps) (simp only: Let_def if_True chunk_frame_def)
    have IH: "emit_range (out @ [chunk_frame s off ?e]) ?e to ?s =
        ((out @ [chunk_frame s off ?e]) @ chunk_frames ?s ?e to,
         ?s\<lparr>fin_sent := fin_sent ?s \<or> (\<exists>f \<in> set (chunk_frames ?s ?e to). frame_fin f)\<rparr>)"
      using "1.IH" [OF True refl refl refl refl refl refl] by (simp only: chunk_frame_def)
    have c: "chunk_frames ?s ?e to = chunk_frames s ?e to" by simp
    have "frame_fin (chunk_frame s off ?e) = ?fin" by (simp add: chunk_frame_def)
    then have "?s\<lparr>fin_sent := fin_sent ?s \<or> (\<exists>f \<in> set (chunk_frames s ?e to). frame_fin f)\<rparr> =
        s\<lparr>fin_sent := fin_sent s \<or> (\<exists>f \<in> set (chunk_frames s off to). frame_fin f)\<rparr>"
      using True by (subst (2) chunk_frames.simps) auto
    then show ?thesis
      unfolding step IH c using True by (simp add: chunk_frames.simps [of s off to])
  next
    case False
    then show ?thesis by (simp add: emit_range.simps chunk_frames.simps)
  qed
qed

lemma emit_range_chunks:
  "\<exists>b. emit_range out off to s = (out @ chunk_frames s off to, s\<lparr>fin_sent := b\<rparr>) \<and> (fin_sent s \<longrightarrow> b)"
  unfolding emit_range_eq by blast

lemma chunk_frame_from:
  assumes "send_ok w s" "send_base s \<le> off" "off < ce" "ce \<le> length w" "ce \<le> off + MAX_STREAM_CHUNK"
  shows "data_from w s off ce (chunk_frame s off ce)"
proof -
  have d: "take (ce - send_base s - (off - send_base s)) (drop (off - send_base s) (send_buf s)) =
      take (ce - off) (drop off w)"
    using assms by (simp add: send_ok_def add.commute)
  have "length (take (ce - off) (drop off w)) = ce - off" using assms by simp
  moreover have "segment w off (take (ce - off) (drop off w))" using assms by (intro segment_take) simp
  ultimately show ?thesis
    using assms unfolding data_from_def chunk_frame_def d
    by (intro exI [of _ off] exI [of _ "take (ce - off) (drop off w)"] exI conjI)
      (auto simp: send_ok_def)
qed

lemma chunk_frames_from:
  assumes "send_ok w s" "send_base s \<le> off" "to \<le> length w"
  shows "\<forall>f \<in> set (chunk_frames s off to). data_from w s off to f"
  using assms
proof (induction s off to rule: chunk_frames.induct)
  case (1 s off to)
  show ?case
  proof (cases "off < to")
    case True
    let ?e = "min (off + MAX_STREAM_CHUNK) to"
    have e: "off < ?e" "?e \<le> to" using True by (auto simp: MAX_STREAM_CHUNK_def)
    have "data_from w s off ?e (chunk_frame s off ?e)"
      using "1.prems" e by (intro chunk_frame_from) auto
    moreover have "\<forall>f \<in> set (chunk_frames s ?e to). data_from w s ?e to f"
      using "1.IH" [OF True "1.prems"(1) _ "1.prems"(3)] "1.prems"(2) e by linarith
    ultimately show ?thesis
      using e True by (subst chunk_frames.simps) (auto intro: data_from_mono)
  qed (simp add: chunk_frames.simps)
qed

text \<open>The chunks of a range, put together, are that range.\<close>

fun frame_data :: "frame \<Rightarrow> bytes" where
  "frame_data (StreamData i off d fin) = d"
| "frame_data _ = []"

lemma chunk_frames_cover:
  assumes "send_ok w s" "send_base s \<le> off" "to \<le> length w"
  shows "concat (map frame_data (chunk_frames s off to)) = take (to - off) (drop off w)"
  using assms
proof (induction s off to rule: chunk_frames.induct)
  case (1 s off to)
  show ?case
  proof (cases "off < to")
    case True
    let ?e = "min (off + MAX_STREAM_CHUNK) to"
    have e: "off < ?e" "?e \<le> to" using True by (auto simp: MAX_STREAM_CHUNK_def)
    have "frame_data (chunk_frame s off ?e) = take (?e - off) (drop off w)"
      using "1.prems" e by (simp add: chunk_frame_def send_ok_def add.commute)
    moreover have "concat (map frame_data (chunk_frames s ?e to)) = take (to - ?e) (drop ?e w)"
      using "1.IH" [OF True "1.prems"(1) _ "1.prems"(3)] "1.prems"(2) e by linarith
    moreover have "take (?e - off) (drop off w) @ take (to - ?e) (drop ?e w) = take (to - off) (drop off w)"
      using take_add [of "?e - off" "to - ?e" "drop off w"] e by simp
    ultimately show ?thesis
      using True by (subst chunk_frames.simps) simp
  qed (simp add: chunk_frames.simps)
qed

text \<open>What one transmission leaves alone: everything but the timers, the congestion state,
  \<open>send_high\<close> and the marks that an open or a FIN went out.\<close>

definition same_stream :: "stream_state \<Rightarrow> stream_state \<Rightarrow> bool" where
  "same_stream s s' \<longleftrightarrow> st_id s' = st_id s \<and> send_buf s' = send_buf s \<and> send_base s' = send_base s \<and>
     send_next s' = send_next s \<and> send_fin s' = send_fin s \<and> fin_acked s' = fin_acked s \<and>
     recv s' = recv s \<and> peer_fin s' = peer_fin s \<and> close_received s' = close_received s \<and>
     close_status s' = close_status s \<and> st_reset s' = st_reset s \<and>
     peer_window s' = peer_window s \<and> (fin_sent s \<longrightarrow> fin_sent s')"

lemma same_stream_refl [simp]: "same_stream s s"
  by (simp add: same_stream_def)

lemma same_stream_trans: "same_stream s s' \<Longrightarrow> same_stream s' s'' \<Longrightarrow> same_stream s s''"
  by (simp add: same_stream_def)

definition send_limit :: "stream_state \<Rightarrow> nat" where
  "send_limit s = max (send_high s) (min (send_next s) (send_base s + min (peer_window s) (cwnd s)))"

lemma send_limit_le: "send_ok w s \<Longrightarrow> send_limit s \<le> length w"
  by (simp add: send_limit_def send_ok_def)

text \<open>\<open>sends w s P out r\<close>: from state \<open>s\<close>, the result \<open>r\<close> appends frames that satisfy \<open>P\<close>
  and leaves a state of the same stream that is still well formed.\<close>

definition sends ::
  "bytes \<Rightarrow> stream_state \<Rightarrow> (frame \<Rightarrow> bool) \<Rightarrow> frame list \<Rightarrow> frame list \<times> stream_state \<Rightarrow> bool" where
  "sends w s P out r \<longleftrightarrow> (\<exists>fs. fst r = out @ fs \<and> (\<forall>f \<in> set fs. P f)) \<and>
     same_stream s (snd r) \<and> send_ok w (snd r) \<and> cc_ok (snd r)"

lemma sendsI:
  assumes "r = (out @ fs, s')" "\<forall>f \<in> set fs. P f" "same_stream s s'" "send_ok w s'" "cc_ok s'"
  shows "sends w s P out r"
  using assms by (auto simp: sends_def)

lemma sends_same: "send_ok w s \<Longrightarrow> cc_ok s \<Longrightarrow> sends w s P out (out, s)"
  by (rule sendsI [where fs = "[]"]) simp_all

lemma sends_trans:
  assumes "sends w s P out r" "sends w (snd r) P (fst r) r'"
  shows "sends w s P out r'"
  using assms unfolding sends_def by (fastforce intro: same_stream_trans)

lemma sends_mono: "sends w s P out r \<Longrightarrow> (\<And>f. P f \<Longrightarrow> Q f) \<Longrightarrow> sends w s Q out r"
  unfolding sends_def by blast

lemma transmit_fresh:
  assumes ok: "send_ok w s" "cc_ok s" and lt: "send_high s < min (send_next s) (send_base s + min (peer_window s) (cwnd s))"
  shows "sends w s (data_from w s (send_high s) (send_limit s)) out (transmit_data nw out s)"
proof -
  let ?to = "min (send_next s) (send_base s + min (peer_window s) (cwnd s))"
  let ?lo = "max (send_high s) (send_base s)"
  obtain b where b: "emit_range out ?lo ?to s = (out @ chunk_frames s ?lo ?to, s\<lparr>fin_sent := b\<rparr>)"
    "fin_sent s \<longrightarrow> b" using emit_range_chunks by blast
  have lo: "?lo = send_high s" using ok(1) by (simp add: send_ok_def)
  have "\<forall>f \<in> set (chunk_frames s ?lo ?to). data_from w s (send_high s) ?to f"
    using chunk_frames_from [OF ok(1), of "send_high s" ?to] ok(1) unfolding lo by (simp add: send_ok_def)
  moreover have "?to \<le> send_limit s" by (simp add: send_limit_def)
  ultimately have fs: "\<forall>f \<in> set (chunk_frames s ?lo ?to). data_from w s (send_high s) (send_limit s) f"
    using data_from_mono by blast
  let ?s1 = "s\<lparr>fin_sent := b\<rparr>"
  let ?s2 = "if timed ?s1 = None then ?s1\<lparr>timed := Some (?to, nw)\<rparr> else ?s1"
  let ?s3 = "?s2\<lparr>send_high := ?to\<rparr>"
  let ?s4 = "if rto_start ?s3 = None then ?s3\<lparr>rto_start := Some nw\<rparr> else ?s3"
  have r: "transmit_data nw out s = (out @ chunk_frames s ?lo ?to, ?s4)"
    unfolding transmit_data_def Let_def b(1) using lt by simp
  show ?thesis
    by (rule sendsI [OF r fs]) (use ok b lt in \<open>auto simp: same_stream_def send_ok_def cc_ok_def\<close>)
qed

lemma on_rto_ok: "cc_ok s \<Longrightarrow> cc_ok (on_rto s)"
  by (auto simp: on_rto_def cc_ok_def stream_consts saturating_mul32_def two32_def)

lemma transmit_again:
  assumes ok: "send_ok w s" "cc_ok s"
    and nolt: "\<not> send_high s < min (send_next s) (send_base s + min (peer_window s) (cwnd s))"
    and more: "send_base s < send_high s" and due: "rto_due nw s"
  shows "sends w s (data_from w s (send_base s) (send_limit s)) out (transmit_data nw out s)"
proof -
  obtain b where b: "emit_range out (send_base s) (send_high s) s =
      (out @ chunk_frames s (send_base s) (send_high s), s\<lparr>fin_sent := b\<rparr>)" "fin_sent s \<longrightarrow> b"
    using emit_range_chunks by blast
  have "\<forall>f \<in> set (chunk_frames s (send_base s) (send_high s)). data_from w s (send_base s) (send_high s) f"
    using chunk_frames_from [OF ok(1), of "send_base s" "send_high s"] ok(1) by (simp add: send_ok_def)
  then have fs: "\<forall>f \<in> set (chunk_frames s (send_base s) (send_high s)). data_from w s (send_base s) (send_limit s) f"
    by (auto intro: data_from_mono simp: send_limit_def)
  let ?s = "s\<lparr>fin_sent := b, rto_start := Some nw\<rparr>"
  have r: "transmit_data nw out s = (out @ chunk_frames s (send_base s) (send_high s), on_rto ?s)"
    unfolding transmit_data_def Let_def b(1) if_not_P [OF nolt] using more due by simp
  have "cc_ok ?s" using ok(2) by (simp add: cc_ok_def)
  from on_rto_ok [OF this] show ?thesis
    by (intro sendsI [OF r fs]) (use ok b in \<open>auto simp: same_stream_def send_ok_def on_rto_def\<close>)
qed

lemma transmit_fin:
  assumes ok: "send_ok w s" "cc_ok s"
    and nolt: "\<not> send_high s < min (send_next s) (send_base s + min (peer_window s) (cwnd s))"
    and none: "\<not> (send_base s < send_high s \<and> rto_due nw s)"
  shows "sends w s (data_from w s (send_base s) (send_limit s)) out (transmit_data nw out s)"
proof (cases "\<not> send_base s < send_high s \<and> send_fin s \<and> \<not> fin_acked s \<and> send_next s = send_base s \<and>
    (\<not> fin_sent s \<or> rto_due nw s)")
  case True
  have fin: "data_from w s (send_base s) (send_limit s) (StreamData (st_id s) (of_nat (send_next s)) [] True)"
    using ok(1) True unfolding data_from_def
    by (intro exI [of _ "send_next s"] exI [of _ "[]"]) (auto simp: send_ok_def send_limit_def segment_def)
  have "transmit_data nw out s = (out @ [StreamData (st_id s) (of_nat (send_next s)) [] True],
      s\<lparr>fin_sent := True, rto_start := Some nw\<rparr>)"
    unfolding transmit_data_def Let_def if_not_P [OF nolt] using True by auto
  from sendsI [OF this, of _ s w] fin ok show ?thesis
    by (auto simp: same_stream_def send_ok_def cc_ok_def)
next
  case False
  then have "transmit_data nw out s = (out, s)"
    unfolding transmit_data_def Let_def if_not_P [OF nolt] using none by auto
  then show ?thesis using sends_same [OF ok] by simp
qed

lemma transmit_data_sends:
  assumes "send_ok w s" "cc_ok s"
  shows "sends w s (data_from w s (send_base s) (send_limit s)) out (transmit_data nw out s)"
proof (cases "send_high s < min (send_next s) (send_base s + min (peer_window s) (cwnd s))")
  case True
  have "send_base s \<le> send_high s" using assms(1) by (simp add: send_ok_def)
  then show ?thesis by (auto intro: sends_mono [OF transmit_fresh [OF assms True]] data_from_mono)
next
  case False
  with transmit_again [OF assms False] transmit_fin [OF assms False] show ?thesis by blast
qed

definition stream_frame :: "bytes \<Rightarrow> stream_state \<Rightarrow> frame \<Rightarrow> bool" where
  "stream_frame w s f \<longleftrightarrow>
     (needs_open s \<and> f = StreamOpen (st_id s) (st_kind s) (st_meta s)) \<or>
     data_from w s (send_base s) (send_limit s) f \<or>
     f = StreamAck (st_id s) (of_nat (ack_point (recv s)))
           (of_nat (DEFAULT_WINDOW - min (unread (recv s)) DEFAULT_WINDOW)) \<or>
     (\<exists>st. close_status s = Some st \<and> \<not> fin_acked s \<and> f = StreamClose (st_id s) st)"

lemma transmit_open_sends:
  assumes "send_ok w s" "cc_ok s"
  shows "sends w s (stream_frame w s) out (transmit_open out s)"
proof (cases "needs_open s")
  case True
  then have r: "transmit_open out s =
      (out @ [StreamOpen (st_id s) (st_kind s) (st_meta s)], s\<lparr>needs_open := False\<rparr>)"
    by (simp add: transmit_open_def)
  from True assms show ?thesis
    by (intro sendsI [OF r]) (auto simp: stream_frame_def same_stream_def send_ok_def cc_ok_def)
qed (simp add: transmit_open_def sends_same assms)

lemma transmit_open_state: "snd (transmit_open out s) = s\<lparr>needs_open := False\<rparr>"
  by (simp add: transmit_open_def)

lemma transmit_ack_sends:
  assumes "same_stream s0 s" "send_ok w s" "cc_ok s"
  shows "sends w s (stream_frame w s0) out (transmit_ack out s)"
proof -
  have r: "transmit_ack out s = (out @ [StreamAck (st_id s) (of_nat (ack_point (recv s)))
      (of_nat (DEFAULT_WINDOW - min (unread (recv s)) DEFAULT_WINDOW))],
      s\<lparr>recv_window := DEFAULT_WINDOW - min (unread (recv s)) DEFAULT_WINDOW\<rparr>)"
    by (simp add: transmit_ack_def Let_def)
  show ?thesis
    by (rule sendsI [OF r])
      (use assms in \<open>auto simp: stream_frame_def same_stream_def send_ok_def cc_ok_def\<close>)
qed

lemma transmit_close_sends:
  assumes "same_stream s0 s" "send_ok w s" "cc_ok s"
  shows "sends w s (stream_frame w s0) out (transmit_close out s)"
proof -
  let ?fs = "case close_status s of Some st \<Rightarrow> if \<not> fin_acked s then [StreamClose (st_id s) st] else [] | None \<Rightarrow> []"
  have r: "transmit_close out s = (out @ ?fs,
      (if close_received s \<and> send_fin s \<and> peer_fin s = Open
       then s\<lparr>close_ticks := saturating_add32 (close_ticks s) 1\<rparr> else s))"
    by (simp add: transmit_close_def split: option.splits)
  have "\<forall>f \<in> set ?fs. stream_frame w s0 f"
    using assms(1) by (auto simp: stream_frame_def same_stream_def split: option.splits if_splits)
  then show ?thesis
    by (rule sendsI [OF r]) (use assms in \<open>auto simp: same_stream_def send_ok_def cc_ok_def\<close>)
qed

lemma transmit_sends:
  assumes "send_ok w s" "cc_ok s"
  shows "sends w s (stream_frame w s) out (transmit nw out s)"
proof (cases "st_reset s")
  case True
  then show ?thesis using sends_same [OF assms] by (simp add: transmit_def)
next
  case False
  let ?a = "transmit_open out s"
  let ?b = "transmit_data nw (fst ?a) (snd ?a)"
  let ?c = "transmit_ack (fst ?b) (snd ?b)"
  have r: "transmit nw out s = transmit_close (fst ?c) (snd ?c)"
    using False by (simp add: transmit_def Let_def case_prod_unfold)
  have okD: "same_stream s (snd q) \<and> send_ok w (snd q) \<and> cc_ok (snd q)"
    if "sends w s (stream_frame w s) out q" for q using that by (simp add: sends_def)
  have a: "sends w s (stream_frame w s) out ?a" by (rule transmit_open_sends [OF assms])
  have "stream_frame w s f" if "data_from w (snd ?a) (send_base (snd ?a)) (send_limit (snd ?a)) f" for f
    using that unfolding transmit_open_state by (simp add: stream_frame_def data_from_def send_limit_def)
  then have b: "sends w s (stream_frame w s) out ?b"
    using sends_trans [OF a] sends_mono transmit_data_sends okD [OF a] by blast
  have c: "sends w s (stream_frame w s) out ?c"
    using sends_trans [OF b] transmit_ack_sends okD [OF b] by blast
  show ?thesis
    unfolding r using sends_trans [OF c] transmit_close_sends okD [OF c] by blast
qed


text \<open>The accumulator of a transmission is only appended to.\<close>

lemma transmit_data_append:
  "transmit_data nw out s = (out @ fst (transmit_data nw [] s), snd (transmit_data nw [] s))"
proof (cases "send_high s < min (send_next s) (send_base s + min (peer_window s) (cwnd s))")
  case True
  then show ?thesis
    unfolding transmit_data_def Let_def emit_range_eq if_P [OF True] prod.case by simp
next
  case nolt: False
  show ?thesis
  proof (cases "send_base s < send_high s")
    case True
    then show ?thesis
      unfolding transmit_data_def Let_def emit_range_eq if_not_P [OF nolt] if_P [OF True] prod.case by simp
  next
    case False
    then show ?thesis
      unfolding transmit_data_def Let_def if_not_P [OF nolt] if_not_P [OF False] by simp
  qed
qed

lemma transmit_append:
  "transmit nw out s = (out @ fst (transmit nw [] s), snd (transmit nw [] s))"
proof -
  have o: "transmit_open out s = (out @ fst (transmit_open [] s), snd (transmit_open [] s))" for out s
    by (simp add: transmit_open_def)
  have d: "transmit_data nw out s = (out @ fst (transmit_data nw [] s), snd (transmit_data nw [] s))" for out s
    by (rule transmit_data_append)
  have a: "transmit_ack out s = (out @ fst (transmit_ack [] s), snd (transmit_ack [] s))" for out s
    by (simp add: transmit_ack_def Let_def)
  have c: "transmit_close out s = (out @ fst (transmit_close [] s), snd (transmit_close [] s))" for out s
    by (simp add: transmit_close_def split: option.splits)
  let ?o = "transmit_open [] s"
  let ?d = "transmit_data nw [] (snd ?o)"
  let ?a = "transmit_ack [] (snd ?d)"
  let ?c = "transmit_close [] (snd ?a)"
  have "transmit nw out s = (out @ fst ?o @ fst ?d @ fst ?a @ fst ?c, snd ?c)" if "\<not> st_reset s" for out
    unfolding transmit_def Let_def if_not_P [OF that]
    by (simp only: o [of out s] d [of "out @ fst ?o" "snd ?o"] a [of "out @ fst ?o @ fst ?d" "snd ?d"]
        c [of "out @ fst ?o @ fst ?d @ fst ?a" "snd ?a"] prod.case append_assoc)
  then show ?thesis by (cases "st_reset s") (simp_all add: transmit_def)
qed


section \<open>Properties of one stream\<close>

text \<open>Everything that can happen to the send side: the application writes and closes, the
  peer acknowledges (with any numbers), the driver polls.\<close>

datatype stream_op = AppWrite bytes | AppClose u32 | PeerAck nat nat nat | Poll nat

fun stream_step :: "stream_op \<Rightarrow> bytes \<times> stream_state \<Rightarrow> bytes \<times> stream_state" where
  "stream_step (AppWrite d) (w, s) = (w @ d, stream_write d s)"
| "stream_step (AppClose st) (w, s) = (w, stream_close st s)"
| "stream_step (PeerAck a win nw) (w, s) = (w, stream_on_ack a win nw s)"
| "stream_step (Poll nw) (w, s) = (w, snd (transmit nw [] s))"

definition stream_inv :: "bytes \<times> stream_state \<Rightarrow> bool" where
  "stream_inv p \<longleftrightarrow> send_ok (fst p) (snd p) \<and> cc_ok (snd p)"

lemma stream_close_ok [simp]:
  "send_ok w (stream_close st s) = send_ok w s" "cc_ok (stream_close st s) = cc_ok s"
  by (simp_all add: stream_close_def send_ok_def cc_ok_def)

lemma transmit_ok:
  assumes "send_ok w s" "cc_ok s"
  shows "send_ok w (snd (transmit nw out s))" "cc_ok (snd (transmit nw out s))"
    "same_stream s (snd (transmit nw out s))"
  using transmit_sends [OF assms] by (simp_all add: sends_def)

interpretation stream_run: invariant_machine stream_step stream_inv "\<lambda>_. True"
proof
  fix p i
  assume "stream_inv p"
  then show "stream_inv (stream_step i p)"
    by (cases p; cases i)
      (auto simp: stream_inv_def stream_on_ack_send_ok stream_on_ack_cc_ok intro: transmit_ok)
qed

lemma stream_inv_new: "stream_inv ([], stream_state_new sid kind meta no)"
  by (simp add: stream_inv_def)

lemma transmit_frames: "send_ok w s \<Longrightarrow> cc_ok s \<Longrightarrow> f \<in> set (fst (transmit nw [] s)) \<Longrightarrow> stream_frame w s f"
  using transmit_sends [of w s "[]" nw] by (auto simp: sends_def)

lemma stream_frame_data:
  assumes "stream_frame w s (StreamData i off d fin)" "send_ok w s" "length w < two64"
  shows "i = st_id s \<and> segment w (unat off) d \<and> length d \<le> MAX_STREAM_CHUNK \<and>
    send_base s \<le> unat off \<and> unat off + length d \<le> send_limit s \<and>
    (fin \<longrightarrow> send_fin s \<and> unat off + length d = length w)"
proof -
  obtain o' where o: "off = of_nat o'" "send_base s \<le> o'" "o' + length d \<le> send_limit s" "segment w o' d"
    "length d \<le> MAX_STREAM_CHUNK" "fin \<longrightarrow> send_fin s \<and> o' + length d = length w" "i = st_id s"
    using assms(1) by (auto simp: stream_frame_def data_from_def)
  moreover have "o' < two64"
    using o(4) assms(3) by (simp add: segment_def)
  ultimately show ?thesis by simp
qed

text \<open>The sender only ever sends what was written. After any sequence of writes, polls,
  closes and acknowledgements, even ones a hostile peer makes up, every data frame carries
  exactly the bytes written at its offset, in at most one MTU chunk, from data not yet
  acknowledged and, unless it was sent before, within both the peer's window and the congestion
  window; FIN is set only on the last byte of a closed stream.\<close>

theorem stream_sender_faithful:
  assumes "fold stream_step ops ([], stream_state_new sid kind meta no) = (w, s)"
    and "length w < two64"
    and "StreamData i off d fin \<in> set (fst (transmit nw [] s))"
  shows "i = st_id s \<and> take (length d) (drop (unat off) w) = d \<and> length d \<le> MAX_STREAM_CHUNK \<and>
    send_base s \<le> unat off \<and>
    (unat off + length d \<le> send_high s \<or>
     unat off + length d \<le> send_base s + min (peer_window s) (cwnd s)) \<and>
    (fin \<longrightarrow> send_fin s \<and> unat off + length d = length w)"
proof -
  have "stream_inv (w, s)"
    using stream_run.run_inv [OF stream_inv_new, of ops sid kind meta no] assms(1) by simp
  then have inv: "send_ok w s" "cc_ok s" by (simp_all add: stream_inv_def)
  show ?thesis
    using stream_frame_data [OF transmit_frames [OF inv assms(3)] inv(1) assms(2)]
    by (auto simp: segment_def send_limit_def max_def split: if_splits)
qed

definition stream_demo :: "bytes \<times> stream_state" where
  "stream_demo = fold stream_step [AppWrite [1, 2, 3], PeerAck 9 0 1, AppClose 0]
     ([], stream_state_new 4 Exec [] True)"

lemma stream_demo_sends: "StreamData 4 0 [1, 2, 3] True \<in> set (fst (transmit 1 [] (snd stream_demo)))"
  by (simp add: stream_demo_def stream_state_new_def stream_write_def stream_on_ack_def stream_close_def
      transmit_def transmit_open_def transmit_data_def transmit_ack_def transmit_close_def
      emit_range.simps stream_consts Let_def)

theorem stream_sender_faithful_witness:
  "4 = st_id (snd stream_demo) \<and> take (length [1, 2, 3 :: u8]) (drop (unat (0 :: u64)) (fst stream_demo)) = [1, 2, 3] \<and>
    length [1, 2, 3 :: u8] \<le> MAX_STREAM_CHUNK \<and> send_base (snd stream_demo) \<le> unat (0 :: u64) \<and>
    (unat (0 :: u64) + length [1, 2, 3 :: u8] \<le> send_high (snd stream_demo) \<or>
     unat (0 :: u64) + length [1, 2, 3 :: u8] \<le>
       send_base (snd stream_demo) + min (peer_window (snd stream_demo)) (cwnd (snd stream_demo))) \<and>
    send_fin (snd stream_demo) \<and> unat (0 :: u64) + length [1, 2, 3 :: u8] = length (fst stream_demo)"
proof -
  have run: "fold stream_step [AppWrite [1, 2, 3], PeerAck 9 0 1, AppClose 0]
      ([], stream_state_new 4 Exec [] True) = (fst stream_demo, snd stream_demo)"
    by (simp add: stream_demo_def)
  have "length (fst stream_demo) < two64"
    by (simp add: stream_demo_def two64_def)
  from stream_sender_faithful [OF run this stream_demo_sends] show ?thesis by blast
qed

text \<open>Congestion control stays in range. Whatever the application and the peer do, the
  congestion window lies between one segment and the receive window, the slow-start threshold
  between two segments and that window, and the retransmission timeout in \<open>[MIN_RTO, MAX_RTO]\<close>:
  no 32-bit sum of the estimators can push them out.\<close>

theorem congestion_bounds:
  "let s = snd (fold stream_step ops ([], stream_state_new sid kind meta no)) in
     MSS \<le> cwnd s \<and> cwnd s \<le> MAX_CWND \<and> 2 * MSS \<le> ssthresh s \<and> ssthresh s \<le> MAX_CWND \<and>
     MIN_RTO \<le> rto s \<and> rto s \<le> MAX_RTO"
  using stream_run.run_inv [OF stream_inv_new, of ops sid kind meta no]
  by (simp add: stream_inv_def cc_ok_def Let_def)

end
