(* ===== verification/StreamLink.thy ===== *)
theory StreamLink
  imports Stream
begin

text \<open>
  One direction of a stream end to end: the sending \<^verbatim>\<open>StreamState\<close>, the receiving one, and a
  network that may lose, repeat and reorder every frame. The steps are the operations of
  \<^verbatim>\<open>crates/transport/src/stream.rs\<close>; the invariant relates both ends to what the application
  wrote.
\<close>

record link =
  snd_st :: stream_state
  rcv_st :: stream_state
  written :: bytes
  got :: bytes
  data_net :: "frame set"
  ack_net :: "frame set"

definition link_new :: "stream_state \<Rightarrow> stream_state \<Rightarrow> link" where
  "link_new a b = \<lparr>snd_st = a, rcv_st = b, written = [], got = [], data_net = {}, ack_net = {}\<rparr>"

definition link_write :: "bytes \<Rightarrow> link \<Rightarrow> link" where
  "link_write d l = l\<lparr>snd_st := stream_write d (snd_st l), written := written l @ d\<rparr>"

definition link_close :: "u32 \<Rightarrow> link \<Rightarrow> link" where
  "link_close st l = l\<lparr>snd_st := stream_close st (snd_st l)\<rparr>"

definition link_poll_sender :: "nat \<Rightarrow> link \<Rightarrow> link" where
  "link_poll_sender nw l = l\<lparr>snd_st := snd (transmit nw [] (snd_st l)),
     data_net := data_net l \<union> set (fst (transmit nw [] (snd_st l)))\<rparr>"

definition link_poll_receiver :: "nat \<Rightarrow> link \<Rightarrow> link" where
  "link_poll_receiver nw l = l\<lparr>rcv_st := snd (transmit nw [] (rcv_st l)),
     ack_net := ack_net l \<union> set (fst (transmit nw [] (rcv_st l)))\<rparr>"

definition link_data :: "u64 \<Rightarrow> bytes \<Rightarrow> bool \<Rightarrow> link \<Rightarrow> link" where
  "link_data off d fin l = l\<lparr>rcv_st := snd (stream_on_data (unat off) d fin (rcv_st l))\<rparr>"

definition link_ack :: "u64 \<Rightarrow> u32 \<Rightarrow> nat \<Rightarrow> link \<Rightarrow> link" where
  "link_ack a win nw l = l\<lparr>snd_st := stream_on_ack (unat a) (unat win) nw (snd_st l)\<rparr>"

definition link_read :: "link \<Rightarrow> link" where
  "link_read l = l\<lparr>rcv_st := snd (stream_read (rcv_st l)), got := got l @ fst (stream_read (rcv_st l))\<rparr>"

lemmas link_ops = link_write_def link_close_def link_poll_sender_def link_poll_receiver_def
  link_data_def link_ack_def link_read_def

text \<open>The application does not write after closing, and writes fewer than $2^{64}$ bytes.\<close>

inductive link_step :: "link \<Rightarrow> link \<Rightarrow> bool" where
  app_write: "\<not> send_fin (snd_st l) \<Longrightarrow> length (written l) + length d < two64 \<Longrightarrow> link_step l (link_write d l)"
| app_close: "link_step l (link_close st l)"
| poll_sender: "link_step l (link_poll_sender nw l)"
| poll_receiver: "link_step l (link_poll_receiver nw l)"
| data_arrives: "StreamData i off d fin \<in> data_net l \<Longrightarrow> link_step l (link_data off d fin l)"
| ack_arrives: "StreamAck i a win \<in> ack_net l \<Longrightarrow> link_step l (link_ack a win nw l)"
| app_read: "link_step l (link_read l)"

definition link_reachable :: "link \<Rightarrow> bool" where
  "link_reachable l \<longleftrightarrow> (\<exists>sid kind meta.
     link_step\<^sup>*\<^sup>* (link_new (stream_state_new sid kind meta True) (stream_state_new sid kind meta False)) l)"

definition snd_inv :: "link \<Rightarrow> bool" where
  "snd_inv l \<longleftrightarrow> length (written l) < two64 \<and> send_ok (written l) (snd_st l) \<and> cc_ok (snd_st l) \<and>
     (\<forall>i off d fin. StreamData i off d fin \<in> data_net l \<longrightarrow> segment (written l) (unat off) d \<and>
        (fin \<longrightarrow> send_fin (snd_st l) \<and> unat off + length d = length (written l)))"

definition rcv_inv :: "link \<Rightarrow> bool" where
  "rcv_inv l \<longleftrightarrow> reasm_agrees (recv (rcv_st l)) (written l) \<and> rdelivered (recv (rcv_st l)) \<le> length (written l) \<and>
     got l = take (rdelivered (recv (rcv_st l))) (written l) \<and>
     (\<forall>n. peer_fin (rcv_st l) = Finished n \<longrightarrow> send_fin (snd_st l) \<and> n = length (written l)) \<and>
     send_ok [] (rcv_st l) \<and> cc_ok (rcv_st l)"

definition ack_inv :: "link \<Rightarrow> bool" where
  "ack_inv l \<longleftrightarrow> send_base (snd_st l) \<le> ack_point (recv (rcv_st l)) \<and>
     (\<forall>i a win. StreamAck i a win \<in> ack_net l \<longrightarrow> unat a \<le> ack_point (recv (rcv_st l)))"

definition link_inv :: "link \<Rightarrow> bool" where
  "link_inv l \<longleftrightarrow> snd_inv l \<and> rcv_inv l \<and> ack_inv l"

lemma link_inv_new:
  "link_inv (link_new (stream_state_new sid kind meta a) (stream_state_new sid kind meta b))"
  using reasm_agrees_new [of "[]"]
  by (simp add: link_inv_def link_new_def snd_inv_def rcv_inv_def ack_inv_def two64_def)
    (simp add: stream_state_new_def reassembler_new_def)

text \<open>The acknowledgement point never moves back.\<close>

lemma ack_point_held:
  assumes "reasm_ok r" "rdelivered r \<le> i" "i < ack_point r"
  shows "\<exists>b. held (segs r) i b"
proof -
  have "i - rdelivered r < length (fst (reasm_read r))"
    using assms(2,3) by (simp add: ack_point_read rdelivered_read)
  from read_held [OF assms(1) this] assms(2) show ?thesis by auto
qed

lemma ack_point_ge: "rdelivered r \<le> ack_point r"
  by (simp add: ack_point_read rdelivered_read)

lemma ack_point_mono:
  assumes ok: "reasm_ok r" "reasm_ok r'" and le: "rdelivered r \<le> rdelivered r'"
    and has: "\<And>i. reasm_has r i \<Longrightarrow> reasm_has r' i"
  shows "ack_point r \<le> ack_point r'"
proof (rule ccontr)
  assume c: "\<not> ack_point r \<le> ack_point r'"
  have "reasm_has r (ack_point r')"
    using c ack_point_held [OF ok(1), of "ack_point r'"] by (fastforce simp: reasm_has_def not_le)
  then have "reasm_has r' (ack_point r')" by (rule has)
  then show False
    using ack_point_gap [OF ok(2)] ack_point_ge [of r'] by (auto simp: reasm_has_def)
qed

lemma ack_point_insert: "reasm_ok r \<Longrightarrow> ack_point r \<le> ack_point (reasm_insert off d r)"
  by (rule ack_point_mono) (simp_all add: reasm_has_insert)

lemma ack_point_read_same:
  assumes "reasm_ok r"
  shows "ack_point (snd (reasm_read r)) = ack_point r"
proof (rule antisym)
  show "ack_point r \<le> ack_point (snd (reasm_read r))"
    by (rule ack_point_mono) (use assms in \<open>simp_all add: rdelivered_read reasm_has_read\<close>)
  show "ack_point (snd (reasm_read r)) \<le> ack_point r"
  proof (rule ccontr)
    assume "\<not> ack_point (snd (reasm_read r)) \<le> ack_point r"
    then have "\<exists>b. held (segs (snd (reasm_read r))) (ack_point r) b"
      using ack_point_held [of "snd (reasm_read r)" "ack_point r"] assms by (simp add: ack_point_read)
    then show False
      using assms ack_point_gap [OF assms] by (auto simp: held_read)
  qed
qed

lemma stream_read_frame:
  "recv (snd (stream_read s)) = snd (reasm_read (recv s))" "fst (stream_read s) = fst (reasm_read (recv s))"
  "peer_fin (snd (stream_read s)) = peer_fin s"
  "send_ok w (snd (stream_read s)) = send_ok w s" "cc_ok (snd (stream_read s)) = cc_ok s"
  by (simp_all add: stream_read_def case_prod_unfold send_ok_def cc_ok_def)

text \<open>A data frame is either ignored or inserted, and it can only set the FIN point once.\<close>

lemma stream_on_data_state:
  "snd (stream_on_data off d fin s) = s \<or>
   (off + length d < two64 \<and>
    snd (stream_on_data off d fin s) =
      s\<lparr>peer_fin := (if fin \<and> peer_fin s = Open then Finished (off + length d) else peer_fin s),
        recv := reasm_insert off d (recv s)\<rparr>)"
proof (cases "off + length d < two64 \<and> \<not> off > saturating_add64 (rdelivered (recv s)) DEFAULT_WINDOW")
  case True
  then show ?thesis by (simp add: stream_on_data_def checked_add64_def Let_def)
next
  case False
  then have "snd (stream_on_data off d fin s) = s" by (auto simp: stream_on_data_def checked_add64_def)
  then show ?thesis ..
qed

section \<open>The invariant is kept\<close>

lemma link_inv_write:
  assumes "link_inv l" "\<not> send_fin (snd_st l)" "length (written l) + length d < two64"
  shows "link_inv (link_write d l)"
proof -
  have nofin: "\<not> fin" if "StreamData i off e fin \<in> data_net l" for i off e fin
    using assms(1,2) that by (auto simp: link_inv_def snd_inv_def)
  have "peer_fin (rcv_st l) = Open"
    using assms(1,2) by (cases "peer_fin (rcv_st l)") (auto simp: link_inv_def rcv_inv_def)
  moreover have "reasm_agrees r (written l) \<Longrightarrow> reasm_agrees r (written l @ d)" for r
    by (fastforce simp: reasm_agrees_def nth_append)
  ultimately show ?thesis
    using assms nofin unfolding link_inv_def snd_inv_def rcv_inv_def ack_inv_def
    by (auto simp: link_write_def segment_extend stream_write_def [of d "snd_st l"] dest: nofin) (simp_all add: send_ok_def cc_ok_def)
qed

lemma link_inv_close:
  "link_inv l \<Longrightarrow> link_inv (link_close st l)"
  unfolding link_close_def
  by (auto simp: link_inv_def snd_inv_def rcv_inv_def ack_inv_def stream_close_def [of st "snd_st l"])
    (simp_all add: send_ok_def cc_ok_def)

lemma link_inv_poll_sender:
  assumes "link_inv l"
  shows "link_inv (link_poll_sender nw l)"
proof -
  have ok: "send_ok (written l) (snd_st l)" "cc_ok (snd_st l)" "length (written l) < two64"
    using assms by (simp_all add: link_inv_def snd_inv_def)
  have same: "send_fin (snd (transmit nw [] (snd_st l))) = send_fin (snd_st l)"
    "send_base (snd (transmit nw [] (snd_st l))) = send_base (snd_st l)"
    using transmit_ok(3) [OF ok(1,2)] by (simp_all add: same_stream_def)
  have "segment (written l) (unat off) d \<and> (fin \<longrightarrow> send_fin (snd_st l) \<and> unat off + length d = length (written l))"
    if "StreamData i off d fin \<in> set (fst (transmit nw [] (snd_st l)))" for i off d fin
    using stream_frame_data [OF transmit_frames [OF ok(1,2) that] ok(1,3)] by simp
  then show ?thesis
    using assms transmit_ok(1,2) [OF ok(1,2), of nw "[]"]
    by (auto simp: link_ops link_inv_def snd_inv_def rcv_inv_def ack_inv_def same)
qed

lemma link_inv_poll_receiver:
  assumes "link_inv l"
  shows "link_inv (link_poll_receiver nw l)"
proof -
  have ok: "send_ok [] (rcv_st l)" "cc_ok (rcv_st l)" and ag: "reasm_ok (recv (rcv_st l))"
    and lim: "rdelivered (recv (rcv_st l)) \<le> length (written l)" "length (written l) < two64"
    and bd: "reasm_below (length (written l)) (recv (rcv_st l))"
    using assms by (auto simp: link_inv_def rcv_inv_def snd_inv_def reasm_agrees_def reasm_below_def)
  have same: "recv (snd (transmit nw [] (rcv_st l))) = recv (rcv_st l)"
    "peer_fin (snd (transmit nw [] (rcv_st l))) = peer_fin (rcv_st l)"
    using transmit_ok(3) [OF ok] by (simp_all add: same_stream_def)
  have "ack_point (recv (rcv_st l)) < two64"
    using ack_point_bound [OF ag bd lim(1)] lim(2) by simp
  then have "unat a \<le> ack_point (recv (rcv_st l))"
    if "StreamAck i a win \<in> set (fst (transmit nw [] (rcv_st l)))" for i a win
    using transmit_frames [OF ok that] by (auto simp: stream_frame_def data_from_def)
  then show ?thesis
    using assms transmit_ok(1,2) [OF ok, of nw "[]"]
    by (auto simp: link_ops link_inv_def snd_inv_def rcv_inv_def ack_inv_def same)
qed

lemma link_inv_data:
  assumes inv: "link_inv l" and f: "StreamData i off d fin \<in> data_net l"
  shows "link_inv (link_data off d fin l)"
proof -
  let ?r = "recv (rcv_st l)"
  have seg: "segment (written l) (unat off) d"
    and fin: "fin \<longrightarrow> send_fin (snd_st l) \<and> unat off + length d = length (written l)"
    using inv f by (auto simp: link_inv_def snd_inv_def)
  have ag: "reasm_agrees ?r (written l)" using inv by (simp add: link_inv_def rcv_inv_def)
  then have le: "ack_point ?r \<le> ack_point (reasm_insert (unat off) d ?r)"
    by (intro ack_point_insert) (simp add: reasm_agrees_def)
  show ?thesis
  proof (cases "snd (stream_on_data (unat off) d fin (rcv_st l)) = rcv_st l")
    case True
    then show ?thesis using inv by (simp add: link_data_def)
  next
    case False
    then have s: "snd (stream_on_data (unat off) d fin (rcv_st l)) = (rcv_st l)
      \<lparr>peer_fin := (if fin \<and> peer_fin (rcv_st l) = Open then Finished (unat off + length d) else peer_fin (rcv_st l)),
        recv := reasm_insert (unat off) d ?r\<rparr>"
      using stream_on_data_state [of "unat off" d fin "rcv_st l"] by blast
    have "snd_inv (l\<lparr>rcv_st := snd (stream_on_data (unat off) d fin (rcv_st l))\<rparr>)"
      using inv by (simp add: link_inv_def snd_inv_def)
    moreover have "rcv_inv (l\<lparr>rcv_st := snd (stream_on_data (unat off) d fin (rcv_st l))\<rparr>)"
      using inv fin reasm_agrees_insert [OF ag seg] unfolding s
      by (simp add: link_inv_def rcv_inv_def send_ok_def cc_ok_def)
    moreover have "ack_inv (l\<lparr>rcv_st := snd (stream_on_data (unat off) d fin (rcv_st l))\<rparr>)"
      using inv le unfolding s by (fastforce simp: link_inv_def ack_inv_def)
    ultimately show ?thesis by (simp add: link_inv_def link_data_def)
  qed
qed

lemma link_inv_ack:
  assumes inv: "link_inv l" and f: "StreamAck i a win \<in> ack_net l"
  shows "link_inv (link_ack a win nw l)"
proof -
  have "unat a \<le> ack_point (recv (rcv_st l))" using inv f by (auto simp: link_inv_def ack_inv_def)
  then have "send_base (stream_on_ack (unat a) (unat win) nw (snd_st l)) \<le> ack_point (recv (rcv_st l))"
    using inv by (auto simp: stream_on_ack_base link_inv_def ack_inv_def)
  then show ?thesis
    using inv by (auto simp: link_ack_def link_inv_def snd_inv_def rcv_inv_def ack_inv_def
        stream_on_ack_send_ok stream_on_ack_cc_ok)
qed

lemma link_inv_read:
  assumes inv: "link_inv l"
  shows "link_inv (link_read l)"
proof -
  let ?r = "recv (rcv_st l)"
  have ag: "reasm_agrees ?r (written l)" "rdelivered ?r \<le> length (written l)"
    using inv by (simp_all add: link_inv_def rcv_inv_def)
  note seg = reasm_read_segment [OF ag]
  have "take (rdelivered ?r + length (fst (reasm_read ?r))) (written l) = take (rdelivered ?r) (written l) @ fst (reasm_read ?r)"
    by (rule take_append_segment [OF seg])
  moreover have "rdelivered ?r + length (fst (reasm_read ?r)) \<le> length (written l)"
    using seg by (simp add: segment_def)
  moreover have "reasm_ok ?r" using ag by (simp add: reasm_agrees_def)
  ultimately show ?thesis
    using inv reasm_agrees_read [OF ag(1)]
    by (auto simp: link_read_def link_inv_def snd_inv_def rcv_inv_def ack_inv_def stream_read_frame rdelivered_read
        ack_point_read_same)
qed

lemma link_inv_step: "link_step l l' \<Longrightarrow> link_inv l \<Longrightarrow> link_inv l'"
  by (induction rule: link_step.induct)
    (simp_all add: link_inv_write link_inv_close link_inv_poll_sender link_inv_poll_receiver
      link_inv_data link_inv_ack link_inv_read)

lemma link_inv_reachable: "link_reachable l \<Longrightarrow> link_inv l"
proof -
  have "link_step\<^sup>*\<^sup>* l0 l \<Longrightarrow> link_inv l0 \<Longrightarrow> link_inv l" for l0
    by (induction rule: rtranclp_induct) (auto intro: link_inv_step)
  then show "link_reachable l \<Longrightarrow> link_inv l"
    using link_inv_new by (auto simp: link_reachable_def)
qed


section \<open>Properties of a stream end to end\<close>

text \<open>C7: a stream delivers exactly what was written. In every reachable state, under any
  loss, repetition and reordering in both directions, the bytes the reader got are a prefix of
  the bytes written; the sender has discarded only bytes the receiver holds; and when the
  receiver reports the end of the stream, the writer has closed and every byte was read.\<close>

theorem stream_delivery_exact:
  assumes "link_reachable l"
  shows "got l = take (length (got l)) (written l) \<and>
    send_base (snd_st l) \<le> ack_point (recv (rcv_st l)) \<and>
    send_buf (snd_st l) = drop (send_base (snd_st l)) (written l) \<and>
    (recv_finished (rcv_st l) \<longrightarrow> send_fin (snd_st l) \<and> got l = written l)"
  using link_inv_reachable [OF assms]
  by (auto simp: link_inv_def snd_inv_def rcv_inv_def ack_inv_def send_ok_def recv_finished_def min_def
      split: half_state.splits)


section \<open>A lost FIN\<close>

text \<open>A run in which the FIN is lost: one byte goes through and is acknowledged, the sender
  closes, and the frames of that poll never arrive; the receiver's next poll acknowledges the
  same byte again.\<close>

definition demo_a0 :: stream_state where
  "demo_a0 = stream_state_new 0 Exec [] True"

definition demo_b0 :: stream_state where
  "demo_b0 = stream_state_new 0 Exec [] False"

definition demo_a1 :: stream_state where
  "demo_a1 = demo_a0\<lparr>needs_open := False, send_buf := [65], send_high := 1, send_next := 1,
     rto_start := Some 1, timed := Some (1, 1)\<rparr>"

definition demo_b1 :: stream_state where
  "demo_b1 = demo_b0\<lparr>recv := \<lparr>rdelivered = 0, segs = [(0, [65])]\<rparr>\<rparr>"

definition demo_a2 :: stream_state where
  "demo_a2 = demo_a1\<lparr>send_buf := [], send_base := 1, rto_start := None, timed := None,
     peer_window := 262143, srtt := 1, rto := 2, cwnd := 10241\<rparr>"

definition demo_a3 :: stream_state where
  "demo_a3 = demo_a2\<lparr>send_fin := True, close_status := Some 7, fin_sent := True, rto_start := Some 3\<rparr>"

lemmas demo_defs = demo_a0_def demo_b0_def demo_a1_def demo_b1_def demo_a2_def demo_a3_def
  stream_state_new_def stream_consts Let_def

lemmas transmit_defs = transmit_def transmit_open_def transmit_data_def transmit_ack_def transmit_close_def
  ack_point_def unread_def reassembler_new_def bt_empty_def

lemma demo_send: "transmit 1 [] (stream_write [65] demo_a0) =
    ([StreamOpen 0 Exec [], StreamData 0 0 [65] False, StreamAck 0 0 262144], demo_a1)"
  by (simp add: transmit_defs demo_defs stream_write_def emit_range.simps)

lemma demo_receive: "stream_on_data 0 [65] False demo_b0 = (True, demo_b1)"
proof -
  have "reasm_insert 0 [65] reassembler_new = \<lparr>rdelivered = 0, segs = [(0, [65])]\<rparr>"
    by (simp add: reasm_insert_def reassembler_new_def reasm_merge_def seg_hits_def bt_empty_def
        copy_slice_def Let_def)
  then show ?thesis
    by (simp add: stream_on_data_def checked_add64_def saturating_add64_def two64_def demo_defs
        ack_point_def reassembler_new_def bt_empty_def)
qed

lemma demo_acks: "transmit nw [] (demo_b1\<lparr>recv_window := w\<rparr>) = ([StreamAck 0 1 262143], demo_b1\<lparr>recv_window := 262143\<rparr>)"
  by (simp add: transmit_defs demo_defs)

lemma demo_acked: "stream_on_ack 1 262143 2 demo_a1 = demo_a2"
proof -
  have g: "grow_cwnd (Suc 0) s = s\<lparr>cwnd := 10241\<rparr>" if "cwnd s = 10240" "ssthresh s = 262144" for s
    using that by (simp add: grow_cwnd_def Let_def saturating_add32_def wrap32_def two32_def stream_consts)
  have r: "recompute_rto s = s\<lparr>rto := 8\<rparr>" if "srtt s = 0" for s
    using that by (simp add: recompute_rto_def stream_consts)
  have u: "update_rtt (Suc 0) s = s\<lparr>srtt := 1, rttvar := 0, rto := 2\<rparr>" if "srtt s = 0" for s
    using that by (simp add: update_rtt_def recompute_rto_def wrap32_def two32_def stream_consts)
  let ?a = "demo_a1\<lparr>peer_window := 262143\<rparr>"
  let ?b = "?a\<lparr>send_buf := [], send_base := 1, cwnd := 10241, rto_start := None\<rparr>"
  have "ack_progress 1 2 ?a = ?b"
    unfolding ack_progress_def by (simp add: Let_def demo_defs g r)
  moreover have "ack_sample 1 2 ?b = ?b\<lparr>srtt := 1, rttvar := 0, rto := 2, timed := None\<rparr>"
    unfolding ack_sample_def by (simp add: demo_defs u wrap32_def two32_def)
  ultimately show ?thesis
    by (simp add: stream_on_ack_def Let_def) (simp add: demo_defs)
qed

lemma demo_fin: "transmit 3 [] (stream_close 7 demo_a2) =
    ([StreamData 0 1 [] True, StreamAck 0 0 262144, StreamClose 0 7], demo_a3)"
  by (simp add: transmit_defs demo_defs stream_close_def rto_due_def)

lemma demo_false_ack: "stream_on_ack 1 262143 4 demo_a3 = demo_a3\<lparr>fin_acked := True\<rparr>"
  by (simp add: stream_on_ack_def ack_sample_def demo_defs)

lemma demo_silent: "fst (transmit nw [] (demo_a3\<lparr>fin_acked := True\<rparr>)) = [StreamAck 0 0 262144]"
  by (simp add: transmit_defs demo_defs)

lemmas demo_steps = demo_send [unfolded One_nat_def] demo_receive demo_acks demo_acked [unfolded One_nat_def]
  demo_fin demo_false_ack [unfolded One_nat_def]

definition link_demo :: link where
  "link_demo = link_ack 1 262143 4 (link_poll_receiver 2 (link_poll_sender 3 (link_close 7 (link_ack 1 262143 2
     (link_poll_receiver 1 (link_data 0 [65] False (link_poll_sender 1 (link_write [65]
       (link_new demo_a0 demo_b0)))))))))"

lemma link_demo_value:
  "link_demo = \<lparr>snd_st = demo_a3\<lparr>fin_acked := True\<rparr>, rcv_st = demo_b1\<lparr>recv_window := 262143\<rparr>,
     written = [65], got = [],
     data_net = {StreamOpen 0 Exec [], StreamData 0 0 [65] False, StreamAck 0 0 262144,
       StreamData 0 1 [] True, StreamClose 0 7},
     ack_net = {StreamAck 0 1 262143}\<rparr>"
proof -
  have b: "demo_b1 = demo_b1\<lparr>recv_window := recv_window demo_b1\<rparr>" by simp
  have acks: "transmit nw [] demo_b1 = ([StreamAck 0 1 262143], demo_b1\<lparr>recv_window := 262143\<rparr>)" for nw
    by (subst b, rule demo_acks)
  show ?thesis
    by (simp add: link_demo_def link_ops link_new_def demo_steps acks insert_commute)
qed

lemma link_demo_reachable: "link_reachable link_demo"
proof -
  let ?l1 = "link_poll_sender 1 (link_write [65] (link_new demo_a0 demo_b0))"
  let ?l2 = "link_poll_receiver 1 (link_data 0 [65] False ?l1)"
  let ?l3 = "link_poll_receiver 2 (link_poll_sender 3 (link_close 7 (link_ack 1 262143 2 ?l2)))"
  have "link_step (link_new demo_a0 demo_b0) (link_write [65] (link_new demo_a0 demo_b0))"
    by (rule app_write) (simp_all add: link_new_def demo_a0_def stream_state_new_def two64_def)
  moreover have "link_step (link_write [65] (link_new demo_a0 demo_b0)) ?l1" by (rule poll_sender)
  moreover have "link_step ?l1 (link_data 0 [65] False ?l1)"
    by (rule data_arrives [of 0]) (simp add: link_ops link_new_def demo_steps)
  moreover have "link_step (link_data 0 [65] False ?l1) ?l2" by (rule poll_receiver)
  moreover have acks: "StreamAck 0 1 262143 \<in> ack_net ?l2"
    using demo_acks [of 1 "recv_window demo_b1"] by (simp add: link_ops link_new_def demo_steps)
  then have "link_step ?l2 (link_ack 1 262143 2 ?l2)" by (rule ack_arrives)
  moreover have "link_step (link_ack 1 262143 2 ?l2) (link_close 7 (link_ack 1 262143 2 ?l2))" by (rule app_close)
  moreover have "link_step (link_close 7 (link_ack 1 262143 2 ?l2))
      (link_poll_sender 3 (link_close 7 (link_ack 1 262143 2 ?l2)))" by (rule poll_sender)
  moreover have "link_step (link_poll_sender 3 (link_close 7 (link_ack 1 262143 2 ?l2))) ?l3" by (rule poll_receiver)
  moreover have "link_step ?l3 link_demo"
    unfolding link_demo_def using acks by (intro ack_arrives [of 0]) (simp add: link_ops)
  ultimately have "link_step\<^sup>*\<^sup>* (link_new demo_a0 demo_b0) link_demo"
    by (meson rtranclp.rtrancl_into_rtrancl rtranclp.rtrancl_refl)
  then show ?thesis
    unfolding link_reachable_def demo_a0_def demo_b0_def by blast
qed

theorem stream_delivery_exact_witness:
  "got link_demo = take (length (got link_demo)) (written link_demo) \<and>
    send_base (snd_st link_demo) \<le> ack_point (recv (rcv_st link_demo)) \<and>
    send_buf (snd_st link_demo) = drop (send_base (snd_st link_demo)) (written link_demo) \<and>
    written link_demo = [65] \<and> send_base (snd_st link_demo) = 1"
  using stream_delivery_exact [OF link_demo_reachable] by (simp add: link_demo_value demo_defs)

text \<open>An acknowledgement of the data is taken for an acknowledgement of the FIN: once an empty
  FIN has been sent, any later \<^verbatim>\<open>StreamAck\<close> of all the data (the receiver sends one on every
  poll) sets \<open>fin_acked\<close>, after which neither the FIN nor the \<^verbatim>\<open>StreamClose\<close> is sent again,
  although the receiver has seen neither.\<close>

theorem lost_fin_not_resent:
  "\<exists>l. link_reachable l \<and> send_fin (snd_st l) \<and> fin_acked (snd_st l) \<and> peer_fin (rcv_st l) = Open \<and>
    \<not> close_received (rcv_st l) \<and>
    (\<forall>nw. fst (transmit nw [] (snd_st l)) = [StreamAck 0 0 262144])"
proof (intro exI conjI)
  show "link_reachable link_demo" by (rule link_demo_reachable)
  show "send_fin (snd_st link_demo)" "fin_acked (snd_st link_demo)" "peer_fin (rcv_st link_demo) = Open"
    "\<not> close_received (rcv_st link_demo)"
    by (simp_all add: link_demo_value demo_defs)
  show "\<forall>nw. fst (transmit nw [] (snd_st link_demo)) = [StreamAck 0 0 262144]"
    by (simp add: link_demo_value demo_silent)
qed

end
