(* ===== verification/RustStr.thy ===== *)
theory RustStr
  imports Prelude
begin

text \<open>
  What the code uses of Rust's strings. A \<^verbatim>\<open>String\<close> is a byte sequence in valid UTF-8;
  \<open>utf8_ok\<close> is the check of \<^verbatim>\<open>std::str::from_utf8\<close> (the well-formed byte sequences of the
  Unicode standard, table 3-7). Searching for an ASCII pattern in the bytes is searching for it
  in the characters. Also decimal formatting and \<^verbatim>\<open>str::parse::<u64>\<close>.
\<close>

section \<open>UTF-8\<close>

definition utf8_cont :: "u8 \<Rightarrow> bool" where
  "utf8_cont b \<longleftrightarrow> 0x80 \<le> b \<and> b \<le> 0xBF"

text \<open>One encoded character: what is left after it.\<close>

fun utf8_step :: "bytes \<Rightarrow> bytes option" where
  "utf8_step [] = None"
| "utf8_step (a # r) =
     (if a < 0x80 then Some r
      else if 0xC2 \<le> a \<and> a \<le> 0xDF then
        (case r of b # r' \<Rightarrow> if utf8_cont b then Some r' else None | _ \<Rightarrow> None)
      else if 0xE0 \<le> a \<and> a \<le> 0xEF then
        (case r of b # c # r' \<Rightarrow>
           if (if a = 0xE0 then 0xA0 \<le> b \<and> b \<le> 0xBF
               else if a = 0xED then 0x80 \<le> b \<and> b \<le> 0x9F
               else utf8_cont b) \<and> utf8_cont c then Some r' else None
         | _ \<Rightarrow> None)
      else if 0xF0 \<le> a \<and> a \<le> 0xF4 then
        (case r of b # c # d # r' \<Rightarrow>
           if (if a = 0xF0 then 0x90 \<le> b \<and> b \<le> 0xBF
               else if a = 0xF4 then 0x80 \<le> b \<and> b \<le> 0x8F
               else utf8_cont b) \<and> utf8_cont c \<and> utf8_cont d then Some r' else None
         | _ \<Rightarrow> None)
      else None)"

lemma utf8_step_shorter: "utf8_step s = Some r \<Longrightarrow> length r < length s"
  by (cases s) (auto split: if_splits list.splits)

lemma utf8_step_append: "utf8_step s = Some r \<Longrightarrow> utf8_step (s @ t) = Some (r @ t)"
  by (cases s) (auto split: if_splits list.splits)

function utf8_ok :: "bytes \<Rightarrow> bool" where
  "utf8_ok s = (if s = [] then True else case utf8_step s of None \<Rightarrow> False | Some r \<Rightarrow> utf8_ok r)"
  by pat_completeness auto
termination
  by (relation "measure length") (auto dest: utf8_step_shorter)

declare utf8_ok.simps [simp del]

lemma utf8_Nil [simp]: "utf8_ok []"
  by (simp add: utf8_ok.simps)

lemma utf8_ascii: "a < 0x80 \<Longrightarrow> utf8_ok (a # r) = utf8_ok r"
  by (subst utf8_ok.simps) simp

lemma utf8_append: "utf8_ok xs \<Longrightarrow> utf8_ok (xs @ ys) = utf8_ok ys"
proof (induction xs rule: utf8_ok.induct)
  case (1 xs)
  show ?case
  proof (cases "xs = []")
    case False
    with "1.prems" obtain r where r: "utf8_step xs = Some r" "utf8_ok r"
      by (subst (asm) utf8_ok.simps) (auto split: option.splits)
    have "utf8_ok (xs @ ys) = utf8_ok (r @ ys)"
      using False utf8_step_append [OF r(1)] by (subst utf8_ok.simps) simp
    then show ?thesis using "1.IH" [OF False r(1) r(2)] by simp
  qed simp
qed

lemma utf8_all_ascii: "\<forall>b \<in> set xs. b < 0x80 \<Longrightarrow> utf8_ok xs"
  by (induction xs) (simp_all add: utf8_ascii)


text \<open>\<^verbatim>\<open>String::from_utf8_lossy\<close>: every longest beginning of a character that goes wrong becomes one
  replacement character; \<open>utf8_bad\<close> is the length of that beginning.\<close>

fun utf8_bad :: "bytes \<Rightarrow> nat" where
  "utf8_bad [] = 0"
| "utf8_bad (a # r) =
     (let snd_ok = (case r of b # _ \<Rightarrow>
              (if a = 0xE0 then 0xA0 \<le> b \<and> b \<le> 0xBF
               else if a = 0xED then 0x80 \<le> b \<and> b \<le> 0x9F
               else if a = 0xF0 then 0x90 \<le> b \<and> b \<le> 0xBF
               else if a = 0xF4 then 0x80 \<le> b \<and> b \<le> 0x8F
               else utf8_cont b) | _ \<Rightarrow> False);
          trd_ok = (case r of _ # c # _ \<Rightarrow> utf8_cont c | _ \<Rightarrow> False)
      in if 0xE0 \<le> a \<and> a \<le> 0xEF then (if snd_ok then 2 else 1)
         else if 0xF0 \<le> a \<and> a \<le> 0xF4 then (if snd_ok then (if trd_ok then 3 else 2) else 1)
         else 1)"

function from_utf8_lossy :: "bytes \<Rightarrow> bytes" where
  "from_utf8_lossy s =
     (if s = [] then []
      else case utf8_step s of
        Some r \<Rightarrow> take (length s - length r) s @ from_utf8_lossy r
      | None \<Rightarrow> [0xEF, 0xBF, 0xBD] @ from_utf8_lossy (drop (utf8_bad s) s))"
  by pat_completeness auto
termination
proof (relation "measure length")
  show "(drop (utf8_bad s) s, s) \<in> measure length" if "s \<noteq> []" for s :: bytes
    using that by (cases s) (simp_all add: Let_def)
qed (auto dest: utf8_step_shorter)

declare from_utf8_lossy.simps [simp del]

lemma utf8_step_suffix: "utf8_step s = Some r \<Longrightarrow> \<exists>c. s = c @ r"
  by (cases s) (auto split: if_splits list.splits)

text \<open>Valid text is unchanged.\<close>

lemma from_utf8_lossy_valid: "utf8_ok s \<Longrightarrow> from_utf8_lossy s = s"
proof (induction s rule: utf8_ok.induct)
  case (1 s)
  show ?case
  proof (cases "s = []")
    case False
    with "1.prems" obtain r where r: "utf8_step s = Some r" "utf8_ok r"
      by (subst (asm) utf8_ok.simps) (auto split: option.splits)
    obtain c where "s = c @ r" using utf8_step_suffix [OF r(1)] by auto
    then show ?thesis using "1.IH" [OF False r] r(1) False by (subst from_utf8_lossy.simps) simp
  qed (simp add: from_utf8_lossy.simps)
qed

section \<open>Literals, prefixes and splits\<close>

text \<open>An ASCII literal as bytes.\<close>

definition asc :: "string \<Rightarrow> bytes" where
  "asc s = map (\<lambda>c. of_char c) s"

definition strip_prefix :: "bytes \<Rightarrow> bytes \<Rightarrow> bytes option" where
  "strip_prefix pre s = (if take (length pre) s = pre then Some (drop (length pre) s) else None)"

fun split_once :: "u8 \<Rightarrow> bytes \<Rightarrow> (bytes \<times> bytes) option" where
  "split_once c [] = None"
| "split_once c (b # bs) =
     (if b = c then Some ([], bs)
      else case split_once c bs of None \<Rightarrow> None | Some (l, r) \<Rightarrow> Some (b # l, r))"

lemma strip_prefix_append [simp]: "strip_prefix pre (pre @ s) = Some s"
  by (simp add: strip_prefix_def)

lemma strip_prefix_Some: "strip_prefix pre s = Some r \<longleftrightarrow> s = pre @ r"
proof
  assume "strip_prefix pre s = Some r"
  then have "take (length pre) s = pre" "drop (length pre) s = r"
    by (auto simp: strip_prefix_def split: if_splits)
  then show "s = pre @ r" by (metis append_take_drop_id)
qed simp

lemma split_once_append: "c \<notin> set l \<Longrightarrow> split_once c (l @ c # r) = Some (l, r)"
  by (induction l) auto

lemma split_once_Some: "split_once c s = Some (l, r) \<Longrightarrow> s = l @ c # r \<and> c \<notin> set l"
  by (induction s arbitrary: l r) (auto split: if_splits option.splits)


section \<open>Decimal numbers\<close>

fun dec_digits :: "nat \<Rightarrow> bytes" where
  "dec_digits n = (if n < 10 then [of_nat (48 + n)] else dec_digits (n div 10) @ [of_nat (48 + n mod 10)])"

declare dec_digits.simps [simp del]

definition is_digit :: "u8 \<Rightarrow> bool" where
  "is_digit b \<longleftrightarrow> 48 \<le> b \<and> b \<le> 57"

text \<open>\<^verbatim>\<open>"...".parse::<u64>()\<close>: an optional \<open>+\<close>, then at least one digit and nothing else,
  with a checked multiply and add. \<open>lim\<close> is one more than the largest value of the type.\<close>

fun parse_digits :: "nat \<Rightarrow> bytes \<Rightarrow> nat \<Rightarrow> nat option" where
  "parse_digits lim [] acc = Some acc"
| "parse_digits lim (b # bs) acc =
     (if is_digit b then
        (let v = acc * 10 + (unat b - 48) in if v < lim then parse_digits lim bs v else None)
      else None)"

definition parse_uint :: "nat \<Rightarrow> bytes \<Rightarrow> nat option" where
  "parse_uint lim s =
     (case s of
        [] \<Rightarrow> None
      | b # bs \<Rightarrow> if b = 43 then (if bs = [] then None else parse_digits lim bs 0)
                  else parse_digits lim s 0)"

lemma unat_u8: "m < 256 \<Longrightarrow> unat (of_nat m :: u8) = m"
  by (simp add: unat_of_nat take_bit_nat_def)

lemma unat_digit: "d < 10 \<Longrightarrow> unat (of_nat (48 + d) :: u8) = 48 + d"
  by (rule unat_u8) simp

lemma is_digit_of_nat: "d < 10 \<Longrightarrow> is_digit (of_nat (48 + d))"
  unfolding is_digit_def by (simp only: word_le_nat_alt unat_digit) simp

lemma dec_digits_digits: "\<forall>b \<in> set (dec_digits n). is_digit b"
proof (induction n rule: dec_digits.induct)
  case (1 n)
  have "is_digit (of_nat (48 + n))" if "n < 10" using that by (rule is_digit_of_nat)
  moreover have "is_digit (of_nat (48 + n mod 10))" by (rule is_digit_of_nat) simp
  ultimately show ?case using 1 by (subst dec_digits.simps) auto
qed

lemma parse_digits_append:
  "parse_digits lim (xs @ ys) acc = (case parse_digits lim xs acc of None \<Rightarrow> None | Some v \<Rightarrow> parse_digits lim ys v)"
  by (induction xs arbitrary: acc) (simp_all add: Let_def)

lemma parse_dec_digits: "n < lim \<Longrightarrow> parse_digits lim (dec_digits n) 0 = Some n"
proof (induction n rule: dec_digits.induct)
  case (1 n)
  show ?case
  proof (cases "n < 10")
    case True
    then show ?thesis
      using 1 is_digit_of_nat [OF True] unat_digit [OF True] by (subst dec_digits.simps) simp
  next
    case False
    have d: "is_digit (of_nat (48 + n mod 10))" "unat (of_nat (48 + n mod 10) :: u8) = 48 + n mod 10"
      by (rule is_digit_of_nat, simp, rule unat_digit, simp)
    have "parse_digits lim (dec_digits (n div 10)) 0 = Some (n div 10)"
      using 1 False by simp
    then show ?thesis
      using False d "1.prems" by (subst dec_digits.simps) (simp add: parse_digits_append)
  qed
qed

lemma dec_digits_nonempty: "dec_digits n \<noteq> []"
  by (subst dec_digits.simps) simp

lemma parse_uint_dec: "n < lim \<Longrightarrow> parse_uint lim (dec_digits n) = Some n"
proof -
  assume n: "n < lim"
  have "b \<noteq> 43" if "b \<in> set (dec_digits n)" for b
    using dec_digits_digits [of n] that by (auto simp: is_digit_def)
  then show ?thesis
    using parse_dec_digits [OF n] dec_digits_nonempty [of n]
    by (cases "dec_digits n") (auto simp: parse_uint_def)
qed

end
