(* ===== verification/Grid.thy ===== *)
theory Grid
  imports Prelude RustStr "HOL-Library.Monad_Syntax"
begin

text \<open>
  The authoritative screen, \<^verbatim>\<open>crates/term/src/cell.rs\<close> and \<^verbatim>\<open>crates/term/src/grid.rs\<close>: cells,
  cursor, pen, scroll region, alternate screen and every control function the emulator
  handles. A Rust panic (an index or a slice out of range) is \<open>None\<close>, so that the theorems
  can say that it does not happen. The escape-sequence parser is the vte crate: the events it
  hands to \<^verbatim>\<open>Perform\<close> are the datatype \<open>term_event\<close>. Display widths come from the
  unicode-width crate and are the parameter \<open>width\<close> (0 for \<^verbatim>\<open>None\<close>). A character is its
  code point.
\<close>

section \<open>Cells\<close>

datatype color = DefaultColor | Indexed u8 | Rgb u8 u8 u8

definition BOLD :: u8 where "BOLD = 1"
definition UNDERLINE :: u8 where "UNDERLINE = 2"
definition REVERSE :: u8 where "REVERSE = 4"
definition ITALIC :: u8 where "ITALIC = 8"
definition DIM :: u8 where "DIM = 16"
definition HIDDEN :: u8 where "HIDDEN = 32"
definition STRIKE :: u8 where "STRIKE = 64"
definition PREDICTED :: u8 where "PREDICTED = 128"

record cell =
  ch :: nat
  fg :: color
  bg :: color
  cflags :: u8

definition blank :: cell where
  "blank = \<lparr>ch = 32, fg = DefaultColor, bg = DefaultColor, cflags = 0\<rparr>"

definition is_blank :: "cell \<Rightarrow> bool" where
  "is_blank c = (c = blank)"


section \<open>The grid\<close>

record grid =
  g_rows :: nat
  g_cols :: nat
  g_cells :: "cell list"
  cursor_row :: nat
  cursor_col :: nat
  cursor_visible :: bool
  pen :: cell
  autowrap :: bool
  wrap_pending :: bool
  scroll_top :: nat
  scroll_bottom :: nat
  saved :: "(nat \<times> nat \<times> cell) option"
  alt_screen :: bool
  alt_saved :: "cell list option"
  responses :: bytes

definition grid_new :: "nat \<Rightarrow> nat \<Rightarrow> grid" where
  "grid_new r c =
     (let r = max r 1; c = max c 1
      in \<lparr>g_rows = r, g_cols = c, g_cells = replicate (r * c) blank, cursor_row = 0, cursor_col = 0,
          cursor_visible = True, pen = blank, autowrap = True, wrap_pending = False,
          scroll_top = 0, scroll_bottom = r - 1, saved = None, alt_screen = False, alt_saved = None,
          responses = []\<rparr>)"

definition take_responses :: "grid \<Rightarrow> bytes \<times> grid" where
  "take_responses g = (responses g, g\<lparr>responses := []\<rparr>)"

definition idx :: "grid \<Rightarrow> nat \<Rightarrow> nat \<Rightarrow> nat" where
  "idx g row col = row * g_cols g + col"

definition grid_cell :: "grid \<Rightarrow> nat \<Rightarrow> nat \<Rightarrow> cell" where
  "grid_cell g row col =
     (if row < g_rows g \<and> col < g_cols g then g_cells g ! idx g row col else blank)"

definition render_eq :: "grid \<Rightarrow> grid \<Rightarrow> bool" where
  "render_eq a b \<longleftrightarrow> g_rows a = g_rows b \<and> g_cols a = g_cols b \<and> g_cells a = g_cells b \<and>
     cursor_row a = cursor_row b \<and> cursor_col a = cursor_col b \<and> cursor_visible a = cursor_visible b"

text \<open>\<^verbatim>\<open>cells[i] = c\<close>, the loops over indices, and \<^verbatim>\<open>cells.copy_within(src..src + n, dst)\<close>.\<close>

definition put_at :: "nat \<Rightarrow> cell \<Rightarrow> cell list \<Rightarrow> cell list option" where
  "put_at i c cs = (if i < length cs then Some (cs[i := c]) else None)"

primrec opt_fold :: "('x \<Rightarrow> 's \<Rightarrow> 's option) \<Rightarrow> 'x list \<Rightarrow> 's \<Rightarrow> 's option" where
  "opt_fold f [] s = Some s"
| "opt_fold f (x # xs) s = do { s' \<leftarrow> f x s; opt_fold f xs s' }"

definition blank_cells :: "nat list \<Rightarrow> cell list \<Rightarrow> cell list option" where
  "blank_cells is cs = opt_fold (\<lambda>i cs. put_at i blank cs) is cs"

definition copy_within :: "nat \<Rightarrow> nat \<Rightarrow> nat \<Rightarrow> cell list \<Rightarrow> cell list option" where
  "copy_within src n dst cs =
     (if src + n \<le> length cs \<and> dst + n \<le> length cs
      then Some (copy_slice cs dst (take n (drop src cs))) else None)"

definition scroll_row_up :: "grid \<Rightarrow> nat \<Rightarrow> nat \<Rightarrow> cell list \<Rightarrow> cell list option" where
  "scroll_row_up g n r cs =
     (if r + n \<le> scroll_bottom g then copy_within (idx g (r + n) 0) (g_cols g) (idx g r 0) cs
      else blank_cells (map (\<lambda>c. idx g r 0 + c) [0..<g_cols g]) cs)"

definition scroll_up :: "nat \<Rightarrow> grid \<Rightarrow> grid option" where
  "scroll_up n g =
     (let n = min n (scroll_bottom g - scroll_top g + 1)
      in do { cs \<leftarrow> opt_fold (scroll_row_up g n) [scroll_top g..<scroll_bottom g + 1] (g_cells g);
              Some (g\<lparr>g_cells := cs\<rparr>) })"

definition scroll_row_down :: "grid \<Rightarrow> nat \<Rightarrow> nat \<Rightarrow> cell list \<Rightarrow> cell list option" where
  "scroll_row_down g n r cs =
     (if r \<ge> scroll_top g + n then copy_within (idx g (r - n) 0) (g_cols g) (idx g r 0) cs
      else blank_cells (map (\<lambda>c. idx g r 0 + c) [0..<g_cols g]) cs)"

definition scroll_down :: "nat \<Rightarrow> grid \<Rightarrow> grid option" where
  "scroll_down n g =
     (let n = min n (scroll_bottom g - scroll_top g + 1)
      in do { cs \<leftarrow> opt_fold (scroll_row_down g n) (rev [scroll_top g..<scroll_bottom g + 1]) (g_cells g);
              Some (g\<lparr>g_cells := cs\<rparr>) })"

definition line_feed :: "grid \<Rightarrow> grid option" where
  "line_feed g =
     (if cursor_row g = scroll_bottom g then scroll_up 1 g
      else if cursor_row g + 1 < g_rows g then Some (g\<lparr>cursor_row := cursor_row g + 1\<rparr>)
      else Some g)"

definition reverse_index :: "grid \<Rightarrow> grid option" where
  "reverse_index g =
     (if cursor_row g = scroll_top g then scroll_down 1 g
      else if cursor_row g > 0 then Some (g\<lparr>cursor_row := cursor_row g - 1\<rparr>)
      else Some g)"

definition move_to :: "nat \<Rightarrow> nat \<Rightarrow> grid \<Rightarrow> grid" where
  "move_to row col g = g\<lparr>cursor_row := min row (g_rows g - 1), cursor_col := min col (g_cols g - 1),
     wrap_pending := False\<rparr>"

definition put_wrap :: "grid \<Rightarrow> grid option" where
  "put_wrap g =
     (if wrap_pending g \<and> autowrap g
      then do { g' \<leftarrow> line_feed (g\<lparr>cursor_col := 0\<rparr>); Some (g'\<lparr>wrap_pending := False\<rparr>) }
      else Some g)"

definition put_fit :: "nat \<Rightarrow> grid \<Rightarrow> grid option" where
  "put_fit w g =
     (if w = 2 \<and> cursor_col g + 1 \<ge> g_cols g then
        do { g' \<leftarrow> (if autowrap g then line_feed (g\<lparr>cursor_col := 0\<rparr>)
                    else Some (g\<lparr>cursor_col := g_cols g - 2\<rparr>));
             Some (g'\<lparr>wrap_pending := False\<rparr>) }
      else Some g)"

definition put_glyph :: "nat \<Rightarrow> nat \<Rightarrow> grid \<Rightarrow> grid option" where
  "put_glyph w c g =
     (let r = cursor_row g; col = cursor_col g in
      do { cs \<leftarrow> put_at (idx g r col) ((pen g)\<lparr>ch := c\<rparr>) (g_cells g);
           if w = 2 then
             do { cs' \<leftarrow> put_at (idx g r (col + 1)) ((pen g)\<lparr>ch := 0\<rparr>) cs;
                  Some (if col + 2 < g_cols g then g\<lparr>g_cells := cs', cursor_col := col + 2\<rparr>
                        else if autowrap g then g\<lparr>g_cells := cs', wrap_pending := True\<rparr>
                        else g\<lparr>g_cells := cs', cursor_col := g_cols g - 1\<rparr>) }
           else
             Some (if cursor_col g + 1 < g_cols g then g\<lparr>g_cells := cs, cursor_col := cursor_col g + 1\<rparr>
                   else if autowrap g then g\<lparr>g_cells := cs, wrap_pending := True\<rparr>
                   else g\<lparr>g_cells := cs\<rparr>) })"

definition put_char :: "(nat \<Rightarrow> nat) \<Rightarrow> nat \<Rightarrow> grid \<Rightarrow> grid option" where
  "put_char width c g =
     (let w = width c in
      if w = 0 then Some g
      else do { g1 \<leftarrow> put_wrap g; g2 \<leftarrow> put_fit w g1; put_glyph w c g2 })"


section \<open>Erasing, inserting and deleting\<close>

definition set_cells :: "grid \<Rightarrow> cell list option \<Rightarrow> grid option" where
  "set_cells g r = do { cs \<leftarrow> r; Some (g\<lparr>g_cells := cs\<rparr>) }"

definition erase_in_display :: "nat \<Rightarrow> grid \<Rightarrow> grid option" where
  "erase_in_display mode g =
     (let at = idx g (cursor_row g) (cursor_col g); len = length (g_cells g) in
      if mode = 0 then (if at \<le> len then set_cells g (blank_cells [at..<len] (g_cells g)) else None)
      else if mode = 1 then (if at < len then set_cells g (blank_cells [0..<at + 1] (g_cells g)) else None)
      else set_cells g (blank_cells [0..<len] (g_cells g)))"

definition erase_in_line :: "nat \<Rightarrow> grid \<Rightarrow> grid option" where
  "erase_in_line mode g =
     (let row_start = idx g (cursor_row g) 0 in
      set_cells g (blank_cells (map (\<lambda>c. row_start + c)
        (if mode = 0 then [cursor_col g..<g_cols g]
         else if mode = 1 then [0..<cursor_col g + 1]
         else [0..<g_cols g])) (g_cells g)))"

text \<open>\<^verbatim>\<open>cells[i] = cells[j]\<close>.\<close>

definition copy_at :: "nat \<Rightarrow> nat \<Rightarrow> cell list \<Rightarrow> cell list option" where
  "copy_at i j cs = (if j < length cs then put_at i (cs ! j) cs else None)"

definition insert_blank_chars :: "nat \<Rightarrow> grid \<Rightarrow> grid option" where
  "insert_blank_chars n g =
     (let row_start = idx g (cursor_row g) 0; col = cursor_col g; n = min n (g_cols g - col) in
      set_cells g (opt_fold (\<lambda>c cs. if c \<ge> col + n then copy_at (row_start + c) (row_start + c - n) cs
                                     else put_at (row_start + c) blank cs)
        (rev [col..<g_cols g]) (g_cells g)))"

definition delete_chars :: "nat \<Rightarrow> grid \<Rightarrow> grid option" where
  "delete_chars n g =
     (let row_start = idx g (cursor_row g) 0; col = cursor_col g; n = min n (g_cols g - col) in
      set_cells g (opt_fold (\<lambda>c cs. if c + n < g_cols g then copy_at (row_start + c) (row_start + c + n) cs
                                     else put_at (row_start + c) blank cs)
        [col..<g_cols g] (g_cells g)))"

definition insert_lines :: "nat \<Rightarrow> grid \<Rightarrow> grid option" where
  "insert_lines n g =
     (if cursor_row g < scroll_top g \<or> cursor_row g > scroll_bottom g then Some g
      else do { g' \<leftarrow> scroll_down n (g\<lparr>scroll_top := cursor_row g\<rparr>);
                Some (g'\<lparr>scroll_top := scroll_top g\<rparr>) })"

definition delete_lines :: "nat \<Rightarrow> grid \<Rightarrow> grid option" where
  "delete_lines n g =
     (if cursor_row g < scroll_top g \<or> cursor_row g > scroll_bottom g then Some g
      else do { g' \<leftarrow> scroll_up n (g\<lparr>scroll_top := cursor_row g\<rparr>);
                Some (g'\<lparr>scroll_top := scroll_top g\<rparr>) })"


section \<open>Modes, colours and size\<close>

definition enter_alt_screen :: "grid \<Rightarrow> grid" where
  "enter_alt_screen g =
     (if \<not> alt_screen g then
        move_to 0 0 (g\<lparr>alt_screen := True, alt_saved := Some (g_cells g),
          g_cells := replicate (g_rows g * g_cols g) blank\<rparr>)
      else g)"

definition leave_alt_screen :: "grid \<Rightarrow> grid" where
  "leave_alt_screen g =
     (if alt_screen g then
        (case alt_saved g of
           Some main \<Rightarrow> g\<lparr>alt_screen := False, g_cells := main, alt_saved := None\<rparr>
         | None \<Rightarrow> g\<lparr>alt_screen := False\<rparr>)
      else g)"

definition set_private_mode :: "nat \<Rightarrow> bool \<Rightarrow> grid \<Rightarrow> grid" where
  "set_private_mode mode enable g =
     (if mode = 7 then g\<lparr>autowrap := enable\<rparr>
      else if mode = 25 then g\<lparr>cursor_visible := enable\<rparr>
      else if mode = 1049 \<or> mode = 47 \<or> mode = 1047 then
        (if enable then enter_alt_screen g else leave_alt_screen g)
      else g)"

text \<open>CSI parameters: groups of colon-separated 16-bit values. \<^verbatim>\<open>as u8\<close> keeps the low byte.\<close>

definition parse_ext_color :: "nat list \<Rightarrow> color option" where
  "parse_ext_color sub =
     (case sub of
        [] \<Rightarrow> None
      | k # _ \<Rightarrow>
          if k = 5 then (if 1 < length sub then Some (Indexed (of_nat (sub ! 1))) else None)
          else if k = 2 then
            (if length sub \<ge> 4
             then Some (Rgb (of_nat (sub ! (length sub - 3))) (of_nat (sub ! (length sub - 2)))
                            (of_nat (sub ! (length sub - 1))))
             else None)
          else None)"

definition group_first :: "nat list list \<Rightarrow> nat \<Rightarrow> nat option" where
  "group_first groups i =
     (if i < length groups then (case groups ! i of [] \<Rightarrow> None | v # _ \<Rightarrow> Some v) else None)"

definition sgr_color :: "bool \<Rightarrow> color \<Rightarrow> cell \<Rightarrow> cell" where
  "sgr_color is_fg c p = (if is_fg then p\<lparr>fg := c\<rparr> else p\<lparr>bg := c\<rparr>)"

definition unwrap_or :: "nat option \<Rightarrow> nat \<Rightarrow> nat" where
  "unwrap_or x d = (case x of Some v \<Rightarrow> v | None \<Rightarrow> d)"

text \<open>Codes 38 and 48: the new pen and how many further groups are consumed.\<close>

definition sgr_extended :: "nat list list \<Rightarrow> nat \<Rightarrow> bool \<Rightarrow> cell \<Rightarrow> cell \<times> nat" where
  "sgr_extended groups i is_fg p =
     (if length (groups ! i) \<ge> 2 then
        (case parse_ext_color (drop 1 (groups ! i)) of
           Some c \<Rightarrow> (sgr_color is_fg c p, 0)
         | None \<Rightarrow> (p, 0))
      else if group_first groups (i + 1) = Some 5 then
        (case group_first groups (i + 2) of
           Some n \<Rightarrow> (sgr_color is_fg (Indexed (of_nat n)) p, 2)
         | None \<Rightarrow> (p, 2))
      else if group_first groups (i + 1) = Some 2 then
        (sgr_color is_fg (Rgb (of_nat (unwrap_or (group_first groups (i + 2)) 0))
                              (of_nat (unwrap_or (group_first groups (i + 3)) 0))
                              (of_nat (unwrap_or (group_first groups (i + 4)) 0))) p, 4)
      else (p, 0))"

definition sgr_simple :: "nat \<Rightarrow> cell \<Rightarrow> cell" where
  "sgr_simple code p =
     (if code = 0 then blank
      else if code = 1 then p\<lparr>cflags := cflags p OR BOLD\<rparr>
      else if code = 2 then p\<lparr>cflags := cflags p OR DIM\<rparr>
      else if code = 3 then p\<lparr>cflags := cflags p OR ITALIC\<rparr>
      else if code = 4 then p\<lparr>cflags := cflags p OR UNDERLINE\<rparr>
      else if code = 7 then p\<lparr>cflags := cflags p OR REVERSE\<rparr>
      else if code = 8 then p\<lparr>cflags := cflags p OR HIDDEN\<rparr>
      else if code = 9 then p\<lparr>cflags := cflags p OR STRIKE\<rparr>
      else if code = 22 then p\<lparr>cflags := cflags p AND NOT (BOLD OR DIM)\<rparr>
      else if code = 23 then p\<lparr>cflags := cflags p AND NOT ITALIC\<rparr>
      else if code = 24 then p\<lparr>cflags := cflags p AND NOT UNDERLINE\<rparr>
      else if code = 27 then p\<lparr>cflags := cflags p AND NOT REVERSE\<rparr>
      else if code = 28 then p\<lparr>cflags := cflags p AND NOT HIDDEN\<rparr>
      else if code = 29 then p\<lparr>cflags := cflags p AND NOT STRIKE\<rparr>
      else if 30 \<le> code \<and> code \<le> 37 then p\<lparr>fg := Indexed (of_nat (code - 30))\<rparr>
      else if 90 \<le> code \<and> code \<le> 97 then p\<lparr>fg := Indexed (of_nat (code - 90 + 8))\<rparr>
      else if code = 39 then p\<lparr>fg := DefaultColor\<rparr>
      else if 40 \<le> code \<and> code \<le> 47 then p\<lparr>bg := Indexed (of_nat (code - 40))\<rparr>
      else if 100 \<le> code \<and> code \<le> 107 then p\<lparr>bg := Indexed (of_nat (code - 100 + 8))\<rparr>
      else if code = 49 then p\<lparr>bg := DefaultColor\<rparr>
      else p)"

function sgr_loop :: "nat list list \<Rightarrow> nat \<Rightarrow> cell \<Rightarrow> cell" where
  "sgr_loop groups i p =
     (if i < length groups then
        (let code = unwrap_or (group_first groups i) 0 in
         if code = 38 \<or> code = 48 then
           (case sgr_extended groups i (code = 38) p of (p', skip) \<Rightarrow> sgr_loop groups (i + skip + 1) p')
         else sgr_loop groups (i + 1) (sgr_simple code p))
      else p)"
  by pat_completeness auto
termination
  by (relation "measure (\<lambda>(groups, i, p). length groups - i)") auto

declare sgr_loop.simps [simp del]

definition set_sgr :: "nat list list \<Rightarrow> grid \<Rightarrow> grid" where
  "set_sgr groups g =
     (if groups = [] then g\<lparr>pen := blank\<rparr> else g\<lparr>pen := sgr_loop groups 0 (pen g)\<rparr>)"

text \<open>The overlapping top-left part of a screen of \<open>r0 * c0\<close> cells on one of \<open>r1 * c1\<close>.\<close>

definition resize_cells :: "nat \<Rightarrow> nat \<Rightarrow> nat \<Rightarrow> nat \<Rightarrow> cell list \<Rightarrow> cell list option" where
  "resize_cells r0 c0 r1 c1 old =
     opt_fold (\<lambda>(r, c) new. if r * c0 + c < length old then put_at (r * c1 + c) (old ! (r * c0 + c)) new else None)
       (List.product [0..<min r1 r0] [0..<min c1 c0]) (replicate (r1 * c1) blank)"

definition grid_resize :: "nat \<Rightarrow> nat \<Rightarrow> grid \<Rightarrow> grid option" where
  "grid_resize r c g =
     (let r = max r 1; c = max c 1 in
      do { new \<leftarrow> resize_cells (g_rows g) (g_cols g) r c (g_cells g);
           alt \<leftarrow> (case alt_saved g of
                     None \<Rightarrow> Some None
                   | Some a \<Rightarrow> do { na \<leftarrow> resize_cells (g_rows g) (g_cols g) r c a; Some (Some na) });
           Some (g\<lparr>alt_saved := alt, g_cells := new, g_rows := r, g_cols := c,
                   scroll_top := 0, scroll_bottom := r - 1,
                   cursor_row := min (cursor_row g) (r - 1), cursor_col := min (cursor_col g) (c - 1),
                   wrap_pending := False\<rparr>) })"


section \<open>Dispatch of parser events\<close>

text \<open>\<open>EvCsi params intermediates action\<close> carries the groups of 16-bit parameters.\<close>

datatype term_event =
    EvPrint nat
  | EvExecute u8
  | EvCsi "nat list list" bytes char
  | EvEsc u8

definition arg :: "nat list list \<Rightarrow> nat \<Rightarrow> nat \<Rightarrow> nat" where
  "arg params i d = (case group_first params i of None \<Rightarrow> d | Some v \<Rightarrow> if v = 0 then d else v)"

definition arg_raw :: "nat list list \<Rightarrow> nat \<Rightarrow> nat \<Rightarrow> nat" where
  "arg_raw params i d = unwrap_or (group_first params i) d"

text \<open>\<^verbatim>\<open>x as usize - 1\<close>, wrapping below zero.\<close>

definition sub1 :: "nat \<Rightarrow> nat" where
  "sub1 n = (if n = 0 then two64 - 1 else n - 1)"

definition execute :: "u8 \<Rightarrow> grid \<Rightarrow> grid option" where
  "execute b g =
     (if b = 0x0a \<or> b = 0x0b \<or> b = 0x0c then line_feed g
      else if b = 0x0d then Some (g\<lparr>cursor_col := 0, wrap_pending := False\<rparr>)
      else if b = 0x08 then
        Some (g\<lparr>cursor_col := (if cursor_col g > 0 then cursor_col g - 1 else cursor_col g),
               wrap_pending := False\<rparr>)
      else if b = 0x09 then
        Some (g\<lparr>cursor_col := min ((cursor_col g div 8 + 1) * 8) (g_cols g - 1)\<rparr>)
      else Some g)"

definition add_response :: "bytes \<Rightarrow> grid \<Rightarrow> grid" where
  "add_response bs g = g\<lparr>responses := responses g @ bs\<rparr>"

definition device_status :: "bool \<Rightarrow> nat \<Rightarrow> grid \<Rightarrow> grid" where
  "device_status private mode g =
     (if \<not> private \<and> mode = 5 then add_response (27 # asc ''[0n'') g
      else if mode = 6 then
        add_response (27 # asc ''['' @ (if private then asc ''?'' else []) @ dec_digits (cursor_row g + 1) @
          asc '';'' @ dec_digits (cursor_col g + 1) @ asc ''R'') g
      else g)"

definition set_scroll_region :: "nat list list \<Rightarrow> grid \<Rightarrow> grid" where
  "set_scroll_region params g =
     (let top = sub1 (arg params 0 1);
          bottom = sub1 (arg params 1 (g_rows g mod 65536))
      in if top < bottom \<and> bottom < g_rows g
         then move_to 0 0 (g\<lparr>scroll_top := top, scroll_bottom := bottom\<rparr>) else g)"

definition csi_cursor :: "nat list list \<Rightarrow> char \<Rightarrow> grid \<Rightarrow> grid option" where
  "csi_cursor params action g =
     (let n = arg params 0 1 in
      if action = CHR ''A'' then Some (g\<lparr>cursor_row := cursor_row g - n, wrap_pending := False\<rparr>)
      else if action = CHR ''B'' then
        Some (g\<lparr>cursor_row := min (cursor_row g + n) (g_rows g - 1), wrap_pending := False\<rparr>)
      else if action = CHR ''C'' then
        Some (g\<lparr>cursor_col := min (cursor_col g + n) (g_cols g - 1), wrap_pending := False\<rparr>)
      else if action = CHR ''D'' then Some (g\<lparr>cursor_col := cursor_col g - n, wrap_pending := False\<rparr>)
      else if action = CHR ''G'' then
        Some (g\<lparr>cursor_col := min (sub1 n) (g_cols g - 1), wrap_pending := False\<rparr>)
      else if action = CHR ''d'' then
        Some (g\<lparr>cursor_row := min (sub1 n) (g_rows g - 1), wrap_pending := False\<rparr>)
      else if action = CHR ''H'' \<or> action = CHR ''f'' then
        Some (move_to (sub1 n) (sub1 (arg params 1 1)) g)
      else None)"

definition csi_edit :: "nat list list \<Rightarrow> char \<Rightarrow> grid \<Rightarrow> grid option option" where
  "csi_edit params action g =
     (if action = CHR ''J'' then Some (erase_in_display (arg_raw params 0 0) g)
      else if action = CHR ''K'' then Some (erase_in_line (arg_raw params 0 0) g)
      else if action = CHR ''@'' then Some (insert_blank_chars (arg params 0 1) g)
      else if action = CHR ''P'' then Some (delete_chars (arg params 0 1) g)
      else if action = CHR ''L'' then Some (insert_lines (arg params 0 1) g)
      else if action = CHR ''M'' then Some (delete_lines (arg params 0 1) g)
      else if action = CHR ''S'' then Some (scroll_up (arg params 0 1) g)
      else if action = CHR ''T'' then Some (scroll_down (arg params 0 1) g)
      else None)"

definition csi_mode :: "nat list list \<Rightarrow> bytes \<Rightarrow> char \<Rightarrow> grid \<Rightarrow> grid" where
  "csi_mode params intermediates action g =
     (let private = (intermediates \<noteq> [] \<and> hd intermediates = 63) in
      if action = CHR ''r'' then set_scroll_region params g
      else if action = CHR ''m'' then set_sgr params g
      else if action = CHR ''h'' \<and> private then set_private_mode (arg_raw params 0 0) True g
      else if action = CHR ''l'' \<and> private then set_private_mode (arg_raw params 0 0) False g
      else if action = CHR ''n'' then device_status private (arg_raw params 0 0) g
      else if action = CHR ''c'' \<and> intermediates \<noteq> [] \<and> hd intermediates = 62
        then add_response (27 # asc ''[>0;0;0c'') g
      else if action = CHR ''c'' \<and> intermediates = [] then add_response (27 # asc ''[?1;2c'') g
      else g)"

text \<open>The three tables together are the \<^verbatim>\<open>match action\<close> of \<^verbatim>\<open>csi_dispatch\<close>: an action of
  the first two does not reach the third.\<close>

definition csi_dispatch :: "nat list list \<Rightarrow> bytes \<Rightarrow> char \<Rightarrow> grid \<Rightarrow> grid option" where
  "csi_dispatch params intermediates action g =
     (case csi_cursor params action g of
        Some g' \<Rightarrow> Some g'
      | None \<Rightarrow>
          (case csi_edit params action g of
             Some r \<Rightarrow> r
           | None \<Rightarrow> Some (csi_mode params intermediates action g)))"

definition esc_dispatch :: "u8 \<Rightarrow> grid \<Rightarrow> grid option" where
  "esc_dispatch b g =
     (if b = 68 then line_feed g
      else if b = 77 then reverse_index g
      else if b = 69 then line_feed (g\<lparr>cursor_col := 0\<rparr>)
      else if b = 55 then Some (g\<lparr>saved := Some (cursor_row g, cursor_col g, pen g)\<rparr>)
      else if b = 56 then
        (case saved g of
           Some (r, c, p) \<Rightarrow> Some (g\<lparr>cursor_row := min r (g_rows g - 1),
             cursor_col := min c (g_cols g - 1), pen := p\<rparr>)
         | None \<Rightarrow> Some g)
      else if b = 99 then Some (grid_new (g_rows g) (g_cols g))
      else Some g)"

fun perform :: "(nat \<Rightarrow> nat) \<Rightarrow> term_event \<Rightarrow> grid \<Rightarrow> grid option" where
  "perform width (EvPrint c) g = put_char width c g"
| "perform width (EvExecute b) g = execute b g"
| "perform width (EvCsi params intermediates action) g = csi_dispatch params intermediates action g"
| "perform width (EvEsc b) g = esc_dispatch b g"

text \<open>\<^verbatim>\<open>Terminal::advance\<close>: the vte parser, a parameter with its state of type \<open>'p\<close>, turns
  bytes into events; the grid performs them in order.\<close>

record 'p terminal =
  parser :: 'p
  tgrid :: grid

definition terminal_new :: "'p \<Rightarrow> nat \<Rightarrow> nat \<Rightarrow> 'p terminal" where
  "terminal_new p r c = \<lparr>parser = p, tgrid = grid_new r c\<rparr>"

definition terminal_advance ::
  "('p \<Rightarrow> bytes \<Rightarrow> term_event list \<times> 'p) \<Rightarrow> (nat \<Rightarrow> nat) \<Rightarrow> bytes \<Rightarrow> 'p terminal \<Rightarrow> 'p terminal option" where
  "terminal_advance vte width bs t =
     (case vte (parser t) bs of (evs, p) \<Rightarrow>
        do { g \<leftarrow> opt_fold (perform width) evs (tgrid t); Some (t\<lparr>parser := p, tgrid := g\<rparr>) })"

definition terminal_resize :: "nat \<Rightarrow> nat \<Rightarrow> 'p terminal \<Rightarrow> 'p terminal option" where
  "terminal_resize r c t = do { g \<leftarrow> grid_resize r c (tgrid t); Some (t\<lparr>tgrid := g\<rparr>) }"

end
