(* ===== verification/GridSafe.thy ===== *)
theory GridSafe
  imports Grid
begin

text \<open>
  The terminal emulator neither panics nor leaves its well-formed states: every event of the
  parser, every resize and every sequence of them keeps the screen invariant. The one
  exception is a double-width character on a one-column screen, which the theorems exclude and
  \<open>wide_char_one_column_panics\<close> exhibits.
\<close>

section \<open>Well-formed grids\<close>

definition grid_wf :: "grid \<Rightarrow> bool" where
  "grid_wf g \<longleftrightarrow> 0 < g_rows g \<and> 0 < g_cols g \<and> length (g_cells g) = g_rows g * g_cols g \<and>
     cursor_row g < g_rows g \<and> cursor_col g < g_cols g \<and>
     scroll_top g \<le> scroll_bottom g \<and> scroll_bottom g < g_rows g \<and>
     (\<forall>a. alt_saved g = Some a \<longrightarrow> length a = g_rows g * g_cols g)"

lemma grid_wfD:
  assumes "grid_wf g"
  shows "0 < g_rows g" "0 < g_cols g" "length (g_cells g) = g_rows g * g_cols g"
    "cursor_row g < g_rows g" "cursor_col g < g_cols g" "scroll_top g \<le> scroll_bottom g"
    "scroll_bottom g < g_rows g" "alt_saved g = Some a \<Longrightarrow> length a = g_rows g * g_cols g"
  using assms by (simp_all add: grid_wf_def)

lemma grid_wf_new [simp]: "grid_wf (grid_new r c)"
  by (auto simp: grid_wf_def grid_new_def Let_def less_max_iff_disj)

lemma cell_in_range:
  assumes "r < n" "c < m"
  shows "r * m + c < n * (m :: nat)"
proof -
  have "r * m + c < Suc r * m" using assms(2) by simp
  also have "\<dots> \<le> n * m" using assms(1) by (intro mult_le_mono1) simp
  finally show ?thesis .
qed

lemma row_in_range:
  assumes "r < n"
  shows "r * m + m \<le> n * (m :: nat)"
proof -
  have "r * m + m = Suc r * m" by simp
  also have "\<dots> \<le> n * m" using assms by (intro mult_le_mono1) simp
  finally show ?thesis .
qed

text \<open>\<open>keeps_length f\<close>: on a screen of \<open>n\<close> cells, \<open>f\<close> does not panic and keeps the size.\<close>

definition keeps_length :: "nat \<Rightarrow> (cell list \<Rightarrow> cell list option) \<Rightarrow> bool" where
  "keeps_length n f \<longleftrightarrow> (\<forall>cs. length cs = n \<longrightarrow> (\<exists>cs'. f cs = Some cs' \<and> length cs' = n))"

named_theorems keeps \<open>cell operations that keep the size of the screen\<close>

lemma keeps_lengthE:
  assumes "keeps_length n f" "length cs = n"
  obtains cs' where "f cs = Some cs'" "length cs' = n"
  using assms by (auto simp: keeps_length_def)

lemma keeps_put_at [keeps]: "i < n \<Longrightarrow> keeps_length n (put_at i c)"
  by (simp add: keeps_length_def put_at_def)

lemma keeps_copy_at [keeps]: "i < n \<Longrightarrow> j < n \<Longrightarrow> keeps_length n (copy_at i j)"
  by (simp add: keeps_length_def copy_at_def put_at_def)

lemma keeps_copy_within [keeps]: "src + k \<le> n \<Longrightarrow> dst + k \<le> n \<Longrightarrow> keeps_length n (copy_within src k dst)"
  by (simp add: keeps_length_def copy_within_def)

lemma keeps_opt_fold [keeps]: "(\<And>x. x \<in> set xs \<Longrightarrow> keeps_length n (f x)) \<Longrightarrow> keeps_length n (opt_fold f xs)"
proof (induction xs)
  case (Cons x xs)
  then have f: "keeps_length n (f x)" "keeps_length n (opt_fold f xs)" by simp_all
  show ?case
    unfolding keeps_length_def
  proof (intro allI impI)
    fix cs :: "cell list"
    assume "length cs = n"
    then obtain cs' where "f x cs = Some cs'" "length cs' = n" by (rule keeps_lengthE [OF f(1)])
    moreover obtain cs'' where "opt_fold f xs cs' = Some cs''" "length cs'' = n"
      using keeps_lengthE [OF f(2) calculation(2)] .
    ultimately show "\<exists>cs'. opt_fold f (x # xs) cs = Some cs' \<and> length cs' = n" by simp
  qed
qed (simp add: keeps_length_def)

lemma keeps_blank_cells [keeps]: "(\<And>i. i \<in> set is \<Longrightarrow> i < n) \<Longrightarrow> keeps_length n (blank_cells is)"
proof -
  assume "\<And>i. i \<in> set is \<Longrightarrow> i < n"
  then have "keeps_length n (opt_fold (\<lambda>i cs. put_at i blank cs) is)"
    by (intro keeps) simp_all
  then show ?thesis by (simp add: keeps_length_def blank_cells_def)
qed

lemma keeps_scroll_row:
  assumes "g_cols g * g_rows g = n" "r < g_rows g" "scroll_bottom g < g_rows g"
  shows "keeps_length n (scroll_row_up g k r)" "keeps_length n (scroll_row_down g k r)"
proof -
  have row: "q * g_cols g + g_cols g \<le> n" if "q < g_rows g" for q
    using row_in_range [OF that, of "g_cols g"] assms(1) by (simp add: mult.commute)
  have bl: "keeps_length n (blank_cells (map (\<lambda>c. idx g r 0 + c) [0..<g_cols g]))"
    using row [OF assms(2)] by (intro keeps) (auto simp: idx_def)
  show "keeps_length n (scroll_row_up g k r)"
  proof (cases "r + k \<le> scroll_bottom g")
    case True
    then have "keeps_length n (copy_within (idx g (r + k) 0) (g_cols g) (idx g r 0))"
      using row [of "r + k"] row [OF assms(2)] assms(3) by (intro keeps) (auto simp: idx_def)
    with True show ?thesis by (simp add: scroll_row_up_def [abs_def])
  next
    case False
    with bl show ?thesis by (simp add: scroll_row_up_def [abs_def])
  qed
  show "keeps_length n (scroll_row_down g k r)"
  proof (cases "r \<ge> scroll_top g + k")
    case True
    then have "keeps_length n (copy_within (idx g (r - k) 0) (g_cols g) (idx g r 0))"
      using row [of "r - k"] row [OF assms(2)] assms(2) by (intro keeps) (auto simp: idx_def)
    with True show ?thesis by (simp add: scroll_row_down_def [abs_def])
  next
    case False
    with bl show ?thesis by (simp add: scroll_row_down_def [abs_def])
  qed
qed


section \<open>Every operation is safe\<close>

text \<open>\<open>safe g r\<close>: the operation did not panic and gave a well-formed screen of the same size.\<close>

definition safe :: "grid \<Rightarrow> grid option \<Rightarrow> bool" where
  "safe g r \<longleftrightarrow> (\<exists>g'. r = Some g' \<and> grid_wf g' \<and> g_rows g' = g_rows g \<and> g_cols g' = g_cols g)"

lemma safeE:
  assumes "safe g r"
  obtains g' where "r = Some g'" "grid_wf g'" "g_rows g' = g_rows g" "g_cols g' = g_cols g"
  using assms by (auto simp: safe_def)

lemma safe_Some [simp]: "safe g (Some g') \<longleftrightarrow> grid_wf g' \<and> g_rows g' = g_rows g \<and> g_cols g' = g_cols g"
  by (simp add: safe_def)

lemma safe_size: "safe g r \<Longrightarrow> g_rows g = g_rows h \<Longrightarrow> g_cols g = g_cols h \<Longrightarrow> safe h r"
  by (auto simp: safe_def)

lemma safe_bind:
  assumes "safe g r" "\<And>g'. grid_wf g' \<Longrightarrow> g_rows g' = g_rows g \<Longrightarrow> g_cols g' = g_cols g \<Longrightarrow> safe g (f g')"
  shows "safe g (Option.bind r f)"
  using assms by (auto simp: safe_def)

lemma safe_set_cells:
  assumes "grid_wf g" "keeps_length (g_rows g * g_cols g) f"
  shows "safe g (set_cells g (f (g_cells g)))"
proof -
  obtain cs where "f (g_cells g) = Some cs" "length cs = g_rows g * g_cols g"
    using keeps_lengthE [OF assms(2)] grid_wfD(3) [OF assms(1)] by blast
  then show ?thesis using assms(1) by (simp add: set_cells_def grid_wf_def)
qed

lemma wf_cursor:
  "grid_wf g \<Longrightarrow> r < g_rows g \<Longrightarrow> c < g_cols g \<Longrightarrow> grid_wf (g\<lparr>cursor_row := r, cursor_col := c, wrap_pending := b\<rparr>)"
  by (simp add: grid_wf_def)

lemma scroll_up_alt:
  "scroll_up n g = set_cells g (opt_fold (scroll_row_up g (min n (scroll_bottom g - scroll_top g + 1)))
     [scroll_top g..<scroll_bottom g + 1] (g_cells g))"
  by (simp add: scroll_up_def set_cells_def Let_def)

lemma scroll_down_alt:
  "scroll_down n g = set_cells g (opt_fold (scroll_row_down g (min n (scroll_bottom g - scroll_top g + 1)))
     (rev [scroll_top g..<scroll_bottom g + 1]) (g_cells g))"
  by (simp add: scroll_down_def set_cells_def Let_def)

lemma safe_scroll_up: "grid_wf g \<Longrightarrow> safe g (scroll_up n g)"
  unfolding scroll_up_alt
  by (intro safe_set_cells keeps keeps_scroll_row) (auto dest: grid_wfD simp: mult.commute)

lemma safe_scroll_down: "grid_wf g \<Longrightarrow> safe g (scroll_down n g)"
  unfolding scroll_down_alt
  by (intro safe_set_cells keeps keeps_scroll_row) (auto dest: grid_wfD simp: mult.commute)

lemma safe_line_feed: "grid_wf g \<Longrightarrow> safe g (line_feed g)"
  by (auto simp: line_feed_def safe_scroll_up) (simp add: grid_wf_def)

lemma safe_reverse_index: "grid_wf g \<Longrightarrow> safe g (reverse_index g)"
  by (auto simp: reverse_index_def safe_scroll_down) (auto simp: grid_wf_def)

lemma wf_move_to [simp]: "grid_wf g \<Longrightarrow> grid_wf (move_to r c g)"
  by (auto simp: grid_wf_def move_to_def)

lemma move_to_size [simp]: "g_rows (move_to r c g) = g_rows g" "g_cols (move_to r c g) = g_cols g"
  by (simp_all add: move_to_def)

lemma wf_update [simp]:
  "grid_wf (g\<lparr>wrap_pending := b\<rparr>) = grid_wf g" "grid_wf (g\<lparr>pen := p\<rparr>) = grid_wf g"
  "grid_wf (g\<lparr>autowrap := b\<rparr>) = grid_wf g" "grid_wf (g\<lparr>cursor_visible := b\<rparr>) = grid_wf g"
  "grid_wf (g\<lparr>responses := bs\<rparr>) = grid_wf g" "grid_wf (g\<lparr>saved := s\<rparr>) = grid_wf g"
  by (simp_all add: grid_wf_def)

lemma wf_col [simp]: "grid_wf g \<Longrightarrow> c < g_cols g \<Longrightarrow> grid_wf (g\<lparr>cursor_col := c\<rparr>)"
  by (simp add: grid_wf_def)

lemma wf_row [simp]: "grid_wf g \<Longrightarrow> r < g_rows g \<Longrightarrow> grid_wf (g\<lparr>cursor_row := r\<rparr>)"
  by (simp add: grid_wf_def)

lemma wf_clamped [simp]:
  assumes "grid_wf g"
  shows "min r (g_rows g - Suc 0) < g_rows g" "min c (g_cols g - Suc 0) < g_cols g"
    "cursor_row g - k < g_rows g" "cursor_col g - k < g_cols g"
  using assms by (auto simp: grid_wf_def)

lemma safe_put_wrap: "grid_wf g \<Longrightarrow> safe g (put_wrap g)"
proof -
  assume wf: "grid_wf g"
  have "safe g (line_feed (g\<lparr>cursor_col := 0\<rparr>))"
    using safe_line_feed [of "g\<lparr>cursor_col := 0\<rparr>"] wf grid_wfD(2) [OF wf]
    by (auto intro: safe_size)
  then show ?thesis using wf by (auto simp: put_wrap_def intro: safe_bind)
qed

text \<open>A double-width character needs two columns.\<close>

lemma safe_put_fit: "grid_wf g \<Longrightarrow> safe g (put_fit w g)"
proof -
  assume wf: "grid_wf g"
  have "safe g (line_feed (g\<lparr>cursor_col := 0\<rparr>))"
    using safe_line_feed [of "g\<lparr>cursor_col := 0\<rparr>"] wf grid_wfD(2) [OF wf]
    by (auto intro: safe_size)
  moreover have "safe g (Some (g\<lparr>cursor_col := g_cols g - 2\<rparr>))"
    using wf grid_wfD(2) [OF wf] by simp
  ultimately show ?thesis using wf by (auto simp: put_fit_def intro!: safe_bind)
qed

lemma line_feed_col: "line_feed g = Some g' \<Longrightarrow> cursor_col g' = cursor_col g \<and> g_cols g' = g_cols g"
  by (auto simp: line_feed_def scroll_up_def Let_def split: if_splits bind_splits)

lemma put_fit_room:
  assumes "put_fit 2 g = Some g'" "2 \<le> g_cols g"
  shows "cursor_col g' + 1 < g_cols g'"
  using assms
  by (auto simp: put_fit_def split: if_splits bind_splits dest: line_feed_col)

lemma put_at_length: "put_at i c cs = Some cs' \<Longrightarrow> length cs' = length cs"
  by (auto simp: put_at_def split: if_splits)

lemma safe_put_glyph:
  assumes wf: "grid_wf g" and room: "w = 2 \<Longrightarrow> cursor_col g + 1 < g_cols g"
  shows "safe g (put_glyph w c g)"
proof -
  let ?n = "g_rows g * g_cols g"
  have i: "idx g (cursor_row g) (cursor_col g) < ?n"
    unfolding idx_def using wf by (intro cell_in_range) (simp_all add: grid_wf_def)
  then obtain cs where cs: "put_at (idx g (cursor_row g) (cursor_col g)) ((pen g)\<lparr>ch := c\<rparr>) (g_cells g) = Some cs"
    "length cs = ?n"
    using keeps_lengthE [OF keeps_put_at] grid_wfD(3) [OF wf] by blast
  show ?thesis
  proof (cases "w = 2")
    case True
    have "idx g (cursor_row g) (cursor_col g + 1) < ?n"
      unfolding idx_def using wf room [OF True] by (intro cell_in_range) (simp_all add: grid_wf_def)
    then obtain cs' where "put_at (idx g (cursor_row g) (cursor_col g + 1)) ((pen g)\<lparr>ch := 0\<rparr>) cs = Some cs'"
      "length cs' = ?n"
      using keeps_lengthE [OF keeps_put_at cs(2)] by blast
    then show ?thesis
      using cs(1) wf True by (simp add: put_glyph_def Let_def grid_wf_def)
  next
    case False
    then show ?thesis
      using cs wf by (simp add: put_glyph_def Let_def grid_wf_def)
  qed
qed

lemma safe_put_char:
  assumes wf: "grid_wf g" and two: "width c = 2 \<Longrightarrow> 2 \<le> g_cols g"
  shows "safe g (put_char width c g)"
proof (cases "width c = 0")
  case True
  then show ?thesis using wf by (simp add: put_char_def)
next
  case False
  obtain g1 where g1: "put_wrap g = Some g1" "grid_wf g1" "g_rows g1 = g_rows g" "g_cols g1 = g_cols g"
    using safe_put_wrap [OF wf] by (rule safeE)
  obtain g2 where g2: "put_fit (width c) g1 = Some g2" "grid_wf g2" "g_rows g2 = g_rows g1" "g_cols g2 = g_cols g1"
    using safe_put_fit [OF g1(2)] by (rule safeE)
  have "width c = 2 \<Longrightarrow> cursor_col g2 + 1 < g_cols g2"
    using put_fit_room g1 g2 two by metis
  then have "safe g2 (put_glyph (width c) c g2)" by (rule safe_put_glyph [OF g2(2)])
  then show ?thesis
    using False g1 g2 by (auto simp: put_char_def Let_def intro: safe_size)
qed

lemma safe_erase_in_display:
  assumes "grid_wf g"
  shows "safe g (erase_in_display mode g)"
proof -
  have "idx g (cursor_row g) (cursor_col g) < g_rows g * g_cols g"
    unfolding idx_def using assms by (intro cell_in_range) (simp_all add: grid_wf_def)
  then show ?thesis
    using assms grid_wfD(3) [OF assms] unfolding erase_in_display_def Let_def
    by (auto intro!: safe_set_cells keeps)
qed

lemma safe_erase_in_line:
  assumes "grid_wf g"
  shows "safe g (erase_in_line mode g)"
proof -
  have "idx g (cursor_row g) 0 + g_cols g \<le> g_rows g * g_cols g"
    using row_in_range [OF grid_wfD(4) [OF assms]] by (simp add: idx_def)
  then show ?thesis
    using assms grid_wfD(5) [OF assms] unfolding erase_in_line_def Let_def
    by (intro safe_set_cells keeps) (auto split: if_splits)
qed

lemma row_cell:
  assumes "grid_wf g" "c < g_cols g"
  shows "idx g (cursor_row g) 0 + c < g_rows g * g_cols g"
  using cell_in_range [OF grid_wfD(4) [OF assms(1)] assms(2)] by (simp add: idx_def)

lemma safe_insert_blank_chars:
  assumes "grid_wf g"
  shows "safe g (insert_blank_chars n g)"
proof -
  let ?n = "min n (g_cols g - cursor_col g)"
  have "keeps_length (g_rows g * g_cols g)
      (\<lambda>cs. if c \<ge> cursor_col g + ?n then copy_at (idx g (cursor_row g) 0 + c) (idx g (cursor_row g) 0 + c - ?n) cs
            else put_at (idx g (cursor_row g) 0 + c) blank cs)" if "c < g_cols g" for c
    using keeps_copy_at [of "idx g (cursor_row g) 0 + c" "g_rows g * g_cols g" "idx g (cursor_row g) 0 + c - ?n"]
      keeps_put_at [of "idx g (cursor_row g) 0 + c" "g_rows g * g_cols g" blank] row_cell [OF assms that]
    by (cases "c \<ge> cursor_col g + ?n") auto
  then show ?thesis
    using assms unfolding insert_blank_chars_def Let_def
    by (intro safe_set_cells keeps) auto
qed

lemma safe_delete_chars:
  assumes "grid_wf g"
  shows "safe g (delete_chars n g)"
proof -
  let ?n = "min n (g_cols g - cursor_col g)"
  have "keeps_length (g_rows g * g_cols g)
      (\<lambda>cs. if c + ?n < g_cols g then copy_at (idx g (cursor_row g) 0 + c) (idx g (cursor_row g) 0 + c + ?n) cs
            else put_at (idx g (cursor_row g) 0 + c) blank cs)" if "c < g_cols g" for c
    using keeps_copy_at [of "idx g (cursor_row g) 0 + c" "g_rows g * g_cols g" "idx g (cursor_row g) 0 + c + ?n"]
      keeps_put_at [of "idx g (cursor_row g) 0 + c" "g_rows g * g_cols g" blank]
      row_cell [OF assms that] row_cell [OF assms, of "c + ?n"]
    by (cases "c + ?n < g_cols g") (auto simp: add.assoc)
  then show ?thesis
    using assms unfolding delete_chars_def Let_def
    by (intro safe_set_cells keeps) auto
qed

lemma safe_with_region:
  assumes wf: "grid_wf g" and r: "t \<le> scroll_bottom g"
    and f: "\<And>h. grid_wf h \<Longrightarrow> safe h (f h)"
    and keep: "\<And>h h'. f h = Some h' \<Longrightarrow> scroll_bottom h' = scroll_bottom h"
  shows "safe g (Option.bind (f (g\<lparr>scroll_top := t\<rparr>)) (\<lambda>g'. Some (g'\<lparr>scroll_top := scroll_top g\<rparr>)))"
proof -
  have "grid_wf (g\<lparr>scroll_top := t\<rparr>)" using wf r by (simp add: grid_wf_def)
  from f [OF this] obtain g' where g': "f (g\<lparr>scroll_top := t\<rparr>) = Some g'" "grid_wf g'"
    "g_rows g' = g_rows g" "g_cols g' = g_cols g" by (auto elim: safeE)
  moreover have "scroll_bottom g' = scroll_bottom g" using keep [OF g'(1)] by simp
  ultimately show ?thesis using wf by (auto simp: grid_wf_def)
qed

lemma scroll_keeps_region:
  "scroll_up n h = Some h' \<Longrightarrow> scroll_bottom h' = scroll_bottom h"
  "scroll_down n h = Some h' \<Longrightarrow> scroll_bottom h' = scroll_bottom h"
  by (auto simp: scroll_up_def scroll_down_def Let_def split: bind_splits)

lemma safe_insert_lines: "grid_wf g \<Longrightarrow> safe g (insert_lines n g)"
  by (auto simp: insert_lines_def intro!: safe_with_region safe_scroll_down dest: scroll_keeps_region)

lemma safe_delete_lines: "grid_wf g \<Longrightarrow> safe g (delete_lines n g)"
  by (auto simp: delete_lines_def intro!: safe_with_region safe_scroll_up dest: scroll_keeps_region)

lemma safe_set_private_mode: "grid_wf g \<Longrightarrow> safe g (Some (set_private_mode m b g))"
proof -
  assume wf: "grid_wf g"
  have "safe g (Some (enter_alt_screen g))"
    using wf by (auto simp: enter_alt_screen_def intro!: wf_move_to) (auto simp: grid_wf_def)
  moreover have "safe g (Some (leave_alt_screen g))"
    using wf by (auto simp: leave_alt_screen_def grid_wf_def split: option.splits)
  ultimately show ?thesis using wf by (simp add: set_private_mode_def)
qed

lemma safe_execute: "grid_wf g \<Longrightarrow> safe g (execute b g)"
  by (auto simp: execute_def safe_line_feed grid_wfD(2,5))

text \<open>The tables of actions are long conditionals: these rules walk through them.\<close>

definition all_some :: "('x \<Rightarrow> bool) \<Rightarrow> 'x option \<Rightarrow> bool" where
  "all_some P r \<longleftrightarrow> (\<forall>x. r = Some x \<longrightarrow> P x)"

lemma all_some_if: "all_some P r \<Longrightarrow> all_some P q \<Longrightarrow> all_some P (if b then r else q)"
  by simp

lemma all_some_Some: "P x \<Longrightarrow> all_some P (Some x)"
  by (simp add: all_some_def)

lemma all_some_None: "all_some P None"
  by (simp add: all_some_def)

lemma safe_csi_cursor: "grid_wf g \<Longrightarrow> all_some (\<lambda>g'. safe g (Some g')) (csi_cursor params a g)"
  unfolding csi_cursor_def Let_def by (intro all_some_if all_some_Some all_some_None) simp_all

lemma safe_csi_edit: "grid_wf g \<Longrightarrow> all_some (safe g) (csi_edit params a g)"
  unfolding csi_edit_def
  by (intro all_some_if all_some_Some all_some_None safe_erase_in_display safe_erase_in_line
      safe_insert_blank_chars safe_delete_chars safe_insert_lines safe_delete_lines safe_scroll_up
      safe_scroll_down)

lemma safe_if: "safe g (Some x) \<Longrightarrow> safe g (Some y) \<Longrightarrow> safe g (Some (if b then x else y))"
  by simp

lemma safe_csi_mode: "grid_wf g \<Longrightarrow> safe g (Some (csi_mode params im a g))"
proof -
  assume wf: "grid_wf g"
  have "safe g (Some (set_scroll_region params g))"
    using wf by (auto simp: set_scroll_region_def Let_def intro!: wf_move_to) (simp add: grid_wf_def)
  moreover have "safe g (Some (set_sgr params g))" using wf by (simp add: set_sgr_def)
  moreover have "safe g (Some (device_status p m g))" for p m
    using wf by (simp add: device_status_def add_response_def)
  moreover have "safe g (Some (add_response bs g))" for bs using wf by (simp add: add_response_def)
  moreover have "safe g (Some g)" using wf by simp
  ultimately show ?thesis
    unfolding csi_mode_def Let_def by (intro safe_if safe_set_private_mode [OF wf]) assumption+
qed

lemma safe_csi_dispatch:
  assumes "grid_wf g"
  shows "safe g (csi_dispatch params im a g)"
proof (cases "csi_cursor params a g")
  case (Some g')
  then show ?thesis
    using safe_csi_cursor [OF assms, of params a] by (simp only: csi_dispatch_def all_some_def option.case)
next
  case none: None
  show ?thesis
  proof (cases "csi_edit params a g")
    case (Some r)
    with none show ?thesis
      using safe_csi_edit [OF assms, of params a] by (simp only: csi_dispatch_def all_some_def option.case)
  next
    case None
    with none show ?thesis
      using safe_csi_mode [OF assms] by (simp only: csi_dispatch_def option.case)
  qed
qed

lemma safe_esc_dispatch:
  assumes "grid_wf g"
  shows "safe g (esc_dispatch b g)"
proof -
  have "safe g (line_feed (g\<lparr>cursor_col := 0\<rparr>))"
    using safe_line_feed [of "g\<lparr>cursor_col := 0\<rparr>"] assms grid_wfD(2) [OF assms] by (auto intro: safe_size)
  moreover have "g_rows (grid_new (g_rows g) (g_cols g)) = g_rows g" "g_cols (grid_new (g_rows g) (g_cols g)) = g_cols g"
    using grid_wfD(1,2) [OF assms] by (simp_all add: grid_new_def Let_def)
  moreover have "grid_wf (g\<lparr>cursor_row := min r (g_rows g - 1), cursor_col := min c (g_cols g - 1), pen := p\<rparr>)" for r c p
    using assms by (auto simp: grid_wf_def)
  ultimately show ?thesis
    using assms
    by (auto simp: esc_dispatch_def safe_line_feed safe_reverse_index split: option.splits)
qed


section \<open>Resizing\<close>

lemma keeps_resize:
  assumes "length old = r0 * c0"
  shows "\<exists>new. resize_cells r0 c0 r1 c1 old = Some new \<and> length new = r1 * c1"
proof -
  have "keeps_length (r1 * c1)
      (opt_fold (\<lambda>(r, c) new. if r * c0 + c < length old then put_at (r * c1 + c) (old ! (r * c0 + c)) new else None)
        (List.product [0..<min r1 r0] [0..<min c1 c0]))"
  proof (rule keeps_opt_fold)
    fix p
    assume p: "p \<in> set (List.product [0..<min r1 r0] [0..<min c1 c0])"
    obtain r c where rc: "p = (r, c)" by (cases p)
    then have "r < r0" "c < c0" "r < r1" "c < c1" using p by auto
    then have "r * c0 + c < length old" "r * c1 + c < r1 * c1"
      using cell_in_range assms by auto
    then show "keeps_length (r1 * c1)
        ((\<lambda>(r, c) new. if r * c0 + c < length old then put_at (r * c1 + c) (old ! (r * c0 + c)) new else None) p)"
      using rc keeps_put_at by simp
  qed
  then show ?thesis
    unfolding resize_cells_def by (elim keeps_lengthE) auto
qed

lemma safe_resize:
  assumes "grid_wf g"
  shows "\<exists>g'. grid_resize r c g = Some g' \<and> grid_wf g' \<and> g_rows g' = max r 1 \<and> g_cols g' = max c 1"
proof -
  let ?r = "max r 1" and ?c = "max c 1"
  obtain new where new: "resize_cells (g_rows g) (g_cols g) ?r ?c (g_cells g) = Some new" "length new = ?r * ?c"
    using keeps_resize grid_wfD(3) [OF assms] by blast
  have "\<exists>alt. (case alt_saved g of None \<Rightarrow> Some None
      | Some a \<Rightarrow> do { na \<leftarrow> resize_cells (g_rows g) (g_cols g) ?r ?c a; Some (Some na) }) = Some alt \<and>
      (\<forall>a. alt = Some a \<longrightarrow> length a = ?r * ?c)"
  proof (cases "alt_saved g")
    case (Some a)
    then show ?thesis using keeps_resize [of a "g_rows g" "g_cols g" ?r ?c] grid_wfD(8) [OF assms] by auto
  qed simp
  then obtain alt where "(case alt_saved g of None \<Rightarrow> Some None
      | Some a \<Rightarrow> do { na \<leftarrow> resize_cells (g_rows g) (g_cols g) ?r ?c a; Some (Some na) }) = Some alt"
      "\<forall>a. alt = Some a \<longrightarrow> length a = ?r * ?c" by blast
  with new show ?thesis
    unfolding grid_resize_def Let_def by (auto simp: grid_wf_def)
qed


section \<open>Properties of the emulator\<close>

text \<open>What can happen to a terminal: parser events and resizes.\<close>

datatype term_op = OpEvent term_event | OpResize nat nat

fun term_step :: "(nat \<Rightarrow> nat) \<Rightarrow> term_op \<Rightarrow> grid \<Rightarrow> grid option" where
  "term_step width (OpEvent ev) g = perform width ev g"
| "term_step width (OpResize r c) g = grid_resize r c g"

text \<open>Either no character is double-width or the screen never has fewer than two columns.\<close>

definition wide_ok :: "(nat \<Rightarrow> nat) \<Rightarrow> nat \<Rightarrow> bool" where
  "wide_ok width c \<longleftrightarrow> 2 \<le> c \<or> (\<forall>k. width k \<noteq> 2)"

fun op_ok :: "(nat \<Rightarrow> nat) \<Rightarrow> term_op \<Rightarrow> bool" where
  "op_ok width (OpEvent ev) = True"
| "op_ok width (OpResize r c) = wide_ok width (max c 1)"

lemma safe_perform:
  assumes "grid_wf g" "wide_ok width (g_cols g)"
  shows "safe g (perform width ev g)"
  using assms by (cases ev)
    (auto simp: safe_execute safe_csi_dispatch safe_esc_dispatch wide_ok_def intro!: safe_put_char)

lemma term_step_ok:
  assumes "grid_wf g \<and> wide_ok width (g_cols g)" "op_ok width op"
  shows "\<exists>g'. term_step width op g = Some g' \<and> grid_wf g' \<and> wide_ok width (g_cols g')"
proof (cases op)
  case (OpEvent ev)
  have "safe g (perform width ev g)" using assms by (intro safe_perform) auto
  then show ?thesis using OpEvent assms(1) by (auto elim: safeE)
next
  case (OpResize r c)
  then show ?thesis using safe_resize [of g r c] assms by auto
qed

text \<open>C17: the terminal emulator never panics. From a fresh screen, after any sequence of
  printed characters, control codes, CSI and ESC sequences with any parameters, and resizes,
  every cell access was in bounds and the screen is well formed: the cell buffer has
  \<open>rows * cols\<close> cells, cursor and scroll region lie inside, the saved alternate buffer has the
  same size (provided double-width characters meet at least two columns).\<close>

theorem terminal_never_panics:
  assumes "wide_ok width (max c 1)" "\<forall>op \<in> set ops. op_ok width op"
  shows "\<exists>g. opt_fold (term_step width) ops (grid_new r c) = Some g \<and> grid_wf g"
proof -
  have "\<exists>g'. opt_fold (term_step width) ops g = Some g' \<and> grid_wf g' \<and> wide_ok width (g_cols g')"
    if "grid_wf g" "wide_ok width (g_cols g)" for g
    using assms(2) that
  proof (induction ops arbitrary: g)
    case (Cons op ops)
    obtain g' where "term_step width op g = Some g'" "grid_wf g'" "wide_ok width (g_cols g')"
      using term_step_ok [of g width op] Cons.prems by auto
    then show ?case using Cons.IH [of g'] Cons.prems(1) by simp
  qed simp
  moreover have "g_cols (grid_new r c) = max c 1" by (simp add: grid_new_def Let_def)
  ultimately show ?thesis using assms(1) grid_wf_new by metis
qed

theorem terminal_never_panics_witness:
  "\<exists>g. opt_fold (term_step (\<lambda>c. if c = 0x4e2d then 2 else 1))
     [OpEvent (EvPrint 0x4e2d), OpEvent (EvExecute 0x0a), OpEvent (EvCsi [[5]] [] CHR ''L''), OpResize 3 4]
     (grid_new 2 3) = Some g \<and> grid_wf g"
  by (rule terminal_never_panics) (simp_all add: wide_ok_def)

text \<open>On a screen one column wide the second half of a double-width character has no cell.\<close>

theorem wide_char_one_column_panics:
  "perform (\<lambda>_. 2) (EvPrint 0x4e2d) (grid_new 1 1) = None"
  by (simp add: grid_new_def put_char_def put_wrap_def put_fit_def line_feed_def scroll_up_def
      scroll_row_up_def blank_cells_def put_at_def put_glyph_def idx_def Let_def)

end
