(* ===== verification/Diff.thy ===== *)
theory Diff
  imports GridSafe Wire
begin

text \<open>
  The screen-state diff, \<^verbatim>\<open>crates/term/src/diff.rs\<close>: a full snapshot or the list of changed
  cells. \<open>apply_diff\<close> returns the error, if any, and the grid as the code leaves it, since the
  grid is changed in place even when decoding fails half way.
\<close>

section \<open>Encoding\<close>

datatype diff_error = DWire wire_error | DEof | DBadTag u8 | DimMismatch | BadDimensions

definition TAG_FULL :: u8 where "TAG_FULL = 0"
definition TAG_DELTA :: u8 where "TAG_DELTA = 1"
definition MAX_CELLS :: nat where "MAX_CELLS = 2 ^ 20"

fun put_color :: "color \<Rightarrow> bytes" where
  "put_color DefaultColor = [0]"
| "put_color (Indexed n) = [1, n]"
| "put_color (Rgb r g b) = [2, r, g, b]"

definition dget_u8 :: "bytes \<Rightarrow> nat \<Rightarrow> diff_error + (u8 \<times> nat)" where
  "dget_u8 buf pos = (if pos < length buf then Inr (buf ! pos, pos + 1) else Inl DEof)"

definition get_color :: "bytes \<Rightarrow> nat \<Rightarrow> diff_error + (color \<times> nat)" where
  "get_color buf pos =
     rbind (dget_u8 buf pos) (\<lambda>(t, pos).
       if t = 0 then Inr (DefaultColor, pos)
       else if t = 1 then rbind (dget_u8 buf pos) (\<lambda>(n, pos). Inr (Indexed n, pos))
       else if t = 2 then
         rbind (dget_u8 buf pos) (\<lambda>(r, pos).
         rbind (dget_u8 buf pos) (\<lambda>(g, pos).
         rbind (dget_u8 buf pos) (\<lambda>(b, pos). Inr (Rgb r g b, pos))))
       else Inl (DBadTag t))"

text \<open>\<^verbatim>\<open>char::from_u32\<close>: Unicode scalar values, no surrogates.\<close>

definition is_scalar :: "nat \<Rightarrow> bool" where
  "is_scalar n \<longleftrightarrow> n < 0xD800 \<or> (0xE000 \<le> n \<and> n < 0x110000)"

definition char_from_u32 :: "nat \<Rightarrow> nat option" where
  "char_from_u32 n = (if is_scalar n then Some n else None)"

definition put_cell :: "cell \<Rightarrow> bytes" where
  "put_cell c = put_varint (of_nat (ch c)) @ put_color (fg c) @ put_color (bg c) @ [cflags c]"

definition get_cell :: "bytes \<Rightarrow> nat \<Rightarrow> diff_error + (cell \<times> nat)" where
  "get_cell buf pos =
     rbind (map_err DWire (get_varint buf pos)) (\<lambda>(n, pos).
     rbind (get_color buf pos) (\<lambda>(f, pos).
     rbind (get_color buf pos) (\<lambda>(b, pos).
     rbind (dget_u8 buf pos) (\<lambda>(fl, pos).
       Inr (\<lparr>ch = (case char_from_u32 (wrap32 (unat n)) of Some c \<Rightarrow> c | None \<Rightarrow> 0xFFFD),
             fg = f, bg = b, cflags = fl\<rparr>, pos)))))"

definition put_header :: "grid \<Rightarrow> bytes" where
  "put_header g = put_varint (of_nat (g_rows g)) @ put_varint (of_nat (g_cols g)) @
     put_varint (of_nat (cursor_row g)) @ put_varint (of_nat (cursor_col g)) @
     [if cursor_visible g then 1 else 0]"

definition changed_cells :: "grid \<Rightarrow> grid \<Rightarrow> nat list" where
  "changed_cells base target = filter (\<lambda>i. g_cells target ! i \<noteq> g_cells base ! i) [0..<length (g_cells target)]"

definition put_change :: "grid \<Rightarrow> nat \<Rightarrow> bytes" where
  "put_change target i = put_varint (of_nat i) @ put_cell (g_cells target ! i)"

definition encode_diff :: "grid option \<Rightarrow> grid \<Rightarrow> bytes" where
  "encode_diff base target =
     (let same_dims = (case base of Some b \<Rightarrow> g_rows b = g_rows target \<and> g_cols b = g_cols target | None \<Rightarrow> False)
      in if \<not> same_dims then
           TAG_FULL # put_header target @ concat (map put_cell (g_cells target))
         else
           TAG_DELTA # put_header target @
             (let changes = changed_cells (the base) target
              in put_varint (of_nat (length changes)) @ concat (map (put_change target) changes)))"

definition is_full :: "bytes \<Rightarrow> bool" where
  "is_full bs = (bs \<noteq> [] \<and> hd bs = TAG_FULL)"


section \<open>Applying\<close>

record diff_header =
  h_tag :: u8
  h_rows :: nat
  h_cols :: nat
  h_cur_row :: nat
  h_cur_col :: nat
  h_visible :: bool

definition get_header :: "bytes \<Rightarrow> nat \<Rightarrow> diff_error + (diff_header \<times> nat)" where
  "get_header buf pos =
     rbind (dget_u8 buf pos) (\<lambda>(tag, pos).
     rbind (map_err DWire (get_varint buf pos)) (\<lambda>(r, pos).
     rbind (map_err DWire (get_varint buf pos)) (\<lambda>(c, pos).
     rbind (map_err DWire (get_varint buf pos)) (\<lambda>(cr, pos).
     rbind (map_err DWire (get_varint buf pos)) (\<lambda>(cc, pos).
     rbind (dget_u8 buf pos) (\<lambda>(vis, pos).
       Inr (\<lparr>h_tag = tag, h_rows = unat r, h_cols = unat c, h_cur_row = unat cr, h_cur_col = unat cc,
             h_visible = (vis \<noteq> 0)\<rparr>, pos)))))))"

primrec apply_full :: "bytes \<Rightarrow> nat list \<Rightarrow> nat \<Rightarrow> cell list \<Rightarrow> diff_error option \<times> cell list" where
  "apply_full buf [] pos cs = (None, cs)"
| "apply_full buf (i # is) pos cs =
     (case get_cell buf pos of
        Inl e \<Rightarrow> (Some e, cs)
      | Inr (c, pos') \<Rightarrow> apply_full buf is pos' (cs[i := c]))"

primrec apply_delta :: "bytes \<Rightarrow> nat \<Rightarrow> nat \<Rightarrow> cell list \<Rightarrow> diff_error option \<times> cell list" where
  "apply_delta buf 0 pos cs = (None, cs)"
| "apply_delta buf (Suc n) pos cs =
     (case map_err DWire (get_varint buf pos) of
        Inl e \<Rightarrow> (Some e, cs)
      | Inr (i, pos1) \<Rightarrow>
          (case get_cell buf pos1 of
             Inl e \<Rightarrow> (Some e, cs)
           | Inr (c, pos2) \<Rightarrow>
               apply_delta buf n pos2 (if unat i < length cs then cs[unat i := c] else cs)))"

definition finish_diff :: "diff_header \<Rightarrow> diff_error option \<times> cell list \<Rightarrow> grid \<Rightarrow> diff_error option \<times> grid" where
  "finish_diff h r g =
     (case r of
        (Some e, cs) \<Rightarrow> (Some e, g\<lparr>g_cells := cs\<rparr>)
      | (None, cs) \<Rightarrow>
          (None, g\<lparr>g_cells := cs, cursor_row := min (h_cur_row h) (h_rows h - 1),
                   cursor_col := min (h_cur_col h) (h_cols h - 1), cursor_visible := h_visible h\<rparr>))"

definition apply_diff :: "bytes \<Rightarrow> grid \<Rightarrow> diff_error option \<times> grid" where
  "apply_diff bs g =
     (case get_header bs 0 of
        Inl e \<Rightarrow> (Some e, g)
      | Inr (h, pos) \<Rightarrow>
          if h_rows h = 0 \<or> h_cols h = 0 \<or> h_rows h * h_cols h \<ge> two64 \<or> h_rows h * h_cols h > MAX_CELLS
          then (Some BadDimensions, g)
          else if h_tag h = TAG_FULL then
            (let g' = (if g_rows g \<noteq> h_rows h \<or> g_cols g \<noteq> h_cols h then grid_new (h_rows h) (h_cols h) else g)
             in finish_diff h (apply_full bs [0..<h_rows h * h_cols h] pos (g_cells g')) g')
          else if h_tag h = TAG_DELTA then
            (if g_rows g \<noteq> h_rows h \<or> g_cols g \<noteq> h_cols h then (Some DimMismatch, g)
             else
               (case map_err DWire (get_varint bs pos) of
                  Inl e \<Rightarrow> (Some e, g)
                | Inr (count, pos') \<Rightarrow> finish_diff h (apply_delta bs (unat count) pos' (g_cells g)) g))
          else (Some (DBadTag (h_tag h)), g))"


section \<open>Cell codec\<close>

definition cell_ok :: "cell \<Rightarrow> bool" where
  "cell_ok c = is_scalar (ch c)"

lemma dget_u8_law [codec_laws]: "reads buf pos [b] \<Longrightarrow> dget_u8 buf pos = Inr (b, pos + 1)"
  by (simp add: dget_u8_def)

lemma dget_u8_step [codec_steps]: "dget_u8 buf pos = Inr (b, pos') \<Longrightarrow> pos < pos' \<and> pos' \<le> length buf"
  by (auto simp: dget_u8_def split: if_splits)

lemma dget_u8_mono [res_mono]: "res_le (dget_u8 buf pos) (dget_u8 (buf @ ys) pos)"
  by (auto simp: res_le_def dget_u8_def nth_append split: if_splits)

lemma get_color_put [codec_laws]:
  "reads buf pos (put_color c) \<Longrightarrow> get_color buf pos = Inr (c, pos + length (put_color c))"
  by (cases c) (simp_all add: get_color_def dget_u8_def)

lemma get_color_step [codec_steps]: "get_color buf pos = Inr (c, pos') \<Longrightarrow> pos < pos' \<and> pos' \<le> length buf"
  unfolding get_color_def by (auto split: if_splits dest!: codec_steps)

lemma get_color_mono [res_mono]: "res_le (get_color buf pos) (get_color (buf @ ys) pos)"
  unfolding get_color_def by (intro res_mono)

lemma scalar_u32: "is_scalar n \<Longrightarrow> n < two32 \<and> n < two64"
  by (auto simp: is_scalar_def two32_def two64_def)

lemma get_cell_put [codec_laws]:
  assumes "cell_ok c" "reads buf pos (put_cell c)"
  shows "get_cell buf pos = Inr (c, pos + length (put_cell c))"
proof -
  have "unat (of_nat (ch c) :: u64) = ch c" "wrap32 (ch c) = ch c"
    using assms(1) scalar_u32 [of "ch c"] by (simp_all add: cell_ok_def)
  then show ?thesis
    using assms
    by (auto simp: get_cell_def put_cell_def codec_laws dget_u8_def char_from_u32_def cell_ok_def add.assoc)
qed

lemma get_cell_step [codec_steps]: "get_cell buf pos = Inr (c, pos') \<Longrightarrow> pos < pos' \<and> pos' \<le> length buf"
  unfolding get_cell_def by (auto dest!: codec_steps)

lemma get_cell_mono [res_mono]: "res_le (get_cell buf pos) (get_cell (buf @ ys) pos)"
  unfolding get_cell_def by (intro res_mono)

interpretation cell_codec: codec put_cell get_cell cell_ok
  by unfold_locales (auto simp: get_cell_put dest: get_cell_step res_leD [OF get_cell_mono])

lemma get_cell_ok: "get_cell buf pos = Inr (c, pos') \<Longrightarrow> cell_ok c"
  by (auto simp: get_cell_def cell_ok_def char_from_u32_def is_scalar_def split: if_splits)

lemma apply_full_put:
  "reads buf pos (concat (map put_cell xs)) \<Longrightarrow> \<forall>c \<in> set xs. cell_ok c \<Longrightarrow> k + length xs \<le> length cs \<Longrightarrow>
   apply_full buf [k..<k + length xs] pos cs = (None, copy_slice cs k xs)"
proof (induction xs arbitrary: k pos cs)
  case (Cons x xs)
  have g: "get_cell buf pos = Inr (x, pos + length (put_cell x))"
    using Cons.prems by (intro get_cell_put) auto
  have "apply_full buf [Suc k..<Suc k + length xs] (pos + length (put_cell x)) (cs[k := x]) =
      (None, copy_slice (cs[k := x]) (Suc k) xs)"
    using Cons.prems by (intro Cons.IH) auto
  moreover have "copy_slice (cs[k := x]) (Suc k) xs = copy_slice cs k (x # xs)"
    using Cons.prems(3)
    by (simp add: copy_slice_def take_Suc_conv_app_nth take_update_swap drop_update_swap list_update_append)
  moreover have "[k..<k + length (x # xs)] = k # [Suc k..<Suc k + length xs]"
    using upt_conv_Cons [of k "k + length (x # xs)"] by simp
  ultimately show ?case by (simp add: g)
qed (simp add: copy_slice_def)

lemma apply_delta_put:
  assumes "length (g_cells t) < two64" "\<forall>c \<in> set (g_cells t). cell_ok c"
  shows "reads buf pos (concat (map (put_change t) is)) \<Longrightarrow> \<forall>i \<in> set is. i < length (g_cells t) \<Longrightarrow>
   length cs = length (g_cells t) \<Longrightarrow>
   apply_delta buf (length is) pos cs = (None, fold (\<lambda>i cs. cs[i := g_cells t ! i]) is cs)"
proof (induction "is" arbitrary: pos cs)
  case (Cons i "is")
  let ?p = "pos + length (put_varint (of_nat i))"
  have i: "i < length (g_cells t)" "cell_ok (g_cells t ! i)" using Cons.prems assms(2) by simp_all
  have "get_varint buf pos = Inr (of_nat i, ?p)"
    using Cons.prems(1) by (intro get_varint_put) (simp add: put_change_def)
  moreover have "get_cell buf ?p = Inr (g_cells t ! i, ?p + length (put_cell (g_cells t ! i)))"
    using Cons.prems(1) i(2) by (intro get_cell_put) (simp_all add: put_change_def)
  moreover have "unat (of_nat i :: u64) = i" using i(1) assms(1) by simp
  moreover have "apply_delta buf (length is) (?p + length (put_cell (g_cells t ! i))) (cs[i := g_cells t ! i]) =
      (None, fold (\<lambda>i cs. cs[i := g_cells t ! i]) is (cs[i := g_cells t ! i]))"
    using Cons.prems by (intro Cons.IH) (simp_all add: put_change_def add.assoc)
  ultimately show ?case using i(1) Cons.prems(3) by simp
qed simp

lemma fold_updates_nth:
  "j < length cs \<Longrightarrow> fold (\<lambda>i cs. cs[i := ts ! i]) is cs ! j = (if j \<in> set is then ts ! j else cs ! j)"
  by (induction "is" arbitrary: cs) auto

lemma fold_updates_length [simp]: "length (fold (\<lambda>i cs. cs[i := ts ! i]) is cs) = length cs"
  by (induction "is" arbitrary: cs) auto

lemma changed_cells_update:
  assumes "length (g_cells b) = length (g_cells t)"
  shows "fold (\<lambda>i cs. cs[i := g_cells t ! i]) (changed_cells b t) (g_cells b) = g_cells t"
  by (rule nth_equalityI) (use assms in \<open>auto simp: fold_updates_nth changed_cells_def\<close>)


section \<open>Applying a diff gives the target screen\<close>

definition screen_ok :: "grid \<Rightarrow> bool" where
  "screen_ok g \<longleftrightarrow> grid_wf g \<and> g_rows g * g_cols g \<le> MAX_CELLS \<and> (\<forall>c \<in> set (g_cells g). cell_ok c)"

lemma screen_ok_bounds:
  assumes "screen_ok g"
  shows "g_rows g < two64" "g_cols g < two64" "cursor_row g < two64" "cursor_col g < two64"
    "length (g_cells g) < two64"
proof -
  have n: "0 < g_rows g" "0 < g_cols g" "g_rows g * g_cols g \<le> 2 ^ 20"
    using assms by (auto simp: screen_ok_def grid_wf_def MAX_CELLS_def)
  have "g_rows g * 1 \<le> g_rows g * g_cols g" "1 * g_cols g \<le> g_rows g * g_cols g"
    using n by (simp_all only: mult_le_mono1 mult_le_mono2 Suc_leI One_nat_def)
  then have "g_rows g \<le> 2 ^ 20" "g_cols g \<le> 2 ^ 20" using n(3) by linarith+
  then show "g_rows g < two64" "g_cols g < two64" by (simp_all add: two64_def)
  then show "cursor_row g < two64" "cursor_col g < two64" "length (g_cells g) < two64"
    using assms n(3) by (auto simp: screen_ok_def grid_wf_def two64_def)
qed

definition header_of :: "u8 \<Rightarrow> grid \<Rightarrow> diff_header" where
  "header_of tag g = \<lparr>h_tag = tag, h_rows = g_rows g, h_cols = g_cols g, h_cur_row = cursor_row g,
     h_cur_col = cursor_col g, h_visible = cursor_visible g\<rparr>"

lemma header_of_simps [simp]:
  "h_tag (header_of tag g) = tag" "h_rows (header_of tag g) = g_rows g" "h_cols (header_of tag g) = g_cols g"
  by (simp_all add: header_of_def)

lemma get_header_put:
  assumes "screen_ok t" "reads bs 0 (tag # put_header t)"
  shows "get_header bs 0 = Inr (header_of tag t, 1 + length (put_header t))"
  using assms(2) screen_ok_bounds [OF assms(1)]
  by (auto simp: get_header_def put_header_def header_of_def codec_laws dget_u8_def add.assoc)

lemma apply_diff_at:
  assumes "screen_ok t" "reads bs 0 (tag # put_header t)"
  shows "apply_diff bs g =
    (if tag = TAG_FULL then
       (let g' = (if g_rows g \<noteq> g_rows t \<or> g_cols g \<noteq> g_cols t then grid_new (g_rows t) (g_cols t) else g)
        in finish_diff (header_of tag t)
             (apply_full bs [0..<g_rows t * g_cols t] (1 + length (put_header t)) (g_cells g')) g')
     else if tag = TAG_DELTA then
       (if g_rows g \<noteq> g_rows t \<or> g_cols g \<noteq> g_cols t then (Some DimMismatch, g)
        else
          (case map_err DWire (get_varint bs (1 + length (put_header t))) of
             Inl e \<Rightarrow> (Some e, g)
           | Inr (count, pos') \<Rightarrow>
               finish_diff (header_of tag t) (apply_delta bs (unat count) pos' (g_cells g)) g))
     else (Some (DBadTag tag), g))"
proof -
  have "0 < g_rows t" "0 < g_cols t" "\<not> g_rows t * g_cols t > MAX_CELLS" "\<not> g_rows t * g_cols t \<ge> two64"
    using assms(1) by (auto simp: screen_ok_def grid_wf_def MAX_CELLS_def two64_def)
  then show ?thesis
    unfolding apply_diff_def get_header_put [OF assms] by simp
qed

lemma finish_diff_render:
  assumes "grid_wf t" "grid_wf g" "g_rows g = g_rows t" "g_cols g = g_cols t"
  shows "\<exists>g'. finish_diff (header_of tag t) (None, g_cells t) g = (None, g') \<and> render_eq g' t \<and> grid_wf g'"
proof -
  have "min (cursor_row t) (g_rows t - 1) = cursor_row t" "min (cursor_col t) (g_cols t - 1) = cursor_col t"
    using assms(1) by (auto simp: grid_wf_def)
  then show ?thesis
    using assms by (simp add: finish_diff_def header_of_def render_eq_def grid_wf_def)
qed

lemma apply_snapshot:
  assumes t: "screen_ok t" and g: "grid_wf g"
    and full: "\<not> (case base of Some b \<Rightarrow> g_rows b = g_rows t \<and> g_cols b = g_cols t | None \<Rightarrow> False)"
  shows "\<exists>g'. apply_diff (encode_diff base t) g = (None, g') \<and> render_eq g' t \<and> grid_wf g'"
proof -
  let ?bs = "encode_diff base t" and ?p = "1 + length (put_header t)"
  have enc: "?bs = TAG_FULL # put_header t @ concat (map put_cell (g_cells t))"
    using full by (simp add: encode_diff_def Let_def)
  have rd: "reads ?bs 0 (TAG_FULL # put_header t)" "reads ?bs ?p (concat (map put_cell (g_cells t)))"
    using reads_self [of ?bs] unfolding enc by (simp_all add: reads_def)
  let ?g = "if g_rows g \<noteq> g_rows t \<or> g_cols g \<noteq> g_cols t then grid_new (g_rows t) (g_cols t) else g"
  have twf: "grid_wf t" "\<forall>c \<in> set (g_cells t). cell_ok c" using t by (simp_all add: screen_ok_def)
  have "g_rows (grid_new (g_rows t) (g_cols t)) = g_rows t" "g_cols (grid_new (g_rows t) (g_cols t)) = g_cols t"
    using twf(1) by (auto simp: grid_new_def Let_def grid_wf_def)
  then have dims: "grid_wf ?g" "g_rows ?g = g_rows t" "g_cols ?g = g_cols t" using g by simp_all
  then have len: "length (g_cells ?g) = length (g_cells t)" "length (g_cells t) = g_rows t * g_cols t"
    using twf(1) by (simp_all add: grid_wf_def)
  have "apply_full ?bs [0..<0 + length (g_cells t)] ?p (g_cells ?g) = (None, copy_slice (g_cells ?g) 0 (g_cells t))"
    using rd(2) twf(2) len by (intro apply_full_put) simp_all
  moreover have "copy_slice (g_cells ?g) 0 (g_cells t) = g_cells t" using len by (simp add: copy_slice_def)
  ultimately have "apply_diff ?bs g = finish_diff (header_of TAG_FULL t) (None, g_cells t) ?g"
    unfolding apply_diff_at [OF t rd(1)] Let_def using len(2) by simp
  then show ?thesis using finish_diff_render [OF twf(1) dims] by simp
qed

lemma apply_change_list:
  assumes t: "screen_ok t" and g: "grid_wf g"
    and same: "g_rows b = g_rows t" "g_cols b = g_cols t" and b: "render_eq g b"
  shows "\<exists>g'. apply_diff (encode_diff (Some b) t) g = (None, g') \<and> render_eq g' t \<and> grid_wf g'"
proof -
  let ?bs = "encode_diff (Some b) t" and ?p = "1 + length (put_header t)"
  let ?is = "changed_cells b t"
  have enc: "?bs = TAG_DELTA # put_header t @ put_varint (of_nat (length ?is)) @ concat (map (put_change t) ?is)"
    using same by (simp add: encode_diff_def Let_def)
  let ?q = "?p + length (put_varint (of_nat (length ?is)))"
  have rd: "reads ?bs 0 (TAG_DELTA # put_header t)" "reads ?bs ?p (put_varint (of_nat (length ?is)))"
    "reads ?bs ?q (concat (map (put_change t) ?is))"
    using reads_self [of ?bs] unfolding enc by (simp_all add: reads_def)
  have twf: "grid_wf t" "\<forall>c \<in> set (g_cells t). cell_ok c" using t by (simp_all add: screen_ok_def)
  have len: "length (g_cells b) = length (g_cells t)" "g_cells g = g_cells b"
    "g_rows g = g_rows t" "g_cols g = g_cols t"
    using b g same twf(1) by (auto simp: render_eq_def grid_wf_def)
  have "length ?is \<le> length (g_cells t)"
    using length_filter_le [of _ "[0..<length (g_cells t)]"] by (simp add: changed_cells_def)
  then have n: "unat (of_nat (length ?is) :: u64) = length ?is" using screen_ok_bounds(5) [OF t] by simp
  have "apply_delta ?bs (length ?is) ?q (g_cells b) = (None, fold (\<lambda>i cs. cs[i := g_cells t ! i]) ?is (g_cells b))"
    using rd(3) len by (intro apply_delta_put [OF screen_ok_bounds(5) [OF t] twf(2)]) (auto simp: changed_cells_def)
  also have "\<dots> = (None, g_cells t)" by (simp add: changed_cells_update [OF len(1)])
  finally have "apply_diff ?bs g = finish_diff (header_of TAG_DELTA t) (None, g_cells t) g"
    unfolding apply_diff_at [OF t rd(1)] get_varint_put [OF rd(2)]
    using len n by (simp add: TAG_DELTA_def TAG_FULL_def)
  then show ?thesis using finish_diff_render [OF twf(1) g len(3,4)] by simp
qed


section \<open>Hostile diffs\<close>

lemma apply_full_keeps:
  "\<forall>c \<in> set cs. cell_ok c \<Longrightarrow> apply_full buf is pos cs = (r, cs') \<Longrightarrow>
   length cs' = length cs \<and> (\<forall>c \<in> set cs'. cell_ok c)"
proof (induction "is" arbitrary: pos cs)
  case (Cons i "is")
  show ?case
  proof (cases "get_cell buf pos")
    case (Inr p)
    obtain c pos' where p: "p = (c, pos')" by (cases p)
    have "\<forall>c \<in> set (cs[i := c]). cell_ok c"
      using Cons.prems(1) get_cell_ok Inr p set_update_subset_insert by fastforce
    from Cons.IH [OF this, of pos'] show ?thesis using Cons.prems(2) Inr p by simp
  qed (use Cons.prems in simp)
qed simp

lemma apply_delta_keeps:
  "\<forall>c \<in> set cs. cell_ok c \<Longrightarrow> apply_delta buf n pos cs = (r, cs') \<Longrightarrow>
   length cs' = length cs \<and> (\<forall>c \<in> set cs'. cell_ok c)"
proof (induction n arbitrary: pos cs)
  case (Suc n)
  show ?case
  proof (cases "\<exists>i p1 c p2. get_varint buf pos = Inr (i, p1) \<and> get_cell buf p1 = Inr (c, p2)")
    case True
    then obtain i p1 c p2 where g: "get_varint buf pos = Inr (i, p1)" "get_cell buf p1 = Inr (c, p2)" by blast
    let ?cs = "if unat i < length cs then cs[unat i := c] else cs"
    have "\<forall>c \<in> set ?cs. cell_ok c"
      using Suc.prems(1) get_cell_ok [OF g(2)] set_update_subset_insert [of cs "unat i" c] by auto
    from Suc.IH [OF this, of p2] show ?thesis using Suc.prems(2) g by (auto split: if_splits)
  next
    case False
    then have "cs' = cs" using Suc.prems(2) by (auto split: sum.splits)
    then show ?thesis using Suc.prems(1) by simp
  qed
qed simp

lemma finish_diff_keeps:
  assumes "finish_diff h (r, cs) g = (r', g')" "screen_ok g" "length cs = length (g_cells g)"
    "\<forall>c \<in> set cs. cell_ok c" "h_rows h = g_rows g" "h_cols h = g_cols g"
  shows "screen_ok g'"
  using assms
  by (auto simp: finish_diff_def screen_ok_def grid_wf_def split: option.splits)

lemma blank_ok: "cell_ok blank"
  by (simp add: cell_ok_def blank_def is_scalar_def)

lemma screen_ok_new: "0 < r \<Longrightarrow> 0 < c \<Longrightarrow> r * c \<le> MAX_CELLS \<Longrightarrow> screen_ok (grid_new r c)"
proof -
  assume a: "0 < r" "0 < c" "r * c \<le> MAX_CELLS"
  have "max r 1 = r" "max c 1 = c" using a by auto
  then have "g_rows (grid_new r c) = r" "g_cols (grid_new r c) = c"
    "g_cells (grid_new r c) = replicate (r * c) blank" by (simp_all add: grid_new_def Let_def)
  then show ?thesis using a blank_ok by (simp add: screen_ok_def)
qed

text \<open>C38: no received diff can corrupt the client's screen or exhaust its memory. Whatever the
  bytes, and whether or not they are rejected, the screen stays well formed, holds only valid
  characters and has at most \<open>MAX_CELLS\<close> cells.\<close>

theorem apply_diff_safe:
  assumes "screen_ok g" "apply_diff bs g = (r, g')"
  shows "screen_ok g'"
proof (cases "get_header bs 0")
  case (Inr q)
  obtain h pos where q: "q = (h, pos)" by (cases q)
  let ?bad = "h_rows h = 0 \<or> h_cols h = 0 \<or> h_rows h * h_cols h \<ge> two64 \<or> h_rows h * h_cols h > MAX_CELLS"
  note ap = assms(2) [unfolded apply_diff_def Inr q sum.case prod.case]
  show ?thesis
  proof (cases ?bad)
    case True
    then show ?thesis using ap assms(1) by simp
  next
    case ok: False
    let ?g = "if g_rows g \<noteq> h_rows h \<or> g_cols g \<noteq> h_cols h then grid_new (h_rows h) (h_cols h) else g"
    have new: "screen_ok ?g" "g_rows ?g = h_rows h" "g_cols ?g = h_cols h"
      using ok screen_ok_new [of "h_rows h" "h_cols h"] assms(1) by (auto simp: grid_new_def Let_def)
    note ap' = ap [unfolded if_not_P [OF ok]]
    show ?thesis
    proof (cases "h_tag h = TAG_FULL")
      case True
      obtain r1 cs where f: "apply_full bs [0..<h_rows h * h_cols h] pos (g_cells ?g) = (r1, cs)"
        by (cases "apply_full bs [0..<h_rows h * h_cols h] pos (g_cells ?g)")
      have "\<forall>c \<in> set (g_cells ?g). cell_ok c" using new(1) unfolding screen_ok_def by blast
      note keep = apply_full_keeps [OF this f]
      have "finish_diff h (r1, cs) ?g = (r, g')"
        using ap' unfolding if_P [OF True] Let_def f .
      then show ?thesis using finish_diff_keeps new keep by metis
    next
      case full: False
      note ap2 = ap' [unfolded if_not_P [OF full]]
      show ?thesis
      proof (cases "h_tag h = TAG_DELTA \<and> \<not> (g_rows g \<noteq> h_rows h \<or> g_cols g \<noteq> h_cols h) \<and>
          is_ok (get_varint bs pos)")
        case True
        then obtain n p where n: "get_varint bs pos = Inr (n, p)" by (auto simp: is_ok_iff)
        obtain r1 cs where f: "apply_delta bs (unat n) p (g_cells g) = (r1, cs)"
          by (cases "apply_delta bs (unat n) p (g_cells g)")
        have "finish_diff h (r1, cs) g = (r, g')" using ap2 True n f by simp
        moreover have "\<forall>c \<in> set (g_cells g). cell_ok c" using assms(1) by (simp add: screen_ok_def)
        ultimately show ?thesis using finish_diff_keeps assms(1) apply_delta_keeps f True by metis
      next
        case False
        then have "g' = g" using ap2 by (auto simp: not_is_ok_iff split: if_splits)
        then show ?thesis using assms(1) by simp
      qed
    qed
  qed
qed (use assms in \<open>simp add: apply_diff_def\<close>)

theorem apply_diff_safe_witness:
  "screen_ok (snd (apply_diff [TAG_DELTA, 1, 2, 0, 0, 1, 1, 9, 65] (grid_new 1 2)))"
proof (rule apply_diff_safe)
  show "screen_ok (grid_new 1 2)" by (rule screen_ok_new) (simp_all add: MAX_CELLS_def)
  show "apply_diff [TAG_DELTA, 1, 2, 0, 0, 1, 1, 9, 65] (grid_new 1 2) =
      (fst (apply_diff [TAG_DELTA, 1, 2, 0, 0, 1, 1, 9, 65] (grid_new 1 2)),
       snd (apply_diff [TAG_DELTA, 1, 2, 0, 0, 1, 1, 9, 65] (grid_new 1 2)))" by simp
qed

text \<open>C11: \<^verbatim>\<open>apply(diff(a, b))\<close> renders as \<^verbatim>\<open>b\<close>. A full snapshot (no base, or a base of another
  size) turns any screen into the target; a delta turns every screen that renders as its base
  into the target.\<close>

theorem apply_diff_renders_target:
  assumes "screen_ok t" "grid_wf g"
    and "\<And>b. base = Some b \<Longrightarrow> g_rows b = g_rows t \<Longrightarrow> g_cols b = g_cols t \<Longrightarrow> render_eq g b"
  shows "\<exists>g'. apply_diff (encode_diff base t) g = (None, g') \<and> render_eq g' t \<and> grid_wf g'"
proof (cases "case base of Some b \<Rightarrow> g_rows b = g_rows t \<and> g_cols b = g_cols t | None \<Rightarrow> False")
  case True
  then obtain b where "base = Some b" "g_rows b = g_rows t" "g_cols b = g_cols t"
    by (auto split: option.splits)
  then show ?thesis using apply_change_list [OF assms(1,2)] assms(3) by simp
qed (use apply_snapshot [OF assms(1,2)] in blast)

theorem apply_diff_renders_target_witness:
  "\<exists>g'. apply_diff (encode_diff (Some (grid_new 2 2)) ((grid_new 2 2)\<lparr>cursor_col := 1\<rparr>)) (grid_new 2 2) = (None, g') \<and>
    render_eq g' ((grid_new 2 2)\<lparr>cursor_col := 1\<rparr>) \<and> grid_wf g'"
proof (rule apply_diff_renders_target)
  have "screen_ok (grid_new 2 2)" by (rule screen_ok_new) (simp_all add: MAX_CELLS_def)
  moreover have "g_cols (grid_new 2 2) = 2" by (simp add: grid_new_def)
  ultimately show "screen_ok ((grid_new 2 2)\<lparr>cursor_col := 1\<rparr>)" by (simp add: screen_ok_def)
  show "render_eq (grid_new 2 2) b" if "Some (grid_new 2 2) = Some b" for b
    using that by (simp add: render_eq_def)
qed simp

end
