(* ===== verification/Predict.thy ===== *)
theory Predict
  imports GridSafe
begin

text \<open>
  Predictive local echo, \<^verbatim>\<open>crates/predict/src/lib.rs\<close>: predictions layered over the last
  authoritative screen, confirmed or abandoned when the next one arrives.
\<close>

section \<open>The predictor\<close>

datatype display_mode = Always | Never | Adaptive

record prediction =
  p_row :: nat
  p_col :: nat
  p_ch :: nat

record predictor =
  base_grid :: grid
  preds :: "prediction list"
  p_cursor :: "nat \<times> nat"
  p_mode :: display_mode
  confirmed_echo :: bool
  glitch :: bool

definition predictor_new :: "grid \<Rightarrow> predictor" where
  "predictor_new b = \<lparr>base_grid = b, preds = [], p_cursor = (cursor_row b, cursor_col b), p_mode = Adaptive,
     confirmed_echo = False, glitch = False\<rparr>"

definition set_mode :: "display_mode \<Rightarrow> predictor \<Rightarrow> predictor" where
  "set_mode m p = p\<lparr>p_mode := m\<rparr>"

definition outstanding :: "predictor \<Rightarrow> nat" where
  "outstanding p = length (preds p)"

definition displaying :: "predictor \<Rightarrow> bool" where
  "displaying p = (case p_mode p of Always \<Rightarrow> True | Never \<Rightarrow> False | Adaptive \<Rightarrow> confirmed_echo p \<and> \<not> glitch p)"

definition advance_cursor :: "predictor \<Rightarrow> predictor" where
  "advance_cursor p =
     (case p_cursor p of (r, c) \<Rightarrow>
        if c + 1 < g_cols (base_grid p) then p\<lparr>p_cursor := (r, c + 1)\<rparr>
        else if r + 1 < g_rows (base_grid p) then p\<lparr>p_cursor := (r + 1, 0)\<rparr>
        else p)"

definition forget_preds :: "predictor \<Rightarrow> predictor" where
  "forget_preds p = p\<lparr>preds := [], p_cursor := (cursor_row (base_grid p), cursor_col (base_grid p))\<rparr>"

definition predict_byte :: "u8 \<Rightarrow> predictor \<Rightarrow> predictor" where
  "predict_byte b p =
     (if 0x20 \<le> b \<and> b \<le> 0x7e then
        (case p_cursor p of (row, col) \<Rightarrow>
           let at_end = (col + 1 \<ge> g_cols (base_grid p) \<and> row + 1 \<ge> g_rows (base_grid p))
           in if \<not> at_end
              then advance_cursor (p\<lparr>preds := preds p @ [\<lparr>p_row = row, p_col = col, p_ch = unat b\<rparr>]\<rparr>)
              else p)
      else if b = 0x0d \<or> b = 0x0a then forget_preds p
      else if b = 0x08 \<or> b = 0x7f then
        (if preds p \<noteq> [] then
           (case p_cursor p of (r, c) \<Rightarrow>
              let p' = p\<lparr>preds := butlast (preds p)\<rparr>
              in if c > 0 then p'\<lparr>p_cursor := (r, c - 1)\<rparr>
                 else if r > 0 then p'\<lparr>p_cursor := (r - 1, g_cols (base_grid p) - 1)\<rparr>
                 else p')
         else p)
      else forget_preds p)"

definition predict_input :: "bytes \<Rightarrow> predictor \<Rightarrow> predictor" where
  "predict_input bs p = fold predict_byte bs p"

definition predicted_cell :: "prediction \<Rightarrow> cell" where
  "predicted_cell q = \<lparr>ch = p_ch q, fg = DefaultColor, bg = DefaultColor, cflags = PREDICTED OR UNDERLINE\<rparr>"

definition paint :: "prediction \<Rightarrow> grid \<Rightarrow> grid" where
  "paint q g =
     (if p_row q < g_rows g \<and> p_col q < g_cols g
      then g\<lparr>g_cells := (g_cells g)[p_row q * g_cols g + p_col q := predicted_cell q]\<rparr> else g)"

definition overlay :: "predictor \<Rightarrow> grid" where
  "overlay p =
     (let g = base_grid p in
      if \<not> displaying p then g
      else let g = fold paint (preds p) g
           in g\<lparr>cursor_row := min (fst (p_cursor p)) (g_rows g - 1),
                cursor_col := min (snd (p_cursor p)) (g_cols g - 1)\<rparr>)"

definition reached :: "grid \<Rightarrow> prediction \<Rightarrow> bool" where
  "reached g q \<longleftrightarrow> cursor_row g > p_row q \<or> (cursor_row g = p_row q \<and> cursor_col g > p_col q)"

definition echoed :: "grid \<Rightarrow> prediction \<Rightarrow> bool" where
  "echoed g q \<longleftrightarrow> ch (grid_cell g (p_row q) (p_col q)) = p_ch q"

text \<open>The loop over the old predictions: was one abandoned, was one confirmed, which are kept.\<close>

definition reconcile_step :: "grid \<Rightarrow> prediction \<Rightarrow> bool \<times> bool \<times> prediction list \<Rightarrow> bool \<times> bool \<times> prediction list" where
  "reconcile_step g q st =
     (case st of (abandoned, confirmed_any, kept) \<Rightarrow>
        if reached g q then
          (if echoed g q then (abandoned, True, kept) else (True, confirmed_any, kept))
        else (abandoned, confirmed_any, kept @ [q]))"

definition reconcile :: "grid \<Rightarrow> predictor \<Rightarrow> predictor" where
  "reconcile new_base p =
     (case fold (reconcile_step new_base) (preds p) (False, False, []) of (abandoned, confirmed_any, kept) \<Rightarrow>
        let p1 = (if abandoned then p\<lparr>glitch := True\<rparr>
                  else if confirmed_any then p\<lparr>confirmed_echo := True, glitch := False\<rparr> else p);
            kept1 = (if abandoned then [] else kept);
            kept2 = filter (\<lambda>q. p_row q < g_rows new_base \<and> p_col q < g_cols new_base) kept1;
            p2 = p1\<lparr>base_grid := new_base, preds := kept2\<rparr>
        in if kept2 = [] then p2\<lparr>p_cursor := (cursor_row new_base, cursor_col new_base)\<rparr>
           else p2\<lparr>p_cursor := (min (fst (p_cursor p)) (g_rows new_base - 1),
                                min (snd (p_cursor p)) (g_cols new_base - 1))\<rparr>)"


section \<open>What reconciliation computes\<close>

lemma reconcile_fold:
  "fold (reconcile_step g) qs (a, c, kept) =
     (a \<or> (\<exists>q \<in> set qs. reached g q \<and> \<not> echoed g q),
      c \<or> (\<exists>q \<in> set qs. reached g q \<and> echoed g q),
      kept @ filter (\<lambda>q. \<not> reached g q) qs)"
  by (induction qs arbitrary: a c kept) (auto simp: reconcile_step_def)

definition mispredicted :: "grid \<Rightarrow> predictor \<Rightarrow> bool" where
  "mispredicted g p \<longleftrightarrow> (\<exists>q \<in> set (preds p). reached g q \<and> \<not> echoed g q)"

definition confirmed :: "grid \<Rightarrow> predictor \<Rightarrow> bool" where
  "confirmed g p \<longleftrightarrow> (\<exists>q \<in> set (preds p). reached g q \<and> echoed g q)"

lemma reconcile_fields:
  "base_grid (reconcile g p) = g" "p_mode (reconcile g p) = p_mode p"
  "preds (reconcile g p) = (if mispredicted g p then [] else
     filter (\<lambda>q. \<not> reached g q \<and> p_row q < g_rows g \<and> p_col q < g_cols g) (preds p))"
  "glitch (reconcile g p) = (mispredicted g p \<or> (\<not> confirmed g p \<and> glitch p))"
  "confirmed_echo (reconcile g p) = (confirmed_echo p \<or> (\<not> mispredicted g p \<and> confirmed g p))"
  by (auto simp: reconcile_def reconcile_fold mispredicted_def confirmed_def Let_def conj_commute)


section \<open>Invariant\<close>

definition pred_in :: "grid \<Rightarrow> prediction \<Rightarrow> bool" where
  "pred_in g q \<longleftrightarrow> p_row q < g_rows g \<and> p_col q < g_cols g"

definition predictor_inv :: "predictor \<Rightarrow> bool" where
  "predictor_inv p \<longleftrightarrow> grid_wf (base_grid p) \<and> (\<forall>q \<in> set (preds p). pred_in (base_grid p) q) \<and>
     fst (p_cursor p) < g_rows (base_grid p) \<and> snd (p_cursor p) < g_cols (base_grid p)"

datatype predict_op = Typed bytes | NewScreen grid | SetMode display_mode

fun predict_step :: "predict_op \<Rightarrow> predictor \<Rightarrow> predictor" where
  "predict_step (Typed bs) p = predict_input bs p"
| "predict_step (NewScreen g) p = reconcile g p"
| "predict_step (SetMode m) p = set_mode m p"

fun predict_guard :: "predict_op \<Rightarrow> bool" where
  "predict_guard (NewScreen g) = grid_wf g"
| "predict_guard _ = True"

lemma predictor_inv_forget: "predictor_inv p \<Longrightarrow> predictor_inv (forget_preds p)"
  by (auto simp: predictor_inv_def forget_preds_def grid_wf_def)

lemma predictor_inv_byte: "predictor_inv p \<Longrightarrow> predictor_inv (predict_byte b p)"
proof -
  assume inv: "predictor_inv p"
  obtain r c where rc: "p_cursor p = (r, c)" by (cases "p_cursor p")
  show ?thesis
    using inv predictor_inv_forget [OF inv] rc
    by (auto simp: predict_byte_def Let_def predictor_inv_def advance_cursor_def pred_in_def
        dest: in_set_butlastD)
qed

lemma predictor_inv_reconcile: "predictor_inv p \<Longrightarrow> grid_wf g \<Longrightarrow> predictor_inv (reconcile g p)"
proof -
  assume inv: "predictor_inv p" and wf: "grid_wf g"
  have "fst (p_cursor (reconcile g p)) < g_rows g" "snd (p_cursor (reconcile g p)) < g_cols g"
    using wf by (auto simp: reconcile_def reconcile_fold Let_def grid_wf_def)
  then show ?thesis using inv wf by (simp add: predictor_inv_def reconcile_fields pred_in_def)
qed

interpretation predict_run: invariant_machine predict_step predictor_inv predict_guard
proof
  fix p op
  assume "predictor_inv p" "predict_guard op"
  moreover have "predictor_inv (predict_input bs p)" if "predictor_inv p" for bs p
    using that unfolding predict_input_def
    by (induction bs arbitrary: p) (simp_all add: predictor_inv_byte)
  ultimately show "predictor_inv (predict_step op p)"
    by (cases op) (auto simp: predictor_inv_reconcile, simp add: predictor_inv_def set_mode_def)
qed

lemma predictor_inv_new: "grid_wf g \<Longrightarrow> predictor_inv (predictor_new g)"
  by (simp add: predictor_inv_def predictor_new_def grid_wf_def)


section \<open>Properties of predictive echo\<close>

lemma paint_dims [simp]: "g_rows (paint q g) = g_rows g" "g_cols (paint q g) = g_cols g"
  by (simp_all add: paint_def)

lemma paint_wf: "grid_wf g \<Longrightarrow> grid_wf (paint q g)"
  by (simp add: paint_def grid_wf_def)

lemma cell_index_inj:
  assumes "r * n + c = r' * n + c'" "c < n" "c' < (n :: nat)"
  shows "r = r' \<and> c = c'"
proof -
  have "(r * n + c) div n = (r' * n + c') div n" "(r * n + c) mod n = (r' * n + c') mod n"
    using assms(1) by simp_all
  then show ?thesis using assms(2,3) by simp
qed

lemma paint_cell:
  assumes "grid_wf g" "r < g_rows g" "c < g_cols g"
  shows "grid_cell (paint q g) r c =
    (if p_row q = r \<and> p_col q = c then predicted_cell q else grid_cell g r c)"
proof (cases "p_row q < g_rows g \<and> p_col q < g_cols g")
  case True
  have "p_row q * g_cols g + p_col q = r * g_cols g + c \<longleftrightarrow> p_row q = r \<and> p_col q = c"
    using cell_index_inj [of "p_row q" "g_cols g" "p_col q" r c] True assms(3) by auto
  moreover have "r * g_cols g + c < length (g_cells g)"
    using cell_in_range [OF assms(2,3)] assms(1) by (simp add: grid_wf_def)
  ultimately show ?thesis
    using True assms by (simp add: paint_def grid_cell_def idx_def nth_list_update)
next
  case False
  then show ?thesis using assms by (auto simp: paint_def)
qed

text \<open>The prediction a cell shows: the latest one for that place.\<close>

definition predicted_at :: "predictor \<Rightarrow> nat \<Rightarrow> nat \<Rightarrow> prediction option" where
  "predicted_at p r c = find (\<lambda>q. p_row q = r \<and> p_col q = c) (rev (preds p))"

lemma fold_paint:
  assumes "grid_wf g"
  shows "grid_wf (fold paint qs g) \<and> g_rows (fold paint qs g) = g_rows g \<and> g_cols (fold paint qs g) = g_cols g \<and>
   (\<forall>r < g_rows g. \<forall>c < g_cols g. grid_cell (fold paint qs g) r c =
      (case find (\<lambda>q. p_row q = r \<and> p_col q = c) (rev qs) of None \<Rightarrow> grid_cell g r c | Some q \<Rightarrow> predicted_cell q))"
proof (induction qs rule: rev_induct)
  case Nil
  then show ?case using assms by simp
next
  case (snoc q qs)
  then show ?case by (auto simp: paint_cell paint_wf)
qed

lemma fold_paint_shape: "fold paint qs g = g\<lparr>g_cells := g_cells (fold paint qs g)\<rparr>"
proof (induction qs arbitrary: g)
  case (Cons q qs)
  show ?case using Cons.IH [of "paint q g"] by (auto simp: paint_def)
qed simp

lemma cursor_update_shape:
  "h = g\<lparr>g_cells := g_cells h\<rparr> \<Longrightarrow>
   h\<lparr>cursor_row := a, cursor_col := b\<rparr> =
     g\<lparr>g_cells := g_cells (h\<lparr>cursor_row := a, cursor_col := b\<rparr>), cursor_row := a, cursor_col := b\<rparr>"
  by (cases g, cases h) simp

lemma predicted_mark [simp]: "PREDICTED \<noteq> 0" "UNDERLINE \<noteq> 0"
  by (simp_all add: PREDICTED_def UNDERLINE_def)

text \<open>Where typing stands, as a position in reading order.\<close>

definition typing_pos :: "predictor \<Rightarrow> nat" where
  "typing_pos p = fst (p_cursor p) * g_cols (base_grid p) + snd (p_cursor p)"

lemma predict_printable_byte:
  assumes "predictor_inv p" "0x20 \<le> b" "b \<le> 0x7e" "Suc (typing_pos p) < g_rows (base_grid p) * g_cols (base_grid p)"
  shows "base_grid (predict_byte b p) = base_grid p \<and> typing_pos (predict_byte b p) = Suc (typing_pos p) \<and>
    preds (predict_byte b p) = preds p @ [\<lparr>p_row = typing_pos p div g_cols (base_grid p), p_col = typing_pos p mod g_cols (base_grid p), p_ch = unat b\<rparr>]"
proof -
  obtain r c where rc: "p_cursor p = (r, c)" by (cases "p_cursor p")
  let ?n = "g_cols (base_grid p)" and ?m = "g_rows (base_grid p)"
  have in_grid: "r < ?m" "c < ?n" using assms(1) rc by (simp_all add: predictor_inv_def)
  have room: "\<not> (c + 1 \<ge> ?n \<and> r + 1 \<ge> ?m)"
  proof
    assume "c + 1 \<ge> ?n \<and> r + 1 \<ge> ?m"
    then have "?n = Suc c" "?m = Suc r" using in_grid by auto
    then show False using assms(4) rc by (simp add: typing_pos_def)
  qed
  have "(r * ?n + c) div ?n = r" "(r * ?n + c) mod ?n = c" using in_grid by simp_all
  then show ?thesis
    using assms(2,3) room rc in_grid
    by (auto simp: predict_byte_def advance_cursor_def typing_pos_def Let_def split: if_splits)
qed

lemma predict_printable:
  assumes "predictor_inv p" "\<forall>b \<in> set bs. 0x20 \<le> b \<and> b \<le> 0x7e"
    and "typing_pos p + length bs < g_rows (base_grid p) * g_cols (base_grid p)"
  shows "base_grid (predict_input bs p) = base_grid p \<and> typing_pos (predict_input bs p) = typing_pos p + length bs \<and>
    preds (predict_input bs p) = preds p @
      map (\<lambda>(i, b). \<lparr>p_row = i div g_cols (base_grid p), p_col = i mod g_cols (base_grid p), p_ch = unat b\<rparr>) (enumerate (typing_pos p) bs)"
  using assms
proof (induction bs arbitrary: p)
  case (Cons b bs)
  note step = predict_printable_byte [of p b]
  have "predictor_inv (predict_byte b p)" by (rule predictor_inv_byte [OF Cons.prems(1)])
  then show ?case
    using Cons.IH [of "predict_byte b p"] step Cons.prems by (simp add: predict_input_def)
qed (simp add: predict_input_def)

text \<open>C40: predictions are recognisable and in place. After any typing, screen updates and mode changes: while
  predictions are not displayed the screen shown is the authoritative one, cursor included. While they are, the screen
  shown differs from it in its cells and its cursor only; a cell without a prediction is the authoritative one; a cell
  with predictions shows the character of the latest of them, in default colours, underlined and carrying the PREDICTED
  mark; and the cursor is the predictor's own, which is always on the screen. Typing printable characters that fit on
  the rest of the screen predicts each of them at the next place in reading order and moves that cursor behind them.\<close>

theorem overlay_faithful:
  assumes "grid_wf g" "\<forall>op \<in> set ops. predict_guard op"
    and "p = fold predict_step ops (predictor_new g)"
  shows "(\<not> displaying p \<longrightarrow> overlay p = base_grid p) \<and>
    (displaying p \<longrightarrow> grid_wf (overlay p) \<and>
       overlay p = (base_grid p)\<lparr>g_cells := g_cells (overlay p), cursor_row := fst (p_cursor p), cursor_col := snd (p_cursor p)\<rparr> \<and>
       fst (p_cursor p) < g_rows (base_grid p) \<and> snd (p_cursor p) < g_cols (base_grid p) \<and>
       (\<forall>r < g_rows (base_grid p). \<forall>c < g_cols (base_grid p).
          case predicted_at p r c of None \<Rightarrow> grid_cell (overlay p) r c = grid_cell (base_grid p) r c
          | Some q \<Rightarrow> ch (grid_cell (overlay p) r c) = p_ch q \<and>
              fg (grid_cell (overlay p) r c) = DefaultColor \<and> bg (grid_cell (overlay p) r c) = DefaultColor \<and>
              cflags (grid_cell (overlay p) r c) AND PREDICTED \<noteq> 0 \<and> cflags (grid_cell (overlay p) r c) AND UNDERLINE \<noteq> 0)) \<and>
    (\<forall>bs. (\<forall>b \<in> set bs. 0x20 \<le> b \<and> b \<le> 0x7e) \<and> typing_pos p + length bs < g_rows (base_grid p) * g_cols (base_grid p) \<longrightarrow>
       typing_pos (predict_input bs p) = typing_pos p + length bs \<and>
       preds (predict_input bs p) = preds p @
         map (\<lambda>(i, b). \<lparr>p_row = i div g_cols (base_grid p), p_col = i mod g_cols (base_grid p), p_ch = unat b\<rparr>) (enumerate (typing_pos p) bs))"
    (is "?hidden \<and> (_ \<longrightarrow> ?wf \<and> ?shape \<and> ?row \<and> ?col \<and> ?cells) \<and> ?typing")
proof -
  have inv: "predictor_inv p"
    unfolding assms(3) by (rule predict_run.run_inv [OF predictor_inv_new [OF assms(1)] assms(2)])
  then have wf: "grid_wf (base_grid p)" and cur: ?row ?col by (simp_all add: predictor_inv_def)
  have cursor_cell: "grid_cell (h\<lparr>cursor_row := a, cursor_col := b\<rparr>) r c = grid_cell h r c" for h a b r c
    by (simp add: grid_cell_def idx_def)
  let ?h = "fold paint (preds p) (base_grid p)"
  have h: "grid_wf ?h" "g_rows ?h = g_rows (base_grid p)" "g_cols ?h = g_cols (base_grid p)"
    using fold_paint [OF wf] by blast+
  have cells: "grid_cell ?h r c = (case predicted_at p r c of None \<Rightarrow> grid_cell (base_grid p) r c | Some q \<Rightarrow> predicted_cell q)"
    if "r < g_rows (base_grid p)" "c < g_cols (base_grid p)" for r c
    using fold_paint [OF wf, of "preds p"] that by (simp add: predicted_at_def)
  have shown: "?wf \<and> ?shape \<and> ?cells" if "displaying p"
  proof -
    have ov: "overlay p = ?h\<lparr>cursor_row := fst (p_cursor p), cursor_col := snd (p_cursor p)\<rparr>"
      using that cur h by (simp add: overlay_def Let_def min_def)
    have ?wf using h cur unfolding ov by (auto simp: grid_wf_def)
    moreover have ?shape using fold_paint_shape [of "preds p" "base_grid p"] unfolding ov by (metis (no_types) cursor_update_shape)
    moreover have ?cells
      unfolding ov cursor_cell by (auto simp: cells predicted_cell_def split: option.split)
    ultimately show ?thesis by blast
  qed
  have "?hidden" by (simp add: overlay_def)
  moreover have "?typing" using predict_printable [OF inv] by blast
  ultimately show ?thesis using shown cur by blast
qed

theorem overlay_faithful_witness:
  "let p = fold predict_step [SetMode Always, Typed [104, 105]] (predictor_new (grid_new 2 5)) in
    displaying p \<and> grid_wf (overlay p) \<and> predicted_at p 0 1 = Some \<lparr>p_row = 0, p_col = 1, p_ch = 105\<rparr> \<and>
    ch (grid_cell (overlay p) 0 1) = 105 \<and> cflags (grid_cell (overlay p) 0 1) AND PREDICTED \<noteq> 0 \<and>
    grid_cell (overlay p) 1 1 = grid_cell (base_grid p) 1 1"
proof -
  define p where "p = fold predict_step [SetMode Always, Typed [104, 105]] (predictor_new (grid_new 2 5))"
  have shape: "displaying p" "g_rows (base_grid p) = 2" "g_cols (base_grid p) = 5"
    "predicted_at p 0 1 = Some \<lparr>p_row = 0, p_col = 1, p_ch = 105\<rparr>" "predicted_at p 1 1 = None"
    by (simp_all add: p_def displaying_def set_mode_def predictor_new_def predict_input_def predict_byte_def advance_cursor_def
        grid_new_def predicted_at_def Let_def)
  have ops: "\<forall>op \<in> set [SetMode Always, Typed [104, 105]]. predict_guard op" by simp
  note faithful = overlay_faithful [OF grid_wf_new ops p_def]
  have "grid_wf (overlay p)" and cells: "\<forall>r < 2. \<forall>c < 5.
      case predicted_at p r c of None \<Rightarrow> grid_cell (overlay p) r c = grid_cell (base_grid p) r c
      | Some q \<Rightarrow> ch (grid_cell (overlay p) r c) = p_ch q \<and>
          fg (grid_cell (overlay p) r c) = DefaultColor \<and> bg (grid_cell (overlay p) r c) = DefaultColor \<and>
          cflags (grid_cell (overlay p) r c) AND PREDICTED \<noteq> 0 \<and> cflags (grid_cell (overlay p) r c) AND UNDERLINE \<noteq> 0"
    using faithful shape(1) unfolding shape by blast+
  moreover have "ch (grid_cell (overlay p) 0 1) = 105 \<and> cflags (grid_cell (overlay p) 0 1) AND PREDICTED \<noteq> 0"
    using cells [rule_format, of 0 1, unfolded shape] by simp
  moreover have "grid_cell (overlay p) 1 1 = grid_cell (base_grid p) 1 1"
    using cells [rule_format, of 1 1, unfolded shape] by simp
  ultimately show ?thesis using shape unfolding Let_def p_def [symmetric] by blast
qed

text \<open>Has the server confirmed an echo somewhere along the way?\<close>

primrec ever_confirmed :: "predict_op list \<Rightarrow> predictor \<Rightarrow> bool" where
  "ever_confirmed [] p = False"
| "ever_confirmed (op # ops) p =
     ((case op of NewScreen g \<Rightarrow> confirmed g p \<and> \<not> mispredicted g p | _ \<Rightarrow> False) \<or>
      ever_confirmed ops (predict_step op p))"

lemma predict_byte_flags [simp]:
  "confirmed_echo (predict_byte b p) = confirmed_echo p" "p_mode (predict_byte b p) = p_mode p"
  by (simp_all add: predict_byte_def forget_preds_def advance_cursor_def Let_def split: prod.splits)

lemma predict_input_flags [simp]:
  "confirmed_echo (predict_input bs p) = confirmed_echo p" "p_mode (predict_input bs p) = p_mode p"
  unfolding predict_input_def by (induction bs arbitrary: p) simp_all

lemma unconfirmed_run:
  "\<not> ever_confirmed ops p \<Longrightarrow> \<not> confirmed_echo p \<Longrightarrow> p_mode p = Adaptive \<Longrightarrow>
   \<forall>op \<in> set ops. \<forall>m. op \<noteq> SetMode m \<Longrightarrow>
   \<not> confirmed_echo (fold predict_step ops p) \<and> p_mode (fold predict_step ops p) = Adaptive"
proof (induction ops arbitrary: p)
  case (Cons op ops)
  have "\<not> confirmed_echo (predict_step op p) \<and> p_mode (predict_step op p) = Adaptive"
    using Cons.prems by (cases op) (auto simp: reconcile_fields)
  then show ?case using Cons.IH [of "predict_step op p"] Cons.prems by simp
qed simp

text \<open>Nothing typed at a prompt that does not echo is ever shown. In adaptive mode, until
  some screen has confirmed a predicted character (and mispredicted none), the screen shown is
  the authoritative one, whatever was typed; and a misprediction hides predictions again.\<close>

theorem adaptive_hides_unechoed:
  assumes "\<forall>op \<in> set ops. \<forall>m. op \<noteq> SetMode m" "\<not> ever_confirmed ops (predictor_new g)"
    and "p = fold predict_step ops (predictor_new g)"
  shows "overlay p = base_grid p \<and> (mispredicted h p \<longrightarrow> overlay (reconcile h p) = h)"
proof -
  have p: "\<not> confirmed_echo p" "p_mode p = Adaptive"
    using unconfirmed_run [OF assms(2)] assms(1,3) by (simp_all add: predictor_new_def)
  then show ?thesis
    by (simp add: overlay_def displaying_def reconcile_fields)
qed

theorem adaptive_hides_unechoed_witness:
  "let p = fold predict_step [Typed [115, 51, 99], NewScreen (grid_new 2 5)] (predictor_new (grid_new 2 5)) in
    overlay p = base_grid p \<and> (mispredicted (grid_new 2 5) p \<longrightarrow> overlay (reconcile (grid_new 2 5) p) = grid_new 2 5)"
  unfolding Let_def
proof (rule adaptive_hides_unechoed [OF _ _ refl])
  show "\<not> ever_confirmed [Typed [115, 51, 99], NewScreen (grid_new 2 5)] (predictor_new (grid_new 2 5))"
    by (simp add: confirmed_def reached_def grid_new_def)
qed simp

end
