(* ===== verification/Shell.thy ===== *)
theory Shell
  imports Diff Predict Input
begin

text \<open>
  The interactive shell's data plane, \<^verbatim>\<open>crates/proto/src/shell.rs\<close>: the server numbers its
  screens and sends diffs against the screen the client last acknowledged; the client applies
  them and acknowledges the number of the screen it shows. The locale \<open>screen_diff\<close> is what
  the protocol relies on of the diff encoding of \<^verbatim>\<open>crates/term/src/diff.rs\<close>.
\<close>

section \<open>Server side\<close>

record 'p server_shell =
  ss_term :: "'p terminal"
  ss_seq :: nat
  ss_acked :: nat
  ss_history :: "(nat, grid) btree"
  ss_last_sent :: grid
  ss_input_rx :: input_receiver
  ss_force_full :: bool

definition server_shell_new :: "'p \<Rightarrow> nat \<Rightarrow> nat \<Rightarrow> 'p server_shell" where
  "server_shell_new p r c =
     (let blank_grid = grid_new r c
      in \<lparr>ss_term = terminal_new p r c, ss_seq = 0, ss_acked = 0, ss_history = bt_insert 0 blank_grid bt_empty,
          ss_last_sent = blank_grid, ss_input_rx = input_receiver_new, ss_force_full = False\<rparr>)"

definition ss_screen :: "'p server_shell \<Rightarrow> grid" where
  "ss_screen s = tgrid (ss_term s)"

definition rebind_to_new_client :: "'p server_shell \<Rightarrow> 'p server_shell" where
  "rebind_to_new_client s =
     (let blank_grid = grid_new (g_rows (ss_screen s)) (g_cols (ss_screen s))
      in s\<lparr>ss_acked := 0, ss_history := bt_insert 0 blank_grid bt_empty, ss_last_sent := blank_grid,
           ss_input_rx := input_receiver_new, ss_force_full := True\<rparr>)"

text \<open>Feeding output and resizing may panic in the terminal: the result is an option.\<close>

definition feed_output ::
  "('p \<Rightarrow> bytes \<Rightarrow> term_event list \<times> 'p) \<Rightarrow> (nat \<Rightarrow> nat) \<Rightarrow> bytes \<Rightarrow> 'p server_shell \<Rightarrow> 'p server_shell option" where
  "feed_output vte width bs s = do { t \<leftarrow> terminal_advance vte width bs (ss_term s); Some (s\<lparr>ss_term := t\<rparr>) }"

definition shell_take_responses :: "'p server_shell \<Rightarrow> bytes \<times> 'p server_shell" where
  "shell_take_responses s =
     (case take_responses (ss_screen s) of (out, g) \<Rightarrow> (out, s\<lparr>ss_term := (ss_term s)\<lparr>tgrid := g\<rparr>\<rparr>))"

definition shell_resize :: "nat \<Rightarrow> nat \<Rightarrow> 'p server_shell \<Rightarrow> 'p server_shell option" where
  "shell_resize r c s = do { t \<leftarrow> terminal_resize r c (ss_term s); Some (s\<lparr>ss_term := t\<rparr>) }"

definition on_state_ack :: "nat \<Rightarrow> 'p server_shell \<Rightarrow> 'p server_shell" where
  "on_state_ack sq s =
     (if sq > ss_acked s \<and> bt_get (ss_history s) sq \<noteq> None
      then s\<lparr>ss_acked := sq, ss_history := filter (\<lambda>p. fst p \<ge> sq) (ss_history s)\<rparr> else s)"

definition ingest_input :: "nat \<Rightarrow> bytes \<Rightarrow> 'p server_shell \<Rightarrow> (bytes \<times> frame) \<times> 'p server_shell" where
  "ingest_input offset data s =
     (case input_ingest offset data (ss_input_rx s) of (fresh, r) \<Rightarrow>
        ((fresh, Ack (of_nat (input_ack r))), s\<lparr>ss_input_rx := r\<rparr>))"

definition note_screen :: "'p server_shell \<Rightarrow> 'p server_shell" where
  "note_screen s =
     (let current = ss_screen s
      in if \<not> render_eq current (ss_last_sent s)
         then let sq = wrap64 (ss_seq s + 1)
              in s\<lparr>ss_seq := sq, ss_history := bt_insert sq current (ss_history s), ss_last_sent := current\<rparr>
         else s)"

definition poll_diff :: "'p server_shell \<Rightarrow> frame option \<times> 'p server_shell" where
  "poll_diff s0 =
     (let s = note_screen s0 in
      if ss_seq s = ss_acked s then (None, s)
      else if ss_force_full s then
        (Some (StateDiff (of_nat (ss_seq s)) 0 (encode_diff None (ss_last_sent s))), s\<lparr>ss_force_full := False\<rparr>)
      else
        (Some (StateDiff (of_nat (ss_seq s)) (of_nat (ss_acked s))
           (encode_diff (bt_get (ss_history s) (ss_acked s)) (ss_last_sent s))), s))"


section \<open>Client side\<close>

record client_shell =
  cs_grid :: grid
  cs_seq :: nat
  cs_input_tx :: input_sender
  cs_predictor :: predictor

definition client_shell_new :: "nat \<Rightarrow> nat \<Rightarrow> client_shell" where
  "client_shell_new r c =
     (let g = grid_new r c
      in \<lparr>cs_grid = g, cs_seq = 0, cs_input_tx = input_sender_new, cs_predictor = predictor_new g\<rparr>)"

definition with_prediction :: "display_mode \<Rightarrow> client_shell \<Rightarrow> client_shell" where
  "with_prediction mode c = c\<lparr>cs_predictor := set_mode mode (cs_predictor c)\<rparr>"

definition type_input :: "bytes \<Rightarrow> client_shell \<Rightarrow> client_shell" where
  "type_input bs c =
     c\<lparr>cs_input_tx := input_push bs (cs_input_tx c), cs_predictor := predict_input bs (cs_predictor c)\<rparr>"

definition has_pending_input :: "client_shell \<Rightarrow> bool" where
  "has_pending_input c \<longleftrightarrow> input_pending (cs_input_tx c) \<noteq> None"

definition client_poll_frames :: "client_shell \<Rightarrow> frame list" where
  "client_poll_frames c =
     (case input_pending (cs_input_tx c) of Some f \<Rightarrow> [f] | None \<Rightarrow> []) @ [Ack (of_nat (cs_seq c))]"

definition apply_state_diff :: "nat \<Rightarrow> nat \<Rightarrow> bytes \<Rightarrow> client_shell \<Rightarrow> bool \<times> client_shell" where
  "apply_state_diff sq base data c =
     (if is_full data \<or> (base = cs_seq c \<and> sq > cs_seq c) then
        (case apply_diff data (cs_grid c) of
           (None, g) \<Rightarrow> (True, c\<lparr>cs_grid := g, cs_seq := sq, cs_predictor := reconcile g (cs_predictor c)\<rparr>)
         | (Some e, g) \<Rightarrow> (False, c\<lparr>cs_grid := g\<rparr>))
      else (False, c))"

definition on_input_ack :: "nat \<Rightarrow> client_shell \<Rightarrow> client_shell" where
  "on_input_ack sq c = c\<lparr>cs_input_tx := input_on_ack sq (cs_input_tx c)\<rparr>"

definition client_overlay :: "client_shell \<Rightarrow> grid" where
  "client_overlay c = overlay (cs_predictor c)"


section \<open>What the protocol relies on of the diffs\<close>

text \<open>
  Screens \<open>'s\<close> with dimensions \<open>dims\<close>; \<open>same\<close> is equality as rendered. A diff against a base of
  the same size is a delta, any other a full snapshot.
\<close>

locale screen_diff =
  fixes enc :: "'s option \<Rightarrow> 's \<Rightarrow> bytes"
    and app :: "bytes \<Rightarrow> 's \<Rightarrow> 'e option \<times> 's"
    and full :: "bytes \<Rightarrow> bool"
    and same :: "'s \<Rightarrow> 's \<Rightarrow> bool"
    and dims :: "'s \<Rightarrow> 'd"
    and sendable :: "'s \<Rightarrow> bool"
    and wf :: "'s \<Rightarrow> bool"
  assumes same_dims: "same a b \<Longrightarrow> dims a = dims b"
    and full_iff: "full (enc base t) \<longleftrightarrow> \<not> (\<exists>b. base = Some b \<and> dims b = dims t)"
    and app_full: "sendable t \<Longrightarrow> wf g \<Longrightarrow> full (enc base t) \<Longrightarrow>
      \<exists>g'. app (enc base t) g = (None, g') \<and> same g' t \<and> wf g'"
    and app_delta: "sendable t \<Longrightarrow> wf g \<Longrightarrow> dims b = dims t \<Longrightarrow> same g b \<Longrightarrow>
      \<exists>g'. app (enc (Some b) t) g = (None, g') \<and> same g' t \<and> wf g'"
    and app_mismatch: "sendable t \<Longrightarrow> dims b = dims t \<Longrightarrow> dims g \<noteq> dims t \<Longrightarrow>
      \<exists>e. app (enc (Some b) t) g = (Some e, g)"
begin

text \<open>A screen that renders as the base, or has another size than it, ends up showing the target
  or is left alone.\<close>

lemma app_enc:
  assumes "sendable t" "wf g" "\<And>b. base = Some b \<Longrightarrow> dims b = dims t \<Longrightarrow> dims g = dims b \<Longrightarrow> same g b"
  shows "(\<exists>g'. app (enc base t) g = (None, g') \<and> same g' t \<and> wf g') \<or> (\<exists>e. app (enc base t) g = (Some e, g))"
proof (cases "full (enc base t)")
  case True
  then show ?thesis using app_full [OF assms(1,2)] by blast
next
  case False
  then obtain b where b: "base = Some b" "dims b = dims t" using full_iff by blast
  then show ?thesis
    using app_delta [OF assms(1,2)] app_mismatch [OF assms(1)] assms(3) by (cases "dims g = dims t") auto
qed

end

definition grid_dims :: "grid \<Rightarrow> nat \<times> nat" where
  "grid_dims g = (g_rows g, g_cols g)"

lemma is_full_enc: "is_full (encode_diff base t) \<longleftrightarrow> \<not> (\<exists>b. base = Some b \<and> grid_dims b = grid_dims t)"
  by (auto simp: is_full_def encode_diff_def grid_dims_def Let_def TAG_FULL_def TAG_DELTA_def split: option.splits)

lemma apply_diff_mismatch:
  assumes "screen_ok t" "grid_dims b = grid_dims t" "grid_dims g \<noteq> grid_dims t"
  shows "apply_diff (encode_diff (Some b) t) g = (Some DimMismatch, g)"
proof -
  have "encode_diff (Some b) t =
      (TAG_DELTA # put_header t) @ (let changes = changed_cells b t
        in put_varint (of_nat (length changes)) @ concat (map (put_change t) changes))"
    using assms(2) by (simp add: encode_diff_def grid_dims_def Let_def)
  then have "reads (encode_diff (Some b) t) 0 (TAG_DELTA # put_header t)" by (simp add: reads_def)
  from apply_diff_at [OF assms(1) this] show ?thesis
    using assms(3) by (auto simp: grid_dims_def TAG_FULL_def TAG_DELTA_def)
qed

interpretation grid_diff: screen_diff encode_diff apply_diff is_full render_eq grid_dims screen_ok grid_wf
proof
  show "\<exists>g'. apply_diff (encode_diff base t) g = (None, g') \<and> render_eq g' t \<and> grid_wf g'"
    if "screen_ok t" "grid_wf g" "is_full (encode_diff base t)" for base t g
    using apply_snapshot [OF that(1,2)] that(3) by (auto simp: is_full_enc grid_dims_def split: option.splits)
  show "\<exists>g'. apply_diff (encode_diff (Some b) t) g = (None, g') \<and> render_eq g' t \<and> grid_wf g'"
    if "screen_ok t" "grid_wf g" "grid_dims b = grid_dims t" "render_eq g b" for t g b
    using apply_change_list [OF that(1,2) _ _ that(4)] that(3) by (simp add: grid_dims_def)
  show "is_full (encode_diff base t) \<longleftrightarrow> \<not> (\<exists>b. base = Some b \<and> grid_dims b = grid_dims t)" for base t
    by (rule is_full_enc)
qed (auto simp: render_eq_def grid_dims_def apply_diff_mismatch [unfolded grid_dims_def])

end
