(* ===== verification/ShellLink.thy ===== *)
theory ShellLink
  imports Shell
begin

text \<open>
  Both shells over a network that loses, repeats and reorders their frames, with reattachment
  of a new client: a step relation, the invariant that the client shows a screen the server
  had, and convergence.
\<close>

section \<open>The link\<close>

text \<open>\<open>sl_screens\<close> records the screen the server last sent under each number, \<open>sl_epoch\<close> counts
  reattachments; both exist for the specification only.\<close>

record 'p shell_link =
  sl_srv :: "'p server_shell"
  sl_cli :: client_shell
  sl_screens :: "nat \<rightharpoonup> grid"
  sl_diffs :: "frame set"
  sl_acks :: "frame set"
  sl_epoch :: nat

definition shell_link_new :: "'p \<Rightarrow> nat \<Rightarrow> nat \<Rightarrow> nat \<Rightarrow> nat \<Rightarrow> 'p shell_link" where
  "shell_link_new p r c r' c' =
     \<lparr>sl_srv = server_shell_new p r c, sl_cli = client_shell_new r' c', sl_screens = [0 \<mapsto> grid_new r c],
      sl_diffs = {}, sl_acks = {}, sl_epoch = 0\<rparr>"

definition link_poll_diff :: "'p shell_link \<Rightarrow> 'p shell_link" where
  "link_poll_diff l =
     (case poll_diff (sl_srv l) of (f, s) \<Rightarrow>
        l\<lparr>sl_srv := s, sl_screens := (sl_screens l)(ss_seq s \<mapsto> ss_last_sent s),
          sl_diffs := sl_diffs l \<union> set_option f\<rparr>)"

definition link_diff :: "u64 \<Rightarrow> u64 \<Rightarrow> bytes \<Rightarrow> 'p shell_link \<Rightarrow> 'p shell_link" where
  "link_diff sq base data l = l\<lparr>sl_cli := snd (apply_state_diff (unat sq) (unat base) data (sl_cli l))\<rparr>"

definition link_state_ack :: "u64 \<Rightarrow> 'p shell_link \<Rightarrow> 'p shell_link" where
  "link_state_ack sq l = l\<lparr>sl_srv := on_state_ack (unat sq) (sl_srv l)\<rparr>"

definition link_client_poll :: "'p shell_link \<Rightarrow> 'p shell_link" where
  "link_client_poll l = l\<lparr>sl_acks := sl_acks l \<union> set (client_poll_frames (sl_cli l))\<rparr>"

definition link_reattach :: "nat \<Rightarrow> nat \<Rightarrow> 'p shell_link \<Rightarrow> 'p shell_link" where
  "link_reattach r c l =
     (let s = rebind_to_new_client (sl_srv l)
      in \<lparr>sl_srv = s, sl_cli = client_shell_new r c, sl_screens = [0 \<mapsto> ss_last_sent s],
          sl_diffs = {}, sl_acks = {}, sl_epoch = sl_epoch l + 1\<rparr>)"

lemmas shell_link_ops = link_poll_diff_def link_diff_def link_state_ack_def link_client_poll_def

inductive shell_step ::
  "('p \<Rightarrow> bytes \<Rightarrow> term_event list \<times> 'p) \<Rightarrow> (nat \<Rightarrow> nat) \<Rightarrow> 'p shell_link \<Rightarrow> 'p shell_link \<Rightarrow> bool"
  for vte width where
  shell_output: "feed_output vte width bs (sl_srv l) = Some s \<Longrightarrow> screen_ok (ss_screen s) \<Longrightarrow>
     shell_step vte width l (l\<lparr>sl_srv := s\<rparr>)"
| resize: "shell_resize r c (sl_srv l) = Some s \<Longrightarrow> screen_ok (ss_screen s) \<Longrightarrow>
     shell_step vte width l (l\<lparr>sl_srv := s\<rparr>)"
| responses: "shell_step vte width l (l\<lparr>sl_srv := snd (shell_take_responses (sl_srv l))\<rparr>)"
| poll: "ss_seq (sl_srv l) + 1 < two64 \<Longrightarrow> shell_step vte width l (link_poll_diff l)"
| diff_arrives: "StateDiff sq base data \<in> sl_diffs l \<Longrightarrow> shell_step vte width l (link_diff sq base data l)"
| client_poll: "shell_step vte width l (link_client_poll l)"
| ack_arrives: "Ack sq \<in> sl_acks l \<Longrightarrow> shell_step vte width l (link_state_ack sq l)"
| typing: "shell_step vte width l (l\<lparr>sl_cli := type_input bs (sl_cli l)\<rparr>)"
| input_arrives: "shell_step vte width l (l\<lparr>sl_srv := snd (ingest_input off data (sl_srv l))\<rparr>)"
| input_acked: "shell_step vte width l (l\<lparr>sl_cli := on_input_ack n (sl_cli l)\<rparr>)"
| reattach: "shell_step vte width l (link_reattach r c l)"

definition shell_start :: "'p shell_link \<Rightarrow> bool" where
  "shell_start l \<longleftrightarrow> (\<exists>p r c r' c'. screen_ok (grid_new r c) \<and> l = shell_link_new p r c r' c')"

definition shell_reachable ::
  "('p \<Rightarrow> bytes \<Rightarrow> term_event list \<times> 'p) \<Rightarrow> (nat \<Rightarrow> nat) \<Rightarrow> 'p shell_link \<Rightarrow> bool" where
  "shell_reachable vte width l \<longleftrightarrow> (\<exists>l0. shell_start l0 \<and> (shell_step vte width)\<^sup>*\<^sup>* l0 l)"


section \<open>The client shows a screen the server had\<close>

definition srv_inv :: "(nat \<rightharpoonup> grid) \<Rightarrow> 'p server_shell \<Rightarrow> bool" where
  "srv_inv scr s \<longleftrightarrow> bt_ok (ss_history s) \<and> ss_seq s < two64 \<and> ss_acked s \<le> ss_seq s \<and>
     bt_get (ss_history s) (ss_acked s) \<noteq> None \<and>
     (\<forall>k g. bt_get (ss_history s) k = Some g \<longrightarrow> scr k = Some g \<and> ss_acked s \<le> k) \<and>
     (\<forall>k g. scr k = Some g \<longrightarrow> screen_ok g \<and> k \<le> ss_seq s) \<and>
     screen_ok (ss_screen s) \<and> screen_ok (ss_last_sent s) \<and>
     (\<forall>g. scr (ss_seq s) = Some g \<longrightarrow> g = ss_last_sent s) \<and> (\<exists>r c. scr 0 = Some (grid_new r c))"

definition diff_inv :: "(nat \<rightharpoonup> grid) \<Rightarrow> frame \<Rightarrow> bool" where
  "diff_inv scr f \<longleftrightarrow> (\<exists>k b base t. f = StateDiff (of_nat k) (of_nat b) (encode_diff base t) \<and>
     k < two64 \<and> b < two64 \<and> scr k = Some t \<and> (base = None \<or> (base = scr b \<and> scr b \<noteq> None)))"

definition cli_inv :: "(nat \<rightharpoonup> grid) \<Rightarrow> client_shell \<Rightarrow> bool" where
  "cli_inv scr c \<longleftrightarrow> grid_wf (cs_grid c) \<and> base_grid (cs_predictor c) = cs_grid c \<and>
     (\<exists>t. scr (cs_seq c) = Some t \<and>
        (render_eq (cs_grid c) t \<or> (cs_seq c = 0 \<and> (\<exists>r c'. cs_grid c = grid_new r c'))))"

definition shell_inv :: "'p shell_link \<Rightarrow> bool" where
  "shell_inv l \<longleftrightarrow> srv_inv (sl_screens l) (sl_srv l) \<and> (\<forall>f \<in> sl_diffs l. diff_inv (sl_screens l) f) \<and>
     cli_inv (sl_screens l) (sl_cli l)"

lemma grid_new_dims_eq: "grid_dims (grid_new r c) = grid_dims (grid_new r' c') \<Longrightarrow> grid_new r c = grid_new r' c'"
  by (auto simp: grid_dims_def grid_new_def Let_def)

lemma predict_base [simp]: "base_grid (predict_input bs p) = base_grid p"
proof -
  have "base_grid (predict_byte b p) = base_grid p" for b p
    by (simp add: predict_byte_def forget_preds_def advance_cursor_def Let_def split: prod.splits)
  then show ?thesis unfolding predict_input_def by (induction bs arbitrary: p) simp_all
qed

lemma srv_inv_screen:
  assumes "srv_inv scr s" "screen_ok (ss_screen s')"
    and "ss_seq s' = ss_seq s" "ss_acked s' = ss_acked s" "ss_history s' = ss_history s" "ss_last_sent s' = ss_last_sent s"
  shows "srv_inv scr s'"
  using assms by (simp add: srv_inv_def)

lemma feed_keeps:
  assumes "feed_output vte width bs s = Some s'"
  shows "ss_seq s' = ss_seq s" "ss_acked s' = ss_acked s" "ss_history s' = ss_history s"
    "ss_last_sent s' = ss_last_sent s" "ss_force_full s' = ss_force_full s"
  using assms by (auto simp: feed_output_def split: bind_splits)

lemma resize_keeps:
  assumes "shell_resize r c s = Some s'"
  shows "ss_seq s' = ss_seq s" "ss_acked s' = ss_acked s" "ss_history s' = ss_history s"
    "ss_last_sent s' = ss_last_sent s" "ss_force_full s' = ss_force_full s"
  using assms by (auto simp: shell_resize_def split: bind_splits)

lemma responses_keep:
  "ss_seq (snd (shell_take_responses s)) = ss_seq s" "ss_acked (snd (shell_take_responses s)) = ss_acked s"
  "ss_history (snd (shell_take_responses s)) = ss_history s"
  "ss_last_sent (snd (shell_take_responses s)) = ss_last_sent s"
  "screen_ok (ss_screen (snd (shell_take_responses s))) = screen_ok (ss_screen s)"
  "render_eq (ss_screen (snd (shell_take_responses s))) g = render_eq (ss_screen s) g"
  by (simp_all add: shell_take_responses_def take_responses_def ss_screen_def screen_ok_def grid_wf_def render_eq_def)

lemma ingest_keeps:
  "ss_seq (snd (ingest_input off data s)) = ss_seq s" "ss_acked (snd (ingest_input off data s)) = ss_acked s"
  "ss_history (snd (ingest_input off data s)) = ss_history s"
  "ss_last_sent (snd (ingest_input off data s)) = ss_last_sent s"
  "ss_screen (snd (ingest_input off data s)) = ss_screen s"
  by (simp_all add: ingest_input_def ss_screen_def split: prod.splits)

lemma srv_inv_ack: "srv_inv scr s \<Longrightarrow> srv_inv scr (on_state_ack sq s)"
  by (auto simp: srv_inv_def on_state_ack_def ss_screen_def bt_get_filter_keys split: if_splits)

lemma note_screen_inv:
  assumes "srv_inv scr s" "ss_seq s + 1 < two64" "s' = note_screen s"
  shows "srv_inv (scr(ss_seq s' \<mapsto> ss_last_sent s')) s'" "ss_acked s' = ss_acked s"
    "ss_screen s' = ss_screen s" "render_eq (ss_screen s) (ss_last_sent s')"
    "\<And>k. scr k \<noteq> None \<Longrightarrow> (scr(ss_seq s' \<mapsto> ss_last_sent s')) k = scr k"
    "ss_force_full s' = ss_force_full s" "bt_get (ss_history s') (ss_acked s) = bt_get (ss_history s) (ss_acked s)"
proof -
  have *: "(scr(ss_seq s \<mapsto> ss_last_sent s)) k = scr k" if "scr k \<noteq> None" for k
    using that assms(1) by (auto simp: srv_inv_def)
  have new: "scr (ss_seq s + 1) = None" "bt_get (ss_history s) (ss_seq s + 1) = None"
    using assms(1) unfolding srv_inv_def by (metis Suc_eq_plus1 Suc_n_not_le_n not_Some_eq)+
  show "srv_inv (scr(ss_seq s' \<mapsto> ss_last_sent s')) s'"
  proof (cases "render_eq (ss_screen s) (ss_last_sent s)")
    case True
    then have s': "s' = s" using assms(3) by (simp add: note_screen_def)
    show ?thesis
    proof (cases "scr (ss_seq s)")
      case None
      then show ?thesis using assms(1) unfolding s' srv_inv_def by (auto split: if_splits)
    next
      case (Some g)
      then have "scr(ss_seq s \<mapsto> ss_last_sent s) = scr" using assms(1) by (auto simp: srv_inv_def)
      then show ?thesis using assms(1) unfolding s' by simp
    qed
  next
    case False
    then have "s' = s\<lparr>ss_seq := ss_seq s + 1, ss_history := bt_insert (ss_seq s + 1) (ss_screen s) (ss_history s),
        ss_last_sent := ss_screen s\<rparr>"
      using assms(2,3) by (simp add: note_screen_def Let_def wrap64_def)
    then show ?thesis
      using assms(1,2) new unfolding srv_inv_def
      by (auto simp: ss_screen_def intro: le_SucI)
  qed
  show "(scr(ss_seq s' \<mapsto> ss_last_sent s')) k = scr k" if "scr k \<noteq> None" for k
    using * [OF that] new that assms(2,3) by (auto simp: note_screen_def Let_def wrap64_def)
  show "bt_get (ss_history s') (ss_acked s) = bt_get (ss_history s) (ss_acked s)"
    using new(2) assms unfolding srv_inv_def by (auto simp: note_screen_def Let_def wrap64_def)
qed (use assms(2,3) in \<open>auto simp: note_screen_def Let_def ss_screen_def render_eq_def split: if_splits\<close>)

lemma poll_diff_parts:
  assumes "poll_diff s = (f, s')"
  shows "ss_seq s' = ss_seq (note_screen s)" "ss_last_sent s' = ss_last_sent (note_screen s)"
    "srv_inv scr s' = srv_inv scr (note_screen s)"
    "f = None \<longleftrightarrow> ss_seq s' = ss_acked (note_screen s)"
    "f \<noteq> None \<Longrightarrow> \<exists>b base. f = Some (StateDiff (of_nat (ss_seq s')) (of_nat b) (encode_diff base (ss_last_sent s'))) \<and>
       (if ss_force_full (note_screen s) then base = None \<and> b = 0
        else b = ss_acked (note_screen s) \<and> base = bt_get (ss_history (note_screen s)) b)"
proof -
  note p = assms [unfolded poll_diff_def Let_def]
  show "f \<noteq> None \<Longrightarrow> \<exists>b base. f = Some (StateDiff (of_nat (ss_seq s')) (of_nat b) (encode_diff base (ss_last_sent s'))) \<and>
       (if ss_force_full (note_screen s) then base = None \<and> b = 0
        else b = ss_acked (note_screen s) \<and> base = bt_get (ss_history (note_screen s)) b)"
    using p by (auto split: if_splits intro: exI [of _ 0])
qed (use assms in \<open>auto simp: poll_diff_def Let_def srv_inv_def ss_screen_def split: if_splits\<close>)

lemma diff_inv_ext:
  "diff_inv scr f \<Longrightarrow> (\<And>k. scr k \<noteq> None \<Longrightarrow> scr' k = scr k) \<Longrightarrow> diff_inv scr' f"
  unfolding diff_inv_def by (metis option.distinct(1))

lemma cli_inv_ext:
  "cli_inv scr c \<Longrightarrow> (\<And>k. scr k \<noteq> None \<Longrightarrow> scr' k = scr k) \<Longrightarrow> cli_inv scr' c"
  unfolding cli_inv_def by (metis option.distinct(1))

lemma shell_inv_poll:
  assumes "shell_inv l" "ss_seq (sl_srv l) + 1 < two64"
  shows "shell_inv (link_poll_diff l)"
proof -
  let ?n = "note_screen (sl_srv l)" and ?scr = "sl_screens l"
  obtain f s where p: "poll_diff (sl_srv l) = (f, s)" by (cases "poll_diff (sl_srv l)")
  note parts = poll_diff_parts [OF p]
  let ?scr' = "?scr(ss_seq s \<mapsto> ss_last_sent s)"
  have inv: "srv_inv ?scr (sl_srv l)" using assms(1) by (simp add: shell_inv_def)
  note n = note_screen_inv [OF inv assms(2) refl, folded parts(1,2)]
  have ext: "\<And>k. ?scr k \<noteq> None \<Longrightarrow> ?scr' k = ?scr k" by (rule n(5))
  have "diff_inv ?scr' x" if fx: "f = Some x" for x
  proof -
    obtain b base where x: "x = StateDiff (of_nat (ss_seq s)) (of_nat b) (encode_diff base (ss_last_sent s))"
      and b: "if ss_force_full ?n then base = None \<and> b = 0 else b = ss_acked ?n \<and> base = bt_get (ss_history ?n) b"
      using parts(5) [unfolded fx] by blast
    have "b \<le> ss_seq s \<and> ss_seq s < two64"
      using n(1) b parts(1) unfolding srv_inv_def by (cases "ss_force_full ?n") auto
    moreover have "base = None \<or> (base = ?scr' b \<and> ?scr' b \<noteq> None)"
    proof (cases "ss_force_full ?n")
      case False
      then have "base = bt_get (ss_history ?n) (ss_acked ?n)" "b = ss_acked ?n" using b by simp_all
      moreover have "bt_get (ss_history ?n) (ss_acked ?n) \<noteq> None \<and>
          (\<forall>k g. bt_get (ss_history ?n) k = Some g \<longrightarrow> ?scr' k = Some g)"
        using n(1) unfolding srv_inv_def by blast
      ultimately show ?thesis by (metis not_None_eq)
    qed (use b in simp)
    ultimately show ?thesis unfolding diff_inv_def x
      by (intro exI [of _ "ss_seq s"] exI [of _ b] exI [of _ base] exI [of _ "ss_last_sent s"]) auto
  qed
  moreover have "srv_inv ?scr' s" using n(1) parts(3) by blast
  ultimately show ?thesis
    using assms(1) diff_inv_ext [OF _ ext] cli_inv_ext [OF _ ext]
    unfolding shell_inv_def link_poll_diff_def p by (auto simp del: fun_upd_apply)
qed

text \<open>What an arriving diff does to the client.\<close>

lemma apply_state_diff_cases:
  assumes "cli_inv scr c" "diff_inv scr (StateDiff sq b d)" "\<forall>k g. scr k = Some g \<longrightarrow> screen_ok g"
    "\<exists>r c. scr 0 = Some (grid_new r c)"
  shows "apply_state_diff (unat sq) (unat b) d c = (False, c) \<or>
    (\<exists>g t. apply_state_diff (unat sq) (unat b) d c =
        (True, c\<lparr>cs_grid := g, cs_seq := unat sq, cs_predictor := reconcile g (cs_predictor c)\<rparr>) \<and>
      scr (unat sq) = Some t \<and> render_eq g t \<and> grid_wf g)"
proof (cases "is_full d \<or> (unat b = cs_seq c \<and> unat sq > cs_seq c)")
  case True
  obtain k b' base t where f: "sq = of_nat k" "b = of_nat b'" "d = encode_diff base t" "k < two64" "b' < two64"
    "scr k = Some t" "base = None \<or> (base = scr b' \<and> scr b' \<noteq> None)"
    using assms(2) unfolding diff_inv_def by auto
  have un: "unat sq = k" "unat b = b'" using f by simp_all
  have wf: "grid_wf (cs_grid c)" and ok: "screen_ok t" using assms(1,3) f(6) by (auto simp: cli_inv_def)
  have base: "render_eq (cs_grid c) g" if "base = Some g" "grid_dims g = grid_dims t" "grid_dims (cs_grid c) = grid_dims g" for g
  proof -
    have "\<not> is_full d" using that f(3) by (simp add: grid_diff.full_iff)
    then have b': "b' = cs_seq c" using True un by simp
    have g: "scr b' = Some g" using f(7) that(1) by auto
    then consider "render_eq (cs_grid c) g" | r c' where "b' = 0" "cs_grid c = grid_new r c'"
      using assms(1) b' unfolding cli_inv_def by auto
    then show ?thesis
    proof cases
      case 2
      then obtain r0 c0 where "g = grid_new r0 c0" using assms(4) g by auto
      then show ?thesis using 2(2) that(3) grid_new_dims_eq by (metis render_eq_def)
    qed
  qed
  from grid_diff.app_enc [OF ok wf base] consider
    g where "apply_diff d (cs_grid c) = (None, g)" "render_eq g t" "grid_wf g" | e where "apply_diff d (cs_grid c) = (Some e, cs_grid c)"
    unfolding f(3) by blast
  then show ?thesis
    by cases (use True f(6) un in \<open>auto simp: apply_state_diff_def\<close>)
qed (auto simp: apply_state_diff_def)

lemma shell_inv_diff:
  assumes "shell_inv l" "StateDiff sq b d \<in> sl_diffs l"
  shows "shell_inv (link_diff sq b d l)"
proof -
  note inv = assms(1) [unfolded shell_inv_def srv_inv_def]
  have "diff_inv (sl_screens l) (StateDiff sq b d)" using inv assms(2) by blast
  moreover have "cli_inv (sl_screens l) (sl_cli l)" using inv by blast
  moreover have "\<forall>k g. sl_screens l k = Some g \<longrightarrow> screen_ok g" "\<exists>r c. sl_screens l 0 = Some (grid_new r c)"
    using inv by blast+
  ultimately consider "apply_state_diff (unat sq) (unat b) d (sl_cli l) = (False, sl_cli l)"
    | g t where "apply_state_diff (unat sq) (unat b) d (sl_cli l) = (True, (sl_cli l)
        \<lparr>cs_grid := g, cs_seq := unat sq, cs_predictor := reconcile g (cs_predictor (sl_cli l))\<rparr>)"
      "sl_screens l (unat sq) = Some t" "render_eq g t" "grid_wf g"
    using apply_state_diff_cases by blast
  then have "cli_inv (sl_screens l) (snd (apply_state_diff (unat sq) (unat b) d (sl_cli l)))"
    by cases (use inv in \<open>simp_all add: cli_inv_def reconcile_fields\<close>)
  then show ?thesis using assms(1) by (simp add: shell_inv_def link_diff_def)
qed

lemma shell_inv_reattach: "shell_inv l \<Longrightarrow> shell_inv (link_reattach r c l)"
proof -
  assume "shell_inv l"
  then have "screen_ok (ss_screen (sl_srv l))" "ss_seq (sl_srv l) < two64" by (auto simp: shell_inv_def srv_inv_def)
  moreover from this have "screen_ok (grid_new (g_rows (ss_screen (sl_srv l))) (g_cols (ss_screen (sl_srv l))))"
    by (intro screen_ok_new) (auto simp: screen_ok_def grid_wf_def)
  ultimately show ?thesis
    by (auto simp: link_reattach_def rebind_to_new_client_def Let_def shell_inv_def srv_inv_def cli_inv_def
        client_shell_new_def predictor_new_def ss_screen_def bt_empty_def)
qed

lemma shell_inv_start: "shell_start l \<Longrightarrow> shell_inv l"
proof -
  assume "shell_start l"
  then obtain p r c r' c' where ok: "screen_ok (grid_new r c)" and l: "l = shell_link_new p r c r' c'"
    by (auto simp: shell_start_def)
  have "srv_inv [0 \<mapsto> grid_new r c] (server_shell_new p r c)"
    using ok by (auto simp: server_shell_new_def Let_def srv_inv_def ss_screen_def terminal_new_def bt_empty_def two64_def)
  moreover have "cli_inv [0 \<mapsto> grid_new r c] (client_shell_new r' c')"
    unfolding cli_inv_def client_shell_new_def predictor_new_def Let_def by simp blast
  ultimately show ?thesis by (simp add: l shell_link_new_def shell_inv_def)
qed

lemma shell_inv_step: "shell_step vte width l l' \<Longrightarrow> shell_inv l \<Longrightarrow> shell_inv l'"
proof (induction rule: shell_step.induct)
  case (shell_output bs l s)
  then show ?case
    using srv_inv_screen [OF _ _ feed_keeps(1-4)] by (auto simp: shell_inv_def)
next
  case (resize r c l s)
  then show ?case
    using srv_inv_screen [OF _ _ resize_keeps(1-4)] by (auto simp: shell_inv_def)
next
  case (responses l)
  then show ?case
    using srv_inv_screen [OF _ _ responses_keep(1-4)] by (auto simp: shell_inv_def responses_keep srv_inv_def)
next
  case (poll l)
  then show ?case by (rule shell_inv_poll [rotated])
next
  case (diff_arrives sq base data l)
  then show ?case by (intro shell_inv_diff)
next
  case (ack_arrives sq l)
  then show ?case by (simp add: shell_inv_def link_state_ack_def srv_inv_ack)
next
  case (input_arrives l off data)
  then show ?case
    using srv_inv_screen [OF _ _ ingest_keeps(1-4)] by (auto simp: shell_inv_def ingest_keeps srv_inv_def)
next
  case (reattach l r c)
  then show ?case by (rule shell_inv_reattach)
qed (auto simp: shell_inv_def cli_inv_def link_client_poll_def type_input_def on_input_ack_def)

lemma shell_inv_reachable: "shell_reachable vte width l \<Longrightarrow> shell_inv l"
proof -
  assume "shell_reachable vte width l"
  then obtain l0 where l0: "shell_start l0" "(shell_step vte width)\<^sup>*\<^sup>* l0 l" by (auto simp: shell_reachable_def)
  from l0(2) show ?thesis
    by (induction rule: rtranclp_induct) (use l0(1) shell_inv_start shell_inv_step in blast)+
qed

text \<open>C9: the client always shows a screen the server really had. In every reachable state, under
  any loss, repetition and reordering of diffs and acknowledgements and across reattachments,
  the client's screen renders exactly as the server's screen of the number the client
  acknowledges (or is still the blank one it started with), and predictions are painted over
  that screen.\<close>

theorem client_screen_authentic:
  assumes "shell_reachable vte width l" "c = sl_cli l"
  shows "(\<exists>t. sl_screens l (cs_seq c) = Some t \<and>
      (render_eq (cs_grid c) t \<or> (cs_seq c = 0 \<and> (\<exists>r c'. cs_grid c = grid_new r c')))) \<and>
    grid_wf (cs_grid c) \<and> base_grid (cs_predictor c) = cs_grid c"
  using shell_inv_reachable [OF assms(1)] assms(2) by (simp add: shell_inv_def cli_inv_def)


section \<open>Convergence\<close>

text \<open>Executions without reattachment in which no diff moves the client back to an older screen
  (a full snapshot that arrives late would).\<close>

definition orderly_step ::
  "('p \<Rightarrow> bytes \<Rightarrow> term_event list \<times> 'p) \<Rightarrow> (nat \<Rightarrow> nat) \<Rightarrow> 'p shell_link \<Rightarrow> 'p shell_link \<Rightarrow> bool" where
  "orderly_step vte width l l' \<longleftrightarrow> shell_step vte width l l' \<and> cs_seq (sl_cli l) \<le> cs_seq (sl_cli l') \<and>
     sl_epoch l' = sl_epoch l"

definition orderly_reachable ::
  "('p \<Rightarrow> bytes \<Rightarrow> term_event list \<times> 'p) \<Rightarrow> (nat \<Rightarrow> nat) \<Rightarrow> 'p shell_link \<Rightarrow> bool" where
  "orderly_reachable vte width l \<longleftrightarrow>
     (\<exists>p r c. screen_ok (grid_new r c) \<and> (orderly_step vte width)\<^sup>*\<^sup>* (shell_link_new p r c r c) l)"

definition ordered_inv :: "'p shell_link \<Rightarrow> bool" where
  "ordered_inv l \<longleftrightarrow> \<not> ss_force_full (sl_srv l) \<and>
     sl_screens l (ss_seq (sl_srv l)) = Some (ss_last_sent (sl_srv l)) \<and>
     (\<forall>k g. sl_screens l k = Some g \<longrightarrow> ss_acked (sl_srv l) \<le> k \<longrightarrow> bt_get (ss_history (sl_srv l)) k = Some g) \<and>
     (\<forall>sq. Ack sq \<in> sl_acks l \<longrightarrow> unat sq \<le> cs_seq (sl_cli l)) \<and>
     ss_acked (sl_srv l) \<le> cs_seq (sl_cli l) \<and>
     (\<exists>t. sl_screens l (cs_seq (sl_cli l)) = Some t \<and> render_eq (cs_grid (sl_cli l)) t)"

lemma ordered_inv_srv:
  assumes "ordered_inv l" "ss_seq s = ss_seq (sl_srv l)" "ss_acked s = ss_acked (sl_srv l)"
    "ss_history s = ss_history (sl_srv l)" "ss_last_sent s = ss_last_sent (sl_srv l)"
    "ss_force_full s = ss_force_full (sl_srv l)"
  shows "ordered_inv (l\<lparr>sl_srv := s\<rparr>)"
  using assms by (simp add: ordered_inv_def)

lemma force_full_keeps:
  "ss_force_full (snd (shell_take_responses s)) = ss_force_full s"
  "ss_force_full (snd (ingest_input off data s)) = ss_force_full s"
  by (simp_all add: shell_take_responses_def ingest_input_def split: prod.splits)

lemma ordered_inv_poll:
  assumes "ordered_inv l" "shell_inv l" "ss_seq (sl_srv l) + 1 < two64"
  shows "ordered_inv (link_poll_diff l)"
proof -
  let ?s = "sl_srv l" and ?n = "note_screen (sl_srv l)"
  have ff: "\<not> ss_force_full ?n" using assms(1) by (simp add: ordered_inv_def note_screen_def Let_def)
  then obtain f where p: "poll_diff ?s = (f, ?n)" by (cases "poll_diff ?s") (simp add: poll_diff_def Let_def split: if_splits)
  have inv: "srv_inv (sl_screens l) ?s" using assms(2) by (simp add: shell_inv_def)
  note n = note_screen_inv [OF inv assms(3) refl]
  have hist: "bt_get (ss_history ?n) k = Some g"
    if "((sl_screens l)(ss_seq ?n \<mapsto> ss_last_sent ?n)) k = Some g" "ss_acked ?s \<le> k" for k g
    using that assms(1,3) by (auto simp: note_screen_def Let_def wrap64_def ordered_inv_def split: if_splits)
  have shown: "\<exists>t. ((sl_screens l)(ss_seq ?n \<mapsto> ss_last_sent ?n)) (cs_seq (sl_cli l)) = Some t \<and>
      render_eq (cs_grid (sl_cli l)) t"
    using assms(1) n(5) [of "cs_seq (sl_cli l)"] unfolding ordered_inv_def by auto
  show ?thesis
    unfolding link_poll_diff_def p ordered_inv_def
    using ff hist assms(1) n(2) shown unfolding ordered_inv_def by (simp del: fun_upd_apply add: fun_upd_same)
qed

lemma ordered_inv_ack:
  assumes "ordered_inv l" "shell_inv l" "Ack sq \<in> sl_acks l"
  shows "ordered_inv (link_state_ack sq l)"
  using assms unfolding ordered_inv_def link_state_ack_def on_state_ack_def
  by (simp add: bt_get_filter_keys)

lemma ordered_inv_diff:
  assumes "ordered_inv l" "shell_inv l" "StateDiff sq b d \<in> sl_diffs l"
    "cs_seq (sl_cli l) \<le> cs_seq (sl_cli (link_diff sq b d l))"
  shows "ordered_inv (link_diff sq b d l)"
proof -
  note inv = assms(2) [unfolded shell_inv_def srv_inv_def]
  have "diff_inv (sl_screens l) (StateDiff sq b d)" "cli_inv (sl_screens l) (sl_cli l)"
    "\<forall>k g. sl_screens l k = Some g \<longrightarrow> screen_ok g" "\<exists>r c. sl_screens l 0 = Some (grid_new r c)"
    using inv assms(3) by blast+
  from apply_state_diff_cases [OF this(2,1,3,4)] consider
    "apply_state_diff (unat sq) (unat b) d (sl_cli l) = (False, sl_cli l)"
    | g t where "apply_state_diff (unat sq) (unat b) d (sl_cli l) = (True, (sl_cli l)
        \<lparr>cs_grid := g, cs_seq := unat sq, cs_predictor := reconcile g (cs_predictor (sl_cli l))\<rparr>)"
      "sl_screens l (unat sq) = Some t" "render_eq g t"
    by blast
  then show ?thesis
    by cases (use assms(1,4) in \<open>auto simp: ordered_inv_def link_diff_def intro: order_trans\<close>)
qed

lemma ordered_inv_step:
  assumes "orderly_step vte width l l'" "ordered_inv l" "shell_inv l"
  shows "ordered_inv l'"
proof -
  have step: "shell_step vte width l l'" and up: "cs_seq (sl_cli l) \<le> cs_seq (sl_cli l')" "sl_epoch l' = sl_epoch l"
    using assms(1) by (simp_all add: orderly_step_def)
  from step up assms(2,3) show ?thesis
  proof (induction rule: shell_step.induct)
    case (shell_output bs l s)
    then show ?case using ordered_inv_srv [OF _ feed_keeps] by blast
  next
    case (resize r c l s)
    then show ?case using ordered_inv_srv [OF _ resize_keeps] by blast
  next
    case (responses l)
    then show ?case by (simp add: ordered_inv_srv responses_keep force_full_keeps)
  next
    case (poll l)
    then show ?case by (intro ordered_inv_poll)
  next
    case (diff_arrives sq base data l)
    then show ?case by (intro ordered_inv_diff)
  next
    case (client_poll l)
    have "shell_inv l \<Longrightarrow> cs_seq (sl_cli l) < two64"
      unfolding shell_inv_def srv_inv_def cli_inv_def by (meson le_less_trans)
    then show ?case
      using client_poll by (auto simp: ordered_inv_def link_client_poll_def client_poll_frames_def input_pending_def split: option.splits if_splits)
  next
    case (ack_arrives sq l)
    then show ?case by (intro ordered_inv_ack)
  next
    case (input_arrives l off data)
    then show ?case by (simp add: ordered_inv_srv ingest_keeps force_full_keeps)
  next
    case (reattach l r c)
    then show ?case by (simp add: link_reattach_def Let_def)
  qed (simp_all add: ordered_inv_def type_input_def on_input_ack_def)
qed

lemma ordered_inv_reachable:
  assumes "orderly_reachable vte width l"
  shows "ordered_inv l \<and> shell_inv l"
proof -
  obtain p r c where ok: "screen_ok (grid_new r c)"
    and run: "(orderly_step vte width)\<^sup>*\<^sup>* (shell_link_new p r c r c) l"
    using assms by (auto simp: orderly_reachable_def)
  have "shell_inv (shell_link_new p r c r c)"
    by (rule shell_inv_start) (use ok in \<open>unfold shell_start_def, blast\<close>)
  moreover have "ordered_inv (shell_link_new p r c r c)"
    by (simp add: ordered_inv_def shell_link_new_def server_shell_new_def client_shell_new_def Let_def bt_empty_def render_eq_def)
  ultimately have start: "ordered_inv (shell_link_new p r c r c) \<and> shell_inv (shell_link_new p r c r c)" by simp
  from run show ?thesis
  proof (induction rule: rtranclp_induct)
    case (step y z)
    then show ?case using ordered_inv_step shell_inv_step unfolding orderly_step_def by blast
  qed (rule start)
qed

text \<open>One undisturbed exchange: the client's acknowledgement, the server's poll, the diff.\<close>

definition shell_exchange :: "'p shell_link \<Rightarrow> 'p shell_link" where
  "shell_exchange l =
     (case poll_diff (on_state_ack (cs_seq (sl_cli l)) (sl_srv l)) of
        (Some (StateDiff sq b d), s) \<Rightarrow>
          l\<lparr>sl_srv := s, sl_cli := snd (apply_state_diff (unat sq) (unat b) d (sl_cli l))\<rparr>
      | (_, s) \<Rightarrow> l\<lparr>sl_srv := s\<rparr>)"

lemma exchange_ack:
  assumes "ordered_inv l" "shell_inv l" "s = on_state_ack (cs_seq (sl_cli l)) (sl_srv l)"
  shows "ss_acked s = cs_seq (sl_cli l)" "ss_seq s = ss_seq (sl_srv l)" "ss_screen s = ss_screen (sl_srv l)"
    "ss_last_sent s = ss_last_sent (sl_srv l)" "\<not> ss_force_full s" "srv_inv (sl_screens l) s"
    "\<exists>t. bt_get (ss_history s) (cs_seq (sl_cli l)) = Some t \<and> sl_screens l (cs_seq (sl_cli l)) = Some t \<and>
       render_eq (cs_grid (sl_cli l)) t"
proof -
  obtain t where t: "sl_screens l (cs_seq (sl_cli l)) = Some t" "render_eq (cs_grid (sl_cli l)) t"
    using assms(1) by (auto simp: ordered_inv_def)
  then have h: "bt_get (ss_history (sl_srv l)) (cs_seq (sl_cli l)) = Some t"
    using assms(1) by (auto simp: ordered_inv_def)
  show "ss_acked s = cs_seq (sl_cli l)" using h assms(1,3) by (auto simp: on_state_ack_def ordered_inv_def)
  show "\<exists>t. bt_get (ss_history s) (cs_seq (sl_cli l)) = Some t \<and> sl_screens l (cs_seq (sl_cli l)) = Some t \<and>
       render_eq (cs_grid (sl_cli l)) t"
    using h t assms(3) by (auto simp: on_state_ack_def bt_get_filter_keys)
  show "srv_inv (sl_screens l) s" using assms(2,3) srv_inv_ack by (auto simp: shell_inv_def)
qed (use assms in \<open>auto simp: on_state_ack_def ss_screen_def ordered_inv_def\<close>)

text \<open>C8: the screens converge. As long as no full snapshot arrives late and the client has not
  reattached, from every reachable state one undisturbed exchange (the client's
  acknowledgement, the server's diff) leaves the client showing exactly the server's current
  screen under its current number, whatever was lost, repeated or reordered before.\<close>

theorem shell_converges:
  assumes "orderly_reachable vte width l" "ss_seq (sl_srv l) + 1 < two64"
  shows "render_eq (cs_grid (sl_cli (shell_exchange l))) (ss_screen (sl_srv l)) \<and>
    cs_seq (sl_cli (shell_exchange l)) = ss_seq (sl_srv (shell_exchange l))"
proof -
  let ?c = "sl_cli l" and ?s = "on_state_ack (cs_seq (sl_cli l)) (sl_srv l)"
  have inv: "ordered_inv l" "shell_inv l" using ordered_inv_reachable [OF assms(1)] by simp_all
  note a = exchange_ack [OF inv refl]
  obtain t where t: "bt_get (ss_history ?s) (cs_seq ?c) = Some t" "sl_screens l (cs_seq ?c) = Some t" "render_eq (cs_grid ?c) t"
    using a(7) by blast
  have "ss_seq ?s + 1 < two64" using assms(2) a(2) by simp
  note n = note_screen_inv [OF a(6) this refl]
  let ?n = "note_screen ?s"
  have ok: "screen_ok (ss_last_sent ?n)" "ss_acked ?n \<le> ss_seq ?n" "ss_seq ?n < two64" "ss_acked ?n = cs_seq ?c"
    using n(1,2) a(1) by (simp_all add: srv_inv_def)
  have eq: "render_eq (ss_last_sent ?n) (ss_screen (sl_srv l))" using n(4) a(3) by (simp add: render_eq_def)
  show ?thesis
  proof (cases "ss_seq ?n = ss_acked ?n")
    case True
    then have "t = ss_last_sent ?n"
      using n(5) [of "cs_seq ?c"] t(2) ok(4) by simp
    then have "render_eq (cs_grid ?c) (ss_screen (sl_srv l))" using t(3) eq by (simp add: render_eq_def)
    moreover have "poll_diff ?s = (None, ?n)" using True by (simp add: poll_diff_def Let_def)
    ultimately show ?thesis using True ok(4) by (simp add: shell_exchange_def)
  next
    case False
    have p: "poll_diff ?s = (Some (StateDiff (of_nat (ss_seq ?n)) (of_nat (cs_seq ?c))
        (encode_diff (Some t) (ss_last_sent ?n))), ?n)"
      using False a(5) n(6) ok(4) t(1) n(7) a(1) by (simp add: poll_diff_def Let_def)
    have wf: "grid_wf (cs_grid ?c)" using inv(2) by (simp add: shell_inv_def cli_inv_def)
    obtain g where g: "apply_diff (encode_diff (Some t) (ss_last_sent ?n)) (cs_grid ?c) = (None, g)"
      "render_eq g (ss_last_sent ?n)"
      using grid_diff.app_full [OF ok(1) wf] grid_diff.app_delta [OF ok(1) wf _ t(3)] grid_diff.full_iff by blast
    have "cs_seq ?c < ss_seq ?n" "cs_seq ?c < two64" using ok False by simp_all
    then have "apply_state_diff (unat (of_nat (ss_seq ?n) :: u64)) (unat (of_nat (cs_seq ?c) :: u64))
        (encode_diff (Some t) (ss_last_sent ?n)) ?c =
        (True, ?c\<lparr>cs_grid := g, cs_seq := ss_seq ?n, cs_predictor := reconcile g (cs_predictor ?c)\<rparr>)"
      using g(1) ok(3) by (simp add: apply_state_diff_def)
    then show ?thesis using p g(2) eq by (simp add: shell_exchange_def render_eq_def)
  qed
qed


text \<open>A small instance: a parser that prints every byte, one column each, on a screen of one cell.\<close>

definition demo_vte :: "unit \<Rightarrow> bytes \<Rightarrow> term_event list \<times> unit" where
  "demo_vte p bs = (map (\<lambda>b. EvPrint (unat b)) bs, p)"

definition demo_width :: "nat \<Rightarrow> nat" where
  "demo_width c = 1"

definition demo_screen :: grid where
  "demo_screen = (grid_new 1 1)\<lparr>g_cells := [blank\<lparr>ch := 97\<rparr>], wrap_pending := True\<rparr>"

lemmas grid_eval = put_char_def put_wrap_def put_fit_def put_glyph_def put_at_def idx_def grid_new_def Let_def blank_def

lemma demo_output:
  "terminal_advance demo_vte demo_width [97] \<lparr>parser = (), tgrid = grid_new 1 1\<rparr> =
     Some \<lparr>parser = (), tgrid = demo_screen\<rparr>"
  by (simp add: terminal_advance_def demo_vte_def demo_width_def demo_screen_def grid_eval)

lemma demo_resize: "terminal_resize 1 1 \<lparr>parser = (), tgrid = grid_new 1 2\<rparr> = Some \<lparr>parser = (), tgrid = grid_new 1 1\<rparr>"
  by (simp add: terminal_resize_def grid_resize_def resize_cells_def grid_eval)

lemma demo_screens: "screen_ok (grid_new 1 1)" "screen_ok (grid_new 1 2)" "screen_ok demo_screen"
  "\<not> render_eq (grid_new 1 1) (grid_new 1 2)" "\<not> render_eq demo_screen (grid_new 1 1)"
  "\<not> render_eq (grid_new 1 1) demo_screen"
proof -
  show *: "screen_ok (grid_new 1 1)" "screen_ok (grid_new 1 2)"
    by (rule screen_ok_new; simp add: MAX_CELLS_def)+
  show "screen_ok demo_screen"
    using *(1) by (simp add: demo_screen_def screen_ok_def grid_wf_def grid_new_def cell_ok_def is_scalar_def blank_def)
qed (simp_all add: demo_screen_def render_eq_def grid_new_def blank_def)
definition demo_srv :: "nat \<Rightarrow> (nat, grid) btree \<Rightarrow> grid \<Rightarrow> bool \<Rightarrow> nat \<Rightarrow> grid \<Rightarrow> unit server_shell" where
  "demo_srv sq hist lst ff acked g = \<lparr>ss_term = \<lparr>parser = (), tgrid = g\<rparr>, ss_seq = sq, ss_acked = acked,
     ss_history = hist, ss_last_sent = lst, ss_input_rx = input_receiver_new, ss_force_full = ff\<rparr>"

lemma demo_srv_new: "server_shell_new () r c = demo_srv 0 [(0, grid_new r c)] (grid_new r c) False 0 (grid_new r c)"
  by (simp add: server_shell_new_def demo_srv_def Let_def terminal_new_def bt_empty_def)

lemma demo_srv_resize: "shell_resize 1 1 (demo_srv sq hist lst ff acked (grid_new 1 2)) =
    Some (demo_srv sq hist lst ff acked (grid_new 1 1))"
  using demo_resize by (simp add: shell_resize_def demo_srv_def)

lemma demo_srv_output: "feed_output demo_vte demo_width [97] (demo_srv sq hist lst ff acked (grid_new 1 1)) =
    Some (demo_srv sq hist lst ff acked demo_screen)"
  using demo_output by (simp add: feed_output_def demo_srv_def)

lemma demo_srv_screen [simp]: "ss_screen (demo_srv sq hist lst ff acked g) = g" "ss_seq (demo_srv sq hist lst ff acked g) = sq"
  by (simp_all add: ss_screen_def demo_srv_def)

definition demo_link :: "unit shell_link" where
  "demo_link = (shell_link_new () 1 1 1 1)\<lparr>sl_srv := demo_srv 0 [(0, grid_new 1 1)] (grid_new 1 1) False 0 demo_screen\<rparr>"

lemma demo_link_step: "shell_step demo_vte demo_width (shell_link_new () 1 1 1 1) demo_link"
  unfolding demo_link_def
  by (rule shell_output [where bs = "[97]"])
    (simp_all add: shell_link_new_def demo_srv_new demo_srv_output [unfolded One_nat_def] demo_screens)

lemma demo_link_orderly: "orderly_reachable demo_vte demo_width demo_link"
proof -
  have "orderly_step demo_vte demo_width (shell_link_new () 1 1 1 1) demo_link"
    using demo_link_step by (simp add: orderly_step_def demo_link_def)
  then show ?thesis unfolding orderly_reachable_def using demo_screens(1) by blast
qed

lemma demo_link_reachable: "shell_reachable demo_vte demo_width demo_link"
  unfolding shell_reachable_def shell_start_def using demo_screens(1) demo_link_step by blast

theorem client_screen_authentic_witness:
  "(\<exists>t. sl_screens demo_link (cs_seq (sl_cli demo_link)) = Some t \<and>
      (render_eq (cs_grid (sl_cli demo_link)) t \<or> (cs_seq (sl_cli demo_link) = 0 \<and>
        (\<exists>r c'. cs_grid (sl_cli demo_link) = grid_new r c')))) \<and>
    grid_wf (cs_grid (sl_cli demo_link)) \<and> base_grid (cs_predictor (sl_cli demo_link)) = cs_grid (sl_cli demo_link)"
  by (rule client_screen_authentic [OF demo_link_reachable refl])

theorem shell_converges_witness:
  "render_eq (cs_grid (sl_cli (shell_exchange demo_link))) demo_screen \<and>
    cs_seq (sl_cli (shell_exchange demo_link)) = ss_seq (sl_srv (shell_exchange demo_link))"
  using shell_converges [OF demo_link_orderly] by (simp add: demo_link_def two64_def)

end
