(* ===== verification/ShellLimits.thy ===== *)
theory ShellLimits
  imports ShellLink
begin

text \<open>
  Three executions after which the screens no longer converge, although nothing further is lost:
  a full snapshot that arrives late, a reattachment while the screen is blank, and a reattachment
  whose only full snapshot is lost.
\<close>

text \<open>The client shows another screen than the server, the server ignores its acknowledgement,
  and sends nothing or a diff the client does not apply.\<close>

definition stuck :: "'p shell_link \<Rightarrow> bool" where
  "stuck l \<longleftrightarrow> \<not> render_eq (cs_grid (sl_cli l)) (ss_screen (sl_srv l)) \<and>
     on_state_ack (cs_seq (sl_cli l)) (sl_srv l) = sl_srv l \<and>
     (case fst (poll_diff (sl_srv l)) of
        Some (StateDiff sq b d) \<Rightarrow> apply_state_diff (unat sq) (unat b) d (sl_cli l) = (False, sl_cli l)
      | _ \<Rightarrow> True)"

abbreviation demo_step :: "unit shell_link \<Rightarrow> unit shell_link \<Rightarrow> bool" where
  "demo_step \<equiv> shell_step demo_vte demo_width"

text \<open>A full snapshot always applies.\<close>

lemma snapshot_applies:
  assumes "screen_ok t" "grid_wf (cs_grid c)" "is_full (encode_diff base t)"
  shows "\<exists>g. apply_state_diff sq b (encode_diff base t) c =
      (True, c\<lparr>cs_grid := g, cs_seq := sq, cs_predictor := reconcile g (cs_predictor c)\<rparr>) \<and> render_eq g t \<and> grid_wf g"
  using grid_diff.app_full [OF assms] assms(3) by (auto simp: apply_state_diff_def)

lemma demo_full: "is_full (encode_diff (Some (grid_new 1 2)) (grid_new 1 1))"
  "is_full (encode_diff (Some (grid_new 1 2)) demo_screen)" "is_full (encode_diff None t)"
  by (simp_all add: is_full_enc grid_dims_def grid_new_def demo_screen_def)

lemma demo_note:
  "\<not> render_eq g lst \<Longrightarrow> sq + 1 < two64 \<Longrightarrow> note_screen (demo_srv sq hist lst ff acked g) =
     demo_srv (sq + 1) (bt_insert (sq + 1) g hist) g ff acked g"
  "render_eq g lst \<Longrightarrow> note_screen (demo_srv sq hist lst ff acked g) = demo_srv sq hist lst ff acked g"
  by (simp_all add: note_screen_def demo_srv_def ss_screen_def Let_def wrap64_def)

lemma demo_poll:
  assumes "note_screen s = demo_srv sq hist lst ff acked g" "sq \<noteq> acked"
  shows "poll_diff s =
    (Some (StateDiff (of_nat sq) (if ff then 0 else of_nat acked) (encode_diff (if ff then None else bt_get hist acked) lst)),
     demo_srv sq hist lst False acked g)"
  using assms by (simp add: poll_diff_def demo_srv_def Let_def)

lemma two64_big [simp]: "Suc 0 < two64" "Suc (Suc 0) < two64" "2 < two64" "3 < two64"
  by (simp_all add: two64_def)

lemma reachable_step: "shell_reachable vte width l \<Longrightarrow> shell_step vte width l l' \<Longrightarrow> shell_reachable vte width l'"
  unfolding shell_reachable_def by (meson rtranclp.rtrancl_into_rtrancl)

definition demo_resized :: "unit shell_link" where
  "demo_resized = \<lparr>sl_srv = demo_srv 1 [(0, grid_new 1 2), (1, grid_new 1 1)] (grid_new 1 1) False 0 (grid_new 1 1),
     sl_cli = client_shell_new 1 2, sl_screens = [0 \<mapsto> grid_new 1 2, 1 \<mapsto> grid_new 1 1],
     sl_diffs = {StateDiff 1 0 (encode_diff (Some (grid_new 1 2)) (grid_new 1 1))}, sl_acks = {}, sl_epoch = 0\<rparr>"

lemma demo_resized_reachable: "shell_reachable demo_vte demo_width demo_resized"
proof -
  let ?G0 = "grid_new 1 2" and ?G1 = "grid_new 1 1"
  let ?l0 = "shell_link_new () 1 2 1 2"
  let ?l1 = "?l0\<lparr>sl_srv := demo_srv 0 [(0, ?G0)] ?G0 False 0 ?G1\<rparr>"
  have "demo_step ?l0 ?l1"
    by (rule resize [where r = 1 and c = 1])
      (simp_all add: shell_link_new_def demo_srv_new demo_srv_resize [unfolded One_nat_def] demo_screens [unfolded One_nat_def])
  moreover have n: "note_screen (demo_srv 0 [(0, ?G0)] ?G0 False 0 ?G1) = demo_srv 1 [(0, ?G0), (1, ?G1)] ?G1 False 0 ?G1"
    using demo_screens(4) by (simp add: demo_note)
  have "link_poll_diff ?l1 = demo_resized"
    using demo_poll [OF n] by (simp add: link_poll_diff_def shell_link_new_def demo_resized_def) (simp add: demo_srv_def)
  then have "demo_step ?l1 demo_resized" using poll [of ?l1] by simp
  moreover have "shell_reachable demo_vte demo_width ?l0"
    unfolding shell_reachable_def shell_start_def using demo_screens(2) by blast
  ultimately show ?thesis by (blast intro: reachable_step)
qed

lemma demo_output_step:
  "sl_srv l = demo_srv sq hist lst ff acked (grid_new 1 1) \<Longrightarrow>
   demo_step l (l\<lparr>sl_srv := demo_srv sq hist lst ff acked demo_screen\<rparr>)"
  by (rule shell_output [where bs = "[97]"]) (simp_all add: demo_srv_output [unfolded One_nat_def] demo_screens)

lemma demo_poll_step:
  assumes "sl_srv l = s" "note_screen s = demo_srv sq hist lst ff acked g" "sq \<noteq> acked" "ss_seq s + 1 < two64"
  shows "demo_step l (l\<lparr>sl_srv := demo_srv sq hist lst False acked g, sl_screens := (sl_screens l)(sq \<mapsto> lst),
      sl_diffs := insert (StateDiff (of_nat sq) (if ff then 0 else of_nat acked)
        (encode_diff (if ff then None else bt_get hist acked) lst)) (sl_diffs l)\<rparr>)"
proof -
  have "ss_last_sent (demo_srv sq hist lst False acked g) = lst" by (simp add: demo_srv_def)
  then show ?thesis
    using poll [of l demo_vte demo_width] demo_poll [OF assms(2,3)] assms(1,4)
    by (cases ff) (simp_all add: link_poll_diff_def)
qed

lemma demo_diff_step:
  assumes "StateDiff sq b (encode_diff base t) \<in> sl_diffs l" "screen_ok t" "grid_wf (cs_grid (sl_cli l))"
    "is_full (encode_diff base t)"
  shows "\<exists>g. demo_step l (l\<lparr>sl_cli := (sl_cli l)\<lparr>cs_grid := g, cs_seq := unat sq,
      cs_predictor := reconcile g (cs_predictor (sl_cli l))\<rparr>\<rparr>) \<and> render_eq g t \<and> grid_wf g"
proof -
  obtain g where "apply_state_diff (unat sq) (unat b) (encode_diff base t) (sl_cli l) = (True, (sl_cli l)
      \<lparr>cs_grid := g, cs_seq := unat sq, cs_predictor := reconcile g (cs_predictor (sl_cli l))\<rparr>)" "render_eq g t" "grid_wf g"
    using snapshot_applies [OF assms(2,3,4)] by blast
  then show ?thesis using diff_arrives [OF assms(1), of demo_vte demo_width] by (auto simp: link_diff_def)
qed

text \<open>Two full snapshots are under way after a resize; the newer arrives, is acknowledged, and
  then the older arrives: the client falls back to it and stays there.\<close>

theorem late_snapshot_diverges: "\<exists>l. shell_reachable demo_vte demo_width l \<and> sl_epoch l = 0 \<and> stuck l"
proof -
  let ?G0 = "grid_new 1 2" and ?G1 = "grid_new 1 1"
  let ?d1 = "encode_diff (Some ?G0) ?G1" and ?d2 = "encode_diff (Some ?G0) demo_screen"
  let ?h1 = "[(0, ?G0), (1, ?G1)]" and ?h2 = "[(0, ?G0), (1, ?G1), (2, demo_screen)]"
  let ?l3 = "demo_resized\<lparr>sl_srv := demo_srv 1 ?h1 ?G1 False 0 demo_screen\<rparr>"
  have r3: "shell_reachable demo_vte demo_width ?l3"
    by (rule reachable_step [OF demo_resized_reachable], rule demo_output_step) (simp add: demo_resized_def)
  let ?l4 = "demo_resized\<lparr>sl_srv := demo_srv 2 ?h2 demo_screen False 0 demo_screen,
    sl_screens := (sl_screens demo_resized)(2 \<mapsto> demo_screen), sl_diffs := {StateDiff 2 0 ?d2, StateDiff 1 0 ?d1}\<rparr>"
  have n: "note_screen (demo_srv 1 ?h1 ?G1 False 0 demo_screen) = demo_srv 2 ?h2 demo_screen False 0 demo_screen"
    using demo_screens(5) by (simp add: demo_note numeral_2_eq_2)
  have "demo_step ?l3 ?l4"
    using demo_poll_step [OF _ n, of ?l3] by (simp add: demo_resized_def)
  with r3 have r4: "shell_reachable demo_vte demo_width ?l4" by (rule reachable_step)
  obtain g where g: "demo_step ?l4 (?l4\<lparr>sl_cli := (sl_cli ?l4)\<lparr>cs_grid := g, cs_seq := 2,
      cs_predictor := reconcile g (cs_predictor (sl_cli ?l4))\<rparr>\<rparr>)" (is "demo_step _ ?l5") "grid_wf g"
    using demo_diff_step [of 2 0 "Some ?G0" demo_screen ?l4] demo_full demo_screens(3)
    by (auto simp: demo_resized_def client_shell_new_def Let_def)
  have r5: "shell_reachable demo_vte demo_width (link_client_poll ?l5)"
    using reachable_step [OF reachable_step [OF r4 g(1)] client_poll] .
  have acks: "Ack 2 \<in> sl_acks (link_client_poll ?l5)" by (simp add: link_client_poll_def client_poll_frames_def)
  let ?l7 = "link_state_ack 2 (link_client_poll ?l5)"
  have r7: "shell_reachable demo_vte demo_width ?l7"
    by (rule reachable_step [OF r5 ack_arrives [OF acks]])
  have srv: "sl_srv ?l7 = demo_srv 2 [(2, demo_screen)] demo_screen False 2 demo_screen"
    by (simp add: link_state_ack_def link_client_poll_def on_state_ack_def demo_srv_def)
  have cli: "sl_cli ?l7 = sl_cli ?l5" "StateDiff 1 0 ?d1 \<in> sl_diffs ?l7"
    by (simp_all add: link_state_ack_def link_client_poll_def)
  obtain g' where g': "demo_step ?l7 (?l7\<lparr>sl_cli := (sl_cli ?l7)\<lparr>cs_grid := g', cs_seq := 1,
      cs_predictor := reconcile g' (cs_predictor (sl_cli ?l7))\<rparr>\<rparr>)" (is "demo_step _ ?l8") "render_eq g' ?G1"
    using demo_diff_step [OF cli(2) demo_screens(1) _ demo_full(1)] cli(1) g(2) by auto
  let ?s = "demo_srv 2 [(2, demo_screen)] demo_screen False 2 demo_screen"
  have "note_screen ?s = ?s" by (rule demo_note(2)) (simp add: render_eq_def)
  then have "poll_diff ?s = (None, ?s)" by (simp add: poll_diff_def) (simp add: demo_srv_def)
  moreover have "on_state_ack 1 ?s = ?s" by (simp add: on_state_ack_def demo_srv_def)
  moreover have "sl_srv ?l8 = ?s" "cs_seq (sl_cli ?l8) = 1" "cs_grid (sl_cli ?l8) = g'" using srv by simp_all
  moreover have "\<not> render_eq g' demo_screen" using g'(2) demo_screens(6) by (auto simp: render_eq_def)
  ultimately have "stuck ?l8" unfolding stuck_def by simp
  moreover have "sl_epoch ?l8 = 0" by (simp add: link_state_ack_def link_client_poll_def demo_resized_def)
  ultimately show ?thesis using reachable_step [OF r7 g'(1)] by blast
qed

text \<open>A new client attaches while the screen is blank: the snapshot it is sent carries a number
  the server's history does not hold, so its acknowledgement is ignored and every later delta is
  against the wrong base.\<close>

definition demo_rebound :: "nat \<Rightarrow> unit shell_link" where
  "demo_rebound c = \<lparr>sl_srv = demo_srv 1 [(0, grid_new 1 1)] (grid_new 1 1) False 0 (grid_new 1 1),
     sl_cli = client_shell_new 1 c, sl_screens = [0 \<mapsto> grid_new 1 1, 1 \<mapsto> grid_new 1 1],
     sl_diffs = {StateDiff 1 0 (encode_diff None (grid_new 1 1))}, sl_acks = {}, sl_epoch = 1\<rparr>"

lemma demo_rebound_reachable: "shell_reachable demo_vte demo_width (demo_rebound c)"
proof -
  let ?l = "link_reattach 1 c demo_resized"
  have srv: "sl_srv ?l = demo_srv 1 [(0, grid_new 1 1)] (grid_new 1 1) True 0 (grid_new 1 1)"
    by (simp add: link_reattach_def demo_resized_def rebind_to_new_client_def Let_def bt_empty_def)
      (simp add: demo_srv_def grid_new_def)
  have n: "note_screen (demo_srv 1 [(0, grid_new 1 1)] (grid_new 1 1) True 0 (grid_new 1 1)) =
      demo_srv 1 [(0, grid_new 1 1)] (grid_new 1 1) True 0 (grid_new 1 1)"
    by (rule demo_note(2)) (simp add: render_eq_def)
  have last: "ss_last_sent (rebind_to_new_client (sl_srv demo_resized)) = grid_new 1 1"
    by (simp add: rebind_to_new_client_def Let_def demo_resized_def grid_new_def)
  have "demo_step ?l (demo_rebound c)"
    using demo_poll_step [OF srv n] srv last
    by (simp add: demo_rebound_def link_reattach_def Let_def) (simp add: demo_resized_def)
  then show ?thesis using reachable_step [OF demo_resized_reachable reattach] reachable_step by blast
qed

theorem blank_reattach_diverges:
  "\<exists>l. shell_reachable demo_vte demo_width l \<and> cs_seq (sl_cli l) = 1 \<and> ss_acked (sl_srv l) = 0 \<and> stuck l"
proof -
  let ?G1 = "grid_new 1 1" and ?l = "demo_rebound 1"
  obtain g where g: "demo_step ?l (?l\<lparr>sl_cli := (sl_cli ?l)\<lparr>cs_grid := g, cs_seq := 1,
      cs_predictor := reconcile g (cs_predictor (sl_cli ?l))\<rparr>\<rparr>)" (is "demo_step _ ?l1") "render_eq g ?G1"
    using demo_diff_step [of 1 0 None ?G1 ?l] demo_full(3) demo_screens(1)
    by (auto simp: demo_rebound_def client_shell_new_def Let_def)
  let ?l2 = "?l1\<lparr>sl_srv := demo_srv 1 [(0, ?G1)] ?G1 False 0 demo_screen\<rparr>"
  have "demo_step ?l1 ?l2" by (rule demo_output_step) (simp add: demo_rebound_def)
  then have "shell_reachable demo_vte demo_width ?l2"
    using demo_rebound_reachable g(1) reachable_step by blast
  moreover have n: "note_screen (demo_srv 1 [(0, ?G1)] ?G1 False 0 demo_screen) =
      demo_srv 2 [(0, ?G1), (2, demo_screen)] demo_screen False 0 demo_screen"
    using demo_screens(5) by (simp add: demo_note numeral_2_eq_2)
  have "\<not> is_full (encode_diff (Some ?G1) demo_screen)"
    by (simp add: is_full_enc grid_dims_def demo_screen_def)
  then have "stuck ?l2"
    using g(2) demo_screens(6) demo_poll [OF n] unfolding stuck_def
    by (auto simp: on_state_ack_def apply_state_diff_def render_eq_def) (simp_all add: demo_srv_def)
  moreover have "cs_seq (sl_cli ?l2) = 1 \<and> ss_acked (sl_srv ?l2) = 0" by (simp add: demo_srv_def)
  ultimately show ?thesis by blast
qed

text \<open>A new client of another size attaches and the one full snapshot it is sent is lost: every
  later delta against the blank screen of the server's size is rejected.\<close>

theorem lost_snapshot_diverges:
  "\<exists>l. shell_reachable demo_vte demo_width l \<and> cs_seq (sl_cli l) = 0 \<and> grid_dims (cs_grid (sl_cli l)) = (1, 2) \<and> stuck l"
proof -
  let ?G1 = "grid_new 1 1" and ?l = "demo_rebound 2"
  have n: "note_screen (demo_srv 1 [(0, ?G1)] ?G1 False 0 ?G1) = demo_srv 1 [(0, ?G1)] ?G1 False 0 ?G1"
    by (rule demo_note(2)) (simp add: render_eq_def)
  have "apply_diff (encode_diff (Some ?G1) ?G1) (grid_new 1 2) = (Some DimMismatch, grid_new 1 2)"
    using demo_screens(1) by (intro apply_diff_mismatch) (simp_all add: grid_dims_def grid_new_def)
  moreover have "\<not> render_eq (grid_new 1 2) ?G1" using demo_screens(4) by (auto simp: render_eq_def)
  ultimately have "stuck ?l"
    using demo_poll [OF n] unfolding stuck_def
    by (auto simp: on_state_ack_def apply_state_diff_def demo_rebound_def client_shell_new_def Let_def)
  moreover have "cs_seq (sl_cli ?l) = 0" "grid_dims (cs_grid (sl_cli ?l)) = (1, 2)"
    by (simp_all add: demo_rebound_def client_shell_new_def Let_def grid_dims_def grid_new_def)
  ultimately show ?thesis using demo_rebound_reachable by blast
qed

end
