(* ===== verification/Replay.thy ===== *)
theory Replay
  imports Prelude
begin

text \<open>
  The anti-replay filter, \<^verbatim>\<open>crates/transport/src/replay.rs\<close>: the highest accepted nonce and
  a 64-bit map of the nonces just below it. Its specification is the set of nonces accepted
  so far; the locale \<open>replay_guard\<close> is what the session layer relies on.
\<close>

section \<open>The filter\<close>

definition REPLAY_WINDOW :: nat where
  "REPLAY_WINDOW = 64"

record window_filter =
  max_nonce :: "nat option"
  bitmap :: u64

definition window_filter_new :: window_filter where
  "window_filter_new = \<lparr>max_nonce = None, bitmap = 0\<rparr>"

definition check_and_set :: "window_filter \<Rightarrow> nat \<Rightarrow> bool \<times> window_filter" where
  "check_and_set w nonce =
     (case max_nonce w of
        None \<Rightarrow> (True, w\<lparr>max_nonce := Some nonce, bitmap := 1\<rparr>)
      | Some mx \<Rightarrow>
          if nonce > mx then
            (let diff = nonce - mx
             in (True, w\<lparr>bitmap := (if diff \<ge> REPLAY_WINDOW then 1 else push_bit diff (bitmap w) OR 1),
                         max_nonce := Some nonce\<rparr>))
          else
            (let diff = mx - nonce
             in if diff \<ge> REPLAY_WINDOW then (False, w)
                else let bt = push_bit diff 1
                     in if bitmap w AND bt \<noteq> 0 then (False, w)
                        else (True, w\<lparr>bitmap := bitmap w OR bt\<rparr>)))"


section \<open>Specification\<close>

text \<open>The specification keeps every nonce ever accepted. A nonce is accepted when it is new
  and less than a window below the highest one.\<close>

definition replay_accepts :: "nat set \<Rightarrow> nat \<Rightarrow> bool" where
  "replay_accepts S n \<longleftrightarrow> n \<notin> S \<and> (\<forall>m \<in> S. m < n + REPLAY_WINDOW)"

definition replay_record :: "nat set \<Rightarrow> nat \<Rightarrow> nat set" where
  "replay_record S n = (if replay_accepts S n then insert n S else S)"

text \<open>The filter represents \<open>S\<close>: bit \<open>i\<close> of the map says whether \<open>max - i\<close> is in \<open>S\<close>.\<close>

definition window_rel :: "window_filter \<Rightarrow> nat set \<Rightarrow> bool" where
  "window_rel w S \<longleftrightarrow>
     (case max_nonce w of
        None \<Rightarrow> S = {}
      | Some mx \<Rightarrow> mx \<in> S \<and> (\<forall>n \<in> S. n \<le> mx) \<and>
          (\<forall>i < 64. bit (bitmap w) i \<longleftrightarrow> i \<le> mx \<and> mx - i \<in> S))"

lemma window_rel_new [simp]: "window_rel window_filter_new {}"
  by (simp add: window_rel_def window_filter_new_def)

lemma bitmap_test: "i < 64 \<Longrightarrow> (bm :: u64) AND push_bit i 1 \<noteq> 0 \<longleftrightarrow> bit bm i"
  by (simp add: bit_iff_and_push_bit_not_eq_0)

lemma window_rel_advance:
  assumes rel: "window_rel w S" and mx: "max_nonce w = Some mx" "mx < n"
  shows "window_rel (w\<lparr>bitmap := (if n - mx \<ge> 64 then 1 else push_bit (n - mx) (bitmap w) OR 1),
           max_nonce := Some n\<rparr>) (insert n S)"
proof -
  have S: "mx \<in> S" "\<forall>m \<in> S. m \<le> mx"
    and bits: "\<And>i. i < 64 \<Longrightarrow> bit (bitmap w) i \<longleftrightarrow> i \<le> mx \<and> mx - i \<in> S"
    using rel mx(1) by (auto simp: window_rel_def)
  have "bit (if n - mx \<ge> 64 then 1 else push_bit (n - mx) (bitmap w) OR 1) i \<longleftrightarrow>
      i \<le> n \<and> n - i \<in> insert n S" if i: "i < 64" for i
  proof (cases "n - mx \<ge> 64")
    case True
    then show ?thesis using i S(2) by (force simp: bit_simps)
  next
    case False
    have "n - i \<in> S \<longleftrightarrow> n - mx \<le> i \<and> mx - (i - (n - mx)) \<in> S" if "i \<le> n"
      using S(2) that mx(2) by (cases "n - mx \<le> i") force+
    then show ?thesis
      using False i mx(2) bits [of "i - (n - mx)"]
      by (auto simp: bit_simps simp del: push_bit_of_1)
  qed
  then show ?thesis
    using S mx(2) by (force simp: window_rel_def)
qed

lemma window_rel_mark:
  assumes rel: "window_rel w S" and mx: "max_nonce w = Some mx" "n \<le> mx" "mx - n < 64"
  shows "window_rel (w\<lparr>bitmap := bitmap w OR push_bit (mx - n) 1\<rparr>) (insert n S)"
proof -
  have "mx - i = n \<longleftrightarrow> i = mx - n" if "i \<le> mx" for i
    using that mx(2) by auto
  then show ?thesis
    using rel mx by (auto simp: window_rel_def bit_simps split: option.splits)
qed

text \<open>One call refines one step of the specification.\<close>

lemma check_and_set_refines:
  assumes "window_rel w S"
  shows "fst (check_and_set w n) = replay_accepts S n"
    and "window_rel (snd (check_and_set w n)) (replay_record S n)"
proof -
  have "fst (check_and_set w n) = replay_accepts S n \<and>
      window_rel (snd (check_and_set w n)) (replay_record S n)"
  proof (cases "max_nonce w")
    case None
    with assms have "S = {}" by (simp add: window_rel_def)
    with None show ?thesis
      by (auto simp: check_and_set_def replay_accepts_def replay_record_def window_rel_def bit_simps)
  next
    case (Some mx)
    with assms have S: "mx \<in> S" "\<forall>m \<in> S. m \<le> mx"
      and bits: "\<And>i. i < 64 \<Longrightarrow> bit (bitmap w) i \<longleftrightarrow> i \<le> mx \<and> mx - i \<in> S"
      by (auto simp: window_rel_def)
    have old: "(\<forall>m \<in> S. m < n + 64) \<longleftrightarrow> mx < n + 64" using S by force
    show ?thesis
    proof (cases "mx < n")
      case True
      then have "replay_accepts S n"
        using S by (force simp: replay_accepts_def REPLAY_WINDOW_def)
      with True Some window_rel_advance [OF assms Some True] show ?thesis
        by (simp add: check_and_set_def replay_record_def Let_def REPLAY_WINDOW_def)
    next
      case False
      show ?thesis
      proof (cases "mx - n < 64")
        case True
        then have "replay_accepts S n \<longleftrightarrow> \<not> bit (bitmap w) (mx - n)"
          using False bits [of "mx - n"] old by (auto simp: replay_accepts_def REPLAY_WINDOW_def)
        with True False Some assms window_rel_mark [OF assms Some] show ?thesis
          by (auto simp: check_and_set_def replay_record_def Let_def REPLAY_WINDOW_def
              bitmap_test simp del: push_bit_of_1)
      next
        case far: False
        then have "\<not> replay_accepts S n"
          using old by (auto simp: replay_accepts_def REPLAY_WINDOW_def)
        with far False Some assms show ?thesis
          by (simp add: check_and_set_def replay_record_def Let_def REPLAY_WINDOW_def)
      qed
    qed
  qed
  then show "fst (check_and_set w n) = replay_accepts S n"
    and "window_rel (snd (check_and_set w n)) (replay_record S n)" by auto
qed


section \<open>The interface the session relies on\<close>

locale replay_guard =
  fixes fresh :: 'w
    and check :: "'w \<Rightarrow> nat \<Rightarrow> bool \<times> 'w"
    and rel :: "'w \<Rightarrow> nat set \<Rightarrow> bool"
  assumes rel_fresh: "rel fresh {}"
    and check_new: "rel w S \<Longrightarrow> fst (check w n) \<Longrightarrow> n \<notin> S"
    and check_rel: "rel w S \<Longrightarrow> rel (snd (check w n)) (if fst (check w n) then insert n S else S)"
begin

primrec accepted_from :: "'w \<Rightarrow> nat list \<Rightarrow> nat list" where
  "accepted_from w [] = []"
| "accepted_from w (n # ns) =
     (if fst (check w n) then n # accepted_from (snd (check w n)) ns
      else accepted_from (snd (check w n)) ns)"

lemma accepted_from_distinct:
  "rel w S \<Longrightarrow> distinct (accepted_from w ns) \<and> set (accepted_from w ns) \<inter> S = {}"
proof (induction ns arbitrary: w S)
  case Nil
  then show ?case by simp
next
  case (Cons n ns)
  from Cons.prems have "rel (snd (check w n)) (if fst (check w n) then insert n S else S)"
    by (rule check_rel)
  from Cons.IH [OF this] check_new [OF Cons.prems] show ?case by auto
qed

lemma no_second_accept:
  assumes "rel w S" and "n \<in> S"
  shows "\<not> fst (check w n)"
  using check_new [OF assms(1)] assms(2) by auto

end

interpretation window: replay_guard window_filter_new check_and_set window_rel
proof
  show "window_rel window_filter_new {}" by simp
next
  fix w S n
  assume "window_rel w S" and "fst (check_and_set w n)"
  then show "n \<notin> S" by (simp add: check_and_set_refines replay_accepts_def)
next
  fix w S n
  assume rel: "window_rel w S"
  then show "window_rel (snd (check_and_set w n)) (if fst (check_and_set w n) then insert n S else S)"
    using check_and_set_refines [OF rel, of n] by (simp add: replay_record_def)
qed


section \<open>Properties of the filter\<close>

text \<open>The nonces a filter accepts of a sequence, in order.\<close>

primrec accepted :: "window_filter \<Rightarrow> nat list \<Rightarrow> nat list" where
  "accepted w [] = []"
| "accepted w (n # ns) =
     (case check_and_set w n of (ok, w') \<Rightarrow> if ok then n # accepted w' ns else accepted w' ns)"

lemma accepted_alt: "accepted w ns = window.accepted_from w ns"
  by (induction ns arbitrary: w) (simp_all add: case_prod_unfold)

primrec spec_accepted :: "nat set \<Rightarrow> nat list \<Rightarrow> nat list" where
  "spec_accepted S [] = []"
| "spec_accepted S (n # ns) =
     (if replay_accepts S n then n # spec_accepted (insert n S) ns else spec_accepted S ns)"

text \<open>C19: the bitmap filter is the set specification. On every arrival sequence (any order,
  any repetition) \<^verbatim>\<open>check_and_set\<close> accepts exactly the nonces that are new and less than 64
  below the highest accepted so far, and no nonce is accepted twice.\<close>

theorem replay_filter_refines:
  "accepted window_filter_new ns = spec_accepted {} ns \<and> distinct (accepted window_filter_new ns)"
proof
  have "accepted w ns = spec_accepted S ns" if "window_rel w S" for w S
    using that
  proof (induction ns arbitrary: w S)
    case (Cons n ns)
    from Cons.IH [OF check_and_set_refines(2) [OF Cons.prems]] Cons.prems show ?case
      by (simp add: case_prod_unfold check_and_set_refines replay_record_def)
  qed simp
  then show "accepted window_filter_new ns = spec_accepted {} ns" by simp
  show "distinct (accepted window_filter_new ns)"
    using window.accepted_from_distinct [OF window_rel_new] by (simp add: accepted_alt)
qed

end
