(* ===== verification/Mux.thy ===== *)
theory Mux
  imports StreamLink
begin

text \<open>
  The stream multiplexer, \<^verbatim>\<open>StreamMux\<close> in \<^verbatim>\<open>crates/transport/src/stream.rs\<close>: the table of
  streams, local ids by parity, the events for the application, the handling of one incoming
  frame and the polling of all streams.
\<close>

section \<open>State and operations\<close>

datatype stream_event =
    EvOpened u64 stream_kind bytes
  | EvReadable u64
  | EvClosed u64 u32
  | EvReset u64

record stream_mux =
  next_local_id :: u64
  id_step :: u64
  local_parity :: u64
  streams :: "(u64, stream_state) btree"
  events :: "stream_event list"
  mux_now :: nat

definition mux_new :: "bool \<Rightarrow> stream_mux" where
  "mux_new is_client = \<lparr>next_local_id = (if is_client then 0 else 1), id_step = 2,
     local_parity = (if is_client then 0 else 1), streams = bt_empty, events = [], mux_now = 0\<rparr>"

definition mux_open :: "stream_kind \<Rightarrow> bytes \<Rightarrow> stream_mux \<Rightarrow> u64 \<times> stream_mux" where
  "mux_open kind meta m =
     (let sid = next_local_id m
      in (sid, m\<lparr>next_local_id := next_local_id m + id_step m,
                 streams := bt_insert sid (stream_state_new sid kind meta True) (streams m)\<rparr>))"

text \<open>\<^verbatim>\<open>if let Some(s) = self.streams.get_mut(&id)\<close> with a change of the stream.\<close>

definition with_stream :: "u64 \<Rightarrow> (stream_state \<Rightarrow> stream_state) \<Rightarrow> stream_mux \<Rightarrow> stream_mux" where
  "with_stream sid f m =
     (case bt_get (streams m) sid of
        Some s \<Rightarrow> m\<lparr>streams := bt_insert sid (f s) (streams m)\<rparr>
      | None \<Rightarrow> m)"

definition mux_write :: "u64 \<Rightarrow> bytes \<Rightarrow> stream_mux \<Rightarrow> stream_mux" where
  "mux_write sid data m = with_stream sid (stream_write data) m"

definition mux_close :: "u64 \<Rightarrow> u32 \<Rightarrow> stream_mux \<Rightarrow> stream_mux" where
  "mux_close sid status m = with_stream sid (stream_close status) m"

definition mux_reset :: "u64 \<Rightarrow> stream_mux \<Rightarrow> stream_mux" where
  "mux_reset sid m = with_stream sid (\<lambda>s. s\<lparr>st_reset := True\<rparr>) m"

definition mux_read :: "u64 \<Rightarrow> stream_mux \<Rightarrow> bytes \<times> stream_mux" where
  "mux_read sid m =
     (case bt_get (streams m) sid of
        Some s \<Rightarrow> (case stream_read s of (out, s') \<Rightarrow> (out, m\<lparr>streams := bt_insert sid s' (streams m)\<rparr>))
      | None \<Rightarrow> ([], m))"

definition is_recv_finished :: "u64 \<Rightarrow> stream_mux \<Rightarrow> bool" where
  "is_recv_finished sid m =
     (case bt_get (streams m) sid of Some s \<Rightarrow> recv_finished s | None \<Rightarrow> True)"

definition take_events :: "stream_mux \<Rightarrow> stream_event list \<times> stream_mux" where
  "take_events m = (events m, m\<lparr>events := []\<rparr>)"

definition push_event :: "bool \<Rightarrow> stream_event \<Rightarrow> stream_mux \<Rightarrow> stream_mux" where
  "push_event b e m = (if b then m\<lparr>events := events m @ [e]\<rparr> else m)"

fun mux_on_frame :: "frame \<Rightarrow> stream_mux \<Rightarrow> stream_mux" where
  "mux_on_frame (StreamOpen sid kind meta) m =
     (if sid mod 2 = local_parity m \<or> length (streams m) \<ge> MAX_STREAMS then m
      else case bt_get (streams m) sid of
             None \<Rightarrow> push_event True (EvOpened sid kind meta)
                       (m\<lparr>streams := bt_insert sid (stream_state_new sid kind meta False) (streams m)\<rparr>)
           | Some _ \<Rightarrow> m)"
| "mux_on_frame (StreamData sid offset data fin) m =
     (case bt_get (streams m) sid of
        Some s \<Rightarrow> (case stream_on_data (unat offset) data fin s of (readable, s') \<Rightarrow>
          push_event readable (EvReadable sid) (m\<lparr>streams := bt_insert sid s' (streams m)\<rparr>))
      | None \<Rightarrow> m)"
| "mux_on_frame (StreamAck sid ack window) m =
     with_stream sid (stream_on_ack (unat ack) (unat window) (mux_now m)) m"
| "mux_on_frame (StreamClose sid status) m =
     (case bt_get (streams m) sid of
        Some s \<Rightarrow> (case stream_on_close s of (fresh, s') \<Rightarrow>
          push_event fresh (EvClosed sid status) (m\<lparr>streams := bt_insert sid s' (streams m)\<rparr>))
      | None \<Rightarrow> m)"
| "mux_on_frame (StreamReset sid) m =
     (case bt_get (streams m) sid of
        Some s \<Rightarrow> push_event True (EvReset sid)
          (m\<lparr>streams := bt_insert sid (s\<lparr>st_reset := True\<rparr>) (streams m)\<rparr>)
      | None \<Rightarrow> m)"
| "mux_on_frame _ m = m"

text \<open>The loop of \<^verbatim>\<open>poll_transmit\<close> over \<^verbatim>\<open>self.streams.iter_mut()\<close>: the frames, the ids to
  retire and the updated table.\<close>

primrec poll_streams :: "nat \<Rightarrow> (u64, stream_state) btree \<Rightarrow> frame list \<Rightarrow> u64 list \<Rightarrow>
    frame list \<times> u64 list \<times> (u64, stream_state) btree" where
  "poll_streams nw [] out retire = (out, retire, [])"
| "poll_streams nw (p # ps) out retire =
     (case p of (sid, s) \<Rightarrow>
        if st_reset s then
          (case poll_streams nw ps (out @ [StreamReset sid]) (retire @ [sid]) of
             (out', retire', ps') \<Rightarrow> (out', retire', (sid, s) # ps'))
        else
          (case transmit nw out s of (out1, s1) \<Rightarrow>
             (case poll_streams nw ps out1 (if fully_done s1 then retire @ [sid] else retire) of
                (out', retire', ps') \<Rightarrow> (out', retire', (sid, s1) # ps'))))"

definition poll_transmit :: "stream_mux \<Rightarrow> frame list \<times> stream_mux" where
  "poll_transmit m =
     (let nw = wrap64 (mux_now m + 1)
      in case poll_streams nw (streams m) [] [] of (out, retire, ss) \<Rightarrow>
           (out, m\<lparr>mux_now := nw, streams := fold bt_remove retire ss\<rparr>))"

definition has_traffic :: "stream_mux \<Rightarrow> bool" where
  "has_traffic m = (streams m \<noteq> [])"

definition in_flight :: "u64 \<Rightarrow> stream_mux \<Rightarrow> nat" where
  "in_flight sid m = (case bt_get (streams m) sid of Some s \<Rightarrow> length (send_buf s) | None \<Rightarrow> 0)"

definition recv_buffered :: "u64 \<Rightarrow> stream_mux \<Rightarrow> nat" where
  "recv_buffered sid m = (case bt_get (streams m) sid of Some s \<Rightarrow> unread (recv s) | None \<Rightarrow> 0)"


section \<open>Incoming frames\<close>

text \<open>The events matter to no other operation: \<open>push_event\<close> touches nothing else.\<close>

lemma push_event_frame [simp]:
  "streams (push_event b e m) = streams m" "local_parity (push_event b e m) = local_parity m"
  "next_local_id (push_event b e m) = next_local_id m" "mux_now (push_event b e m) = mux_now m"
  "id_step (push_event b e m) = id_step m"
  by (simp_all add: push_event_def)

lemma with_stream_frame [simp]:
  "local_parity (with_stream sid f m) = local_parity m" "events (with_stream sid f m) = events m"
  by (simp_all add: with_stream_def split: option.splits)

lemma mux_on_frame_parity [simp]: "local_parity (mux_on_frame f m) = local_parity m"
  by (cases f) (auto split: option.splits prod.splits)

lemma length_bt_insert_old: "bt_get m k \<noteq> None \<Longrightarrow> bt_ok m \<Longrightarrow> length (bt_insert k v m) = length m"
proof (induction m)
  case (Cons p m)
  obtain a w where p: "p = (a, w)" by (cases p)
  have "\<not> k < a" if "k \<noteq> a"
  proof
    assume "k < a"
    moreover have "k \<in> fst ` set m"
      using Cons.prems(1) p that by (auto simp: bt_get_None_iff)
    ultimately show False using Cons.prems(2) p by force
  qed
  with Cons p show ?case by auto
qed simp

text \<open>The ids a peer's frame can add.\<close>

lemma mux_on_frame_keys:
  assumes "bt_ok (streams m)"
  shows "bt_ok (streams (mux_on_frame f m)) \<and>
    (bt_get (streams (mux_on_frame f m)) k = None \<longleftrightarrow>
      bt_get (streams m) k = None \<and>
      \<not> (\<exists>kind meta. f = StreamOpen k kind meta \<and> k mod 2 \<noteq> local_parity m \<and> length (streams m) < MAX_STREAMS))"
  using assms
  by (cases f) (auto simp: with_stream_def case_prod_unfold split: option.splits)

lemma mux_on_frame_size:
  assumes "bt_ok (streams m)"
  shows "length (streams (mux_on_frame f m)) \<le> max (length (streams m)) MAX_STREAMS"
  using assms length_bt_insert [of _ _ "streams m"]
  by (cases f) (auto simp: with_stream_def length_bt_insert_old case_prod_unfold
      intro: order_trans [OF length_bt_insert] split: option.splits)


section \<open>Polling\<close>

text \<open>What one poll does to one stream: the frames it sends, and the stream afterwards
  (\<open>None\<close> once it is retired).\<close>

definition poll_frames :: "nat \<Rightarrow> u64 \<Rightarrow> stream_state \<Rightarrow> frame list" where
  "poll_frames nw sid s = (if st_reset s then [StreamReset sid] else fst (transmit nw [] s))"

definition poll_stream :: "nat \<Rightarrow> stream_state \<Rightarrow> stream_state option" where
  "poll_stream nw s =
     (if st_reset s then None
      else let s' = snd (transmit nw [] s) in if fully_done s' then None else Some s')"

lemma poll_streams_spec:
  "poll_streams nw ps out retire =
     (out @ concat (map (\<lambda>(sid, s). poll_frames nw sid s) ps),
      retire @ map fst (filter (\<lambda>(sid, s). poll_stream nw s = None) ps),
      map (\<lambda>(sid, s). (sid, if st_reset s then s else snd (transmit nw [] s))) ps)"
proof (induction ps arbitrary: out retire)
  case (Cons p ps)
  obtain sid s where p: "p = (sid, s)" by (cases p)
  have t: "transmit nw out s = (out @ fst (transmit nw [] s), snd (transmit nw [] s))"
    by (rule transmit_append)
  show ?case
  proof (cases "st_reset s")
    case True
    then show ?thesis by (simp add: p Cons.IH poll_frames_def poll_stream_def)
  next
    case False
    then show ?thesis
      by (simp add: p t Cons.IH poll_frames_def poll_stream_def Let_def)
  qed
qed simp

lemma bt_get_map: "bt_get (map (\<lambda>(k, v). (k, f v)) m) k = map_option f (bt_get m k)"
  by (induction m) auto

lemma bt_ok_map [simp]: "bt_ok (map (\<lambda>(k, v). (k, f v)) m) = bt_ok m"
  by (simp add: bt_ok_def comp_def case_prod_unfold)

lemma poll_retired:
  assumes "bt_ok m"
  shows "sid \<in> set (map fst (filter (\<lambda>(sid, s). poll_stream nw s = None) m)) \<longleftrightarrow>
    (\<exists>s. bt_get m sid = Some s \<and> poll_stream nw s = None)"
  using assms by (force simp: bt_get_iff)

lemma poll_transmit_stream:
  assumes "bt_ok (streams m)"
  shows "bt_get (streams (snd (poll_transmit m))) sid =
      (case bt_get (streams m) sid of Some s \<Rightarrow> poll_stream (wrap64 (mux_now m + 1)) s | None \<Rightarrow> None)"
    and "bt_ok (streams (snd (poll_transmit m)))"
proof -
  let ?nw = "wrap64 (mux_now m + 1)"
  let ?f = "\<lambda>s. if st_reset s then s else snd (transmit ?nw [] s)"
  let ?ret = "map fst (filter (\<lambda>(sid, s). poll_stream ?nw s = None) (streams m))"
  have ss: "streams (snd (poll_transmit m)) = fold bt_remove ?ret (map (\<lambda>(k, v). (k, ?f v)) (streams m))"
    by (simp add: poll_transmit_def Let_def poll_streams_spec cong: if_cong)
  have all: "bt_ok (fold bt_remove ?ret (map (\<lambda>(k, v). (k, ?f v)) (streams m)))"
    "bt_get (fold bt_remove ?ret (map (\<lambda>(k, v). (k, ?f v)) (streams m))) =
       (\<lambda>k. if k \<in> set ?ret then None else bt_get (map (\<lambda>(k, v). (k, ?f v)) (streams m)) k)"
    using bt.remove_all [of "map (\<lambda>(k, v). (k, ?f v)) (streams m)" ?ret] assms by simp_all
  show "bt_ok (streams (snd (poll_transmit m)))" using all(1) ss by simp
  have keep: "poll_stream ?nw s = Some (?f s)" if "poll_stream ?nw s \<noteq> None" for s
    using that by (auto simp: poll_stream_def Let_def split: if_splits)
  show "bt_get (streams (snd (poll_transmit m))) sid =
      (case bt_get (streams m) sid of Some s \<Rightarrow> poll_stream ?nw s | None \<Rightarrow> None)"
    unfolding ss all(2) poll_retired [OF assms] bt_get_map
    using keep by (auto split: option.splits)
qed

lemma poll_transmit_frames:
  "fst (poll_transmit m) = concat (map (\<lambda>(sid, s). poll_frames (wrap64 (mux_now m + 1)) sid s) (streams m))"
  by (simp add: poll_transmit_def Let_def poll_streams_spec)


section \<open>Properties of the multiplexer\<close>

text \<open>A peer cannot flood or hijack the stream table. Whatever frames it sends, the table
  never grows past \<open>MAX_STREAMS\<close> through them, no stream is removed by a frame, and every id the
  frames add has the peer's parity, so it can never collide with a locally opened stream.\<close>

theorem peer_open_bounded:
  assumes "bt_ok (streams m)"
  shows "length (streams (fold mux_on_frame fs m)) \<le> max (length (streams m)) MAX_STREAMS \<and>
    (\<forall>k. bt_get (streams m) k \<noteq> None \<longrightarrow> bt_get (streams (fold mux_on_frame fs m)) k \<noteq> None) \<and>
    (\<forall>k. bt_get (streams m) k = None \<longrightarrow> bt_get (streams (fold mux_on_frame fs m)) k \<noteq> None \<longrightarrow>
       k mod 2 \<noteq> local_parity m)"
  using assms
proof (induction fs arbitrary: m)
  case (Cons f fs)
  let ?m = "mux_on_frame f m"
  have ok: "bt_ok (streams ?m)" using mux_on_frame_keys [OF Cons.prems] by blast
  note keys = mux_on_frame_keys [OF Cons.prems, of f, THEN conjunct2]
  show ?case
    using Cons.IH [OF ok] mux_on_frame_size [OF Cons.prems, of f] keys by fastforce
qed simp

theorem peer_open_bounded_witness:
  "let m' = fold mux_on_frame [StreamOpen 3 Forward [], StreamOpen 4 Forward []] (mux_new True) in
    length (streams m') \<le> MAX_STREAMS \<and> bt_get (streams m') 3 \<noteq> None \<and>
    (\<nexists>k. bt_get (streams m') k \<noteq> None \<and> k mod 2 = local_parity (mux_new True))"
  using peer_open_bounded [of "mux_new True" "[StreamOpen 3 Forward [], StreamOpen 4 Forward []]"]
  by (auto simp: Let_def mux_new_def bt_empty_def MAX_STREAMS_def push_event_def)

text \<open>One poll treats every stream independently. A reset stream sends one
  \<^verbatim>\<open>StreamReset\<close> and is retired; any other stream sends the frames of its own transmission at
  the new tick and is retired exactly when it is then fully done; all frames are sent in id
  order and no other stream is touched.\<close>

theorem poll_transmit_pointwise:
  assumes "bt_ok (streams m)"
  shows "fst (poll_transmit m) =
      concat (map (\<lambda>(sid, s). poll_frames (wrap64 (mux_now m + 1)) sid s) (streams m)) \<and>
    bt_ok (streams (snd (poll_transmit m))) \<and>
    (\<forall>sid. bt_get (streams (snd (poll_transmit m))) sid =
      (case bt_get (streams m) sid of Some s \<Rightarrow> poll_stream (wrap64 (mux_now m + 1)) s | None \<Rightarrow> None))"
  using poll_transmit_frames poll_transmit_stream [OF assms] by simp

theorem poll_transmit_pointwise_witness:
  "let m = mux_on_frame (StreamReset 0) (snd (mux_open Exec [] (mux_new True))) in
    fst (poll_transmit m) =
      concat (map (\<lambda>(sid, s). poll_frames (wrap64 (mux_now m + 1)) sid s) (streams m)) \<and>
    bt_ok (streams (snd (poll_transmit m))) \<and>
    (\<forall>sid. bt_get (streams (snd (poll_transmit m))) sid =
      (case bt_get (streams m) sid of Some s \<Rightarrow> poll_stream (wrap64 (mux_now m + 1)) s | None \<Rightarrow> None))"
  unfolding Let_def
  by (rule poll_transmit_pointwise) (simp add: mux_open_def mux_new_def bt_empty_def Let_def)


section \<open>What a peer can make us buffer\<close>

datatype recv_op = RData nat bytes bool | RRead

fun recv_step :: "recv_op \<Rightarrow> stream_state \<Rightarrow> stream_state" where
  "recv_step (RData off d fin) s = snd (stream_on_data off d fin s)"
| "recv_step RRead s = snd (stream_read s)"

fun recv_guard :: "nat \<Rightarrow> recv_op \<Rightarrow> bool" where
  "recv_guard L (RData off d fin) = (length d \<le> L)"
| "recv_guard L RRead = True"

definition recv_inv :: "nat \<Rightarrow> stream_state \<Rightarrow> bool" where
  "recv_inv L s \<longleftrightarrow> reasm_ok (recv s) \<and> reasm_below (rdelivered (recv s) + DEFAULT_WINDOW + L) (recv s)"

lemma reasm_below_mono: "reasm_below n r \<Longrightarrow> n \<le> n' \<Longrightarrow> reasm_below n' r"
  unfolding reasm_below_def by fastforce

lemma stream_on_data_recv:
  "recv (snd (stream_on_data off d fin s)) = recv s \<or>
   (recv (snd (stream_on_data off d fin s)) = reasm_insert off d (recv s) \<and>
    off \<le> rdelivered (recv s) + DEFAULT_WINDOW)"
  by (auto simp: stream_on_data_def checked_add64_def saturating_add64_def Let_def min_def split: if_splits)

interpretation recv_run: invariant_machine recv_step "recv_inv L" "recv_guard L" for L
proof
  fix s op
  assume inv: "recv_inv L s" and g: "recv_guard L op"
  show "recv_inv L (recv_step op s)"
  proof (cases op)
    case (RData off d fin)
    with inv g stream_on_data_recv [of off d fin s] show ?thesis
      by (auto simp: recv_inv_def intro!: reasm_insert_bound)
  next
    case RRead
    have ok: "reasm_ok (recv s)" "reasm_below (rdelivered (recv s) + DEFAULT_WINDOW + L) (recv s)"
      using inv by (simp_all add: recv_inv_def)
    have "reasm_below (rdelivered (snd (reasm_read (recv s))) + DEFAULT_WINDOW + L) (snd (reasm_read (recv s)))"
      using reasm_read_bound [OF ok] by (rule reasm_below_mono) (simp add: rdelivered_read)
    with RRead ok show ?thesis by (simp add: recv_inv_def stream_read_frame)
  qed
qed

lemma recv_inv_new: "recv_inv L (stream_state_new sid kind meta no)"
  by (simp add: recv_inv_def stream_state_new_def) (simp add: reasm_below_def reassembler_new_def bt_empty_def)

text \<open>C39: the receive buffer of a stream is bounded. Whatever data frames of at most \<open>L\<close>
  bytes a peer sends (any offsets, any order), all buffered segments lie, disjoint, in the
  window of \<open>DEFAULT_WINDOW + L\<close> bytes above what the application has read.\<close>

theorem recv_buffer_bounded:
  assumes "\<forall>op \<in> set ops. recv_guard L op"
    and "s = fold recv_step ops (stream_state_new sid kind meta no)"
  shows "seg_ok (rdelivered (recv s)) (segs (recv s)) \<and>
    (\<forall>(k, v) \<in> set (segs (recv s)). k + length v \<le> rdelivered (recv s) + DEFAULT_WINDOW + L) \<and>
    unread (recv s) \<le> DEFAULT_WINDOW + L"
proof -
  have inv: "recv_inv L s"
    unfolding assms(2) by (rule recv_run.run_inv [OF recv_inv_new assms(1)])
  then have ok: "seg_ok (rdelivered (recv s)) (segs (recv s))" by (simp add: recv_inv_def reasm_ok_def)
  have "k + length v \<le> rdelivered (recv s) + DEFAULT_WINDOW + L" if "(k, v) \<in> set (segs (recv s))" for k v
  proof -
    have "v \<noteq> []" using seg_okD(2) [OF ok that] by simp
    then have "held (segs (recv s)) (k + (length v - 1)) (v ! (length v - 1))"
      by (intro held_segI [OF that]) simp
    then show ?thesis using inv \<open>v \<noteq> []\<close> by (cases v) (auto simp: recv_inv_def reasm_below_def)
  qed
  moreover have "unread (recv s) \<le> DEFAULT_WINDOW + L"
    using ack_point_bound [of "recv s" "rdelivered (recv s) + DEFAULT_WINDOW + L"] inv
    by (simp add: unread_def recv_inv_def)
  ultimately show ?thesis using ok by auto
qed

theorem recv_buffer_bounded_witness:
  "let s = fold recv_step [RData 5 [1, 2] False, RRead] (stream_state_new 1 Forward [] False) in
    seg_ok (rdelivered (recv s)) (segs (recv s)) \<and>
    (\<forall>(k, v) \<in> set (segs (recv s)). k + length v \<le> rdelivered (recv s) + DEFAULT_WINDOW + 2) \<and>
    unread (recv s) \<le> DEFAULT_WINDOW + 2"
  unfolding Let_def by (rule recv_buffer_bounded [OF _ refl]) simp

text \<open>A closed peer that goes silent: as long as its FIN is missing, every poll counts, and
  the stream is retired within the grace period.\<close>

lemma transmit_data_keeps [simp]:
  "close_received (snd (transmit_data nw out s)) = close_received s"
  "send_fin (snd (transmit_data nw out s)) = send_fin s"
  "fin_acked (snd (transmit_data nw out s)) = fin_acked s"
  "peer_fin (snd (transmit_data nw out s)) = peer_fin s"
  "close_ticks (snd (transmit_data nw out s)) = close_ticks s"
  "st_reset (snd (transmit_data nw out s)) = st_reset s"
  "needs_open (snd (transmit_data nw out s)) = needs_open s"
  by (simp_all add: transmit_data_def Let_def emit_range_eq on_rto_def)

lemma transmit_steps:
  "\<not> st_reset s \<Longrightarrow> transmit nw [] s =
     (let a = transmit_open [] s; b = transmit_data nw (fst a) (snd a); c = transmit_ack (fst b) (snd b)
      in transmit_close (fst c) (snd c))"
  by (simp add: transmit_def Let_def case_prod_unfold)

lemma transmit_keeps:
  assumes "\<not> st_reset s"
  shows "close_received (snd (transmit nw [] s)) = close_received s"
    "send_fin (snd (transmit nw [] s)) = send_fin s" "fin_acked (snd (transmit nw [] s)) = fin_acked s"
    "peer_fin (snd (transmit nw [] s)) = peer_fin s" "st_reset (snd (transmit nw [] s)) = st_reset s"
    "needs_open (snd (transmit nw [] s)) = False"
    "close_ticks (snd (transmit nw [] s)) =
       (if close_received s \<and> send_fin s \<and> peer_fin s = Open then saturating_add32 (close_ticks s) 1
        else close_ticks s)"
  unfolding transmit_steps [OF assms]
  by (simp_all add: Let_def transmit_close_def transmit_ack_def transmit_open_state)

text \<open>A round: data without FIN arrives, then the stream is polled.\<close>

definition data_arrives :: "(nat \<times> bytes) list \<Rightarrow> stream_state \<Rightarrow> stream_state" where
  "data_arrives ds s = fold (\<lambda>(off, d) s. snd (stream_on_data off d False s)) ds s"

lemma stream_on_data_keeps [simp]:
  "close_received (snd (stream_on_data off d False s)) = close_received s"
  "send_fin (snd (stream_on_data off d False s)) = send_fin s"
  "fin_acked (snd (stream_on_data off d False s)) = fin_acked s"
  "peer_fin (snd (stream_on_data off d False s)) = peer_fin s"
  "st_reset (snd (stream_on_data off d False s)) = st_reset s"
  "close_ticks (snd (stream_on_data off d False s)) = close_ticks s"
  by (auto simp: stream_on_data_def Let_def split: option.split)

lemma data_arrives_keeps [simp]:
  "close_received (data_arrives ds s) = close_received s" "send_fin (data_arrives ds s) = send_fin s"
  "fin_acked (data_arrives ds s) = fin_acked s" "peer_fin (data_arrives ds s) = peer_fin s"
  "st_reset (data_arrives ds s) = st_reset s" "close_ticks (data_arrives ds s) = close_ticks s"
  unfolding data_arrives_def by (induction ds arbitrary: s) (simp_all add: case_prod_unfold)

primrec poll_rounds :: "(nat \<times> (nat \<times> bytes) list) list \<Rightarrow> stream_state \<Rightarrow> stream_state option" where
  "poll_rounds [] s = Some s"
| "poll_rounds (r # rs) s = (case poll_stream (fst r) (data_arrives (snd r) s) of None \<Rightarrow> None | Some s' \<Rightarrow> poll_rounds rs s')"

lemma poll_rounds_count:
  "\<not> st_reset s \<Longrightarrow> close_received s \<Longrightarrow> send_fin s \<Longrightarrow> peer_fin s = Open \<Longrightarrow> rs \<noteq> [] \<Longrightarrow>
   CLOSE_GRACE_TICKS \<le> close_ticks s + length rs \<Longrightarrow> poll_rounds rs s = None"
proof (induction rs arbitrary: s)
  case (Cons r rs)
  let ?a = "data_arrives (snd r) s"
  let ?s = "snd (transmit (fst r) [] ?a)"
  have open': "\<not> st_reset ?a" "close_received ?a" "send_fin ?a" "peer_fin ?a = Open" "close_ticks ?a = close_ticks s"
    using Cons.prems by (simp_all add: data_arrives_keeps)
  note keeps = transmit_keeps [OF open'(1), of "fst r"]
  show ?case
  proof (cases "fully_done ?s")
    case True
    then show ?thesis using open' by (simp add: poll_stream_def Let_def)
  next
    case False
    then have lt: "close_ticks ?s < CLOSE_GRACE_TICKS"
      using keeps open' by (auto simp: fully_done_def split: if_splits)
    then have "CLOSE_GRACE_TICKS \<le> close_ticks ?s + length rs"
      using keeps open' Cons.prems by (auto simp: saturating_add32_def two32_def stream_consts)
    then have "poll_rounds rs ?s = None"
      using lt Cons.IH [of ?s] keeps open' by (cases "rs = []") auto
    then show ?thesis using False open' by (simp add: poll_stream_def Let_def)
  qed
qed simp

text \<open>A stream whose peer closed but whose FIN is missing does not leak: after our own close it is retired
  within \<open>CLOSE_GRACE_TICKS\<close> polls. A finding: so is a stream whose peer is not silent at all. Nothing
  restarts the count, so data that is still on its way after as many polls is cut off, and the stream
  then counts as read to its end.\<close>

theorem busy_peer_cut_off:
  assumes "\<not> st_reset s" "close_received s" "send_fin s" "peer_fin s = Open" "CLOSE_GRACE_TICKS \<le> length rs"
  shows "poll_rounds rs s = None" and "bt_get (streams m) i = None \<Longrightarrow> is_recv_finished i m \<and> mux_read i m = ([], m)"
  using assms poll_rounds_count [of s rs]
  by (cases "rs = []"; simp add: CLOSE_GRACE_TICKS_def is_recv_finished_def mux_read_def)+


section \<open>Streams that are never reclaimed and opens that are never repeated\<close>

text \<open>When the peer's FIN did arrive but ours is never acknowledged, the grace counter does not
  run, and a silent peer keeps the stream in the table for ever.\<close>

theorem finished_peer_never_reclaimed:
  assumes "\<not> st_reset s" "\<not> fin_acked s" "peer_fin s = Finished n" "close_ticks s < CLOSE_GRACE_TICKS"
  shows "poll_rounds rs s \<noteq> None"
  using assms
proof (induction rs arbitrary: s)
  case (Cons r rs)
  let ?a = "data_arrives (snd r) s"
  have "\<not> st_reset ?a" using Cons.prems by simp
  note keeps = transmit_keeps [OF this, of "fst r"]
  have "\<not> fully_done (snd (transmit (fst r) [] ?a))"
    using keeps Cons.prems by (simp add: fully_done_def)
  then show ?case
    using Cons.IH [of "snd (transmit (fst r) [] ?a)"] keeps Cons.prems by (simp add: poll_stream_def Let_def)
qed simp

text \<open>\<^verbatim>\<open>StreamOpen\<close> goes out with the first poll only; a peer that missed it ignores every later
  frame of the stream.\<close>

lemma transmit_reset: "st_reset s \<Longrightarrow> transmit nw out s = (out, s)"
  by (simp add: transmit_def)

lemma transmit_open_once:
  assumes "send_ok w s" "cc_ok s" "\<not> needs_open s"
  shows "StreamOpen i k meta \<notin> set (fst (transmit nw [] s))"
  using transmit_frames [OF assms(1,2)] assms(3) by (auto simp: stream_frame_def data_from_def)

lemma stream_step_needs_open: "\<not> needs_open (snd p) \<Longrightarrow> \<not> needs_open (snd (stream_step op p))"
proof -
  assume "\<not> needs_open (snd p)"
  then show ?thesis
    by (cases p; cases op; cases "st_reset (snd p)")
      (auto simp: stream_write_def stream_close_def transmit_keeps transmit_reset)
qed

theorem lost_open_not_repeated:
  assumes "stream_inv p" "\<not> st_reset (snd p)"
  shows "StreamOpen i k meta \<notin> set (fst (transmit nw [] (snd (fold stream_step ops (stream_step (Poll t) p)))))"
proof -
  have n: "\<not> needs_open (snd (fold stream_step ops q))" if "\<not> needs_open (snd q)" for q
    using that by (induction ops arbitrary: q) (auto simp: stream_step_needs_open)
  have "stream_inv (fold stream_step ops (stream_step (Poll t) p))"
    using stream_run.run_inv [of p "Poll t # ops"] assms(1) by simp
  moreover have "\<not> needs_open (snd (stream_step (Poll t) p))"
    using transmit_keeps(6) [OF assms(2)] by (cases p) simp
  ultimately show ?thesis
    using transmit_open_once [OF _ _ n] unfolding stream_inv_def by blast
qed

end
