(* ===== verification/Transport.thy ===== *)
theory Transport
  imports Replay Mux
begin

text \<open>
  The session layer, \<^verbatim>\<open>crates/transport/src/lib.rs\<close>: the outer packet header, sealing frames
  into datagrams and opening received ones with anti-replay and roaming. The Noise session is
  the snow library behind \<^verbatim>\<open>crates/noise-core\<close>: its \<^verbatim>\<open>encrypt\<close> and \<^verbatim>\<open>decrypt\<close> are the
  parameters \<open>enc\<close> and \<open>dec\<close> of the operations, from a nonce and bytes to bytes or an error of
  type \<open>'e\<close>. Socket addresses are values of a type \<open>'a\<close>.
\<close>

section \<open>Packets\<close>

definition PKT_HANDSHAKE :: u8 where "PKT_HANDSHAKE = 0"
definition PKT_TRANSPORT :: u8 where "PKT_TRANSPORT = 1"
definition MAX_DATAGRAM_PLAINTEXT :: nat where "MAX_DATAGRAM_PLAINTEXT = 1200"
definition MIN_HANDSHAKE_INIT :: nat where "MIN_HANDSHAKE_INIT = 1200"

datatype 'e transport_error =
    Short
  | UnknownType u8
  | SessionMismatch
  | ReplayError
  | NoiseErr 'e
  | WireErr wire_error

datatype packet =
    PHandshake bytes bytes
  | PTransport bytes nat bytes

text \<open>\<^verbatim>\<open>u64::to_be_bytes\<close> and \<^verbatim>\<open>u64::from_be_bytes\<close>.\<close>

primrec be_bytes :: "nat \<Rightarrow> nat \<Rightarrow> bytes" where
  "be_bytes 0 n = []"
| "be_bytes (Suc k) n = be_bytes k (n div 256) @ [of_nat (n mod 256)]"

definition from_be :: "bytes \<Rightarrow> nat" where
  "from_be bs = foldl (\<lambda>a b. a * 256 + unat b) 0 bs"

definition parse_packet :: "bytes \<Rightarrow> 'e transport_error + packet" where
  "parse_packet buf =
     (if buf = [] then Inl Short
      else let ty = buf ! 0 in
        if length buf < 9 then Inl Short
        else let session_id = take 8 (drop 1 buf) in
          if ty = PKT_HANDSHAKE then Inr (PHandshake session_id (drop 9 buf))
          else if ty = PKT_TRANSPORT then
            (if length buf < 17 then Inl Short
             else Inr (PTransport session_id (from_be (take 8 (drop 9 buf))) (drop 17 buf)))
          else Inl (UnknownType ty))"

definition build_handshake_packet :: "bytes \<Rightarrow> bytes \<Rightarrow> bytes" where
  "build_handshake_packet session_id noise_msg = PKT_HANDSHAKE # session_id @ noise_msg"


section \<open>Sessions\<close>

record 'a session =
  session_id :: bytes
  send_nonce :: nat
  replay :: window_filter
  peer_addr :: "'a option"

definition session_new :: "bytes \<Rightarrow> 'a option \<Rightarrow> 'a session" where
  "session_new sid addr = \<lparr>session_id = sid, send_nonce = 0, replay = window_filter_new, peer_addr = addr\<rparr>"

definition seal :: "(nat \<Rightarrow> bytes \<Rightarrow> 'e + bytes) \<Rightarrow> frame list \<Rightarrow> 'a session \<Rightarrow>
    ('e transport_error + bytes) \<times> 'a session" where
  "seal enc frames s =
     (let plaintext = encode_frames frames;
          nonce = send_nonce s;
          s' = s\<lparr>send_nonce := wrap64 (send_nonce s + 1)\<rparr>
      in (rbind (map_err NoiseErr (enc nonce plaintext)) (\<lambda>ct.
            Inr (PKT_TRANSPORT # session_id s @ be_bytes 8 nonce @ ct)), s'))"

fun seal_loop :: "(nat \<Rightarrow> bytes \<Rightarrow> 'e + bytes) \<Rightarrow> nat \<Rightarrow> frame list \<Rightarrow> frame list \<Rightarrow> nat \<Rightarrow> bytes list \<Rightarrow>
    'a session \<Rightarrow> ('e transport_error + bytes list) \<times> 'a session" where
  "seal_loop enc max_plaintext [] grp grp_len packets s =
     (if grp \<noteq> [] then
        (case seal enc grp s of
           (Inl e, s') \<Rightarrow> (Inl e, s')
         | (Inr p, s') \<Rightarrow> (Inr (packets @ [p]), s'))
      else (Inr packets, s))"
| "seal_loop enc max_plaintext (f # fs) grp grp_len packets s =
     (let flen = length (encode_frames [f])
      in if grp \<noteq> [] \<and> grp_len + flen > max_plaintext then
           (case seal enc grp s of
              (Inl e, s') \<Rightarrow> (Inl e, s')
            | (Inr p, s') \<Rightarrow> seal_loop enc max_plaintext fs [f] flen (packets @ [p]) s')
         else seal_loop enc max_plaintext fs (grp @ [f]) (grp_len + flen) packets s)"

definition seal_many :: "(nat \<Rightarrow> bytes \<Rightarrow> 'e + bytes) \<Rightarrow> frame list \<Rightarrow> nat \<Rightarrow> 'a session \<Rightarrow>
    ('e transport_error + bytes list) \<times> 'a session" where
  "seal_many enc frames max_plaintext s = seal_loop enc max_plaintext frames [] 0 [] s"

definition open_packet :: "(nat \<Rightarrow> bytes \<Rightarrow> 'e + bytes) \<Rightarrow> 'a \<Rightarrow> bytes \<Rightarrow> 'a session \<Rightarrow>
    ('e transport_error + frame list) \<times> 'a session" where
  "open_packet dec src pkt s =
     (case parse_packet pkt of
        Inl e \<Rightarrow> (Inl e, s)
      | Inr (PHandshake sid body) \<Rightarrow> (Inl (UnknownType PKT_HANDSHAKE), s)
      | Inr (PTransport sid nonce body) \<Rightarrow>
          if sid \<noteq> session_id s then (Inl SessionMismatch, s)
          else
            (case dec nonce body of
               Inl e \<Rightarrow> (Inl (NoiseErr e), s)
             | Inr plaintext \<Rightarrow>
                 (case check_and_set (replay s) nonce of (fresh, w) \<Rightarrow>
                    if \<not> fresh then (Inl ReplayError, s\<lparr>replay := w\<rparr>)
                    else (map_err WireErr (decode_frames plaintext),
                          s\<lparr>replay := w, peer_addr := Some src\<rparr>))))"


section \<open>Header round trip\<close>

lemma length_be_bytes [simp]: "length (be_bytes k n) = k"
  by (induction k arbitrary: n) simp_all

lemma from_be_append: "from_be (bs @ [b]) = from_be bs * 256 + unat b"
  by (simp add: from_be_def)

lemma from_be_bytes: "n < 256 ^ k \<Longrightarrow> from_be (be_bytes k n) = n"
proof (induction k arbitrary: n)
  case 0
  then show ?case by (simp add: from_be_def)
next
  case (Suc k)
  then have "n div 256 < 256 ^ k" by (simp add: less_mult_imp_div_less mult.commute)
  then show ?case
    using Suc.IH [of "n div 256"] by (simp add: from_be_append unat_of_nat take_bit_nat_def)
qed

lemma from_be_nonce [simp]: "n < two64 \<Longrightarrow> from_be (be_bytes 8 n) = n"
  by (rule from_be_bytes) (simp add: two64_def)

lemma parse_transport:
  "length sid = 8 \<Longrightarrow> n < two64 \<Longrightarrow>
   parse_packet (PKT_TRANSPORT # sid @ be_bytes 8 n @ ct) = Inr (PTransport sid n ct)"
  by (simp add: parse_packet_def PKT_TRANSPORT_def PKT_HANDSHAKE_def Let_def)

lemma parse_handshake:
  "length sid = 8 \<Longrightarrow> parse_packet (build_handshake_packet sid msg) = Inr (PHandshake sid msg)"
  by (simp add: parse_packet_def build_handshake_packet_def PKT_HANDSHAKE_def Let_def)


section \<open>Grouping frames into datagrams\<close>

text \<open>How \<open>seal_many\<close> splits its frames, without the sealing.\<close>

fun group_frames :: "nat \<Rightarrow> frame list \<Rightarrow> frame list \<Rightarrow> nat \<Rightarrow> frame list list" where
  "group_frames mx [] grp len = (if grp \<noteq> [] then [grp] else [])"
| "group_frames mx (f # fs) grp len =
     (let flen = length (encode_frames [f])
      in if grp \<noteq> [] \<and> len + flen > mx then grp # group_frames mx fs [f] flen
         else group_frames mx fs (grp @ [f]) (len + flen))"

primrec seal_all :: "(nat \<Rightarrow> bytes \<Rightarrow> 'e + bytes) \<Rightarrow> frame list list \<Rightarrow> 'a session \<Rightarrow>
    ('e transport_error + bytes list) \<times> 'a session" where
  "seal_all enc [] s = (Inr [], s)"
| "seal_all enc (g # gs) s =
     (case seal enc g s of
        (Inl e, s') \<Rightarrow> (Inl e, s')
      | (Inr p, s') \<Rightarrow> (case seal_all enc gs s' of (r, s'') \<Rightarrow> (rbind r (\<lambda>ps. Inr (p # ps)), s'')))"

lemma seal_loop_groups:
  "seal_loop enc mx fs grp len packets s =
     (case seal_all enc (group_frames mx fs grp len) s of (r, s') \<Rightarrow> (rbind r (\<lambda>ps. Inr (packets @ ps)), s'))"
proof (induction enc mx fs grp len packets s rule: seal_loop.induct)
  case (1 enc mx grp len packets s)
  then show ?case by (auto split: prod.splits sum.splits)
next
  case (2 enc mx f fs grp len packets s)
  show ?case
  proof (cases "grp \<noteq> [] \<and> len + length (encode_frames [f]) > mx")
    case True
    obtain r s' where rs: "seal enc grp s = (r, s')" by (cases "seal enc grp s")
    show ?thesis
    proof (cases r)
      case (Inr p)
      note IH = "2.IH"(1) [OF refl True rs [symmetric] Inr]
      obtain r2 s2 where "seal_all enc (group_frames mx fs [f] (length (encode_frames [f]))) s' = (r2, s2)"
        by (cases "seal_all enc (group_frames mx fs [f] (length (encode_frames [f]))) s'")
      with True rs Inr IH show ?thesis by (cases r2) (simp_all add: Let_def)
    qed (use True rs in \<open>simp add: Let_def\<close>)
  next
    case False
    show ?thesis
      unfolding seal_loop.simps group_frames.simps Let_def if_not_P [OF False]
      by (rule "2.IH"(2) [OF refl False])
  qed
qed

lemma seal_many_groups: "seal_many enc fs mx s = seal_all enc (group_frames mx fs [] 0) s"
proof -
  obtain r s' where "seal_all enc (group_frames mx fs [] 0) s = (r, s')"
    by (cases "seal_all enc (group_frames mx fs [] 0) s")
  then show ?thesis by (cases r) (simp_all add: seal_many_def seal_loop_groups)
qed

lemma concat_group_frames: "concat (group_frames mx fs grp len) = grp @ fs"
  by (induction mx fs grp len rule: group_frames.induct) (auto simp: Let_def)

lemma encode_frames_append [simp]: "encode_frames (as @ bs) = encode_frames as @ encode_frames bs"
  by (simp add: encode_frames_def)

lemma group_frames_size:
  "len = length (encode_frames grp) \<Longrightarrow> len \<le> mx \<or> (\<exists>f. grp = [f]) \<Longrightarrow>
   g \<in> set (group_frames mx fs grp len) \<Longrightarrow> g \<noteq> [] \<and> (length (encode_frames g) \<le> mx \<or> (\<exists>f. g = [f]))"
proof (induction mx fs grp len rule: group_frames.induct)
  case (2 mx f fs grp len)
  show ?case
  proof (cases "grp \<noteq> [] \<and> len + length (encode_frames [f]) > mx")
    case True
    then show ?thesis using 2 by (auto simp: Let_def)
  next
    case False
    then have "len + length (encode_frames [f]) \<le> mx \<or> (\<exists>x. grp @ [f] = [x])" by auto
    moreover have "g \<in> set (group_frames mx fs (grp @ [f]) (len + length (encode_frames [f])))"
      using "2.prems"(3) unfolding group_frames.simps Let_def if_not_P [OF False] .
    ultimately show ?thesis using "2.IH"(2) [OF refl False] "2.prems"(1) by simp
  qed
qed (auto split: if_splits)

lemma length_group_frames: "length (group_frames mx fs grp len) \<le> length fs + (if grp \<noteq> [] then 1 else 0)"
  by (induction mx fs grp len rule: group_frames.induct) (auto simp: Let_def)


section \<open>A receiver that is behind the sender\<close>

definition nonce_below :: "window_filter \<Rightarrow> nat \<Rightarrow> bool" where
  "nonce_below w n \<longleftrightarrow> (case max_nonce w of None \<Rightarrow> True | Some mx \<Rightarrow> mx < n)"

lemma check_above:
  assumes "nonce_below w n"
  shows "fst (check_and_set w n)" "nonce_below (snd (check_and_set w n)) (n + 1)"
  using assms by (auto simp: nonce_below_def check_and_set_def Let_def split: option.splits)

primrec open_all :: "(nat \<Rightarrow> bytes \<Rightarrow> 'e + bytes) \<Rightarrow> 'a \<Rightarrow> bytes list \<Rightarrow> 'a session \<Rightarrow>
    ('e transport_error + frame list) list \<times> 'a session" where
  "open_all dec src [] s = ([], s)"
| "open_all dec src (p # ps) s =
     (case open_packet dec src p s of (r, s') \<Rightarrow>
        (case open_all dec src ps s' of (rs, s'') \<Rightarrow> (r # rs, s'')))"

lemma open_seal:
  assumes "enc (send_nonce a) (encode_frames g) = Inr ct" "dec (send_nonce a) ct = Inr (encode_frames g)"
    and "length (session_id a) = 8" "session_id b = session_id a" "nonce_below (replay b) (send_nonce a)"
    and "send_nonce a + 1 < two64" "length (encode_frames g) < two64"
  shows "\<exists>p. seal enc g a = (Inr p, a\<lparr>send_nonce := send_nonce a + 1\<rparr>) \<and>
    open_packet dec src p b = (Inr g,
      b\<lparr>replay := snd (check_and_set (replay b) (send_nonce a)), peer_addr := Some src\<rparr>)"
proof -
  let ?p = "PKT_TRANSPORT # session_id a @ be_bytes 8 (send_nonce a) @ ct"
  have "seal enc g a = (Inr ?p, a\<lparr>send_nonce := send_nonce a + 1\<rparr>)"
    using assms(1,6) by (simp add: seal_def Let_def)
  moreover have "decode_frames (encode_frames g) = Inr g"
    using decode_frames_loop_prefix [OF reads_self assms(7), of "[]"] by (simp add: decode_frames_def)
  then have "open_packet dec src ?p b = (Inr g,
      b\<lparr>replay := snd (check_and_set (replay b) (send_nonce a)), peer_addr := Some src\<rparr>)"
    using assms(2-6) check_above(1) [OF assms(5)]
    by (simp add: open_packet_def parse_transport case_prod_unfold)
  ultimately show ?thesis by blast
qed

lemma open_seal_all:
  assumes aead: "\<forall>n p. n + 1 < two64 \<and> length p \<le> L \<longrightarrow> (\<exists>ct. enc n p = Inr ct \<and> dec n ct = Inr p)"
    and "length (session_id a) = 8" "session_id b = session_id a" "nonce_below (replay b) (send_nonce a)"
    and "send_nonce a + length gs < two64" "\<forall>g \<in> set gs. length (encode_frames g) \<le> L" "L < two64"
  shows "\<exists>ps b'. seal_all enc gs a = (Inr ps, a\<lparr>send_nonce := send_nonce a + length gs\<rparr>) \<and>
    open_all dec src ps b = (map Inr gs, b') \<and> (gs \<noteq> [] \<longrightarrow> peer_addr b' = Some src)"
  using assms(2-6)
proof (induction gs arbitrary: a b)
  case (Cons g gs)
  have small: "send_nonce a + 1 < two64" using Cons.prems(4) by simp
  obtain ct where ct: "enc (send_nonce a) (encode_frames g) = Inr ct" "dec (send_nonce a) ct = Inr (encode_frames g)"
    using aead small Cons.prems(5) by (metis list.set_intros(1))
  let ?a = "a\<lparr>send_nonce := send_nonce a + 1\<rparr>"
  let ?b = "b\<lparr>replay := snd (check_and_set (replay b) (send_nonce a)), peer_addr := Some src\<rparr>"
  have len: "length (encode_frames g) < two64" using Cons.prems(5) assms(7) by (simp add: le_less_trans)
  obtain p where p: "seal enc g a = (Inr p, ?a)" "open_packet dec src p b = (Inr g, ?b)"
    using open_seal [of enc a g ct dec b src, OF ct Cons.prems(1-3) small len] by blast
  have "\<exists>ps b'. seal_all enc gs ?a = (Inr ps, ?a\<lparr>send_nonce := send_nonce ?a + length gs\<rparr>) \<and>
      open_all dec src ps ?b = (map Inr gs, b') \<and> (gs \<noteq> [] \<longrightarrow> peer_addr b' = Some src)"
    using Cons.prems check_above(2) [OF Cons.prems(3)] by (intro Cons.IH) auto
  then obtain ps b' where ps: "seal_all enc gs ?a = (Inr ps, ?a\<lparr>send_nonce := send_nonce ?a + length gs\<rparr>)"
      "open_all dec src ps ?b = (map Inr gs, b')" "gs \<noteq> [] \<longrightarrow> peer_addr b' = Some src" by blast
  have "peer_addr b' = Some src" using ps(2,3) by (cases gs; cases ps) (auto split: prod.splits)
  with p ps show ?case by (intro exI [of _ "p # ps"] exI [of _ b']) simp
qed simp


section \<open>Properties of sessions\<close>

text \<open>C20: frames survive the trip through the session layer. With an AEAD that decrypts what
  it encrypted (up to the Noise limit \<open>L\<close> on a message, and for every nonce but the reserved last one), \<^verbatim>\<open>seal_many\<close> succeeds, and opening
  its datagrams in order at a peer that is not ahead of the sender returns every frame, in
  order and once; every datagram's plaintext stays within the budget unless it is one single
  frame.\<close>

theorem seal_many_open_roundtrip:
  assumes "\<forall>n p. n + 1 < two64 \<and> length p \<le> L \<longrightarrow> (\<exists>ct. enc n p = Inr ct \<and> dec n ct = Inr p)"
    and "L < two64" "mx \<le> L" "\<forall>f \<in> set frames. length (frame_encode f) \<le> L"
    and "length (session_id a) = 8" "session_id b = session_id a" "nonce_below (replay b) (send_nonce a)"
    and "send_nonce a + length frames < two64"
  shows "\<exists>ps gs a'. seal_many enc frames mx a = (Inr ps, a') \<and>
    fst (open_all dec src ps b) = map Inr gs \<and> concat gs = frames \<and>
    (\<forall>g \<in> set gs. length (encode_frames g) \<le> mx \<or> (\<exists>f. g = [f]))"
proof -
  let ?gs = "group_frames mx frames [] 0"
  have size: "\<forall>g \<in> set ?gs. length (encode_frames g) \<le> mx \<or> (\<exists>f. g = [f])"
    using group_frames_size [of 0 "[]" mx _ frames] by (auto simp: encode_frames_def)
  have flat: "concat ?gs = frames" by (simp add: concat_group_frames)
  have "length (encode_frames g) \<le> L" if g: "g \<in> set ?gs" for g
  proof (cases "length (encode_frames g) \<le> mx")
    case False
    then obtain f where "g = [f]" using size g by auto
    moreover have "f \<in> set frames" using g calculation by (subst flat [symmetric]) force
    ultimately show ?thesis using assms(4) by (simp add: encode_frames_def)
  qed (use assms(3) in simp)
  moreover have "send_nonce a + length ?gs < two64"
    using length_group_frames [of mx frames "[]" 0] assms(8) by simp
  ultimately obtain ps b' where "seal_all enc ?gs a = (Inr ps, a\<lparr>send_nonce := send_nonce a + length ?gs\<rparr>)"
      "open_all dec src ps b = (map Inr ?gs, b')"
    using open_seal_all [OF assms(1,5,6,7) _ _ assms(2), of ?gs src] by blast
  then show ?thesis
    using size flat by (intro exI [of _ ps] exI [of _ ?gs]) (simp add: seal_many_groups)
qed

text \<open>A stand-in cipher for examples: the nonce is prepended and checked.\<close>

definition toy_enc :: "nat \<Rightarrow> bytes \<Rightarrow> unit + bytes" where
  "toy_enc n p = Inr (be_bytes 8 n @ p)"

definition toy_dec :: "nat \<Rightarrow> bytes \<Rightarrow> unit + bytes" where
  "toy_dec n c = (if take 8 c = be_bytes 8 n then Inr (drop 8 c) else Inl ())"

lemma toy_aead: "\<exists>ct. toy_enc n p = Inr ct \<and> toy_dec n ct = Inr p"
  by (simp add: toy_enc_def toy_dec_def)

theorem seal_many_open_roundtrip_witness:
  "\<exists>ps gs a'. seal_many toy_enc [Ping 1, Input 0 [7, 8], Ack 3] 4
      (session_new [1, 2, 3, 4, 5, 6, 7, 8] (None :: nat option)) = (Inr ps, a') \<and>
    fst (open_all toy_dec 9 ps (session_new [1, 2, 3, 4, 5, 6, 7, 8] None)) = map Inr gs \<and>
    concat gs = [Ping 1, Input 0 [7, 8], Ack 3] \<and>
    (\<forall>g \<in> set gs. length (encode_frames g) \<le> 4 \<or> (\<exists>f. g = [f]))"
  by (rule seal_many_open_roundtrip [where L = 65519])
    (simp_all add: toy_aead two64_def session_new_def nonce_below_def window_filter_new_def
      put_bytes_def put_varint.simps)

text \<open>The datagrams a session accepts of a sequence: source, nonce and frames.\<close>

definition pkt_nonce :: "bytes \<Rightarrow> nat" where
  "pkt_nonce pkt = (case parse_packet pkt :: unit transport_error + packet of
     Inr (PTransport sid n body) \<Rightarrow> n | _ \<Rightarrow> 0)"

primrec open_log :: "(nat \<Rightarrow> bytes \<Rightarrow> 'e + bytes) \<Rightarrow> ('a \<times> bytes) list \<Rightarrow> 'a session \<Rightarrow>
    ('a \<times> bytes \<times> frame list) list" where
  "open_log dec [] s = []"
| "open_log dec (d # ds) s =
     (case open_packet dec (fst d) (snd d) s of
        (Inr fs, s') \<Rightarrow> (fst d, snd d, fs) # open_log dec ds s'
      | (Inl e, s') \<Rightarrow> open_log dec ds s')"

definition authentic :: "(nat \<Rightarrow> bytes \<Rightarrow> 'e + bytes) \<Rightarrow> bytes \<Rightarrow> bytes \<Rightarrow> bytes \<Rightarrow> bool" where
  "authentic dec sid pkt plaintext \<longleftrightarrow> (\<exists>n body.
     parse_packet pkt = (Inr (PTransport sid n body) :: unit transport_error + packet) \<and> dec n body = Inr plaintext)"

text \<open>The error type plays no role in parsing.\<close>

lemma parse_packet_any:
  "parse_packet pkt = (Inr q :: 'e transport_error + packet) \<longleftrightarrow>
   parse_packet pkt = (Inr q :: 'f transport_error + packet)"
  by (simp add: parse_packet_def Let_def)

lemma open_packet_cases:
  assumes "open_packet dec src pkt s = (r, s')"
  obtains (rejected) e where "r = Inl e" "s' = s"
  | (replayed) plaintext where "r = Inl ReplayError" "authentic dec (session_id s) pkt plaintext"
      "\<not> fst (check_and_set (replay s) (pkt_nonce pkt))"
      "s' = s\<lparr>replay := snd (check_and_set (replay s) (pkt_nonce pkt))\<rparr>"
  | (accepted) plaintext where "authentic dec (session_id s) pkt plaintext"
      "fst (check_and_set (replay s) (pkt_nonce pkt))"
      "r = map_err WireErr (decode_frames plaintext)"
      "s' = s\<lparr>replay := snd (check_and_set (replay s) (pkt_nonce pkt)), peer_addr := Some src\<rparr>"
proof (cases "\<exists>n body pt. parse_packet pkt = (Inr (PTransport (session_id s) n body) :: 'a transport_error + packet) \<and>
    dec n body = Inr pt")
  case True
  then obtain n body pt where p: "parse_packet pkt = (Inr (PTransport (session_id s) n body) :: 'a transport_error + packet)"
    and d: "dec n body = Inr pt" by blast
  have u: "parse_packet pkt = (Inr (PTransport (session_id s) n body) :: unit transport_error + packet)"
    using p parse_packet_any by blast
  have n: "pkt_nonce pkt = n" "authentic dec (session_id s) pkt pt"
    using u d by (auto simp: pkt_nonce_def authentic_def)
  show thesis
    using assms n replayed [of pt] accepted [of pt]
    by (cases "fst (check_and_set (replay s) n)")
      (auto simp: open_packet_def p d case_prod_unfold)
next
  case False
  then show thesis
    using assms rejected unfolding open_packet_def
    by (auto split: sum.splits packet.splits if_splits prod.splits)
qed

lemma window_step:
  assumes "window_rel w S"
  shows "fst (check_and_set w n) \<Longrightarrow> n \<notin> S \<and> window_rel (snd (check_and_set w n)) (insert n S)"
    and "\<not> fst (check_and_set w n) \<Longrightarrow> window_rel (snd (check_and_set w n)) S"
  using window.check_new [OF assms, of n] window.check_rel [OF assms, of n] by auto

lemma open_log_fresh:
  "window_rel (replay s) S \<Longrightarrow>
   distinct (map (\<lambda>(src, pkt, fs). pkt_nonce pkt) (open_log dec ds s)) \<and>
   (\<lambda>(src, pkt, fs). pkt_nonce pkt) ` set (open_log dec ds s) \<inter> S = {} \<and>
   (\<forall>(src, pkt, fs) \<in> set (open_log dec ds s). (src, pkt) \<in> set ds \<and>
      (\<exists>pt. authentic dec (session_id s) pkt pt \<and> decode_frames pt = Inr fs))"
proof (induction ds arbitrary: s S)
  case (Cons d ds)
  obtain r s' where op: "open_packet dec (fst d) (snd d) s = (r, s')"
    by (cases "open_packet dec (fst d) (snd d) s")
  show ?case
    using op
  proof (cases rule: open_packet_cases)
    case rejected
    then show ?thesis using Cons.IH [OF Cons.prems] op by auto
  next
    case replayed
    have "window_rel (replay s') S" "session_id s' = session_id s"
      using window_step(2) [OF Cons.prems replayed(3)] replayed(4) by simp_all
    then show ?thesis using Cons.IH [of s' S] op replayed(1) by auto
  next
    case (accepted pt)
    have w: "pkt_nonce (snd d) \<notin> S" "window_rel (replay s') (insert (pkt_nonce (snd d)) S)"
      "session_id s' = session_id s"
      using window_step(1) [OF Cons.prems accepted(2)] accepted(4) by simp_all
    note IH = Cons.IH [OF w(2)]
    show ?thesis
    proof (cases r)
      case (Inl e)
      then show ?thesis using IH op w by auto
    next
      case (Inr fs)
      then have "decode_frames pt = Inr fs" using accepted(3) by (metis map_err_simps(3))
      then show ?thesis using IH op w Inr accepted(1) by (cases d) auto
    qed
  qed
qed simp

text \<open>C10: a session processes each datagram at most once and only authentic ones. Over any
  sequence of received datagrams (forged, replayed, reordered), the datagrams whose frames reach
  the application have pairwise distinct nonces, so the same datagram never counts twice, and
  each was received, carries this session's id and decrypts to the frames delivered.\<close>

theorem session_processes_once:
  "distinct (map (\<lambda>(src, pkt, fs). pkt_nonce pkt) (open_log dec ds (session_new sid addr))) \<and>
   (\<forall>(src, pkt, fs) \<in> set (open_log dec ds (session_new sid addr)). (src, pkt) \<in> set ds \<and>
      (\<exists>pt. authentic dec sid pkt pt \<and> decode_frames pt = Inr fs))"
  using open_log_fresh [of "session_new sid addr" "{}" dec ds] window_rel_new
  by (simp add: session_new_def)

definition ping_packet :: bytes where
  "ping_packet = PKT_TRANSPORT # [1, 2, 3, 4, 5, 6, 7, 8] @ be_bytes 8 0 @ be_bytes 8 0 @ [T_PING, 5]"

definition ping_twice :: "(nat \<times> bytes) list" where
  "ping_twice = [(5, ping_packet), (6, ping_packet)]"

theorem session_processes_once_witness:
  "let log = open_log toy_dec ping_twice (session_new [1, 2, 3, 4, 5, 6, 7, 8] None) in
    distinct (map (\<lambda>(src, pkt, fs). pkt_nonce pkt) log) \<and>
    (\<forall>(src, pkt, fs) \<in> set log. (src, pkt) \<in> set ping_twice \<and>
      (\<exists>pt. authentic toy_dec [1, 2, 3, 4, 5, 6, 7, 8] pkt pt \<and> decode_frames pt = Inr fs))"
  unfolding Let_def by (rule session_processes_once)

text \<open>Only an authentic, never seen datagram moves the peer address. Whatever is received
  from wherever, if opening it changes where the session sends to, then it came from that
  address, decrypted under the session's keys, and its nonce had not been accepted before.\<close>

theorem roaming_only_authentic:
  assumes "window_rel (replay s) S" "open_packet dec src pkt s = (r, s')" "peer_addr s' \<noteq> peer_addr s"
  shows "peer_addr s' = Some src \<and> (\<exists>pt. authentic dec (session_id s) pkt pt) \<and> pkt_nonce pkt \<notin> S"
  using assms(2)
proof (cases rule: open_packet_cases)
  case (accepted pt)
  then show ?thesis using window_step(1) [OF assms(1) accepted(2)] by auto
qed (use assms(3) in simp_all)

lemma open_ping: "peer_addr (snd (open_packet toy_dec (5 :: nat) ping_packet (session_new [1, 2, 3, 4, 5, 6, 7, 8] None))) = Some 5"
proof -
  have "parse_packet ping_packet = (Inr (PTransport [1, 2, 3, 4, 5, 6, 7, 8] 0 (be_bytes 8 0 @ [T_PING, 5])) ::
      unit transport_error + packet)"
    unfolding ping_packet_def by (rule parse_transport) (simp_all add: two64_def)
  then show ?thesis
    by (simp add: open_packet_def toy_dec_def check_and_set_def session_new_def window_filter_new_def)
qed

theorem roaming_only_authentic_witness:
  "let s = session_new [1, 2, 3, 4, 5, 6, 7, 8] (None :: nat option);
       s' = snd (open_packet toy_dec 5 ping_packet s)
   in peer_addr s' = Some 5 \<and> (\<exists>pt. authentic toy_dec (session_id s) ping_packet pt) \<and> pkt_nonce ping_packet \<notin> {}"
  unfolding Let_def
proof (rule roaming_only_authentic)
  show "window_rel (replay (session_new [1, 2, 3, 4, 5, 6, 7, 8] (None :: nat option))) {}"
    by (simp add: session_new_def)
  show "open_packet toy_dec (5 :: nat) ping_packet (session_new [1, 2, 3, 4, 5, 6, 7, 8] None) =
      (fst (open_packet toy_dec (5 :: nat) ping_packet (session_new [1, 2, 3, 4, 5, 6, 7, 8] None)),
       snd (open_packet toy_dec (5 :: nat) ping_packet (session_new [1, 2, 3, 4, 5, 6, 7, 8] None)))"
    by simp
  show "peer_addr (snd (open_packet toy_dec (5 :: nat) ping_packet (session_new [1, 2, 3, 4, 5, 6, 7, 8] None))) \<noteq>
      peer_addr (session_new [1, 2, 3, 4, 5, 6, 7, 8] None)"
    unfolding open_ping by (simp add: session_new_def)
qed

end
