(* ===== verification/Handshake.thy ===== *)
theory Handshake
  imports Transport
begin

text \<open>
  The Noise layer \<^verbatim>\<open>crates/noise-core/src/lib.rs\<close> and the handshake driver
  \<^verbatim>\<open>crates/proto/src/handshake.rs\<close>. The snow library is a parameter: a record of its operations
  on handshake states \<open>'s\<close> and transport states \<open>'t\<close>, each taking the size of the output buffer
  the wrapper allocates.
\<close>

section \<open>Noise sessions\<close>

datatype role = Initiator | Responder

record ('s, 't) snow =
  sn_build :: "role \<Rightarrow> bytes \<Rightarrow> string + 's"
  sn_write :: "bytes \<Rightarrow> nat \<Rightarrow> 's \<Rightarrow> (string + bytes) \<times> 's"
  sn_read :: "bytes \<Rightarrow> nat \<Rightarrow> 's \<Rightarrow> (string + bytes) \<times> 's"
  sn_finished :: "'s \<Rightarrow> bool"
  sn_remote :: "'s \<Rightarrow> bytes option"
  sn_transport :: "'s \<Rightarrow> string + 't"
  sn_encrypt :: "'t \<Rightarrow> nat \<Rightarrow> bytes \<Rightarrow> nat \<Rightarrow> string + bytes"
  sn_decrypt :: "'t \<Rightarrow> nat \<Rightarrow> bytes \<Rightarrow> nat \<Rightarrow> string + bytes"

datatype noise_error = Snow string | HandshakeNotFinished | NoRemoteStatic

definition handshake_new :: "('s, 't) snow \<Rightarrow> role \<Rightarrow> bytes \<Rightarrow> noise_error + 's" where
  "handshake_new sn r local_private = map_err Snow (sn_build sn r local_private)"

definition write_message :: "('s, 't) snow \<Rightarrow> bytes \<Rightarrow> 's \<Rightarrow> (noise_error + bytes) \<times> 's" where
  "write_message sn payload hs = (case sn_write sn payload (length payload + 256) hs of (r, hs') \<Rightarrow> (map_err Snow r, hs'))"

definition read_message :: "('s, 't) snow \<Rightarrow> bytes \<Rightarrow> 's \<Rightarrow> (noise_error + bytes) \<times> 's" where
  "read_message sn msg hs = (case sn_read sn msg (length msg + 256) hs of (r, hs') \<Rightarrow> (map_err Snow r, hs'))"

record 't noise_session =
  ns_transport :: 't
  ns_remote :: bytes

definition into_transport :: "('s, 't) snow \<Rightarrow> 's \<Rightarrow> noise_error + 't noise_session" where
  "into_transport sn hs =
     (if \<not> sn_finished sn hs then Inl HandshakeNotFinished
      else case sn_remote sn hs of
        None \<Rightarrow> Inl NoRemoteStatic
      | Some remote \<Rightarrow>
          rbind (map_err Snow (sn_transport sn hs)) (\<lambda>t. Inr \<lparr>ns_transport = t, ns_remote = remote\<rparr>))"

definition noise_encrypt :: "('s, 't) snow \<Rightarrow> 't noise_session \<Rightarrow> nat \<Rightarrow> bytes \<Rightarrow> noise_error + bytes" where
  "noise_encrypt sn n nonce plaintext = map_err Snow (sn_encrypt sn (ns_transport n) nonce plaintext (length plaintext + 16))"

definition noise_decrypt :: "('s, 't) snow \<Rightarrow> 't noise_session \<Rightarrow> nat \<Rightarrow> bytes \<Rightarrow> noise_error + bytes" where
  "noise_decrypt sn n nonce ciphertext = map_err Snow (sn_decrypt sn (ns_transport n) nonce ciphertext (length ciphertext))"


section \<open>The handshake driver\<close>

datatype handshake_error = HNoise noise_error | AlreadyFinished | NotFinished

record 's handshaker =
  hk_hs :: "'s option"
  hk_sid :: bytes
  hk_finished :: bool
  hk_send :: bytes
  hk_peer :: "bytes option"

record hs_outcome =
  ho_reply :: "bytes option"
  ho_finished :: bool

definition handshaker_client :: "('s, 't) snow \<Rightarrow> bytes \<Rightarrow> bytes \<Rightarrow> handshake_error + ('s handshaker \<times> bytes)" where
  "handshaker_client sn local_private sid =
     rbind (map_err HNoise (handshake_new sn Initiator local_private)) (\<lambda>hs0.
     case write_message sn (replicate MIN_HANDSHAKE_INIT 0) hs0 of (r, hs) \<Rightarrow>
     rbind (map_err HNoise r) (\<lambda>msg1.
       Inr (\<lparr>hk_hs = Some hs, hk_sid = sid, hk_finished = False, hk_send = [], hk_peer = None\<rparr>,
            build_handshake_packet sid msg1)))"

definition handshaker_server :: "('s, 't) snow \<Rightarrow> bytes \<Rightarrow> bytes \<Rightarrow> bytes \<Rightarrow> handshake_error + 's handshaker" where
  "handshaker_server sn local_private sid send_payload =
     rbind (map_err HNoise (handshake_new sn Responder local_private)) (\<lambda>hs.
       Inr \<lparr>hk_hs = Some hs, hk_sid = sid, hk_finished = False, hk_send = send_payload, hk_peer = None\<rparr>)"

definition note_payload :: "bytes \<Rightarrow> 's handshaker \<Rightarrow> 's handshaker" where
  "note_payload payload h = (if list_ex (\<lambda>b. b \<noteq> 0) payload then h\<lparr>hk_peer := Some payload\<rparr> else h)"

text \<open>The second half of \<^verbatim>\<open>read\<close>: answer with our next message.\<close>

definition hs_answer :: "('s, 't) snow \<Rightarrow> 's \<Rightarrow> 's handshaker \<Rightarrow> (handshake_error + hs_outcome) \<times> 's handshaker" where
  "hs_answer sn hs h0 =
     (let send = hk_send h0; h = h0\<lparr>hk_send := []\<rparr> in
      case write_message sn send hs of
        (Inl e, hs') \<Rightarrow> (Inl (HNoise e), h\<lparr>hk_hs := Some hs'\<rparr>)
      | (Inr out, hs') \<Rightarrow>
          (let fin = sn_finished sn hs' in
           (Inr \<lparr>ho_reply = Some (build_handshake_packet (hk_sid h) out), ho_finished = fin\<rparr>,
            h\<lparr>hk_hs := Some hs', hk_finished := fin\<rparr>)))"

definition handshaker_read :: "('s, 't) snow \<Rightarrow> bytes \<Rightarrow> 's handshaker \<Rightarrow> (handshake_error + hs_outcome) \<times> 's handshaker" where
  "handshaker_read sn body h =
     (case hk_hs h of
        None \<Rightarrow> (Inl AlreadyFinished, h)
      | Some hs \<Rightarrow>
          (case read_message sn body hs of
             (Inl e, hs') \<Rightarrow> (Inl (HNoise e), h\<lparr>hk_hs := Some hs'\<rparr>)
           | (Inr payload, hs') \<Rightarrow>
               (let h1 = note_payload payload (h\<lparr>hk_hs := Some hs'\<rparr>) in
                if sn_finished sn hs' then
                  (Inr \<lparr>ho_reply = None, ho_finished = True\<rparr>, h1\<lparr>hk_finished := True\<rparr>)
                else hs_answer sn hs' h1)))"

definition hk_remote_static :: "('s, 't) snow \<Rightarrow> 's handshaker \<Rightarrow> bytes option" where
  "hk_remote_static sn h = (case hk_hs h of None \<Rightarrow> None | Some hs \<Rightarrow> sn_remote sn hs)"

definition into_session :: "('s, 't) snow \<Rightarrow> 'a option \<Rightarrow> 's handshaker \<Rightarrow>
    handshake_error + ('a session \<times> 't noise_session)" where
  "into_session sn addr h =
     (if \<not> hk_finished h then Inl NotFinished
      else case hk_hs h of
        None \<Rightarrow> Inl AlreadyFinished
      | Some hs \<Rightarrow>
          rbind (map_err HNoise (into_transport sn hs)) (\<lambda>noise. Inr (session_new (hk_sid h) addr, noise)))"


section \<open>What a completed handshake gives\<close>

lemma hs_answer_sid [simp]: "hk_sid (snd (hs_answer sn hs h)) = hk_sid h"
  by (auto simp: hs_answer_def Let_def split: prod.splits sum.splits)

lemma handshaker_read_sid [simp]: "hk_sid (snd (handshaker_read sn body h)) = hk_sid h"
  by (auto simp: handshaker_read_def note_payload_def Let_def split: prod.splits sum.splits option.splits)

text \<open>A handshaker that says it is finished holds a finished Noise state.\<close>

definition hk_ok :: "('s, 't) snow \<Rightarrow> 's handshaker \<Rightarrow> bool" where
  "hk_ok sn h \<longleftrightarrow> (\<exists>hs. hk_hs h = Some hs \<and> (hk_finished h \<longrightarrow> sn_finished sn hs))"

lemma handshaker_server_ok: "handshaker_server sn priv sid pl = Inr h \<Longrightarrow> hk_ok sn h \<and> \<not> hk_finished h \<and> hk_sid h = sid"
  by (auto simp: handshaker_server_def hk_ok_def rbind_def map_err_def split: sum.splits)

lemma handshaker_client_ok: "handshaker_client sn priv sid = Inr (h, p) \<Longrightarrow> hk_ok sn h \<and> \<not> hk_finished h \<and> hk_sid h = sid"
  by (auto simp: handshaker_client_def hk_ok_def rbind_def map_err_def split: sum.splits prod.splits)

lemma handshaker_read_ok:
  assumes "handshaker_read sn body h = (r, h')" "hk_ok sn h" "\<not> hk_finished h"
  shows "hk_ok sn h'" "\<And>oc. r = Inr oc \<Longrightarrow> hk_finished h' = ho_finished oc" "\<And>e. r = Inl e \<Longrightarrow> \<not> hk_finished h'"
  using assms
  by (auto simp: handshaker_read_def hs_answer_def note_payload_def hk_ok_def Let_def
      split: prod.splits sum.splits option.splits if_splits)

lemma into_session_ok:
  assumes "into_session sn addr h = Inr (s, n)"
  shows "hk_finished h" "s = session_new (hk_sid h) addr" "hk_remote_static sn h = Some (ns_remote n)"
    "\<exists>hs. hk_hs h = Some hs \<and> sn_finished sn hs"
  using assms
  by (auto simp: into_session_def into_transport_def hk_remote_static_def rbind_def map_err_def
      split: if_splits option.splits sum.splits)

text \<open>
  What the driver relies on of the XX pattern: three messages, initiator to responder and back, each
  delivering its payload (in a buffer at least 256 bytes larger), after which both sides are finished,
  know the other's static key, and have transport states that decrypt what the other encrypts. A Noise message
  has at most 65535 bytes; the largest overhead of a handshake message is the 96 bytes of the second (an
  ephemeral key, an encrypted static key and two tags), that of a transport message is a tag of 16, and the last nonce is
  reserved. \<open>xx_third\<close>, \<open>xx_second\<close> and \<open>xx_first\<close> describe the exchange from the third, second and first message on.
\<close>

definition fits_message :: "bytes \<Rightarrow> bool" where
  "fits_message p \<longleftrightarrow> length p + 96 \<le> 65535"

definition decrypts :: "('s, 't) snow \<Rightarrow> 't \<Rightarrow> 't \<Rightarrow> bool" where
  "decrypts sn t t' \<longleftrightarrow> (\<forall>n p. n + 1 < two64 \<and> length p + 16 \<le> 65535 \<longrightarrow>
     (\<exists>ct. sn_encrypt sn t n p (length p + 16) = Inr ct \<and> sn_decrypt sn t' n ct (length ct) = Inr p))"

definition xx_third :: "('s, 't) snow \<Rightarrow> bytes \<Rightarrow> 's \<Rightarrow> 's \<Rightarrow> bool" where
  "xx_third sn kc i r \<longleftrightarrow> (\<forall>p b. fits_message p \<and> length p + 256 \<le> b \<longrightarrow> (\<exists>m i'. sn_write sn p b i = (Inr m, i') \<and>
     sn_finished sn i' \<and> sn_remote sn i' = sn_remote sn i \<and> (\<forall>b'. length m + 256 \<le> b' \<longrightarrow>
       (\<exists>r' ti tr. sn_read sn m b' r = (Inr p, r') \<and> sn_finished sn r' \<and> sn_remote sn r' = Some kc \<and>
          sn_transport sn i' = Inr ti \<and> sn_transport sn r' = Inr tr \<and> decrypts sn ti tr \<and> decrypts sn tr ti))))"

definition xx_second :: "('s, 't) snow \<Rightarrow> bytes \<Rightarrow> bytes \<Rightarrow> 's \<Rightarrow> 's \<Rightarrow> bool" where
  "xx_second sn kc ks i r \<longleftrightarrow> (\<forall>p b. fits_message p \<and> length p + 256 \<le> b \<longrightarrow> (\<exists>m r'. sn_write sn p b r = (Inr m, r') \<and>
     \<not> sn_finished sn r' \<and> (\<forall>b'. length m + 256 \<le> b' \<longrightarrow>
       (\<exists>i'. sn_read sn m b' i = (Inr p, i') \<and> \<not> sn_finished sn i' \<and> sn_remote sn i' = Some ks \<and> xx_third sn kc i' r'))))"

definition xx_first :: "('s, 't) snow \<Rightarrow> bytes \<Rightarrow> bytes \<Rightarrow> 's \<Rightarrow> 's \<Rightarrow> bool" where
  "xx_first sn kc ks i r \<longleftrightarrow> (\<forall>p b. fits_message p \<and> length p + 256 \<le> b \<longrightarrow> (\<exists>m i'. sn_write sn p b i = (Inr m, i') \<and>
     length p \<le> length m \<and> (\<forall>b'. length m + 256 \<le> b' \<longrightarrow>
       (\<exists>r'. sn_read sn m b' r = (Inr p, r') \<and> \<not> sn_finished sn r' \<and> xx_second sn kc ks i' r'))))"

lemma read_then_answer:
  assumes "hk_hs h = Some hs" "sn_read sn body (length body + 256) hs = (Inr payload, hs')" "\<not> sn_finished sn hs'"
    and "sn_write sn (hk_send h) (length (hk_send h) + 256) hs' = (Inr m, hs'')"
  shows "handshaker_read sn body h =
    (Inr \<lparr>ho_reply = Some (build_handshake_packet (hk_sid h) m), ho_finished = sn_finished sn hs''\<rparr>,
     (note_payload payload h)\<lparr>hk_hs := Some hs'', hk_send := [], hk_finished := sn_finished sn hs''\<rparr>)"
  using assms
  by (simp add: handshaker_read_def read_message_def hs_answer_def write_message_def note_payload_def map_err_def Let_def)

lemma read_then_finish:
  assumes "hk_hs h = Some hs" "sn_read sn body (length body + 256) hs = (Inr payload, hs')" "sn_finished sn hs'"
  shows "handshaker_read sn body h = (Inr \<lparr>ho_reply = None, ho_finished = True\<rparr>,
     (note_payload payload h)\<lparr>hk_hs := Some hs', hk_finished := True\<rparr>)"
  using assms by (simp add: handshaker_read_def read_message_def note_payload_def map_err_def Let_def)

text \<open>The body of a handshake packet, as \<^verbatim>\<open>parse_packet\<close> returns it.\<close>

definition hs_body :: "bytes \<Rightarrow> bytes" where
  "hs_body pkt = drop 9 pkt"

lemma hs_body_build [simp]: "length sid = 8 \<Longrightarrow> hs_body (build_handshake_packet sid m) = m"
  by (simp add: hs_body_def build_handshake_packet_def)

text \<open>Two new sessions under one id, whose transport states fit, can talk: what one seals the other opens.\<close>

definition can_talk :: "('s, 't) snow \<Rightarrow> bytes \<Rightarrow> 't noise_session \<Rightarrow> 'a \<Rightarrow> 't noise_session \<Rightarrow> 'a \<Rightarrow> bool" where
  "can_talk sn sid n a n' a' \<longleftrightarrow> (\<forall>fs. length (encode_frames fs) + 16 \<le> 65535 \<longrightarrow>
     (\<exists>pkt s. seal (noise_encrypt sn n) fs (session_new sid (Some a')) = (Inr pkt, s) \<and>
        fst (open_packet (noise_decrypt sn n') a pkt (session_new sid (Some a))) = Inr fs))"

lemma nonce_room: "(1 :: nat) < two64"
  by (simp add: two64_def)

lemma decrypts_can_talk:
  assumes "decrypts sn (ns_transport n) (ns_transport n')" "length sid = 8"
  shows "can_talk sn sid n a n' a'"
  unfolding can_talk_def
proof (intro allI impI)
  fix fs :: "frame list"
  let ?a = "session_new sid (Some a')" and ?b = "session_new sid (Some a)"
  assume small: "length (encode_frames fs) + 16 \<le> 65535"
  have nonce: "send_nonce ?a = 0" by (simp add: session_new_def)
  obtain c where "sn_encrypt sn (ns_transport n) 0 (encode_frames fs) (length (encode_frames fs) + 16) = Inr c"
    "sn_decrypt sn (ns_transport n') 0 c (length c) = Inr (encode_frames fs)"
    using assms(1) small unfolding decrypts_def by (metis add_0 nonce_room)
  then obtain ct where "noise_encrypt sn n (send_nonce ?a) (encode_frames fs) = Inr ct" "noise_decrypt sn n' (send_nonce ?a) ct = Inr (encode_frames fs)"
    unfolding nonce by (simp add: noise_encrypt_def noise_decrypt_def map_err_def)
  moreover have "length (session_id ?a) = 8" "session_id ?b = session_id ?a" "nonce_below (replay ?b) (send_nonce ?a)" "send_nonce ?a + 1 < two64"
    "length (encode_frames fs) < two64"
    using assms(2) small by (simp_all add: session_new_def nonce_below_def window_filter_new_def two64_def)
  ultimately show "\<exists>pkt s. seal (noise_encrypt sn n) fs ?a = (Inr pkt, s) \<and> fst (open_packet (noise_decrypt sn n') a pkt ?b) = Inr fs"
    using open_seal [of "noise_encrypt sn n" ?a fs ct "noise_decrypt sn n'" ?b a] by fastforce
qed

text \<open>The three messages, as the library and the drivers see them.\<close>

lemma handshake_messages:
  assumes "xx_first sn kc ks i0 r0" "fits_message version"
  obtains m1 i1 r1 m2 r2 i2 m3 i3 r3 ti tr where
    "sn_write sn (replicate MIN_HANDSHAKE_INIT 0) (MIN_HANDSHAKE_INIT + 256) i0 = (Inr m1, i1)" "MIN_HANDSHAKE_INIT \<le> length m1"
    "sn_read sn m1 (length m1 + 256) r0 = (Inr (replicate MIN_HANDSHAKE_INIT 0), r1)" "\<not> sn_finished sn r1"
    "sn_write sn version (length version + 256) r1 = (Inr m2, r2)" "\<not> sn_finished sn r2"
    "sn_read sn m2 (length m2 + 256) i1 = (Inr version, i2)" "\<not> sn_finished sn i2"
    "sn_write sn [] (0 + 256) i2 = (Inr m3, i3)" "sn_finished sn i3" "sn_remote sn i3 = Some ks"
    "sn_read sn m3 (length m3 + 256) r2 = (Inr [], r3)" "sn_finished sn r3" "sn_remote sn r3 = Some kc"
    "sn_transport sn i3 = Inr ti" "sn_transport sn r3 = Inr tr" "decrypts sn ti tr" "decrypts sn tr ti"
proof -
  let ?pad = "replicate MIN_HANDSHAKE_INIT (0 :: u8)"
  have pad: "fits_message ?pad \<and> length ?pad + 256 \<le> MIN_HANDSHAKE_INIT + 256" by (simp add: fits_message_def MIN_HANDSHAKE_INIT_def)
  obtain m1 i1 where m1: "sn_write sn ?pad (MIN_HANDSHAKE_INIT + 256) i0 = (Inr m1, i1)" "length ?pad \<le> length m1"
    and n1: "\<And>b. length m1 + 256 \<le> b \<Longrightarrow>
      \<exists>r'. sn_read sn m1 b r0 = (Inr ?pad, r') \<and> \<not> sn_finished sn r' \<and> xx_second sn kc ks i1 r'"
    using assms(1) pad unfolding xx_first_def by meson
  obtain r1 where r1: "sn_read sn m1 (length m1 + 256) r0 = (Inr ?pad, r1)" "\<not> sn_finished sn r1" "xx_second sn kc ks i1 r1"
    using n1 by blast
  obtain m2 r2 where m2: "sn_write sn version (length version + 256) r1 = (Inr m2, r2)" "\<not> sn_finished sn r2"
    and n2: "\<And>b. length m2 + 256 \<le> b \<Longrightarrow> \<exists>i'. sn_read sn m2 b i1 = (Inr version, i') \<and> \<not> sn_finished sn i' \<and>
      sn_remote sn i' = Some ks \<and> xx_third sn kc i' r2"
    using r1(3) assms(2) unfolding xx_second_def by (meson order_refl)
  obtain i2 where i2: "sn_read sn m2 (length m2 + 256) i1 = (Inr version, i2)" "\<not> sn_finished sn i2"
    "sn_remote sn i2 = Some ks" "xx_third sn kc i2 r2"
    using n2 by blast
  have empty: "fits_message [] \<and> length ([] :: bytes) + 256 \<le> 0 + 256" by (simp add: fits_message_def)
  obtain m3 i3 where m3: "sn_write sn [] (0 + 256) i2 = (Inr m3, i3)" "sn_finished sn i3" "sn_remote sn i3 = Some ks"
    and n3: "\<And>b. length m3 + 256 \<le> b \<Longrightarrow>
      \<exists>r' ti tr. sn_read sn m3 b r2 = (Inr [], r') \<and> sn_finished sn r' \<and> sn_remote sn r' = Some kc \<and>
        sn_transport sn i3 = Inr ti \<and> sn_transport sn r' = Inr tr \<and> decrypts sn ti tr \<and> decrypts sn tr ti"
    using i2(4) empty unfolding xx_third_def i2(3) by meson
  obtain r3 ti tr where r3: "sn_read sn m3 (length m3 + 256) r2 = (Inr [], r3)" "sn_finished sn r3" "sn_remote sn r3 = Some kc"
    "sn_transport sn i3 = Inr ti" "sn_transport sn r3 = Inr tr" "decrypts sn ti tr" "decrypts sn tr ti"
    using n3 [OF order_refl] by blast
  show thesis by (rule that [OF m1(1) _ r1(1,2) m2 i2(1,2) m3 r3]) (use m1(2) in simp)
qed

text \<open>C22: an undisturbed handshake completes in three datagrams and leaves two sessions that can talk. With a Noise library
  that runs the XX pattern within its message limit, and a version that fits into a message, the client's first
  datagram passes the server's size floor, the server answers it and is not finished, the client's answer finishes both
  sides, the client has the server's version and the server no payload, the two handshakes turn into sessions under the
  same id that know each other's static key, and every payload of frames that fits into a message and is sealed by
  one side is opened by the other.\<close>

theorem handshake_completes:
  assumes "sn_build sn Initiator cpriv = Inr i0" "sn_build sn Responder spriv = Inr r0"
    and "xx_first sn kc ks i0 r0" "length sid = 8" "list_ex (\<lambda>b. b \<noteq> 0) version" "fits_message version"
  shows "\<exists>c0 p1 s0 s1 p2 c1 p3 s2 nc ns. handshaker_client sn cpriv sid = Inr (c0, p1) \<and>
    MIN_HANDSHAKE_INIT \<le> length p1 \<and> handshaker_server sn spriv sid version = Inr s0 \<and>
    handshaker_read sn (hs_body p1) s0 = (Inr \<lparr>ho_reply = Some p2, ho_finished = False\<rparr>, s1) \<and>
    handshaker_read sn (hs_body p2) c0 = (Inr \<lparr>ho_reply = Some p3, ho_finished = True\<rparr>, c1) \<and>
    handshaker_read sn (hs_body p3) s1 = (Inr \<lparr>ho_reply = None, ho_finished = True\<rparr>, s2) \<and>
    hk_peer c1 = Some version \<and> hk_peer s2 = None \<and> hk_remote_static sn c1 = Some ks \<and> hk_remote_static sn s2 = Some kc \<and>
    into_session sn (Some sa) c1 = Inr (session_new sid (Some sa), nc) \<and> ns_remote nc = ks \<and>
    into_session sn (Some ca) s2 = Inr (session_new sid (Some ca), ns) \<and> ns_remote ns = kc \<and>
    can_talk sn sid nc ca ns sa \<and> can_talk sn sid ns sa nc ca"
proof -
  let ?pad = "replicate MIN_HANDSHAKE_INIT (0 :: u8)"
  obtain m1 i1 r1 m2 r2 i2 m3 i3 r3 ti tr where
    m1: "sn_write sn ?pad (MIN_HANDSHAKE_INIT + 256) i0 = (Inr m1, i1)" "MIN_HANDSHAKE_INIT \<le> length m1" and
    r1: "sn_read sn m1 (length m1 + 256) r0 = (Inr ?pad, r1)" "\<not> sn_finished sn r1" and
    m2: "sn_write sn version (length version + 256) r1 = (Inr m2, r2)" "\<not> sn_finished sn r2" and
    i2: "sn_read sn m2 (length m2 + 256) i1 = (Inr version, i2)" "\<not> sn_finished sn i2" and
    m3: "sn_write sn [] (0 + 256) i2 = (Inr m3, i3)" "sn_finished sn i3" "sn_remote sn i3 = Some ks" and
    r3: "sn_read sn m3 (length m3 + 256) r2 = (Inr [], r3)" "sn_finished sn r3" "sn_remote sn r3 = Some kc" and
    t: "sn_transport sn i3 = Inr ti" "sn_transport sn r3 = Inr tr" "decrypts sn ti tr" "decrypts sn tr ti"
    by (rule handshake_messages [OF assms(3,6)])
  let ?c0 = "\<lparr>hk_hs = Some i1, hk_sid = sid, hk_finished = False, hk_send = [], hk_peer = None\<rparr>"
  let ?s0 = "\<lparr>hk_hs = Some r0, hk_sid = sid, hk_finished = False, hk_send = version, hk_peer = None\<rparr>"
  let ?s1 = "?s0\<lparr>hk_hs := Some r2, hk_send := []\<rparr>"
  let ?c1 = "?c0\<lparr>hk_peer := Some version, hk_hs := Some i3, hk_finished := True\<rparr>"
  let ?s2 = "?s1\<lparr>hk_hs := Some r3, hk_finished := True\<rparr>"
  let ?nc = "\<lparr>ns_transport = ti, ns_remote = ks\<rparr>" and ?ns = "\<lparr>ns_transport = tr, ns_remote = kc\<rparr>"
  have client: "handshaker_client sn cpriv sid = Inr (?c0, build_handshake_packet sid m1)"
    using assms(1) m1(1) by (simp add: handshaker_client_def handshake_new_def write_message_def rbind_def map_err_def)
  have server: "handshaker_server sn spriv sid version = Inr ?s0"
    using assms(2) by (simp add: handshaker_server_def handshake_new_def rbind_def map_err_def)
  have first: "handshaker_read sn m1 ?s0 =
      (Inr \<lparr>ho_reply = Some (build_handshake_packet sid m2), ho_finished = False\<rparr>, ?s1)"
    using read_then_answer [of ?s0, OF _ r1] m2 by (simp add: note_payload_def list_ex_iff)
  have second: "handshaker_read sn m2 ?c0 = (Inr \<lparr>ho_reply = Some (build_handshake_packet sid m3), ho_finished = True\<rparr>, ?c1)"
    using read_then_answer [of ?c0, OF _ i2] m3(1,2) assms(5) by (simp add: note_payload_def)
  have third: "handshaker_read sn m3 ?s1 = (Inr \<lparr>ho_reply = None, ho_finished = True\<rparr>, ?s2)"
    using read_then_finish [of ?s1, OF _ r3(1,2)] by (simp add: note_payload_def)
  have pad: "MIN_HANDSHAKE_INIT \<le> length (build_handshake_packet sid m1)"
    using m1(2) by (simp add: build_handshake_packet_def)
  have sessions: "into_session sn (Some sa) ?c1 = Inr (session_new sid (Some sa), ?nc)" "into_session sn (Some ca) ?s2 = Inr (session_new sid (Some ca), ?ns)"
    using m3 r3 t(1,2) by (simp_all add: into_session_def into_transport_def rbind_def map_err_def)
  have talk: "can_talk sn sid ?nc ca ?ns sa" "can_talk sn sid ?ns sa ?nc ca"
    using t(3,4) assms(4) by (simp_all add: decrypts_can_talk)
  have keys: "hk_remote_static sn ?c1 = Some ks" "hk_remote_static sn ?s2 = Some kc" using m3(3) r3(3) by (simp_all add: hk_remote_static_def)
  have peers: "hk_peer ?c1 = Some version" "hk_peer ?s2 = None" "ns_remote ?nc = ks" "ns_remote ?ns = kc" by simp_all
  have bodies: "hs_body (build_handshake_packet sid m1) = m1" "hs_body (build_handshake_packet sid m2) = m2"
    "hs_body (build_handshake_packet sid m3) = m3"
    using assms(4) by simp_all
  show ?thesis
    by (rule exI [of _ ?c0], rule exI [of _ "build_handshake_packet sid m1"], rule exI [of _ ?s0], rule exI [of _ ?s1],
      rule exI [of _ "build_handshake_packet sid m2"], rule exI [of _ ?c1], rule exI [of _ "build_handshake_packet sid m3"],
      rule exI [of _ ?s2], rule exI [of _ ?nc], rule exI [of _ ?ns], simp only: bodies client pad server first second third peers keys sessions talk simp_thms)
qed

text \<open>An instance of the library that sends keys and payloads in the clear: a state counts the
  messages seen and knows both keys.\<close>

definition toy_snow :: "(nat \<times> bytes \<times> bytes option, unit) snow" where
  "toy_snow = \<lparr>
     sn_build = (\<lambda>r priv. Inr (0, priv, None)),
     sn_write = (\<lambda>p b (n, k, rk). (Inr (k @ p), (n + 1, k, rk))),
     sn_read = (\<lambda>m b (n, k, rk). (Inr (drop 32 m), (n + 1, k, Some (take 32 m)))),
     sn_finished = (\<lambda>(n, k, rk). n \<ge> 3),
     sn_remote = (\<lambda>(n, k, rk). rk),
     sn_transport = (\<lambda>s. Inr ()),
     sn_encrypt = (\<lambda>t n p b. Inr p),
     sn_decrypt = (\<lambda>t n c b. Inr c)\<rparr>"

lemma toy_xx: "length kc = 32 \<Longrightarrow> length ks = 32 \<Longrightarrow> xx_first toy_snow kc ks (0, kc, None) (0, ks, None)"
  by (simp add: xx_first_def xx_second_def xx_third_def decrypts_def toy_snow_def)

theorem handshake_completes_witness:
  "\<exists>c0 p1 s0 s1 p2 c1 p3 s2 nc ns. handshaker_client toy_snow (replicate 32 1) (replicate 8 5) = Inr (c0, p1) \<and>
    MIN_HANDSHAKE_INIT \<le> length p1 \<and> handshaker_server toy_snow (replicate 32 2) (replicate 8 5) [49] = Inr s0 \<and>
    handshaker_read toy_snow (hs_body p1) s0 = (Inr \<lparr>ho_reply = Some p2, ho_finished = False\<rparr>, s1) \<and>
    handshaker_read toy_snow (hs_body p2) c0 = (Inr \<lparr>ho_reply = Some p3, ho_finished = True\<rparr>, c1) \<and>
    handshaker_read toy_snow (hs_body p3) s1 = (Inr \<lparr>ho_reply = None, ho_finished = True\<rparr>, s2) \<and>
    hk_peer c1 = Some [49] \<and> hk_peer s2 = None \<and>
    hk_remote_static toy_snow c1 = Some (replicate 32 2) \<and> hk_remote_static toy_snow s2 = Some (replicate 32 1) \<and>
    into_session toy_snow (Some (7 :: nat)) c1 = Inr (session_new (replicate 8 5) (Some 7), nc) \<and> ns_remote nc = replicate 32 2 \<and>
    into_session toy_snow (Some (9 :: nat)) s2 = Inr (session_new (replicate 8 5) (Some 9), ns) \<and> ns_remote ns = replicate 32 1 \<and>
    can_talk toy_snow (replicate 8 5) nc (9 :: nat) ns 7 \<and> can_talk toy_snow (replicate 8 5) ns (7 :: nat) nc 9"
proof (rule handshake_completes)
  show "xx_first toy_snow (replicate 32 1) (replicate 32 2) (0, replicate 32 1, None) (0, replicate 32 2, None)"
    by (rule toy_xx) simp_all
qed (simp_all add: toy_snow_def fits_message_def)

end
