(* ===== verification/RustText.thy ===== *)
theory RustText
  imports RustStr
begin

text \<open>
  Text processing on the characters of a Rust \<^verbatim>\<open>str\<close>. A text is the list of its Unicode scalar
  values; \<open>is_ws\<close> is \<^verbatim>\<open>char::is_whitespace\<close> (the White_Space property). Here are \<^verbatim>\<open>trim\<close>,
  \<^verbatim>\<open>split_whitespace\<close>, \<^verbatim>\<open>split_once\<close>, \<^verbatim>\<open>lines\<close>, ASCII case folding and \<^verbatim>\<open>parse::<u16>\<close>.
\<close>

type_synonym ustr = "nat list"

definition uni :: "string \<Rightarrow> ustr" where
  "uni s = map (\<lambda>c. of_char c) s"

definition is_ws :: "nat \<Rightarrow> bool" where
  "is_ws c \<longleftrightarrow> (9 \<le> c \<and> c \<le> 13) \<or> c = 32 \<or> c = 0x85 \<or> c = 0xA0 \<or> c = 0x1680 \<or> (0x2000 \<le> c \<and> c \<le> 0x200A) \<or>
     c = 0x2028 \<or> c = 0x2029 \<or> c = 0x202F \<or> c = 0x205F \<or> c = 0x3000"

definition trim_start :: "ustr \<Rightarrow> ustr" where
  "trim_start s = dropWhile is_ws s"

definition trim :: "ustr \<Rightarrow> ustr" where
  "trim s = rev (dropWhile is_ws (rev (trim_start s)))"

function split_whitespace :: "ustr \<Rightarrow> ustr list" where
  "split_whitespace s =
     (let s' = dropWhile is_ws s
      in if s' = [] then []
         else takeWhile (\<lambda>c. \<not> is_ws c) s' # split_whitespace (dropWhile (\<lambda>c. \<not> is_ws c) s'))"
  by pat_completeness auto
termination
proof (relation "measure length")
  fix s x :: ustr
  assume x: "x = dropWhile is_ws s" "x \<noteq> []"
  then have "\<not> is_ws (hd x)" using hd_dropWhile [of is_ws s] by metis
  then have "length (dropWhile (\<lambda>c. \<not> is_ws c) x) < length x"
    using x(2) length_dropWhile_le [of _ "tl x"] by (cases x) (auto simp: le_imp_less_Suc)
  also have "\<dots> \<le> length s" unfolding x(1) by (rule length_dropWhile_le)
  finally show "(dropWhile (\<lambda>c. \<not> is_ws c) x, s) \<in> measure length" by simp
qed simp

declare split_whitespace.simps [simp del]

fun split_once_at :: "(nat \<Rightarrow> bool) \<Rightarrow> ustr \<Rightarrow> (ustr \<times> ustr) option" where
  "split_once_at P [] = None"
| "split_once_at P (c # s) =
     (if P c then Some ([], s)
      else case split_once_at P s of None \<Rightarrow> None | Some (l, r) \<Rightarrow> Some (c # l, r))"

text \<open>\<^verbatim>\<open>lines\<close> splits after every newline and drops the newline and a carriage return before it.\<close>

definition strip_cr :: "ustr \<Rightarrow> ustr" where
  "strip_cr l = (if l \<noteq> [] \<and> last l = 13 then butlast l else l)"

function str_lines :: "ustr \<Rightarrow> ustr list" where
  "str_lines s =
     (if s = [] then []
      else case split_once_at (\<lambda>c. c = 10) s of
        None \<Rightarrow> [s]
      | Some (l, r) \<Rightarrow> strip_cr l # str_lines r)"
  by pat_completeness auto

lemma split_once_at_Some: "split_once_at P s = Some (l, r) \<Longrightarrow> \<exists>c. s = l @ c # r \<and> P c \<and> (\<forall>x \<in> set l. \<not> P x)"
  by (induction s arbitrary: l r) (auto split: if_splits option.splits)

lemma split_once_at_append: "\<forall>x \<in> set l. \<not> P x \<Longrightarrow> P c \<Longrightarrow> split_once_at P (l @ c # r) = Some (l, r)"
  by (induction l) auto

lemma split_once_at_None: "split_once_at P s = None \<longleftrightarrow> (\<forall>x \<in> set s. \<not> P x)"
  by (induction s) (auto split: option.splits)

termination str_lines
  by (relation "measure length") (auto dest!: split_once_at_Some)

declare str_lines.simps [simp del]

definition starts_with :: "ustr \<Rightarrow> ustr \<Rightarrow> bool" where
  "starts_with pre s \<longleftrightarrow> take (length pre) s = pre"

definition ascii_lower :: "nat \<Rightarrow> nat" where
  "ascii_lower c = (if 65 \<le> c \<and> c \<le> 90 then c + 32 else c)"

definition to_ascii_lowercase :: "ustr \<Rightarrow> ustr" where
  "to_ascii_lowercase s = map ascii_lower s"

definition eq_ignore_ascii_case :: "ustr \<Rightarrow> ustr \<Rightarrow> bool" where
  "eq_ignore_ascii_case a b \<longleftrightarrow> to_ascii_lowercase a = to_ascii_lowercase b"

definition parse_u16 :: "ustr \<Rightarrow> nat option" where
  "parse_u16 s = (if \<forall>c \<in> set s. c < 128 then parse_uint 65536 (map of_nat s) else None)"


section \<open>Laws\<close>

lemma trim_no_ws:
  assumes "s \<noteq> []" "\<not> is_ws (hd s)" "\<not> is_ws (last s)"
  shows "trim s = s"
proof -
  have "dropWhile is_ws s = s" using assms by (cases s) auto
  moreover have "dropWhile is_ws (rev s) = rev s"
    using assms by (cases "rev s") (auto simp: last_rev hd_rev [symmetric])
  ultimately show ?thesis by (simp add: trim_def trim_start_def)
qed

lemma dropWhile_no_ws: "\<forall>c \<in> set s. \<not> is_ws c \<Longrightarrow> dropWhile is_ws (s @ t) = (if s = [] then dropWhile is_ws t else s @ t)"
  by (cases s) auto

lemma split_whitespace_word:
  assumes "w \<noteq> []" "\<forall>c \<in> set w. \<not> is_ws c" "is_ws x"
  shows "split_whitespace (w @ x # s) = w # split_whitespace (x # s)"
proof -
  have "dropWhile is_ws (w @ x # s) = w @ x # s" using assms by (simp add: dropWhile_no_ws)
  moreover have "takeWhile (\<lambda>c. \<not> is_ws c) (w @ x # s) = w" "dropWhile (\<lambda>c. \<not> is_ws c) (w @ x # s) = x # s"
    using assms by (simp_all add: takeWhile_append2 dropWhile_append2)
  ultimately show ?thesis using assms(1) by (subst split_whitespace.simps) simp
qed

lemma split_whitespace_last:
  assumes "w \<noteq> []" "\<forall>c \<in> set w. \<not> is_ws c"
  shows "split_whitespace w = [w]"
proof -
  have "dropWhile is_ws w = w" using assms dropWhile_no_ws [of w "[]"] by simp
  moreover have "takeWhile (\<lambda>c. \<not> is_ws c) w = w" using assms by (simp add: takeWhile_eq_all_conv)
  moreover have "dropWhile (\<lambda>c. \<not> is_ws c) w = []" using assms by (simp add: dropWhile_eq_Nil_conv)
  moreover have "split_whitespace [] = []" by (subst split_whitespace.simps) simp
  ultimately show ?thesis using assms(1) by (subst split_whitespace.simps) (simp only: Let_def if_False)
qed

lemma split_whitespace_skip: "is_ws x \<Longrightarrow> split_whitespace (x # s) = split_whitespace s"
  by (subst split_whitespace.simps, subst (2) split_whitespace.simps) simp

lemma str_lines_Nil [simp]: "str_lines [] = []"
  by (simp add: str_lines.simps)

lemma str_lines_line: "10 \<notin> set l \<Longrightarrow> str_lines (l @ 10 # s) = strip_cr l # str_lines s"
  by (subst str_lines.simps, subst split_once_at_append) auto

lemma strip_cr_same: "l \<noteq> [] \<Longrightarrow> last l \<noteq> 13 \<Longrightarrow> strip_cr l = l"
  by (simp add: strip_cr_def)

text \<open>What \<^verbatim>\<open>trim\<close> leaves and what the words of a text are, without reference to how they are computed.\<close>

definition blank_text :: "ustr \<Rightarrow> bool" where
  "blank_text s \<longleftrightarrow> (\<forall>c \<in> set s. is_ws c)"

lemma trim_parts:
  "\<exists>pre post. s = pre @ trim s @ post \<and> blank_text pre \<and> blank_text post \<and> (trim s \<noteq> [] \<longrightarrow> \<not> is_ws (hd (trim s)))"
proof -
  define u where "u = dropWhile is_ws s"
  have "rev u = takeWhile is_ws (rev u) @ dropWhile is_ws (rev u)" by simp
  then have u: "u = trim s @ rev (takeWhile is_ws (rev u))"
    unfolding trim_def trim_start_def u_def [symmetric] by (metis rev_append rev_rev_ident)
  have "s = takeWhile is_ws s @ trim s @ rev (takeWhile is_ws (rev u))"
    using u takeWhile_dropWhile_id [of is_ws s] unfolding u_def [symmetric] by simp
  moreover have "\<not> is_ws (hd (trim s))" if "trim s \<noteq> []"
  proof -
    have "u \<noteq> []" "hd u = hd (trim s)" using that u by (metis Nil_is_append_conv, metis hd_append2)
    then show ?thesis using hd_dropWhile [of is_ws s] unfolding u_def by metis
  qed
  ultimately show ?thesis unfolding blank_text_def by (metis set_rev set_takeWhileD)
qed

lemma split_whitespace_blank: "blank_text pre \<Longrightarrow> split_whitespace (pre @ s) = split_whitespace s"
  by (induction pre) (simp_all add: blank_text_def split_whitespace_skip)

lemma split_whitespace_empty: "split_whitespace s = [] \<longleftrightarrow> blank_text s"
  unfolding blank_text_def by (subst split_whitespace.simps) (auto simp: Let_def dropWhile_eq_Nil_conv)

lemma split_whitespace_parts:
  "split_whitespace s = w # ws \<longleftrightarrow>
     (\<exists>pre rest. s = pre @ w @ rest \<and> blank_text pre \<and> w \<noteq> [] \<and> (\<forall>c \<in> set w. \<not> is_ws c) \<and> (rest = [] \<or> is_ws (hd rest)) \<and>
        split_whitespace rest = ws)" (is "?l \<longleftrightarrow> ?r")
proof
  assume ?l
  let ?s = "dropWhile is_ws s"
  have w: "?s \<noteq> []" "w = takeWhile (\<lambda>c. \<not> is_ws c) ?s" "ws = split_whitespace (dropWhile (\<lambda>c. \<not> is_ws c) ?s)"
    using \<open>?l\<close> by (subst (asm) split_whitespace.simps, simp add: Let_def split: if_splits)+
  let ?rest = "dropWhile (\<lambda>c. \<not> is_ws c) ?s"
  have "\<not> is_ws (hd ?s)" using w(1) hd_dropWhile [of is_ws s] by metis
  then have "w \<noteq> []" using w(1,2) by (cases ?s) auto
  moreover have "?rest = [] \<or> is_ws (hd ?rest)" using hd_dropWhile [of "\<lambda>c. \<not> is_ws c" ?s] by blast
  moreover have "s = takeWhile is_ws s @ w @ ?rest" using w(2) by simp
  moreover have "\<forall>c \<in> set w. \<not> is_ws c" using w(2) by (metis set_takeWhileD)
  moreover have "blank_text (takeWhile is_ws s)" unfolding blank_text_def by (metis set_takeWhileD)
  ultimately show ?r using w(3) by blast
next
  assume ?r
  then obtain pre rest where s: "s = pre @ w @ rest" "blank_text pre" "w \<noteq> []" "\<forall>c \<in> set w. \<not> is_ws c"
    "rest = [] \<or> is_ws (hd rest)" "split_whitespace rest = ws" by blast
  show ?l
  proof (cases rest)
    case Nil
    then have "ws = []" using s(6) by (simp add: split_whitespace.simps)
    then show ?thesis using s Nil by (simp add: split_whitespace_blank split_whitespace_last)
  next
    case (Cons x r)
    then show ?thesis using s by (simp add: split_whitespace_blank split_whitespace_word)
  qed
qed

lemma split_whitespace_blank_end: "blank_text post \<Longrightarrow> split_whitespace (s @ post) = split_whitespace s"
proof (induction s rule: split_whitespace.induct)
  case (1 s)
  show ?case
  proof (cases "split_whitespace s")
    case Nil
    then have "blank_text s" by (simp add: split_whitespace_empty)
    then have "split_whitespace (s @ post) = split_whitespace post" by (rule split_whitespace_blank)
    then show ?thesis using 1(2) Nil split_whitespace_empty [of post] by simp
  next
    case (Cons w ws)
    let ?s = "dropWhile is_ws s"
    let ?rest = "dropWhile (\<lambda>c. \<not> is_ws c) ?s"
    have s: "?s \<noteq> []" "w = takeWhile (\<lambda>c. \<not> is_ws c) ?s" "ws = split_whitespace ?rest"
      using Cons by (subst (asm) split_whitespace.simps, simp add: Let_def split: if_splits)+
    have IH: "split_whitespace (?rest @ post) = ws" using 1(1) [OF refl s(1)] 1(2) s(3) by simp
    have "?rest = [] \<or> is_ws (hd ?rest)" using hd_dropWhile [of "\<lambda>c. \<not> is_ws c" ?s] by blast
    then have "?rest @ post = [] \<or> is_ws (hd (?rest @ post))" using 1(2) unfolding blank_text_def by (metis append_Nil hd_append2 list.set_sel(1))
    moreover have "s @ post = takeWhile is_ws s @ w @ ?rest @ post" using s(2) by (metis append.assoc takeWhile_dropWhile_id)
    moreover have "\<not> is_ws (hd ?s)" using s(1) hd_dropWhile [of is_ws s] by metis
    then have "w \<noteq> []" using s(1,2) by (cases ?s) auto
    moreover have "\<forall>c \<in> set w. \<not> is_ws c" using s(2) by (metis set_takeWhileD)
    moreover have "blank_text (takeWhile is_ws s)" unfolding blank_text_def by (metis set_takeWhileD)
    ultimately have "split_whitespace (s @ post) = w # ws" using IH unfolding split_whitespace_parts by blast
    then show ?thesis using Cons by simp
  qed
qed

lemma split_whitespace_trim: "split_whitespace (trim s) = split_whitespace s"
  using trim_parts [of s] by (metis split_whitespace_blank split_whitespace_blank_end)

end
