(* ===== verification/Auth.thy ===== *)
theory Auth
  imports RustText "HOL-Library.List_Lexorder"
begin

text \<open>
  Keys and trust, \<^verbatim>\<open>crates/auth/src/lib.rs\<close> and the decisions of \<^verbatim>\<open>crates/proto/src/lib.rs\<close>:
  the authorized client keys of a server and the pinned server keys of a client (trust on first
  use). Base64 is a library: its encoder \<open>b64e\<close> and decoder \<open>b64d\<close> are parameters.
\<close>

section \<open>Public keys\<close>

definition KEY_TYPE :: ustr where
  "KEY_TYPE = uni ''noissh-x25519''"

definition KEY_LEN :: nat where
  "KEY_LEN = 32"

datatype auth_error = MalformedLine | BadKeyType ustr | BadBase64 | BadKeyLen nat

type_synonym public_key = bytes

definition key_from_bytes :: "bytes \<Rightarrow> auth_error + public_key" where
  "key_from_bytes bs = (if length bs \<noteq> KEY_LEN then Inl (BadKeyLen (length bs)) else Inr bs)"

definition from_base64 :: "(ustr \<Rightarrow> bytes option) \<Rightarrow> ustr \<Rightarrow> auth_error + public_key" where
  "from_base64 b64d s = (case b64d (trim s) of None \<Rightarrow> Inl BadBase64 | Some raw \<Rightarrow> key_from_bytes raw)"

definition key_to_text :: "(bytes \<Rightarrow> ustr) \<Rightarrow> public_key \<Rightarrow> ustr" where
  "key_to_text b64e k = KEY_TYPE @ 32 # b64e k"

definition key_from_text :: "(ustr \<Rightarrow> bytes option) \<Rightarrow> ustr \<Rightarrow> auth_error + public_key" where
  "key_from_text b64d line =
     (case split_whitespace line of
        [] \<Rightarrow> Inl MalformedLine
      | ty # it \<Rightarrow>
          if ty \<noteq> KEY_TYPE then Inl (BadKeyType ty)
          else (case it of [] \<Rightarrow> Inl MalformedLine | b64 # _ \<Rightarrow> from_base64 b64d b64))"


section \<open>Authorized keys\<close>

record authorized_keys =
  ak_keys :: "(public_key \<times> ustr) list"

definition skip_line :: "ustr \<Rightarrow> bool" where
  "skip_line line \<longleftrightarrow> line = [] \<or> starts_with (uni ''#'') line"

definition key_comment_of :: "ustr \<Rightarrow> ustr" where
  "key_comment_of line = (let ws = split_whitespace line in if 2 < length ws then ws ! 2 else [])"

definition ak_line :: "(ustr \<Rightarrow> bytes option) \<Rightarrow> ustr \<Rightarrow> (public_key \<times> ustr) list" where
  "ak_line b64d raw =
     (let line = trim raw in
      if skip_line line then []
      else case key_from_text b64d line of Inr key \<Rightarrow> [(key, key_comment_of line)] | Inl _ \<Rightarrow> [])"

definition ak_parse :: "(ustr \<Rightarrow> bytes option) \<Rightarrow> ustr \<Rightarrow> authorized_keys" where
  "ak_parse b64d contents = \<lparr>ak_keys = concat (map (ak_line b64d) (str_lines contents))\<rparr>"

fun ak_strict_loop :: "(ustr \<Rightarrow> bytes option) \<Rightarrow> ustr list \<Rightarrow> (public_key \<times> ustr) list \<Rightarrow>
    auth_error + (public_key \<times> ustr) list" where
  "ak_strict_loop b64d [] keys = Inr keys"
| "ak_strict_loop b64d (raw # ls) keys =
     (let line = trim raw in
      if skip_line line then ak_strict_loop b64d ls keys
      else case key_from_text b64d line of
        Inl e \<Rightarrow> Inl e
      | Inr key \<Rightarrow> ak_strict_loop b64d ls (keys @ [(key, key_comment_of line)]))"

definition ak_parse_strict :: "(ustr \<Rightarrow> bytes option) \<Rightarrow> ustr \<Rightarrow> auth_error + authorized_keys" where
  "ak_parse_strict b64d contents =
     (case ak_strict_loop b64d (str_lines contents) [] of Inl e \<Rightarrow> Inl e | Inr keys \<Rightarrow> Inr \<lparr>ak_keys = keys\<rparr>)"

definition ak_add :: "public_key \<Rightarrow> ustr \<Rightarrow> authorized_keys \<Rightarrow> authorized_keys" where
  "ak_add key comment a = a\<lparr>ak_keys := ak_keys a @ [(key, comment)]\<rparr>"

definition ak_contains :: "public_key \<Rightarrow> authorized_keys \<Rightarrow> bool" where
  "ak_contains key a = list_ex (\<lambda>(k, _). k = key) (ak_keys a)"

definition authorize_client :: "authorized_keys \<Rightarrow> bytes \<Rightarrow> bool" where
  "authorize_client a client_static =
     (case key_from_bytes client_static of Inr key \<Rightarrow> ak_contains key a | Inl _ \<Rightarrow> False)"


section \<open>Known hosts\<close>

datatype tofu = TofuNew | TofuMatch | TofuMismatch

record known_hosts =
  kh_hosts :: "(ustr, public_key) btree"

definition kh_new :: known_hosts where
  "kh_new = \<lparr>kh_hosts = bt_empty\<rparr>"

definition kh_line :: "(ustr \<Rightarrow> bytes option) \<Rightarrow> ustr \<Rightarrow> (ustr, public_key) btree \<Rightarrow> (ustr, public_key) btree" where
  "kh_line b64d raw hosts =
     (let line = trim raw in
      if skip_line line then hosts
      else case split_once_at is_ws line of
        None \<Rightarrow> hosts
      | Some (host, rest) \<Rightarrow>
          (case key_from_text b64d (trim rest) of
             Inr key \<Rightarrow> bt_insert host key hosts
           | Inl _ \<Rightarrow> hosts))"

definition kh_parse :: "(ustr \<Rightarrow> bytes option) \<Rightarrow> ustr \<Rightarrow> known_hosts" where
  "kh_parse b64d contents = \<lparr>kh_hosts = fold (kh_line b64d) (str_lines contents) bt_empty\<rparr>"

definition kh_to_text :: "(bytes \<Rightarrow> ustr) \<Rightarrow> known_hosts \<Rightarrow> ustr" where
  "kh_to_text b64e kh = concat (map (\<lambda>(host, key). host @ 32 # key_to_text b64e key @ [10]) (kh_hosts kh))"

definition kh_get :: "ustr \<Rightarrow> known_hosts \<Rightarrow> public_key option" where
  "kh_get host kh = bt_get (kh_hosts kh) host"

definition kh_remove :: "ustr \<Rightarrow> known_hosts \<Rightarrow> public_key option \<times> known_hosts" where
  "kh_remove host kh = (bt_get (kh_hosts kh) host, kh\<lparr>kh_hosts := bt_remove host (kh_hosts kh)\<rparr>)"

definition kh_remove_matching :: "ustr \<Rightarrow> known_hosts \<Rightarrow> ustr list \<times> known_hosts" where
  "kh_remove_matching host kh =
     (let prefix = host @ uni '':'';
          to_remove = filter (\<lambda>label. label = host \<or> starts_with prefix label) (bt_keys (kh_hosts kh))
      in (to_remove, kh\<lparr>kh_hosts := fold bt_remove to_remove (kh_hosts kh)\<rparr>))"

definition check_or_add :: "ustr \<Rightarrow> public_key \<Rightarrow> known_hosts \<Rightarrow> tofu \<times> known_hosts" where
  "check_or_add host key kh =
     (case bt_get (kh_hosts kh) host of
        None \<Rightarrow> (TofuNew, kh\<lparr>kh_hosts := bt_insert host key (kh_hosts kh)\<rparr>)
      | Some pinned \<Rightarrow> if pinned = key then (TofuMatch, kh) else (TofuMismatch, kh))"

definition verify_server :: "ustr \<Rightarrow> bytes \<Rightarrow> known_hosts \<Rightarrow> tofu \<times> known_hosts" where
  "verify_server host server_static kh =
     (case key_from_bytes server_static of
        Inr key \<Rightarrow> check_or_add host key kh
      | Inl _ \<Rightarrow> (TofuMismatch, kh))"


section \<open>Trust on first use\<close>

text \<open>What a client of the pin store relies on: an unknown host is pinned to the key presented,
  a known one never changes.\<close>

locale pin_store =
  fixes pin :: "'s \<Rightarrow> 'h \<Rightarrow> 'k option"
    and present :: "'h \<Rightarrow> 'k \<Rightarrow> 's \<Rightarrow> tofu \<times> 's"
    and acceptable :: "'k \<Rightarrow> bool"
  assumes first: "pin s h = None \<Longrightarrow> acceptable k \<Longrightarrow>
      fst (present h k s) = TofuNew \<and> pin (snd (present h k s)) = (pin s)(h \<mapsto> k)"
    and known: "pin s h = Some k' \<Longrightarrow>
      fst (present h k s) = (if k = k' \<and> acceptable k then TofuMatch else TofuMismatch) \<and> pin (snd (present h k s)) = pin s"
    and refused: "\<not> acceptable k \<Longrightarrow> fst (present h k s) = TofuMismatch \<and> pin (snd (present h k s)) = pin s"
begin

definition run :: "('h \<times> 'k) list \<Rightarrow> 's \<Rightarrow> 's" where
  "run ps s = fold (\<lambda>(h, k) s. snd (present h k s)) ps s"

lemma present_keeps: "pin s h = Some k \<Longrightarrow> pin (snd (present h' k' s)) h = Some k"
  using first [of s h' k'] known [of s h' _ k'] refused [of k' h' s]
  by (cases "pin s h'"; cases "acceptable k'"; cases "h = h'") fastforce+

lemma run_keeps: "pin s h = Some k \<Longrightarrow> pin (run ps s) h = Some k"
  unfolding run_def by (induction ps arbitrary: s) (auto simp: present_keeps)

lemma pinned_verdict:
  "pin s h = Some k \<Longrightarrow> fst (present h k' (run ps s)) = (if k' = k \<and> acceptable k' then TofuMatch else TofuMismatch)"
  using known [OF run_keeps] by blast

end

lemma key_from_bytes_ok: "key_from_bytes k = Inr k' \<longleftrightarrow> k' = k \<and> length k = KEY_LEN"
  by (auto simp: key_from_bytes_def)

interpretation kh: pin_store "\<lambda>s h. kh_get h s" verify_server "\<lambda>k. length k = KEY_LEN"
  by unfold_locales
    (auto simp: verify_server_def key_from_bytes_def check_or_add_def kh_get_def fun_eq_iff split: option.splits)

text \<open>Trust on first use. The first authentic key a server presents is pinned, and whatever
  keys any servers present afterwards, the pin of that host never changes: the same key matches,
  every other key (or one of the wrong length) is a mismatch.\<close>

theorem tofu_pins_forever:
  assumes "kh_get host s = None" "length k = KEY_LEN"
    and "s' = fold (\<lambda>(h, k) s. snd (verify_server h k s)) ps (snd (verify_server host k s))"
  shows "fst (verify_server host k s) = TofuNew \<and> kh_get host s' = Some k \<and>
    fst (verify_server host k' s') = (if k' = k then TofuMatch else TofuMismatch) \<and>
    kh_get host (snd (verify_server host k' s')) = Some k"
proof -
  have s': "s' = kh.run ps (snd (verify_server host k s))" by (simp add: assms(3) kh.run_def)
  have p: "kh_get host (snd (verify_server host k s)) = Some k" "fst (verify_server host k s) = TofuNew"
    using kh.first [OF assms(1,2)] by (auto simp: fun_eq_iff)
  have q: "kh_get host s' = Some k" unfolding s' by (rule kh.run_keeps [OF p(1)])
  show ?thesis
    using p(2) q kh.pinned_verdict [OF p(1)] kh.present_keeps [OF q] assms(2) unfolding s' by auto
qed

theorem tofu_pins_forever_witness:
  "let k = replicate 32 1; s = kh_new; s' = fold (\<lambda>(h, k) s. snd (verify_server h k s))
       [([104], replicate 32 2), ([105], [3])] (snd (verify_server [104] k s)) in
    fst (verify_server [104] k s) = TofuNew \<and> kh_get [104] s' = Some k \<and>
    fst (verify_server [104] (replicate 32 2) s') = TofuMismatch \<and>
    kh_get [104] (snd (verify_server [104] (replicate 32 2) s')) = Some k"
  using tofu_pins_forever [of "[104]" kh_new "replicate 32 1" _ "[([104], replicate 32 2), ([105], [3])]" "replicate 32 2", OF _ _ refl]
  by (simp add: Let_def kh_get_def kh_new_def bt_empty_def KEY_LEN_def replicate_eq_replicate)


section \<open>Files\<close>

text \<open>What the code relies on of the standard base64 encoding.\<close>

definition base64_ok :: "(bytes \<Rightarrow> ustr) \<Rightarrow> (ustr \<Rightarrow> bytes option) \<Rightarrow> bool" where
  "base64_ok b64e b64d \<longleftrightarrow> (\<forall>k. length k = KEY_LEN \<longrightarrow>
     b64d (b64e k) = Some k \<and> b64e k \<noteq> [] \<and> (\<forall>c \<in> set (b64e k). \<not> is_ws c))"

definition label_ok :: "ustr \<Rightarrow> bool" where
  "label_ok h \<longleftrightarrow> h \<noteq> [] \<and> hd h \<noteq> 35 \<and> (\<forall>c \<in> set h. \<not> is_ws c)"

definition kh_ok :: "known_hosts \<Rightarrow> bool" where
  "kh_ok s \<longleftrightarrow> bt_ok (kh_hosts s) \<and> (\<forall>(h, k) \<in> set (kh_hosts s). label_ok h \<and> length k = KEY_LEN)"

lemma key_type_word: "KEY_TYPE \<noteq> []" "\<forall>c \<in> set KEY_TYPE. \<not> is_ws c"
  by (simp_all add: KEY_TYPE_def uni_def is_ws_def)

lemma word_trim: "w \<noteq> [] \<Longrightarrow> \<forall>c \<in> set w. \<not> is_ws c \<Longrightarrow> trim w = w"
  by (rule trim_no_ws) auto

lemma key_text_back:
  assumes "base64_ok b64e b64d" "length k = KEY_LEN"
  shows "key_from_text b64d (key_to_text b64e k) = Inr k" "trim (key_to_text b64e k) = key_to_text b64e k"
    "\<not> is_ws (last (key_to_text b64e k))" "10 \<notin> set (key_to_text b64e k)"
proof -
  have e: "b64d (b64e k) = Some k" "b64e k \<noteq> []" "\<forall>c \<in> set (b64e k). \<not> is_ws c"
    using assms by (auto simp: base64_ok_def)
  have "split_whitespace (key_to_text b64e k) = [KEY_TYPE, b64e k]"
    unfolding key_to_text_def using key_type_word e
    by (simp add: split_whitespace_word split_whitespace_skip split_whitespace_last is_ws_def)
  then show "key_from_text b64d (key_to_text b64e k) = Inr k"
    using e assms(2) by (simp add: key_from_text_def from_base64_def word_trim key_from_bytes_def)
  show "\<not> is_ws (last (key_to_text b64e k))" using e by (simp add: key_to_text_def)
  then show "trim (key_to_text b64e k) = key_to_text b64e k"
    using key_type_word by (intro trim_no_ws) (auto simp: key_to_text_def)
  have "\<not> is_ws c \<Longrightarrow> c \<noteq> 10" for c by (auto simp: is_ws_def)
  then show "10 \<notin> set (key_to_text b64e k)" using e key_type_word by (auto simp: key_to_text_def)
qed

lemma kh_line_back:
  assumes "base64_ok b64e b64d" "length k = KEY_LEN" "label_ok h"
  shows "kh_line b64d (strip_cr (h @ 32 # key_to_text b64e k)) hosts = bt_insert h k hosts"
proof -
  let ?l = "h @ 32 # key_to_text b64e k"
  note t = key_text_back [OF assms(1,2)]
  have h: "h \<noteq> []" "hd h \<noteq> 35" "\<forall>c \<in> set h. \<not> is_ws c" "is_ws 32" using assms(3) by (auto simp: label_ok_def is_ws_def)
  have ne: "key_to_text b64e k \<noteq> []" by (simp add: key_to_text_def)
  then have "\<not> is_ws (last ?l)" using t(3) by (simp only: last_append last_ConsR list.distinct if_False simp_thms)
  moreover have "is_ws 13" by (simp add: is_ws_def)
  ultimately have "last ?l \<noteq> 13" by metis
  then have "strip_cr ?l = ?l" by (intro strip_cr_same) simp_all
  moreover have "trim ?l = ?l" by (rule trim_no_ws) (use h \<open>\<not> is_ws (last ?l)\<close> in simp_all)
  moreover have "split_once_at is_ws ?l = Some (h, key_to_text b64e k)"
    using h by (intro split_once_at_append)
  moreover have "\<not> skip_line ?l" using h by (cases h) (auto simp: skip_line_def starts_with_def uni_def)
  ultimately show ?thesis using t(1,2) by (simp add: kh_line_def)
qed

lemma bt_insert_last: "\<forall>p \<in> set m. fst p < k \<Longrightarrow> bt_insert k v m = m @ [(k, v)]"
  by (induction m) (auto dest: order_less_not_sym)

lemma bt_rebuild: "bt_ok (xs @ ys) \<Longrightarrow> fold (\<lambda>(k, v). bt_insert k v) ys xs = xs @ ys"
proof (induction ys arbitrary: xs)
  case (Cons p ys)
  obtain k v where p: "p = (k, v)" by (cases p)
  have "\<forall>q \<in> set xs. fst q < k" using Cons.prems unfolding p bt_ok_def by (simp add: sorted_wrt_append)
  then show ?case using Cons.IH [of "xs @ [p]"] Cons.prems by (simp add: p bt_insert_last)
qed simp

lemma kh_text_lines:
  assumes "base64_ok b64e b64d" "\<forall>(h, k) \<in> set m. label_ok h \<and> length k = KEY_LEN"
  shows "fold (kh_line b64d) (str_lines (concat (map (\<lambda>(h, k). h @ 32 # key_to_text b64e k @ [10]) m))) hosts =
    fold (\<lambda>(h, k). bt_insert h k) m hosts"
  using assms(2)
proof (induction m arbitrary: hosts)
  case (Cons p m)
  obtain h k where p: "p = (h, k)" by (cases p)
  have hk: "label_ok h" "length k = KEY_LEN" using Cons.prems p by auto
  have ws10: "is_ws 10" by (simp add: is_ws_def)
  have "10 \<notin> set (h @ 32 # key_to_text b64e k)"
    using key_text_back(4) [OF assms(1) hk(2)] hk(1) ws10 unfolding label_ok_def by auto
  from str_lines_line [OF this] have "str_lines (h @ 32 # key_to_text b64e k @ 10 # r) =
      strip_cr (h @ 32 # key_to_text b64e k) # str_lines r" for r by simp
  then show ?case
    using Cons.IH Cons.prems kh_line_back [OF assms(1) hk(2,1)] by (simp add: p)
qed simp

text \<open>The pins survive a save and a load. Parsing the text written for any set of pins whose
  labels are words (not starting with a hash sign) gives back exactly those pins, so a restart
  cannot silently turn a known host into a new one.\<close>

theorem known_hosts_roundtrip:
  assumes "base64_ok b64e b64d" "kh_ok s"
  shows "kh_parse b64d (kh_to_text b64e s) = s"
proof -
  have m: "\<forall>(h, k) \<in> set (kh_hosts s). label_ok h \<and> length k = KEY_LEN" "bt_ok (kh_hosts s)"
    using assms(2) by (auto simp: kh_ok_def)
  have "fold (kh_line b64d) (str_lines (kh_to_text b64e s)) [] = kh_hosts s"
    using kh_text_lines [OF assms(1) m(1)] bt_rebuild [of "[]" "kh_hosts s"] m(2)
    by (simp add: kh_to_text_def)
  then show ?thesis by (simp add: kh_parse_def bt_empty_def)
qed

text \<open>An instance of the base64 interface: one character per byte.\<close>

definition toy_b64e :: "bytes \<Rightarrow> ustr" where
  "toy_b64e bs = map (\<lambda>b. 256 + unat b) bs"

definition toy_b64d :: "ustr \<Rightarrow> bytes option" where
  "toy_b64d s = Some (map (\<lambda>c. of_nat (c - 256)) s)"

lemma toy_b64_ok: "base64_ok toy_b64e toy_b64d"
proof -
  have "\<not> is_ws (256 + unat b)" for b :: u8
    using unsigned_less [of b, where ?'a = nat] by (simp add: is_ws_def)
  then show ?thesis
    by (auto simp: base64_ok_def toy_b64e_def toy_b64d_def KEY_LEN_def comp_def)
qed

theorem known_hosts_roundtrip_witness:
  "kh_parse toy_b64d (kh_to_text toy_b64e \<lparr>kh_hosts = [([104, 58, 49], replicate 32 7), ([105], replicate 32 9)]\<rparr>) =
    \<lparr>kh_hosts = [([104, 58, 49], replicate 32 7), ([105], replicate 32 9)]\<rparr>"
  by (rule known_hosts_roundtrip [OF toy_b64_ok]) (simp add: kh_ok_def label_ok_def KEY_LEN_def is_ws_def)

text \<open>The form of a line, written out: a key line has the word \<^verbatim>\<open>noissh-x25519\<close> and the key in base64 as its first two
  words, whatever follows; a comment is blank or starts with a hash sign.\<close>

definition key_line :: "(ustr \<Rightarrow> bytes option) \<Rightarrow> bytes \<Rightarrow> ustr \<Rightarrow> bool" where
  "key_line b64d key line \<longleftrightarrow>
     (\<exists>pre sep b64 rest. line = pre @ uni ''noissh-x25519'' @ sep @ b64 @ rest \<and> blank_text pre \<and> blank_text sep \<and> sep \<noteq> [] \<and>
        b64 \<noteq> [] \<and> (\<forall>c \<in> set b64. \<not> is_ws c) \<and> (rest = [] \<or> is_ws (hd rest)) \<and> b64d b64 = Some key \<and> length key = 32)"

definition comment_line :: "ustr \<Rightarrow> bool" where
  "comment_line line \<longleftrightarrow> blank_text line \<or> (\<exists>pre rest. line = pre @ 35 # rest \<and> blank_text pre)"

lemma key_type_words:
  "(\<exists>ws. split_whitespace line = KEY_TYPE # b64 # ws) \<longleftrightarrow>
     (\<exists>pre sep rest. line = pre @ KEY_TYPE @ sep @ b64 @ rest \<and> blank_text pre \<and> blank_text sep \<and> sep \<noteq> [] \<and>
        b64 \<noteq> [] \<and> (\<forall>c \<in> set b64. \<not> is_ws c) \<and> (rest = [] \<or> is_ws (hd rest)))" (is "?l \<longleftrightarrow> ?r")
proof
  assume ?l
  then obtain ws pre r where line: "line = pre @ KEY_TYPE @ r" "blank_text pre" "r = [] \<or> is_ws (hd r)" "split_whitespace r = b64 # ws"
    by (auto simp: split_whitespace_parts [of line])
  then obtain sep rest where r: "r = sep @ b64 @ rest" "blank_text sep" "b64 \<noteq> []" "\<forall>c \<in> set b64. \<not> is_ws c" "rest = [] \<or> is_ws (hd rest)"
    by (auto simp: split_whitespace_parts [of r])
  then have "sep \<noteq> []" using line(3) by (cases b64) auto
  then show ?r using line(1,2) r by blast
next
  assume ?r
  then obtain pre sep rest where line: "line = pre @ KEY_TYPE @ sep @ b64 @ rest" "blank_text pre" and
    b: "blank_text sep" "sep \<noteq> []" "b64 \<noteq> []" "\<forall>c \<in> set b64. \<not> is_ws c" "rest = [] \<or> is_ws (hd rest)" by blast
  have "split_whitespace (sep @ b64 @ rest) = b64 # split_whitespace rest" using b unfolding split_whitespace_parts by blast
  moreover have "sep @ b64 @ rest = [] \<or> is_ws (hd (sep @ b64 @ rest))" using b(1,2) by (cases sep) (auto simp: blank_text_def)
  ultimately have "split_whitespace line = KEY_TYPE # b64 # split_whitespace rest"
    using line key_type_word unfolding split_whitespace_parts [of line] by blast
  then show ?l by blast
qed

lemma key_line_parsed: "key_from_text b64d (trim raw) = Inr key \<longleftrightarrow> key_line b64d key raw"
proof -
  have "key_from_text b64d (trim raw) = Inr key \<longleftrightarrow>
      (\<exists>b64 ws. split_whitespace raw = KEY_TYPE # b64 # ws \<and> b64d (trim b64) = Some key \<and> length key = 32)"
    unfolding key_from_text_def split_whitespace_trim
    by (auto simp: from_base64_def key_from_bytes_def KEY_LEN_def split: list.splits option.splits if_splits)
  also have "\<dots> \<longleftrightarrow> (\<exists>b64. (\<exists>ws. split_whitespace raw = KEY_TYPE # b64 # ws) \<and> b64d (trim b64) = Some key \<and> length key = 32)" by blast
  also have "\<dots> \<longleftrightarrow> key_line b64d key raw"
    unfolding key_type_words key_line_def KEY_TYPE_def [symmetric] using word_trim by (intro iffI; elim exE conjE) (metis (no_types, lifting))+
  finally show ?thesis .
qed

lemma skip_line_comment: "skip_line (trim raw) \<longleftrightarrow> comment_line raw"
proof -
  obtain pre post where raw: "raw = pre @ trim raw @ post" "blank_text pre" "blank_text post" "trim raw \<noteq> [] \<longrightarrow> \<not> is_ws (hd (trim raw))"
    using trim_parts by blast
  have hash: "\<not> is_ws 35" by (simp add: is_ws_def)
  show ?thesis
  proof (cases "trim raw")
    case Nil
    then have "blank_text raw" using raw by (metis append_Nil blank_text_def set_append Un_iff)
    then show ?thesis using Nil by (simp add: skip_line_def comment_line_def)
  next
    case (Cons c t)
    have c: "\<not> is_ws c" using raw(4) Cons by simp
    have whole: "raw = pre @ c # t @ post" using raw(1) Cons by simp
    have "comment_line raw \<longleftrightarrow> c = 35"
    proof
      assume "comment_line raw"
      moreover have "\<not> blank_text raw" using c by (subst whole) (simp add: blank_text_def)
      ultimately obtain p r where p: "raw = p @ 35 # r" "blank_text p" by (auto simp: comment_line_def)
      have first: "dropWhile is_ws (q @ x # u) = x # u" if "blank_text q" "\<not> is_ws x" for q x u
        using that by (simp add: blank_text_def dropWhile_append2)
      have "35 # r = c # t @ post" using first [OF p(2) hash] first [OF raw(2) c] p(1) whole by metis
      then show "c = 35" by simp
    qed (use whole raw(2) in \<open>auto simp: comment_line_def\<close>)
    then show ?thesis using Cons by (simp add: skip_line_def starts_with_def uni_def)
  qed
qed

lemma key_line_not_comment: "key_line b64d key raw \<Longrightarrow> \<not> comment_line raw"
proof
  assume k: "key_line b64d key raw" and "comment_line raw"
  then obtain ws where ws: "split_whitespace raw = KEY_TYPE # ws"
    using key_line_parsed [of b64d raw key, symmetric] unfolding key_from_text_def split_whitespace_trim by (auto split: list.splits if_splits)
  then have "\<not> blank_text raw" using split_whitespace_empty [of raw] by simp
  then obtain pre rest where raw: "raw = pre @ 35 # rest" "blank_text pre" using \<open>comment_line raw\<close> by (auto simp: comment_line_def)
  have "\<not> is_ws 35" by (simp add: is_ws_def)
  then have "hd (hd (split_whitespace (35 # rest))) = 35" by (subst split_whitespace.simps) (simp add: Let_def)
  moreover have "split_whitespace (35 # rest) = KEY_TYPE # ws" using ws raw by (simp add: split_whitespace_blank)
  ultimately show False by (simp add: KEY_TYPE_def uni_def)
qed

lemma ak_strict_spec:
  "case ak_strict_loop b64d ls keys of
      Inl e \<Rightarrow> \<exists>raw \<in> set ls. \<not> comment_line raw \<and> \<not> (\<exists>k. key_line b64d k raw)
    | Inr ks \<Rightarrow> ks = keys @ concat (map (ak_line b64d) ls) \<and>
        \<not> (\<exists>raw \<in> set ls. \<not> comment_line raw \<and> \<not> (\<exists>k. key_line b64d k raw))"
proof (induction ls arbitrary: keys)
  case (Cons raw ls)
  show ?case
  proof (cases "skip_line (trim raw)")
    case True
    then show ?thesis using Cons.IH [of keys] by (auto simp: ak_line_def skip_line_comment split: sum.splits)
  next
    case False
    show ?thesis
    proof (cases "key_from_text b64d (trim raw)")
      case (Inr k)
      then have "ak_line b64d raw = [(k, key_comment_of (trim raw))]" using False by (simp add: ak_line_def)
      moreover have "key_line b64d k raw" using Inr by (simp add: key_line_parsed)
      ultimately show ?thesis
        using False Inr Cons.IH [of "keys @ [(k, key_comment_of (trim raw))]"] by (auto split: sum.splits)
    next
      case (Inl e)
      then have "\<not> (\<exists>k. key_line b64d k raw)" by (simp add: key_line_parsed [symmetric])
      then show ?thesis using False Inl by (auto simp: skip_line_comment)
    qed
  qed
qed simp

text \<open>C33: a client is let in exactly when some line of the file consists of the word \<^verbatim>\<open>noissh-x25519\<close>, white space, and a
  word that is the base64 text of its 32-byte key, possibly with white space in front and anything behind white
  space after it, whatever the other lines are; and the strict parser accepts a file exactly when every line is such
  a line (of some key), blank or a comment, and then gives the same keys.\<close>

theorem authorized_exactly_listed:
  "(authorize_client (ak_parse b64d contents) key \<longleftrightarrow> (\<exists>line \<in> set (str_lines contents). key_line b64d key line)) \<and>
   ((\<exists>e. ak_parse_strict b64d contents = Inl e) \<longleftrightarrow>
      (\<exists>line \<in> set (str_lines contents). \<not> comment_line line \<and> \<not> (\<exists>k. key_line b64d k line))) \<and>
   ((\<exists>e. ak_parse_strict b64d contents = Inl e) \<or> ak_parse_strict b64d contents = Inr (ak_parse b64d contents))"
proof -
  have "(key, c) \<in> set (ak_line b64d raw) \<longleftrightarrow> key_line b64d key raw \<and> c = key_comment_of (trim raw)" for c raw
    using key_line_not_comment [of b64d key raw]
    by (auto simp: ak_line_def Let_def skip_line_comment key_line_parsed [symmetric] split: sum.splits)
  then have "(\<exists>c. (key, c) \<in> set (ak_keys (ak_parse b64d contents))) \<longleftrightarrow> (\<exists>line \<in> set (str_lines contents). key_line b64d key line)"
    by (auto simp: ak_parse_def)
  moreover have "length key = 32" if "key_line b64d key line" for line using that by (auto simp: key_line_def)
  ultimately have "authorize_client (ak_parse b64d contents) key \<longleftrightarrow> (\<exists>line \<in> set (str_lines contents). key_line b64d key line)"
    by (auto simp: authorize_client_def key_from_bytes_def KEY_LEN_def ak_contains_def list_ex_iff)
  then show ?thesis
    using ak_strict_spec [where b64d = b64d and ls = "str_lines contents" and keys = "[]"]
    by (auto simp: ak_parse_strict_def ak_parse_def split: sum.splits)
qed

end
