(* ===== verification/Control.thy ===== *)
theory Control
  imports Wire RustStr
begin

text \<open>
  The control channel, \<^verbatim>\<open>crates/proto/src/control.rs\<close>, and the file-transfer request header,
  \<^verbatim>\<open>crates/proto/src/xfer.rs\<close>: encoders, decoders and their round trips. Strings are their
  UTF-8 bytes (\<open>RustStr\<close>).
\<close>

section \<open>Control messages\<close>

datatype control_error = CWire wire_error | CUnknown u8 | CEof | CBadUtf8

datatype control_msg =
    COpenShell u16 u16 bytes bool
  | CResize u16 u16
  | CExit u32
  | CRemoteForward u16 bytes
  | CBye
  | CServerVersion bytes

definition M_OPEN_SHELL :: u8 where "M_OPEN_SHELL = 1"
definition M_RESIZE :: u8 where "M_RESIZE = 2"
definition M_EXIT :: u8 where "M_EXIT = 3"
definition M_REMOTE_FORWARD :: u8 where "M_REMOTE_FORWARD = 6"
definition M_BYE :: u8 where "M_BYE = 7"
definition M_SERVER_VERSION :: u8 where "M_SERVER_VERSION = 8"

lemmas msg_tags = M_OPEN_SHELL_def M_RESIZE_def M_EXIT_def M_REMOTE_FORWARD_def M_BYE_def M_SERVER_VERSION_def

definition put_str :: "bytes \<Rightarrow> bytes" where
  "put_str s = put_varint (of_nat (length s)) @ s"

definition get_str :: "bytes \<Rightarrow> nat \<Rightarrow> control_error + (bytes \<times> nat)" where
  "get_str buf pos =
     rbind (map_err CWire (get_varint buf pos)) (\<lambda>(len, pos).
       case checked_add64 pos (unat len) of
         None \<Rightarrow> Inl CEof
       | Some end \<Rightarrow>
           if end > length buf then Inl CEof
           else let s = take (end - pos) (drop pos buf)
                in if utf8_ok s then Inr (s, end) else Inl CBadUtf8)"

fun control_encode :: "control_msg \<Rightarrow> bytes" where
  "control_encode (COpenShell cols rows term agent) =
     M_OPEN_SHELL # put_varint (ucast cols) @ put_varint (ucast rows) @ put_str term @ [if agent then 1 else 0]"
| "control_encode (CResize cols rows) =
     M_RESIZE # put_varint (ucast cols) @ put_varint (ucast rows)"
| "control_encode (CExit status) = M_EXIT # put_varint (zigzag (scast status))"
| "control_encode (CRemoteForward bind_port target) =
     M_REMOTE_FORWARD # put_varint (ucast bind_port) @ put_str target"
| "control_encode CBye = [M_BYE]"
| "control_encode (CServerVersion v) = M_SERVER_VERSION # put_str v"

text \<open>\<open>control_decode_at\<close> also returns the position after the last byte read.\<close>

definition control_decode_at :: "bytes \<Rightarrow> nat \<Rightarrow> control_error + (control_msg \<times> nat)" where
  "control_decode_at buf pos =
     (if pos < length buf then
        (let tag = buf ! pos; pos = pos + 1 in
         if tag = M_OPEN_SHELL then
           rbind (map_err CWire (get_varint buf pos)) (\<lambda>(cols, pos).
           rbind (map_err CWire (get_varint buf pos)) (\<lambda>(rows, pos).
           rbind (get_str buf pos) (\<lambda>(term, pos).
           rbind (map_err (\<lambda>_. CEof) (get_u8 buf pos)) (\<lambda>(agent, pos).
             Inr (COpenShell (ucast cols) (ucast rows) term (agent \<noteq> 0), pos)))))
         else if tag = M_RESIZE then
           rbind (map_err CWire (get_varint buf pos)) (\<lambda>(cols, pos).
           rbind (map_err CWire (get_varint buf pos)) (\<lambda>(rows, pos).
             Inr (CResize (ucast cols) (ucast rows), pos)))
         else if tag = M_EXIT then
           rbind (map_err CWire (get_varint buf pos)) (\<lambda>(status, pos).
             Inr (CExit (ucast (unzigzag status)), pos))
         else if tag = M_REMOTE_FORWARD then
           rbind (map_err CWire (get_varint buf pos)) (\<lambda>(bind_port, pos).
           rbind (get_str buf pos) (\<lambda>(target, pos). Inr (CRemoteForward (ucast bind_port) target, pos)))
         else if tag = M_BYE then Inr (CBye, pos)
         else if tag = M_SERVER_VERSION then
           rbind (get_str buf pos) (\<lambda>(v, pos). Inr (CServerVersion v, pos))
         else Inl (CUnknown tag))
      else Inl CEof)"

definition control_decode :: "bytes \<Rightarrow> control_error + control_msg" where
  "control_decode buf = rbind (control_decode_at buf 0) (\<lambda>(m, pos). Inr m)"

text \<open>The strings of a message are valid, as every Rust \<^verbatim>\<open>String\<close> is.\<close>

fun control_valid :: "control_msg \<Rightarrow> bool" where
  "control_valid (COpenShell cols rows term agent) = utf8_ok term"
| "control_valid (CRemoteForward bind_port target) = utf8_ok target"
| "control_valid (CServerVersion v) = utf8_ok v"
| "control_valid _ = True"

lemma get_str_bytes:
  "get_str buf pos = Inr (s, pos') \<longleftrightarrow> get_bytes buf pos = Inr (s, pos') \<and> utf8_ok s"
  by (cases "get_varint buf pos")
    (auto simp: get_str_def get_bytes_def Let_def split: option.splits if_splits)

lemma get_str_put [codec_laws]:
  "reads buf pos (put_str s) \<Longrightarrow> length buf < two64 \<Longrightarrow> utf8_ok s \<Longrightarrow>
   get_str buf pos = Inr (s, pos + length (put_str s))"
  using get_bytes_put [of buf pos s] by (simp add: get_str_bytes put_str_def put_bytes_def)

lemma get_str_step [codec_steps]: "get_str buf pos = Inr (s, pos') \<Longrightarrow> pos < pos' \<and> pos' \<le> length buf"
  by (auto simp: get_str_bytes dest: get_bytes_step)

lemma get_str_mono [res_mono]: "res_le (get_str buf pos) (get_str (buf @ ys) pos)"
  by (auto simp: res_le_def get_str_bytes intro: get_bytes_ext)

lemma control_decode_encode:
  "control_valid m \<Longrightarrow> reads buf pos (control_encode m) \<Longrightarrow> length buf < two64 \<Longrightarrow>
   control_decode_at buf pos = Inr (m, pos + length (control_encode m))"
  by (cases m) (auto simp: control_decode_at_def msg_tags codec_laws get_u8_def Let_def add.assoc)

lemma control_decode_step:
  "control_decode_at buf pos = Inr (m, pos') \<Longrightarrow> pos < pos' \<and> pos' \<le> length buf"
  unfolding control_decode_at_def Let_def
  by (auto split: if_splits dest!: codec_steps)

lemma control_decode_mono: "res_le (control_decode_at buf pos) (control_decode_at (buf @ ys) pos)"
proof (cases "pos < length buf")
  case True
  then have "pos < length (buf @ ys)" "(buf @ ys) ! pos = buf ! pos" by (simp_all add: nth_append)
  with True show ?thesis
    unfolding control_decode_at_def Let_def by (simp only: if_True) (intro res_mono)
qed (simp add: control_decode_at_def res_le_Inl)

interpretation control_codec: codec control_encode control_decode_at control_valid
  by unfold_locales
    (auto simp: control_decode_encode dest: control_decode_step res_leD [OF control_decode_mono])

text \<open>Every control message survives encoding and decoding, and an encoding cut anywhere is
  an error rather than another message.\<close>

theorem control_roundtrip:
  assumes "control_valid m" "length (control_encode m) < two64"
  shows "control_decode (control_encode m) = Inr m \<and>
    (\<forall>bs missing. control_encode m = bs @ missing \<longrightarrow> missing \<noteq> [] \<longrightarrow> (\<exists>e. control_decode bs = Inl e))"
proof (intro conjI allI impI)
  show "control_decode (control_encode m) = Inr m"
    using control_codec.roundtrip [OF assms] by (simp add: control_decode_def)
  fix bs missing
  assume "control_encode m = bs @ missing" "missing \<noteq> []"
  then obtain e where "control_decode_at bs 0 = Inl e"
    using control_codec.truncated_fails [OF assms(1)] assms(2) by blast
  then show "\<exists>e. control_decode bs = Inl e" by (simp add: control_decode_def)
qed

theorem control_roundtrip_witness:
  "control_decode (control_encode (COpenShell 80 24 [120, 116] True)) = Inr (COpenShell 80 24 [120, 116] True) \<and>
    (\<exists>e. control_decode [M_OPEN_SHELL, 80, 24, 2, 120] = Inl e)"
proof -
  have enc: "control_encode (COpenShell 80 24 [120, 116] True) = [M_OPEN_SHELL, 80, 24, 2, 120] @ [116, 1]"
    by (simp add: put_str_def put_varint.simps)
  have "control_valid (COpenShell 80 24 [120, 116] True)" "length (control_encode (COpenShell 80 24 [120, 116] True)) < two64"
    unfolding enc by (simp_all add: utf8_ascii two64_def)
  from control_roundtrip [OF this] show ?thesis using enc by blast
qed


section \<open>File-transfer requests\<close>

datatype xfer_request = Put bytes nat | Get bytes

fun xfer_encode :: "xfer_request \<Rightarrow> bytes" where
  "xfer_encode (Put path sz) = asc ''PUT '' @ dec_digits sz @ asc '' '' @ path"
| "xfer_encode (Get path) = asc ''GET '' @ path"

definition xfer_parse :: "bytes \<Rightarrow> xfer_request option" where
  "xfer_parse meta =
     (if \<not> utf8_ok meta then None
      else case strip_prefix (asc ''PUT '') meta of
        Some rest \<Rightarrow>
          (case split_once 32 rest of
             None \<Rightarrow> None
           | Some (sz, path) \<Rightarrow>
               (case parse_uint two64 sz of
                  None \<Rightarrow> None
                | Some n \<Rightarrow> if path = [] then None else Some (Put path n)))
      | None \<Rightarrow>
          (case strip_prefix (asc ''GET '') meta of
             Some path \<Rightarrow> if path = [] then None else Some (Get path)
           | None \<Rightarrow> None))"

fun xfer_path :: "xfer_request \<Rightarrow> bytes" where
  "xfer_path (Put path sz) = path"
| "xfer_path (Get path) = path"

fun xfer_size :: "xfer_request \<Rightarrow> nat" where
  "xfer_size (Put path sz) = sz"
| "xfer_size (Get path) = 0"

lemma asc_PUT: "asc ''PUT '' = [80, 85, 84, 32]" and asc_GET: "asc ''GET '' = [71, 69, 84, 32]"
  and asc_space: "asc '' '' = [32]"
  by (simp_all add: asc_def)

lemma digit_ascii: "is_digit b \<Longrightarrow> b < 0x80 \<and> b \<noteq> 32"
  by (auto simp: is_digit_def intro: le_less_trans)

lemma dec_digits_ascii: "utf8_ok (dec_digits n)" "32 \<notin> set (dec_digits n)"
  using dec_digits_digits [of n] digit_ascii by (auto intro!: utf8_all_ascii)

text \<open>A file-transfer request is read back exactly, whatever its non-empty path (spaces
  included) and 64-bit size.\<close>

theorem xfer_roundtrip:
  assumes "utf8_ok (xfer_path r)" "xfer_path r \<noteq> []" "xfer_size r < two64"
  shows "xfer_parse (xfer_encode r) = Some r"
proof (cases r)
  case (Put path sz)
  have "utf8_ok (xfer_encode r)"
    using assms Put by (simp add: asc_PUT asc_space utf8_ascii utf8_append dec_digits_ascii)
  moreover have "split_once 32 (dec_digits sz @ 32 # path) = Some (dec_digits sz, path)"
    by (rule split_once_append) (rule dec_digits_ascii)
  ultimately show ?thesis
    using assms Put
    by (simp add: xfer_parse_def asc_space parse_uint_dec)
next
  case (Get path)
  have "utf8_ok (xfer_encode r)" using assms Get by (simp add: asc_GET utf8_ascii)
  moreover have "strip_prefix (asc ''PUT '') (asc ''GET '' @ path) = None"
    by (simp add: strip_prefix_def asc_PUT asc_GET)
  ultimately show ?thesis using assms Get by (simp add: xfer_parse_def)
qed

theorem xfer_roundtrip_witness:
  "xfer_parse (xfer_encode (Put [97, 32, 98] 1024)) = Some (Put [97, 32, 98] 1024)"
  by (rule xfer_roundtrip) (simp_all add: utf8_ascii two64_def)

end
