(* ===== verification/Runtime.thy ===== *)
theory Runtime
  imports Handshake Auth Control
begin

text \<open>
  The errors of the runtime crate, \<^verbatim>\<open>src/lib.rs\<close>, shared by the server, the client and the programs.
  An operating-system error carries no data here.
\<close>

datatype runtime_error =
    RIo
  | RNoise noise_error
  | RTransport "noise_error transport_error"
  | RHandshakeDriver handshake_error
  | RAuth auth_error
  | RHandshake
  | RHostKeyMismatch ustr
  | RBadKeyFile
  | RTimeout
  | RBadAddress ustr
  | RSshFailed ustr
  | RUsage ustr
  | RTransfer ustr
  | RExec ustr

end
