(* ===== verification/Server.thy ===== *)
theory Server
  imports Runtime Shell
begin

text \<open>
  The server core, \<^verbatim>\<open>ServerCore\<close> of \<^verbatim>\<open>src/server.rs\<close>: handshakes, authorization, sessions and
  reattachment, the dispatch of received frames, and the periodic tick. What the core calls but
  does not contain are parameters, gathered in the record \<open>server_env\<close>: the snow library, the
  pseudo-terminals and the login backend, the vte parser and the character widths, the package
  version, the path of an agent socket and the iteration order of a hash map. A panic of the
  terminal emulator is the value \<open>None\<close>.
\<close>

section \<open>State\<close>

record spawn_request =
  sr_user :: "bytes option"
  sr_command :: "bytes list option"
  sr_env :: "(bytes \<times> bytes) list"
  sr_term :: bytes
  sr_rows :: nat
  sr_cols :: nat

text \<open>Pseudo-terminals \<open>'y\<close>. A read gives the bytes of \<^verbatim>\<open>Ok(n)\<close> with \<open>n > 0\<close>, and \<open>None\<close> at the end
  of file, when no data is ready, or on an error.\<close>

record 'y pty_ops =
  py_spawn :: "spawn_request \<Rightarrow> 'y option"
  py_nonblocking :: "'y \<Rightarrow> 'y"
  py_write :: "bytes \<Rightarrow> 'y \<Rightarrow> 'y"
  py_winsize :: "nat \<Rightarrow> nat \<Rightarrow> 'y \<Rightarrow> 'y"
  py_kill :: "'y \<Rightarrow> 'y"
  py_read :: "nat \<Rightarrow> 'y \<Rightarrow> bytes option \<times> 'y"
  py_try_wait :: "'y \<Rightarrow> u32 option \<times> 'y"

record ('s, 't, 'y, 'p) server_env =
  se_snow :: "('s, 't) snow"
  se_pty :: "'y pty_ops"
  se_vte :: "'p \<Rightarrow> bytes \<Rightarrow> term_event list \<times> 'p"
  se_parser :: 'p
  se_width :: "nat \<Rightarrow> nat"
  se_version :: bytes
  se_agent_path :: "bytes \<Rightarrow> bytes"
  se_iter :: "bytes list \<Rightarrow> bytes list"

record ('t, 'y, 'p, 'a) server_session =
  sv_session :: "'a session"
  sv_noise :: "'t noise_session"
  sv_shell :: "'p server_shell option"
  sv_pty :: "'y option"
  sv_rows :: nat
  sv_cols :: nat
  sv_key :: bytes
  sv_idle :: nat
  sv_exit :: "u32 option"
  sv_exit_ticks :: nat
  sv_mux :: stream_mux
  sv_version_sent :: bool

record ('s, 't, 'y, 'p, 'a) server_core =
  sc_private :: bytes
  sc_authorized :: authorized_keys
  sc_command :: "bytes list option"
  sc_user :: "bytes option"
  sc_pending :: "(bytes, 's handshaker) btree"
  sc_sessions :: "(bytes, ('t, 'y, 'p, 'a) server_session) btree"
  sc_ever_active :: bool
  sc_events :: "(bytes \<times> stream_event) list"
  sc_forwards :: "(bytes \<times> u16 \<times> bytes) list"
  sc_agents :: "(bytes \<times> bytes) list"

definition EXIT_RETRANSMIT_TICKS :: nat where "EXIT_RETRANSMIT_TICKS = 50"
definition IDLE_REAP_TICKS :: nat where "IDLE_REAP_TICKS = 20000"
definition MAX_PENDING_HANDSHAKES :: nat where "MAX_PENDING_HANDSHAKES = 512"

definition server_core_new :: "bytes \<Rightarrow> authorized_keys \<Rightarrow> bytes list option \<Rightarrow> ('s, 't, 'y, 'p, 'a) server_core" where
  "server_core_new priv authorized command =
     \<lparr>sc_private = priv, sc_authorized = authorized, sc_command = command, sc_user = None,
      sc_pending = bt_empty, sc_sessions = bt_empty, sc_ever_active = False, sc_events = [],
      sc_forwards = [], sc_agents = []\<rparr>"

definition with_user :: "bytes option \<Rightarrow> ('s, 't, 'y, 'p, 'a) server_core \<Rightarrow> ('s, 't, 'y, 'p, 'a) server_core" where
  "with_user u c = c\<lparr>sc_user := u\<rparr>"

definition privsep_active :: "('s, 't, 'y, 'p, 'a) server_core \<Rightarrow> bool" where
  "privsep_active c \<longleftrightarrow> sc_user c \<noteq> None"

definition all_done :: "('s, 't, 'y, 'p, 'a) server_core \<Rightarrow> bool" where
  "all_done c \<longleftrightarrow> sc_ever_active c \<and> list_all (\<lambda>(k, s). sv_exit s \<noteq> None) (sc_sessions c)"

definition with_command :: "bytes list \<Rightarrow> ('s, 't, 'y, 'p, 'a) server_core \<Rightarrow> ('s, 't, 'y, 'p, 'a) server_core" where
  "with_command command c = c\<lparr>sc_command := Some command\<rparr>"

definition session_count :: "('s, 't, 'y, 'p, 'a) server_core \<Rightarrow> nat" where
  "session_count c = length (sc_sessions c)"

definition with_session ::
  "bytes \<Rightarrow> (('t, 'y, 'p, 'a) server_session \<Rightarrow> ('t, 'y, 'p, 'a) server_session) \<Rightarrow>
   ('s, 't, 'y, 'p, 'a) server_core \<Rightarrow> ('s, 't, 'y, 'p, 'a) server_core" where
  "with_session sid f c =
     (case bt_get (sc_sessions c) sid of
        Some s \<Rightarrow> c\<lparr>sc_sessions := bt_insert sid (f s) (sc_sessions c)\<rparr>
      | None \<Rightarrow> c)"


section \<open>Handshakes\<close>

definition server_session_new :: "'a session \<Rightarrow> 't noise_session \<Rightarrow> bytes \<Rightarrow> ('t, 'y, 'p, 'a) server_session" where
  "server_session_new session noise key =
     \<lparr>sv_session = session, sv_noise = noise, sv_shell = None, sv_pty = None, sv_rows = 24, sv_cols = 80,
      sv_key = key, sv_idle = 0, sv_exit = None, sv_exit_ticks = 0, sv_mux = mux_new False, sv_version_sent = False\<rparr>"

definition reattachable :: "bytes \<Rightarrow> ('t, 'y, 'p, 'a) server_session \<Rightarrow> bool" where
  "reattachable key s \<longleftrightarrow> sv_key s = key \<and> sv_exit s = None \<and> (sv_shell s \<noteq> None \<or> sv_pty s \<noteq> None)"

definition find_existing :: "('s, 't, 'y, 'p) server_env \<Rightarrow> bytes \<Rightarrow> (bytes, ('t, 'y, 'p, 'a) server_session) btree \<Rightarrow>
    bytes option" where
  "find_existing e key sessions =
     find (\<lambda>k. case bt_get sessions k of Some s \<Rightarrow> reattachable key s | None \<Rightarrow> False) (se_iter e (bt_keys sessions))"

definition establish :: "('s, 't, 'y, 'p) server_env \<Rightarrow> bytes \<Rightarrow> bytes \<Rightarrow> 'a session \<Rightarrow> 't noise_session \<Rightarrow>
    ('s, 't, 'y, 'p, 'a) server_core \<Rightarrow> ('s, 't, 'y, 'p, 'a) server_core" where
  "establish e sid key session noise c =
     (let new_sess = server_session_new session noise key;
          (new_sess, sessions) =
            (case find_existing e key (sc_sessions c) of
               None \<Rightarrow> (new_sess, sc_sessions c)
             | Some old_sid \<Rightarrow>
                 (case bt_get (sc_sessions c) old_sid of
                    None \<Rightarrow> (new_sess, sc_sessions c)
                  | Some old \<Rightarrow>
                      (new_sess\<lparr>sv_shell := map_option rebind_to_new_client (sv_shell old), sv_pty := sv_pty old,
                                sv_rows := sv_rows old, sv_cols := sv_cols old\<rparr>,
                       bt_remove old_sid (sc_sessions c))))
      in c\<lparr>sc_sessions := bt_insert sid new_sess sessions, sc_ever_active := True\<rparr>)"

definition handshake_step :: "('s, 't, 'y, 'p) server_env \<Rightarrow> 'a \<Rightarrow> bytes \<Rightarrow> bytes \<Rightarrow> 's handshaker \<Rightarrow> bool \<Rightarrow>
    ('s, 't, 'y, 'p, 'a) server_core \<Rightarrow> (runtime_error + ('a \<times> bytes) list) \<times> ('s, 't, 'y, 'p, 'a) server_core" where
  "handshake_step e src sid body hs was_pending c =
     (case handshaker_read (se_snow e) body hs of
        (Inl err, hs') \<Rightarrow>
          (Inr [], if was_pending then c\<lparr>sc_pending := bt_insert sid hs' (sc_pending c)\<rparr> else c)
      | (Inr oc, hs') \<Rightarrow>
          (let out = (case ho_reply oc of Some reply \<Rightarrow> [(src, reply)] | None \<Rightarrow> []) in
           if ho_finished oc then
             (case hk_remote_static (se_snow e) hs' of
                None \<Rightarrow> (Inl RHandshake, c)
              | Some client_static \<Rightarrow>
                  if \<not> authorize_client (sc_authorized c) client_static then (Inr out, c)
                  else
                    (case into_session (se_snow e) (Some src) hs' of
                       Inl err \<Rightarrow> (Inl (RHandshakeDriver err), c)
                     | Inr (session, noise) \<Rightarrow> (Inr out, establish e sid client_static session noise c)))
           else (Inr out, c\<lparr>sc_pending := bt_insert sid hs' (sc_pending c)\<rparr>)))"

definition server_handle_handshake :: "('s, 't, 'y, 'p) server_env \<Rightarrow> 'a \<Rightarrow> bytes \<Rightarrow> bytes \<Rightarrow>
    ('s, 't, 'y, 'p, 'a) server_core \<Rightarrow> (runtime_error + ('a \<times> bytes) list) \<times> ('s, 't, 'y, 'p, 'a) server_core" where
  "server_handle_handshake e src sid body c =
     (if bt_get (sc_sessions c) sid \<noteq> None then (Inr [], c)
      else
        (case bt_get (sc_pending c) sid of
           Some hs \<Rightarrow> handshake_step e src sid body hs True (c\<lparr>sc_pending := bt_remove sid (sc_pending c)\<rparr>)
         | None \<Rightarrow>
             if length body + 9 < MIN_HANDSHAKE_INIT then (Inr [], c)
             else if length (sc_pending c) \<ge> MAX_PENDING_HANDSHAKES then (Inr [], c)
             else
               (case handshaker_server (se_snow e) (sc_private c) sid (se_version e) of
                  Inl err \<Rightarrow> (Inl (RHandshakeDriver err), c)
                | Inr hs \<Rightarrow> handshake_step e src sid body hs False c)))"


section \<open>Received frames\<close>

fun handle_control :: "('s, 't, 'y, 'p) server_env \<Rightarrow> bytes \<Rightarrow> control_msg \<Rightarrow> ('s, 't, 'y, 'p, 'a) server_core \<Rightarrow>
    ('s, 't, 'y, 'p, 'a) server_core option" where
  "handle_control e sid (COpenShell cols rows term agent) c =
     (case bt_get (sc_sessions c) sid of
        None \<Rightarrow> Some c
      | Some sess \<Rightarrow>
          if sv_pty sess \<noteq> None then Some c
          else
            (let agent_path = (if agent \<and> sc_user c = None then Some (se_agent_path e sid) else None);
                 env = (case agent_path of Some path \<Rightarrow> [(asc ''SSH_AUTH_SOCK'', path)] | None \<Rightarrow> []);
                 req = \<lparr>sr_user = sc_user c, sr_command = sc_command c, sr_env = env, sr_term = term,
                        sr_rows = unat rows, sr_cols = unat cols\<rparr>
             in case py_spawn (se_pty e) req of
                  None \<Rightarrow> Some c
                | Some handle \<Rightarrow>
                    (let handle = py_nonblocking (se_pty e) handle;
                         sess = sess\<lparr>sv_rows := unat rows, sv_cols := unat cols,
                           sv_shell := Some (server_shell_new (se_parser e) (unat rows) (unat cols)), sv_pty := Some handle\<rparr>;
                         c = c\<lparr>sc_sessions := bt_insert sid sess (sc_sessions c)\<rparr>
                     in case agent_path of
                          Some path \<Rightarrow> Some (c\<lparr>sc_agents := sc_agents c @ [(sid, path)]\<rparr>)
                        | None \<Rightarrow> Some c)))"
| "handle_control e sid (CResize cols rows) c =
     (case bt_get (sc_sessions c) sid of
        None \<Rightarrow> Some c
      | Some sess \<Rightarrow>
          (let sess = sess\<lparr>sv_rows := unat rows, sv_cols := unat cols,
                 sv_pty := map_option (py_winsize (se_pty e) (unat rows) (unat cols)) (sv_pty sess)\<rparr>
           in case sv_shell sess of
                None \<Rightarrow> Some (c\<lparr>sc_sessions := bt_insert sid sess (sc_sessions c)\<rparr>)
              | Some shell \<Rightarrow>
                  do { shell \<leftarrow> shell_resize (unat rows) (unat cols) shell;
                       Some (c\<lparr>sc_sessions := bt_insert sid (sess\<lparr>sv_shell := Some shell\<rparr>) (sc_sessions c)\<rparr>) }))"
| "handle_control e sid (CRemoteForward bind_port target) c =
     Some (c\<lparr>sc_forwards := sc_forwards c @ [(sid, bind_port, target)]\<rparr>)"
| "handle_control e sid CBye c =
     Some (with_session sid (\<lambda>s. s\<lparr>sv_exit := Some (case sv_exit s of Some st \<Rightarrow> st | None \<Rightarrow> 0), sv_exit_ticks := 0\<rparr>) c)"
| "handle_control e sid _ c = Some c"

definition input_frame :: "('s, 't, 'y, 'p) server_env \<Rightarrow> nat \<Rightarrow> bytes \<Rightarrow> ('t, 'y, 'p, 'a) server_session \<Rightarrow>
    frame list \<times> ('t, 'y, 'p, 'a) server_session" where
  "input_frame e offset data s =
     (case sv_shell s of
        None \<Rightarrow> ([], s)
      | Some shell \<Rightarrow>
          (case ingest_input offset data shell of ((fresh, ack), shell') \<Rightarrow>
             ([ack], s\<lparr>sv_shell := Some shell', sv_pty := map_option (py_write (se_pty e) fresh) (sv_pty s)\<rparr>)))"

fun server_frame :: "('s, 't, 'y, 'p) server_env \<Rightarrow> bytes \<Rightarrow> frame \<Rightarrow> frame list \<times> ('s, 't, 'y, 'p, 'a) server_core \<Rightarrow>
    (frame list \<times> ('s, 't, 'y, 'p, 'a) server_core) option" where
  "server_frame e sid (Input offset data) (replies, c) =
     (case bt_get (sc_sessions c) sid of
        None \<Rightarrow> Some (replies, c)
      | Some sess \<Rightarrow>
          (case input_frame e (unat offset) data sess of (fs, sess') \<Rightarrow>
             Some (replies @ fs, c\<lparr>sc_sessions := bt_insert sid sess' (sc_sessions c)\<rparr>)))"
| "server_frame e sid (Ack sq) (replies, c) =
     Some (replies, with_session sid (\<lambda>s. s\<lparr>sv_shell := map_option (on_state_ack (unat sq)) (sv_shell s)\<rparr>) c)"
| "server_frame e sid (Control data) (replies, c) =
     (case control_decode data of
        Inl _ \<Rightarrow> Some (replies, c)
      | Inr msg \<Rightarrow> do { c' \<leftarrow> handle_control e sid msg c; Some (replies, c') })"
| "server_frame e sid (Ping stamp) (replies, c) = Some (replies @ [Pong stamp], c)"
| "server_frame e sid (StateDiff sq base data) (replies, c) = Some (replies, c)"
| "server_frame e sid (Resize cols rows) (replies, c) = Some (replies, c)"
| "server_frame e sid (Pong stamp) (replies, c) = Some (replies, c)"
| "server_frame e sid f (replies, c) =
     Some (replies, with_session sid (\<lambda>s. s\<lparr>sv_mux := mux_on_frame f (sv_mux s)\<rparr>) c)"

definition send_replies :: "('s, 't, 'y, 'p) server_env \<Rightarrow> bytes \<Rightarrow> frame list \<Rightarrow> ('s, 't, 'y, 'p, 'a) server_core \<Rightarrow>
    (runtime_error + ('a \<times> bytes) list) \<times> ('s, 't, 'y, 'p, 'a) server_core" where
  "send_replies e sid replies c =
     (case bt_get (sc_sessions c) sid of
        None \<Rightarrow> (Inr [], c)
      | Some sess \<Rightarrow>
          (case peer_addr (sv_session sess) of
             None \<Rightarrow> (Inr [], c)
           | Some addr \<Rightarrow>
               if replies = [] then (Inr [], c)
               else
                 (case seal_many (noise_encrypt (se_snow e) (sv_noise sess)) replies MAX_DATAGRAM_PLAINTEXT (sv_session sess) of
                    (r, session') \<Rightarrow>
                      (rbind (map_err RTransport r) (\<lambda>pkts. Inr (map (\<lambda>pkt. (addr, pkt)) pkts)),
                       c\<lparr>sc_sessions := bt_insert sid (sess\<lparr>sv_session := session'\<rparr>) (sc_sessions c)\<rparr>))))"

definition collect_events :: "bytes \<Rightarrow> ('s, 't, 'y, 'p, 'a) server_core \<Rightarrow> ('s, 't, 'y, 'p, 'a) server_core" where
  "collect_events sid c =
     (case bt_get (sc_sessions c) sid of
        None \<Rightarrow> c
      | Some sess \<Rightarrow>
          (case take_events (sv_mux sess) of (evs, m) \<Rightarrow>
             c\<lparr>sc_sessions := bt_insert sid (sess\<lparr>sv_mux := m\<rparr>) (sc_sessions c),
               sc_events := sc_events c @ map (\<lambda>ev. (sid, ev)) evs\<rparr>))"

definition server_handle_transport :: "('s, 't, 'y, 'p) server_env \<Rightarrow> 'a \<Rightarrow> bytes \<Rightarrow> bytes \<Rightarrow> ('s, 't, 'y, 'p, 'a) server_core \<Rightarrow>
    ((runtime_error + ('a \<times> bytes) list) \<times> ('s, 't, 'y, 'p, 'a) server_core) option" where
  "server_handle_transport e src sid buf c =
     (case bt_get (sc_sessions c) sid of
        None \<Rightarrow> Some (Inr [], c)
      | Some sess \<Rightarrow>
          (case open_packet (noise_decrypt (se_snow e) (sv_noise sess)) src buf (sv_session sess) of
             (Inl err, session') \<Rightarrow>
               Some (Inl (RTransport err), c\<lparr>sc_sessions := bt_insert sid (sess\<lparr>sv_session := session'\<rparr>) (sc_sessions c)\<rparr>)
           | (Inr frames, session') \<Rightarrow>
               do { (replies, c') \<leftarrow> opt_fold (server_frame e sid) frames
                      ([], c\<lparr>sc_sessions := bt_insert sid (sess\<lparr>sv_session := session', sv_idle := 0\<rparr>) (sc_sessions c)\<rparr>);
                    Some (send_replies e sid replies (collect_events sid c')) }))"

definition try_handle_packet :: "('s, 't, 'y, 'p) server_env \<Rightarrow> 'a \<Rightarrow> bytes \<Rightarrow> ('s, 't, 'y, 'p, 'a) server_core \<Rightarrow>
    ((runtime_error + ('a \<times> bytes) list) \<times> ('s, 't, 'y, 'p, 'a) server_core) option" where
  "try_handle_packet e src buf c =
     (case parse_packet buf of
        Inl err \<Rightarrow> Some (Inl (RTransport err), c)
      | Inr (PHandshake sid body) \<Rightarrow> Some (server_handle_handshake e src sid body c)
      | Inr (PTransport sid nonce body) \<Rightarrow> server_handle_transport e src sid buf c)"

definition server_handle_packet :: "('s, 't, 'y, 'p) server_env \<Rightarrow> 'a \<Rightarrow> bytes \<Rightarrow> ('s, 't, 'y, 'p, 'a) server_core \<Rightarrow>
    (('a \<times> bytes) list \<times> ('s, 't, 'y, 'p, 'a) server_core) option" where
  "server_handle_packet e src buf c =
     do { (r, c') \<leftarrow> try_handle_packet e src buf c;
          Some (case r of Inl _ \<Rightarrow> [] | Inr out \<Rightarrow> out, c') }"


section \<open>The tick\<close>

text \<open>Draining the terminal's output into the emulator, answering its queries. The loop ends when a
  read gives no data; a terminal that always has more, or a panic, is \<open>None\<close>.\<close>

definition feed_chunk :: "('s, 't, 'y, 'p) server_env \<Rightarrow> bytes \<Rightarrow> 'p server_shell option \<times> 'y \<Rightarrow>
    ('p server_shell option \<times> 'y) option" where
  "feed_chunk e bs st =
     (case st of (shell, pty) \<Rightarrow>
        (case shell of
           None \<Rightarrow> Some (None, pty)
         | Some sh \<Rightarrow>
             do { sh \<leftarrow> feed_output (se_vte e) (se_width e) bs sh;
                  (case shell_take_responses sh of (reply, sh') \<Rightarrow>
                     Some (Some sh', if reply \<noteq> [] then py_write (se_pty e) reply pty else pty)) }))"

partial_function (option) drain_pty :: "('s, 't, 'y, 'p) server_env \<Rightarrow> 'p server_shell option \<times> 'y \<Rightarrow>
    ('p server_shell option \<times> 'y) option" where
  "drain_pty e st =
     (case st of (shell, pty) \<Rightarrow>
        (case py_read (se_pty e) 8192 pty of
           (None, pty') \<Rightarrow> Some (shell, pty')
         | (Some bs, pty') \<Rightarrow> Option.bind (feed_chunk e bs (shell, pty')) (drain_pty e)))"

definition pump_output :: "('s, 't, 'y, 'p) server_env \<Rightarrow> ('t, 'y, 'p, 'a) server_session \<Rightarrow>
    ('t, 'y, 'p, 'a) server_session option" where
  "pump_output e s =
     (case sv_pty s of
        None \<Rightarrow> Some s
      | Some pty \<Rightarrow>
          do { (shell, pty) \<leftarrow> drain_pty e (sv_shell s, pty);
               Some (s\<lparr>sv_shell := shell, sv_pty := Some pty\<rparr>) })"

definition seal_session :: "('s, 't, 'y, 'p) server_env \<Rightarrow> frame list \<Rightarrow> ('t, 'y, 'p, 'a) server_session \<Rightarrow>
    ('a \<times> bytes) list \<times> ('t, 'y, 'p, 'a) server_session" where
  "seal_session e frames s =
     (case peer_addr (sv_session s) of
        None \<Rightarrow> ([], s)
      | Some addr \<Rightarrow>
          (case seal (noise_encrypt (se_snow e) (sv_noise s)) frames (sv_session s) of
             (Inl _, session') \<Rightarrow> ([], s\<lparr>sv_session := session'\<rparr>)
           | (Inr pkt, session') \<Rightarrow> ([(addr, pkt)], s\<lparr>sv_session := session'\<rparr>)))"

definition announce_version :: "('s, 't, 'y, 'p) server_env \<Rightarrow> ('t, 'y, 'p, 'a) server_session \<Rightarrow>
    ('a \<times> bytes) list \<times> ('t, 'y, 'p, 'a) server_session" where
  "announce_version e s =
     (if \<not> sv_version_sent s then
        (case seal_session e [Control (control_encode (CServerVersion (se_version e)))] s of
           (out, s') \<Rightarrow> (out, if out \<noteq> [] then s'\<lparr>sv_version_sent := True\<rparr> else s'))
      else ([], s))"

definition emit_diff :: "('s, 't, 'y, 'p) server_env \<Rightarrow> ('t, 'y, 'p, 'a) server_session \<Rightarrow>
    ('a \<times> bytes) list \<times> ('t, 'y, 'p, 'a) server_session" where
  "emit_diff e s =
     (case (sv_shell s, peer_addr (sv_session s)) of
        (Some shell, Some addr) \<Rightarrow>
          (case poll_diff shell of (f, shell') \<Rightarrow>
             (let s = s\<lparr>sv_shell := Some shell'\<rparr> in
              case f of None \<Rightarrow> ([], s) | Some diff \<Rightarrow> seal_session e [diff] s))
      | _ \<Rightarrow> ([], s))"

definition emit_streams :: "('s, 't, 'y, 'p) server_env \<Rightarrow> ('t, 'y, 'p, 'a) server_session \<Rightarrow>
    ('a \<times> bytes) list \<times> stream_event list \<times> ('t, 'y, 'p, 'a) server_session" where
  "emit_streams e s =
     (case poll_transmit (sv_mux s) of (frames, m) \<Rightarrow>
      case take_events m of (evs, m) \<Rightarrow>
        (let s = s\<lparr>sv_mux := m\<rparr> in
         if frames = [] then ([], evs, s)
         else case peer_addr (sv_session s) of
           None \<Rightarrow> ([], evs, s)
         | Some addr \<Rightarrow>
             (case seal_many (noise_encrypt (se_snow e) (sv_noise s)) frames MAX_DATAGRAM_PLAINTEXT (sv_session s) of
                (Inl _, session') \<Rightarrow> ([], evs, s\<lparr>sv_session := session'\<rparr>)
              | (Inr pkts, session') \<Rightarrow> (map (\<lambda>pkt. (addr, pkt)) pkts, evs, s\<lparr>sv_session := session'\<rparr>))))"

definition detect_exit :: "('s, 't, 'y, 'p) server_env \<Rightarrow> ('t, 'y, 'p, 'a) server_session \<Rightarrow> ('t, 'y, 'p, 'a) server_session" where
  "detect_exit e s =
     (if sv_exit s = None then
        (case sv_pty s of
           None \<Rightarrow> s
         | Some pty \<Rightarrow>
             (case py_try_wait (se_pty e) pty of
                (Some status, pty') \<Rightarrow> s\<lparr>sv_exit := Some status, sv_pty := None\<rparr>
              | (None, pty') \<Rightarrow> s\<lparr>sv_pty := Some pty'\<rparr>))
      else s)"

definition emit_exit :: "('s, 't, 'y, 'p) server_env \<Rightarrow> ('t, 'y, 'p, 'a) server_session \<Rightarrow>
    ('a \<times> bytes) list \<times> bool \<times> ('t, 'y, 'p, 'a) server_session" where
  "emit_exit e s =
     (case sv_exit s of
        None \<Rightarrow> ([], False, s)
      | Some status \<Rightarrow>
          (case seal_session e [Control (control_encode (CExit status))] s of (out, s') \<Rightarrow>
             (let s'' = s'\<lparr>sv_exit_ticks := wrap32 (sv_exit_ticks s' + 1)\<rparr>
              in (out, sv_exit_ticks s'' \<ge> EXIT_RETRANSMIT_TICKS, s''))))"

text \<open>One session's part of a tick: datagrams, stream events, whether it is finished, its state.\<close>

definition tick_session :: "('s, 't, 'y, 'p) server_env \<Rightarrow> ('t, 'y, 'p, 'a) server_session \<Rightarrow>
    (('a \<times> bytes) list \<times> stream_event list \<times> bool \<times> ('t, 'y, 'p, 'a) server_session) option" where
  "tick_session e s0 =
     (let s = s0\<lparr>sv_idle := saturating_add32 (sv_idle s0) 1\<rparr> in
      if sv_idle s \<ge> IDLE_REAP_TICKS \<and> sv_exit s = None then
        Some ([], [], True, s\<lparr>sv_pty := map_option (py_kill (se_pty e)) (sv_pty s)\<rparr>)
      else
        (case announce_version e s of (out1, s) \<Rightarrow>
         do { s \<leftarrow> pump_output e s;
              (case emit_diff e s of (out2, s) \<Rightarrow>
               case emit_streams e s of (out3, evs, s) \<Rightarrow>
               case emit_exit e (detect_exit e s) of (out4, finished, s) \<Rightarrow>
                 Some (out1 @ out2 @ out3 @ out4, evs, finished, s)) }))"

definition tick_one :: "('s, 't, 'y, 'p) server_env \<Rightarrow> bytes \<Rightarrow>
    ('a \<times> bytes) list \<times> bytes list \<times> (bytes \<times> stream_event) list \<times> ('s, 't, 'y, 'p, 'a) server_core \<Rightarrow>
    (('a \<times> bytes) list \<times> bytes list \<times> (bytes \<times> stream_event) list \<times> ('s, 't, 'y, 'p, 'a) server_core) option" where
  "tick_one e sid st =
     (case st of (out, finished, events_buf, c) \<Rightarrow>
        (case bt_get (sc_sessions c) sid of
           None \<Rightarrow> Some st
         | Some sess \<Rightarrow>
             do { (o1, evs, fin, sess') \<leftarrow> tick_session e sess;
                  Some (out @ o1, if fin then finished @ [sid] else finished, events_buf @ map (\<lambda>ev. (sid, ev)) evs,
                        c\<lparr>sc_sessions := bt_insert sid sess' (sc_sessions c)\<rparr>) }))"

definition server_tick :: "('s, 't, 'y, 'p) server_env \<Rightarrow> ('s, 't, 'y, 'p, 'a) server_core \<Rightarrow>
    (('a \<times> bytes) list \<times> ('s, 't, 'y, 'p, 'a) server_core) option" where
  "server_tick e c =
     do { (out, finished, events_buf, c') \<leftarrow>
            opt_fold (tick_one e) (se_iter e (bt_keys (sc_sessions c))) ([], [], [], c);
          Some (out, c'\<lparr>sc_sessions := fold bt_remove finished (sc_sessions c'), sc_events := sc_events c' @ events_buf\<rparr>) }"


section \<open>The driver's interface\<close>

definition take_stream_events :: "('s, 't, 'y, 'p, 'a) server_core \<Rightarrow> (bytes \<times> stream_event) list \<times> ('s, 't, 'y, 'p, 'a) server_core" where
  "take_stream_events c = (sc_events c, c\<lparr>sc_events := []\<rparr>)"

definition take_remote_forward_requests :: "('s, 't, 'y, 'p, 'a) server_core \<Rightarrow> (bytes \<times> u16 \<times> bytes) list \<times> ('s, 't, 'y, 'p, 'a) server_core" where
  "take_remote_forward_requests c = (sc_forwards c, c\<lparr>sc_forwards := []\<rparr>)"

definition take_agent_socket_requests :: "('s, 't, 'y, 'p, 'a) server_core \<Rightarrow> (bytes \<times> bytes) list \<times> ('s, 't, 'y, 'p, 'a) server_core" where
  "take_agent_socket_requests c = (sc_agents c, c\<lparr>sc_agents := []\<rparr>)"

definition open_stream :: "stream_kind \<Rightarrow> bytes \<Rightarrow> bytes \<Rightarrow> ('s, 't, 'y, 'p, 'a) server_core \<Rightarrow> u64 option \<times> ('s, 't, 'y, 'p, 'a) server_core" where
  "open_stream kind meta sid c =
     (case bt_get (sc_sessions c) sid of
        None \<Rightarrow> (None, c)
      | Some s \<Rightarrow>
          (case mux_open kind meta (sv_mux s) of (i, m) \<Rightarrow>
             (Some i, c\<lparr>sc_sessions := bt_insert sid (s\<lparr>sv_mux := m\<rparr>) (sc_sessions c)\<rparr>)))"

definition open_agent :: "bytes \<Rightarrow> ('s, 't, 'y, 'p, 'a) server_core \<Rightarrow> u64 option \<times> ('s, 't, 'y, 'p, 'a) server_core" where
  "open_agent sid c = open_stream Agent [] sid c"

definition open_exec :: "bytes \<Rightarrow> ('s, 't, 'y, 'p, 'a) server_core \<Rightarrow> u64 option \<times> ('s, 't, 'y, 'p, 'a) server_core" where
  "open_exec sid c = open_stream Exec [] sid c"

definition open_forward :: "bytes \<Rightarrow> bytes \<Rightarrow> ('s, 't, 'y, 'p, 'a) server_core \<Rightarrow> u64 option \<times> ('s, 't, 'y, 'p, 'a) server_core" where
  "open_forward sid target c = open_stream Forward target sid c"

definition sc_stream_close_status :: "bytes \<Rightarrow> u64 \<Rightarrow> u32 \<Rightarrow> ('s, 't, 'y, 'p, 'a) server_core \<Rightarrow> ('s, 't, 'y, 'p, 'a) server_core" where
  "sc_stream_close_status sid i status c = with_session sid (\<lambda>s. s\<lparr>sv_mux := mux_close i status (sv_mux s)\<rparr>) c"

definition sc_stream_read :: "bytes \<Rightarrow> u64 \<Rightarrow> ('s, 't, 'y, 'p, 'a) server_core \<Rightarrow> bytes \<times> ('s, 't, 'y, 'p, 'a) server_core" where
  "sc_stream_read sid i c =
     (case bt_get (sc_sessions c) sid of
        None \<Rightarrow> ([], c)
      | Some s \<Rightarrow>
          (case mux_read i (sv_mux s) of (out, m) \<Rightarrow>
             (out, c\<lparr>sc_sessions := bt_insert sid (s\<lparr>sv_mux := m\<rparr>) (sc_sessions c)\<rparr>)))"

definition sc_stream_write :: "bytes \<Rightarrow> u64 \<Rightarrow> bytes \<Rightarrow> ('s, 't, 'y, 'p, 'a) server_core \<Rightarrow> ('s, 't, 'y, 'p, 'a) server_core" where
  "sc_stream_write sid i data c = with_session sid (\<lambda>s. s\<lparr>sv_mux := mux_write i data (sv_mux s)\<rparr>) c"

definition sc_stream_close :: "bytes \<Rightarrow> u64 \<Rightarrow> ('s, 't, 'y, 'p, 'a) server_core \<Rightarrow> ('s, 't, 'y, 'p, 'a) server_core" where
  "sc_stream_close sid i c = with_session sid (\<lambda>s. s\<lparr>sv_mux := mux_close i 0 (sv_mux s)\<rparr>) c"

definition sc_stream_reset :: "bytes \<Rightarrow> u64 \<Rightarrow> ('s, 't, 'y, 'p, 'a) server_core \<Rightarrow> ('s, 't, 'y, 'p, 'a) server_core" where
  "sc_stream_reset sid i c = with_session sid (\<lambda>s. s\<lparr>sv_mux := mux_reset i (sv_mux s)\<rparr>) c"

definition has_session :: "bytes \<Rightarrow> ('s, 't, 'y, 'p, 'a) server_core \<Rightarrow> bool" where
  "has_session sid c \<longleftrightarrow> bt_get (sc_sessions c) sid \<noteq> None"

definition stream_in_flight :: "bytes \<Rightarrow> u64 \<Rightarrow> ('s, 't, 'y, 'p, 'a) server_core \<Rightarrow> nat" where
  "stream_in_flight sid i c = (case bt_get (sc_sessions c) sid of Some s \<Rightarrow> in_flight i (sv_mux s) | None \<Rightarrow> 0)"

definition stream_recv_finished :: "bytes \<Rightarrow> u64 \<Rightarrow> ('s, 't, 'y, 'p, 'a) server_core \<Rightarrow> bool" where
  "stream_recv_finished sid i c = (case bt_get (sc_sessions c) sid of Some s \<Rightarrow> is_recv_finished i (sv_mux s) | None \<Rightarrow> True)"

end
