(* ===== verification/ServerReply.thy ===== *)
theory ServerReply
  imports ServerSafe
begin

text \<open>
  When the server speaks, and what strangers cannot do: replies go out only to padded handshake
  starts, to pending handshakes and to authentic transport packets; a forged datagram changes
  nothing; a running shell is handed only to a new session of the same key.
\<close>

section \<open>Who is answered\<close>

lemma handshake_step_out:
  assumes "handshake_step e src sid body hs w c = (Inr out, c')"
  shows "out = [] \<or> (\<exists>reply. out = [(src, reply)])"
  using assms by (auto simp: handshake_step_def Let_def split: prod.splits sum.splits option.splits if_splits)

lemma handshake_out:
  assumes "server_handle_handshake e src sid body c = (Inr out, c')" "out \<noteq> []"
  shows "bt_get (sc_sessions c) sid = None" "\<exists>reply. out = [(src, reply)]"
    "bt_get (sc_pending c) sid \<noteq> None \<or> MIN_HANDSHAKE_INIT \<le> length body + 9"
  using assms handshake_step_out
  by (fastforce simp: server_handle_handshake_def split: if_splits option.splits sum.splits)+

lemma handshake_length: "parse_packet buf = (Inr (PHandshake sid body) :: noise_error transport_error + packet) \<Longrightarrow> length buf = length body + 9"
  by (auto simp: parse_packet_def Let_def split: if_splits)

text \<open>C15: no amplification. If a datagram makes the server send anything, then either it is a
  handshake datagram for an id without session, the answer is a single datagram back to its
  sender, and it was at least as long as the padding floor unless that handshake was already
  pending; or it is a transport datagram for an existing session that decrypted, was fresh, and
  held well-formed frames.\<close>

theorem answers_are_earned:
  assumes "server_handle_packet e src buf c = Some (out, c')" "out \<noteq> []"
  shows "case (parse_packet buf :: noise_error transport_error + packet) of
      Inl err \<Rightarrow> False
    | Inr (PHandshake sid body) \<Rightarrow> bt_get (sc_sessions c) sid = None \<and> (\<exists>reply. out = [(src, reply)]) \<and>
        (bt_get (sc_pending c) sid = None \<longrightarrow> MIN_HANDSHAKE_INIT \<le> length buf)
    | Inr (PTransport sid nonce body) \<Rightarrow> (\<exists>sess frames session'. bt_get (sc_sessions c) sid = Some sess \<and>
        open_packet (noise_decrypt (se_snow e) (sv_noise sess)) src buf (sv_session sess) = (Inr frames, session'))"
proof (cases "parse_packet buf :: noise_error transport_error + packet")
  case (Inl err)
  then show ?thesis using assms by (simp add: server_handle_packet_def try_handle_packet_def)
next
  case (Inr p)
  show ?thesis
  proof (cases p)
    case (PHandshake sid body)
    then have "server_handle_handshake e src sid body c = (Inr out, c')"
      using assms Inr by (auto simp: server_handle_packet_def try_handle_packet_def split: sum.splits prod.splits)
    from handshake_out [OF this assms(2)] show ?thesis
      using Inr PHandshake handshake_length [of buf sid body] by auto
  next
    case (PTransport sid nonce body)
    then show ?thesis
      using assms Inr
      by (auto simp: server_handle_packet_def try_handle_packet_def server_handle_transport_def
          split: option.splits sum.splits prod.splits bind_splits)
  qed
qed

theorem answers_are_earned_witness:
  "case (parse_packet demo_init :: noise_error transport_error + packet) of
      Inl err \<Rightarrow> False
    | Inr (PHandshake sid body) \<Rightarrow> bt_get (sc_sessions demo_server) sid = None \<and>
        (\<exists>reply. [(9, build_handshake_packet demo_sid (replicate 32 2 @ [49]))] = [(9 :: nat, reply)]) \<and>
        (bt_get (sc_pending demo_server) sid = None \<longrightarrow> MIN_HANDSHAKE_INIT \<le> length demo_init)
    | Inr (PTransport sid nonce body) \<Rightarrow> (\<exists>sess frames session'. bt_get (sc_sessions demo_server) sid = Some sess \<and>
        open_packet (noise_decrypt (se_snow demo_env) (sv_noise sess)) 9 demo_init (sv_session sess) = (Inr frames, session'))"
  by (rule answers_are_earned [OF demo_first]) simp


section \<open>What a forged datagram does\<close>

lemma bt_insert_remove: "bt_ok m \<Longrightarrow> bt_get m k = Some v \<Longrightarrow> bt_insert k v (bt_remove k m) = m"
proof (induction m)
  case (Cons p m)
  obtain a w where p: "p = (a, w)" by (cases p)
  show ?case
  proof (cases "k = a")
    case True
    then show ?thesis using Cons.prems p by (cases m) (auto split: prod.splits)
  next
    case False
    then have "(k, v) \<in> set m" using Cons.prems p by (auto dest: bt_get_SomeD)
    then have "a < k" using Cons.prems(1) p by auto
    then show ?thesis using False Cons p by auto
  qed
qed simp

lemma bt_insert_same: "bt_ok m \<Longrightarrow> bt_get m k = Some v \<Longrightarrow> bt_insert k v m = m"
proof (induction m)
  case (Cons p m)
  then show ?case by (cases p) (auto dest!: bt_get_SomeD split: if_splits)
qed simp

text \<open>What makes a datagram a forgery, for a server in state \<open>c\<close>: no parse, a handshake message that
  the Noise state it would continue rejects, a transport packet without session or one that does
  not decrypt.\<close>

definition forged :: "('s, 't, 'y, 'p) server_env \<Rightarrow> bytes \<Rightarrow> ('s, 't, 'y, 'p, 'a) server_core \<Rightarrow> bool" where
  "forged e buf c \<longleftrightarrow>
     (case (parse_packet buf :: noise_error transport_error + packet) of
        Inl _ \<Rightarrow> True
      | Inr (PHandshake sid body) \<Rightarrow>
          (case bt_get (sc_pending c) sid of
             Some h \<Rightarrow> (case hk_hs h of Some hs \<Rightarrow> isl (fst (read_message (se_snow e) body hs)) | None \<Rightarrow> True)
           | None \<Rightarrow> length buf < MIN_HANDSHAKE_INIT)
      | Inr (PTransport sid nonce body) \<Rightarrow>
          (case bt_get (sc_sessions c) sid of
             Some s \<Rightarrow> isl (noise_decrypt (se_snow e) (sv_noise s) nonce body)
           | None \<Rightarrow> True))"

lemma failed_read_keeps:
  assumes "\<And>m b hs err hs'. sn_read sn m b hs = (Inl err, hs') \<Longrightarrow> hs' = hs"
    and "case hk_hs h of Some hs \<Rightarrow> isl (fst (read_message sn body hs)) | None \<Rightarrow> True"
  shows "\<exists>err. handshaker_read sn body h = (Inl err, h)"
proof (cases "hk_hs h")
  case (Some hs)
  then obtain err where "sn_read sn body (length body + 256) hs = (Inl err, hs)"
    using assms by (cases "sn_read sn body (length body + 256) hs") (auto simp: read_message_def map_err_def split: sum.splits)
  then show ?thesis using Some by (auto simp: handshaker_read_def read_message_def map_err_def)
qed (simp add: handshaker_read_def)

text \<open>C14: forged datagrams are harmless. With a Noise library whose failed reads leave the handshake
  state as it was, a datagram that does not parse, that an ongoing handshake rejects, that does not
  decrypt, that is for an unknown session, or that starts a handshake below the padding floor, is
  not answered and leaves the whole server state unchanged: it cannot even kill a handshake
  whose id it copied.\<close>

theorem forged_datagram_harmless:
  assumes "\<And>m b hs err hs'. sn_read (se_snow e) m b hs = (Inl err, hs') \<Longrightarrow> hs' = hs"
    and "server_inv (se_snow e) c" "forged e buf c"
  shows "server_handle_packet e src buf c = Some ([], c)"
proof (cases "parse_packet buf :: noise_error transport_error + packet")
  case (Inl err)
  then show ?thesis by (simp add: server_handle_packet_def try_handle_packet_def)
next
  case (Inr p)
  show ?thesis
  proof (cases p)
    case (PHandshake sid body)
    have "server_handle_handshake e src sid body c = (Inr [], c)"
    proof (cases "bt_get (sc_pending c) sid")
      case None
      then show ?thesis
        using assms(3) Inr PHandshake handshake_length [of buf sid body]
        by (auto simp: server_handle_handshake_def forged_def)
    next
      case (Some h)
      then have "case hk_hs h of Some hs \<Rightarrow> isl (fst (read_message (se_snow e) body hs)) | None \<Rightarrow> True"
        using assms(3) Inr PHandshake by (simp add: forged_def)
      then have "\<exists>err. handshaker_read (se_snow e) body h = (Inl err, h)"
        by (rule failed_read_keeps [rotated]) (rule assms(1))
      then obtain err where "handshaker_read (se_snow e) body h = (Inl err, h)" ..
      moreover have "bt_insert sid h (bt_remove sid (sc_pending c)) = sc_pending c"
        using assms(2) Some by (simp add: server_inv_def bt_insert_remove)
      ultimately show ?thesis using Some by (simp add: server_handle_handshake_def handshake_step_def)
    qed
    then show ?thesis using Inr PHandshake by (simp add: server_handle_packet_def try_handle_packet_def)
  next
    case (PTransport sid nonce body)
    then show ?thesis
      using assms(2,3) Inr
      by (auto simp: forged_def server_handle_packet_def try_handle_packet_def server_handle_transport_def
          open_packet_def server_inv_def sess_ok_def bt_insert_same split: option.splits sum.splits)
  qed
qed


text \<open>A library that rejects messages too short to hold a key.\<close>

definition picky_env :: "(nat \<times> bytes \<times> bytes option, unit, nat, unit) server_env" where
  "picky_env = demo_env\<lparr>se_snow := toy_snow\<lparr>sn_read := \<lambda>m b s.
     if length m < 32 then (Inl ''short'', s) else sn_read toy_snow m b s\<rparr>\<rparr>"

definition forged_packet :: bytes where
  "forged_packet = build_handshake_packet demo_sid [1, 2, 3]"

theorem forged_datagram_harmless_witness:
  "let c = demo_server\<lparr>sc_pending := [(demo_sid, demo_pending)]\<rparr> in
   server_handle_packet picky_env 7 forged_packet c = Some ([], c)"
proof -
  let ?c = "demo_server\<lparr>sc_pending := [(demo_sid, demo_pending)]\<rparr>"
  have "server_handle_packet picky_env 7 forged_packet ?c = Some ([], ?c)"
  proof (rule forged_datagram_harmless)
    fix m b hs err hs' assume "sn_read (se_snow picky_env) m b hs = (Inl err, hs')"
    then show "hs' = hs" by (auto simp: picky_env_def toy_snow_def split: if_splits prod.splits)
  next
    show "server_inv (se_snow picky_env) ?c"
      by (simp add: server_inv_def demo_defs MAX_PENDING_HANDSHAKES_def pend_ok_def hk_ok_def demo_sid_def)
    have "parse_packet forged_packet = (Inr (PHandshake demo_sid [1, 2, 3]) :: noise_error transport_error + packet)"
      by (simp add: forged_packet_def parse_handshake demo_sid_def)
    then show "forged picky_env forged_packet ?c"
      by (simp add: forged_def demo_pending_def picky_env_def read_message_def map_err_def)
  qed
  then show ?thesis by simp
qed


section \<open>Where running shells go\<close>

lemma handshake_cases:
  assumes "server_handle_handshake e src sid body c = (r, c')"
  obtains (same) "sc_sessions c' = sc_sessions c"
  | (new) d key session noise where "bt_get (sc_sessions c) sid = None" "sc_sessions d = sc_sessions c"
      "authorize_client (sc_authorized c) key" "c' = establish e sid key session noise d"
proof -
  have step: "sc_sessions x = sc_sessions d \<or> (\<exists>key session noise. authorize_client (sc_authorized d) key \<and>
      x = establish e sid key session noise d)"
    if "handshake_step e src sid body hs w d = (r, x)" for hs w x d
    using that by (auto simp: handshake_step_def Let_def split: prod.splits sum.splits option.splits if_splits)
  show thesis
    using assms step same new [of c] new [of "c\<lparr>sc_pending := bt_remove sid (sc_pending c)\<rparr>"]
    by (fastforce simp: server_handle_handshake_def split: if_splits option.splits sum.splits)
qed

text \<open>C16: a running shell stays with its key, and nobody else's session is touched. A handshake datagram leaves the sessions as they
  are, or adds exactly one, under its own id and for an authorized key. If no live session of that key has a shell or a
  terminal, all sessions of before are still there, unchanged, and the new one has neither. Otherwise the new one takes
  both, with the window size, from one such session, which is then gone; all others are still there, unchanged.
  (The hash map must be iterated over all its keys.)\<close>

theorem shell_stays_with_key:
  assumes "server_inv (se_snow e) c" "server_handle_handshake e src sid body c = (r, c')"
    and "set (se_iter e (bt_keys (sc_sessions c))) = set (bt_keys (sc_sessions c))"
  shows "sc_sessions c' = sc_sessions c \<or>
    (\<exists>new. bt_get (sc_sessions c) sid = None \<and> authorize_client (sc_authorized c) (sv_key new) \<and>
      (sv_shell new = None \<and> sv_pty new = None \<and>
       \<not> (\<exists>k s. bt_get (sc_sessions c) k = Some s \<and> sv_key s = sv_key new \<and> sv_exit s = None \<and> (sv_shell s \<noteq> None \<or> sv_pty s \<noteq> None)) \<and>
       (\<forall>k. bt_get (sc_sessions c') k = (if k = sid then Some new else bt_get (sc_sessions c) k)) \<or>
       (\<exists>old_sid old. bt_get (sc_sessions c) old_sid = Some old \<and> sv_key old = sv_key new \<and> sv_exit old = None \<and>
          (sv_shell old \<noteq> None \<or> sv_pty old \<noteq> None) \<and> sv_pty new = sv_pty old \<and>
          sv_shell new = map_option rebind_to_new_client (sv_shell old) \<and> sv_rows new = sv_rows old \<and> sv_cols new = sv_cols old \<and>
          (\<forall>k. bt_get (sc_sessions c') k = (if k = sid then Some new else if k = old_sid then None else bt_get (sc_sessions c) k)))))"
  using assms(2)
proof (cases rule: handshake_cases)
  case same
  then show ?thesis by simp
next
  case (new d key session noise)
  have ok: "bt_ok (sc_sessions d)" "bt_get (sc_sessions d) sid = None"
    using assms(1) new(1,2) by (simp_all add: server_inv_def)
  let ?plain = "server_session_new session noise key"
  have plain: "sv_key ?plain = key" "sv_shell ?plain = None" "sv_pty ?plain = None" by (simp_all add: server_session_new_def)
  from ok show ?thesis
  proof (cases rule: establish_sessions [where e = e and key = key and session = session and noise = noise])
    case fresh
    have "\<not> reattachable key s" if "bt_get (sc_sessions c) k = Some s" for k s
    proof -
      have "k \<in> set (bt_keys (sc_sessions c))" using that by (force simp: bt_keys_def dest: bt_get_SomeD)
      then show ?thesis using fresh(2) that assms(3) unfolding find_existing_def new(2) by (auto simp: find_None_iff)
    qed
    then have "\<not> (\<exists>k s. bt_get (sc_sessions c) k = Some s \<and> sv_key s = sv_key ?plain \<and> sv_exit s = None \<and> (sv_shell s \<noteq> None \<or> sv_pty s \<noteq> None))"
      by (auto simp: reattachable_def plain)
    moreover have "\<forall>k. bt_get (sc_sessions c') k = (if k = sid then Some ?plain else bt_get (sc_sessions c) k)"
      using fresh(1) new(2,4) by simp
    moreover have "authorize_client (sc_authorized c) (sv_key ?plain)" using new(3) unfolding plain(1) .
    ultimately show ?thesis using new(1) plain(2,3) by (intro disjI2 exI [of _ ?plain]) blast
  next
    case (moved old_sid old)
    let ?new = "?plain\<lparr>sv_shell := map_option rebind_to_new_client (sv_shell old), sv_pty := sv_pty old, sv_rows := sv_rows old, sv_cols := sv_cols old\<rparr>"
    have "bt_get (sc_sessions c') k = (if k = sid then Some ?new else if k = old_sid then None else bt_get (sc_sessions c) k)" for k
      using moved(4) ok(1) new(2,4) by (simp add: bt_get_remove)
    moreover have "bt_get (sc_sessions c) old_sid = Some old" using moved(1) new(2) by simp
    moreover have "authorize_client (sc_authorized c) (sv_key ?new)" "sv_key old = sv_key ?new" "sv_exit old = None"
      "sv_shell old \<noteq> None \<or> sv_pty old \<noteq> None" "sv_pty ?new = sv_pty old" "sv_shell ?new = map_option rebind_to_new_client (sv_shell old)"
      "sv_rows ?new = sv_rows old" "sv_cols ?new = sv_cols old"
      using new(3) moved(3) by (auto simp: reattachable_def server_session_new_def)
    ultimately show ?thesis using new(1) by blast
  qed
qed


text \<open>A client that comes back under a new id while its shell runs.\<close>

definition demo_old :: "(unit, nat, unit, nat) server_session" where
  "demo_old = demo_session\<lparr>sv_pty := Some 3, sv_rows := 40, sv_cols := 100\<rparr>"

definition demo_sid2 :: bytes where
  "demo_sid2 = replicate 8 6"

definition demo_back :: "(nat \<times> bytes \<times> bytes option, unit, nat, unit, nat) server_core" where
  "demo_back = demo_server\<lparr>sc_pending := [(demo_sid2, demo_pending\<lparr>hk_sid := demo_sid2\<rparr>)], sc_sessions := [(demo_sid, demo_old)]\<rparr>"

definition demo_moved :: "(unit, nat, unit, nat) server_session" where
  "demo_moved = (server_session_new (session_new demo_sid2 (Some 9)) \<lparr>ns_transport = (), ns_remote = demo_key\<rparr> demo_key)
     \<lparr>sv_pty := Some 3, sv_rows := 40, sv_cols := 100\<rparr>"

lemma demo_sids: "demo_sid2 \<noteq> demo_sid" "demo_sid \<noteq> demo_sid2" "\<not> demo_sid2 < demo_sid"
proof -
  have "replicate 8 x = x # replicate 7 x" for x :: u8 by (simp add: eval_nat_numeral)
  then show "demo_sid2 \<noteq> demo_sid" "demo_sid \<noteq> demo_sid2" "\<not> demo_sid2 < demo_sid"
    by (simp_all add: demo_sid_def demo_sid2_def)
qed

lemma demo_back_handshake:
  "server_handle_handshake demo_env 9 demo_sid2 demo_key demo_back =
    (Inr [], demo_back\<lparr>sc_pending := [], sc_sessions := [(demo_sid2, demo_moved)], sc_ever_active := True\<rparr>)"
  by (simp add: server_handle_handshake_def demo_back_def demo_old_def demo_moved_def demo_sids demo_defs server_session_new_def
      handshake_step_def handshaker_read_def read_message_def note_payload_def map_err_def rbind_def
      hk_remote_static_def authorize_client_def key_from_bytes_def KEY_LEN_def ak_contains_def
      into_session_def into_transport_def establish_def find_existing_def bt_keys_def reattachable_def)

lemma demo_back_inv: "server_inv (se_snow demo_env) demo_back"
  by (simp add: server_inv_def demo_back_def demo_old_def demo_sids demo_defs MAX_PENDING_HANDSHAKES_def pend_ok_def hk_ok_def
      sess_ok_def server_session_new_def session_new_def authorize_client_def key_from_bytes_def KEY_LEN_def ak_contains_def)

theorem shell_stays_with_key_witness:
  "let c = demo_back; c' = demo_back\<lparr>sc_pending := [], sc_sessions := [(demo_sid2, demo_moved)], sc_ever_active := True\<rparr> in
   \<exists>new. authorize_client (sc_authorized c) (sv_key new) \<and>
     (\<exists>old_sid old. bt_get (sc_sessions c) old_sid = Some old \<and> sv_key old = sv_key new \<and> sv_pty new = sv_pty old \<and>
        (\<forall>k. bt_get (sc_sessions c') k = (if k = demo_sid2 then Some new else if k = old_sid then None else bt_get (sc_sessions c) k)))"
proof -
  let ?c' = "demo_back\<lparr>sc_pending := [], sc_sessions := [(demo_sid2, demo_moved)], sc_ever_active := True\<rparr>"
  have iter: "set (se_iter demo_env (bt_keys (sc_sessions demo_back))) = set (bt_keys (sc_sessions demo_back))" by (simp add: demo_defs)
  have changed: "sc_sessions ?c' \<noteq> sc_sessions demo_back" by (simp add: demo_back_def demo_sids)
  have gone: "\<not> (\<forall>k. bt_get (sc_sessions ?c') k = (if k = demo_sid2 then Some new else bt_get (sc_sessions demo_back) k))" for new
    by (intro notI, drule spec [of _ demo_sid]) (simp add: demo_back_def demo_sids)
  show ?thesis
    using shell_stays_with_key [OF demo_back_inv demo_back_handshake iter] changed gone unfolding Let_def by blast
qed

end
