(* ===== verification/ServerLife.thy ===== *)
theory ServerLife
  imports ServerReply
begin

text \<open>
  The life of a session on the server: what a terminal prints reaches the emulator, a silent or finished
  session is reclaimed after a bounded number of ticks, and a handshake that is never completed
  occupies its slot for ever.
\<close>

section \<open>Draining a terminal\<close>

text \<open>A shell whose screen is well formed and wide enough for what it may print.\<close>

definition shell_ok :: "(nat \<Rightarrow> nat) \<Rightarrow> 'p server_shell \<Rightarrow> bool" where
  "shell_ok width sh \<longleftrightarrow> grid_wf (ss_screen sh) \<and> wide_ok width (g_cols (ss_screen sh))"

lemma perform_all:
  assumes "grid_wf g" "wide_ok width (g_cols g)"
  shows "\<exists>g'. opt_fold (perform width) evs g = Some g' \<and> grid_wf g' \<and> wide_ok width (g_cols g')"
  using assms
proof (induction evs arbitrary: g)
  case (Cons ev evs)
  then obtain g1 where "perform width ev g = Some g1" "grid_wf g1" "wide_ok width (g_cols g1)"
    using term_step_ok [of g width "OpEvent ev"] by auto
  then show ?case using Cons.IH by simp
qed simp

text \<open>What is said between a terminal and the emulator: \<open>heard e p g y bss p' g' y'\<close> when, from a parser state, a screen and a terminal,
  successive reads give the chunks \<open>bss\<close>, each is parsed, its events are performed on the screen one after the other, and what the
  screen then wants to answer is written to the terminal before the next read.\<close>

inductive heard :: "('s, 't, 'y, 'p) server_env \<Rightarrow> 'p \<Rightarrow> grid \<Rightarrow> 'y \<Rightarrow> bytes list \<Rightarrow> 'p \<Rightarrow> grid \<Rightarrow> 'y \<Rightarrow> bool" for e where
  heard_nothing: "heard e p g y [] p g y"
| heard_chunk: "py_read (se_pty e) 8192 y = (Some bs, y1) \<Longrightarrow> se_vte e p bs = (evs, p1) \<Longrightarrow> opt_fold (perform (se_width e)) evs g = Some g1 \<Longrightarrow>
    heard e p1 (g1\<lparr>responses := []\<rparr>) (if responses g1 = [] then y1 else py_write (se_pty e) (responses g1) y1) bss p' g' y' \<Longrightarrow>
    heard e p g y (bs # bss) p' g' y'"

definition hears :: "nat \<Rightarrow> ('s, 't, 'y, 'p) server_env \<Rightarrow> 'p \<Rightarrow> grid \<Rightarrow> 'y \<Rightarrow> bool" where
  "hears n e p g y \<longleftrightarrow> (\<exists>bss p' g' y'. length bss = n \<and> heard e p g y bss p' g' y')"

lemma feed_chunk_step:
  assumes "grid_wf g" "wide_ok (se_width e) (g_cols g)"
  shows "\<exists>evs p1 g1. se_vte e p bs = (evs, p1) \<and> opt_fold (perform (se_width e)) evs g = Some g1 \<and>
    grid_wf (g1\<lparr>responses := []\<rparr>) \<and> wide_ok (se_width e) (g_cols (g1\<lparr>responses := []\<rparr>)) \<and>
    feed_chunk e bs (Some (sh\<lparr>ss_term := \<lparr>parser = p, tgrid = g\<rparr>\<rparr>), y) =
      Some (Some (sh\<lparr>ss_term := \<lparr>parser = p1, tgrid = g1\<lparr>responses := []\<rparr>\<rparr>\<rparr>),
            if responses g1 = [] then y else py_write (se_pty e) (responses g1) y)"
proof -
  obtain evs p1 where v: "se_vte e p bs = (evs, p1)" by fastforce
  obtain g1 where g1: "opt_fold (perform (se_width e)) evs g = Some g1" "grid_wf g1" "wide_ok (se_width e) (g_cols g1)"
    using perform_all [OF assms] by blast
  have "feed_output (se_vte e) (se_width e) bs (sh\<lparr>ss_term := \<lparr>parser = p, tgrid = g\<rparr>\<rparr>) = Some (sh\<lparr>ss_term := \<lparr>parser = p1, tgrid = g1\<rparr>\<rparr>)"
    using v g1(1) by (simp add: feed_output_def terminal_advance_def)
  then show ?thesis
    using v g1 by (auto simp: feed_chunk_def shell_take_responses_def take_responses_def ss_screen_def grid_wf_def)
qed

text \<open>The loop that drains a terminal, as long as some read finds nothing.\<close>

lemma drain_heard:
  assumes "\<not> hears n e p g y" "grid_wf g" "wide_ok (se_width e) (g_cols g)"
  shows "\<exists>bss p' g' y1 y'. heard e p g y bss p' g' y1 \<and> py_read (se_pty e) 8192 y1 = (None, y') \<and> grid_wf g' \<and> wide_ok (se_width e) (g_cols g') \<and>
    drain_pty e (Some (sh\<lparr>ss_term := \<lparr>parser = p, tgrid = g\<rparr>\<rparr>), y) = Some (Some (sh\<lparr>ss_term := \<lparr>parser = p', tgrid = g'\<rparr>\<rparr>), y')"
  using assms
proof (induction n arbitrary: p g y)
  case 0
  have "hears 0 e p g y" unfolding hears_def using heard_nothing [of e p g y] by (metis list.size(3))
  then show ?case using 0(1) by contradiction
next
  case (Suc n)
  obtain r y1 where rd: "py_read (se_pty e) 8192 y = (r, y1)" by fastforce
  show ?case
  proof (cases r)
    case None
    then have "drain_pty e (Some (sh\<lparr>ss_term := \<lparr>parser = p, tgrid = g\<rparr>\<rparr>), y) = Some (Some (sh\<lparr>ss_term := \<lparr>parser = p, tgrid = g\<rparr>\<rparr>), y1)"
      using rd by (subst drain_pty.simps) simp
    then show ?thesis using rd None Suc.prems(2,3) heard_nothing [of e p g y] by blast
  next
    case (Some bs)
    obtain evs p1 g1 where c: "se_vte e p bs = (evs, p1)" "opt_fold (perform (se_width e)) evs g = Some g1"
      "grid_wf (g1\<lparr>responses := []\<rparr>)" "wide_ok (se_width e) (g_cols (g1\<lparr>responses := []\<rparr>))"
      "feed_chunk e bs (Some (sh\<lparr>ss_term := \<lparr>parser = p, tgrid = g\<rparr>\<rparr>), y1) =
        Some (Some (sh\<lparr>ss_term := \<lparr>parser = p1, tgrid = g1\<lparr>responses := []\<rparr>\<rparr>\<rparr>), if responses g1 = [] then y1 else py_write (se_pty e) (responses g1) y1)"
      using feed_chunk_step [OF Suc.prems(2,3)] by blast
    let ?g = "g1\<lparr>responses := []\<rparr>" and ?y = "if responses g1 = [] then y1 else py_write (se_pty e) (responses g1) y1"
    note chunk = heard_chunk [OF rd [unfolded Some] c(1,2)]
    have "\<not> hears n e p1 ?g ?y"
    proof
      assume "hears n e p1 ?g ?y"
      then obtain bss p' g' y' where "length bss = n" "heard e p1 ?g ?y bss p' g' y'" unfolding hears_def by blast
      then have "length (bs # bss) = Suc n" "heard e p g y (bs # bss) p' g' y'" using chunk by simp_all
      then show False using Suc.prems(1) unfolding hears_def by blast
    qed
    from Suc.IH [OF this c(3,4)] obtain bss p' g' y2 y' where IH: "heard e p1 ?g ?y bss p' g' y2" "py_read (se_pty e) 8192 y2 = (None, y')"
      "grid_wf g'" "wide_ok (se_width e) (g_cols g')"
      "drain_pty e (Some (sh\<lparr>ss_term := \<lparr>parser = p1, tgrid = ?g\<rparr>\<rparr>), ?y) = Some (Some (sh\<lparr>ss_term := \<lparr>parser = p', tgrid = g'\<rparr>\<rparr>), y')" by blast
    have "drain_pty e (Some (sh\<lparr>ss_term := \<lparr>parser = p, tgrid = g\<rparr>\<rparr>), y) = drain_pty e (Some (sh\<lparr>ss_term := \<lparr>parser = p1, tgrid = ?g\<rparr>\<rparr>), ?y)"
      using rd Some c(5) by (subst drain_pty.simps) simp
    then show ?thesis using chunk [OF IH(1)] IH(2-5) by metis
  qed
qed


text \<open>A terminal with two chunks waiting.\<close>

definition busy_env :: "(nat \<times> bytes \<times> bytes option, unit, nat, unit) server_env" where
  "busy_env = demo_env\<lparr>se_pty := demo_pty\<lparr>py_read := \<lambda>n y. if y = 0 then (None, 0) else (Some [104, 105], y - 1)\<rparr>,
     se_vte := \<lambda>p bs. (map (\<lambda>b. EvPrint (unat b)) bs, p)\<rparr>"

definition busy_session :: "(unit, nat, unit, nat) server_session" where
  "busy_session = demo_session\<lparr>sv_pty := Some 2, sv_shell := Some (server_shell_new () 24 80)\<rparr>"

lemma busy_hears: "heard busy_env p g y bss p' g' y' \<Longrightarrow> length bss + y' \<le> y"
  by (induction rule: heard.induct) (auto simp: busy_env_def demo_pty_def split: if_splits)

lemma busy_pauses: "\<not> hears (Suc y) busy_env p g y"
  unfolding hears_def using busy_hears by fastforce



section \<open>Silent and finished sessions are reclaimed\<close>

text \<open>How many more ticks a session can last without hearing from its client.\<close>

definition ttl :: "('t, 'y, 'p, 'a) server_session \<Rightarrow> nat" where
  "ttl s = (if sv_exit s = None then (IDLE_REAP_TICKS - sv_idle s) + EXIT_RETRANSMIT_TICKS
            else EXIT_RETRANSMIT_TICKS - sv_exit_ticks s)"

definition live_ok :: "(nat \<Rightarrow> nat) \<Rightarrow> ('t, 'y, 'p, 'a) server_session \<Rightarrow> bool" where
  "live_ok width s \<longleftrightarrow> pred_option (shell_ok width) (sv_shell s) \<and> sv_exit_ticks s < EXIT_RETRANSMIT_TICKS"

text \<open>The fields the timers depend on, which the steps before the exit notice leave alone.\<close>

definition life :: "('t, 'y, 'p, 'a) server_session \<Rightarrow> nat \<times> u32 option \<times> nat" where
  "life s = (sv_idle s, sv_exit s, sv_exit_ticks s)"

lemma seal_session_rest: "life (snd (seal_session e fs s)) = life s" "sv_shell (snd (seal_session e fs s)) = sv_shell s"
  by (auto simp: seal_session_def life_def split: option.splits sum.splits prod.splits)

lemma announce_rest: "life (snd (announce_version e s)) = life s" "sv_shell (snd (announce_version e s)) = sv_shell s"
  using seal_session_rest [of e "[Control (control_encode (CServerVersion (se_version e)))]" s]
  by (auto simp: announce_version_def life_def split: prod.splits)

lemma streams_rest:
  "life (snd (snd (emit_streams e s))) = life s" "sv_shell (snd (snd (emit_streams e s))) = sv_shell s"
  by (auto simp: emit_streams_def life_def Let_def split: option.splits sum.splits prod.splits)

lemma poll_diff_screen: "poll_diff sh = (f, sh') \<Longrightarrow> ss_screen sh' = ss_screen sh"
  by (auto simp: poll_diff_def note_screen_def ss_screen_def Let_def split: if_splits prod.splits)

lemma diff_rest:
  "life (snd (emit_diff e s)) = life s"
  "pred_option (shell_ok w) (sv_shell s) \<Longrightarrow> pred_option (shell_ok w) (sv_shell (snd (emit_diff e s)))"
  using seal_session_rest [of e _ "s\<lparr>sv_shell := _\<rparr>"]
  by (auto simp: emit_diff_def Let_def life_def shell_ok_def split: option.splits prod.splits dest!: poll_diff_screen)

text \<open>What is relied on of the terminals: whenever the server reads one, some read finds nothing, with the answers of the emulator
  written in between and also without any.\<close>

definition output_pauses :: "('s, 't, 'y, 'p) server_env \<Rightarrow> bool" where
  "output_pauses e \<longleftrightarrow> (\<forall>p g y. \<exists>n. \<not> hears n e p g y) \<and>
     (\<forall>y. \<exists>n. fst (py_read (se_pty e) 8192 (((\<lambda>y. snd (py_read (se_pty e) 8192 y)) ^^ n) y)) = None)"

lemma drain_unheard:
  "fst (py_read (se_pty e) 8192 (((\<lambda>y. snd (py_read (se_pty e) 8192 y)) ^^ n) y)) = None \<Longrightarrow> \<exists>y'. drain_pty e (None, y) = Some (None, y')"
proof (induction n arbitrary: y)
  case 0
  then show ?case by (subst drain_pty.simps) (auto split: prod.splits)
next
  case (Suc n)
  obtain r y1 where rd: "py_read (se_pty e) 8192 y = (r, y1)" by fastforce
  have "fst (py_read (se_pty e) 8192 (((\<lambda>y. snd (py_read (se_pty e) 8192 y)) ^^ n) y1)) = None"
    using Suc.prems rd unfolding funpow_Suc_right comp_def by simp
  then have "\<exists>y'. drain_pty e (None, y1) = Some (None, y')" by (rule Suc.IH)
  then show ?case using rd by (subst drain_pty.simps) (auto simp: feed_chunk_def split: option.splits)
qed

lemma drain_ok:
  assumes "output_pauses e" "pred_option (shell_ok (se_width e)) shell"
  shows "\<exists>shell' pty'. drain_pty e (shell, pty) = Some (shell', pty') \<and> pred_option (shell_ok (se_width e)) shell'"
proof (cases shell)
  case None
  obtain n where "fst (py_read (se_pty e) 8192 (((\<lambda>y. snd (py_read (se_pty e) 8192 y)) ^^ n) pty)) = None"
    using assms(1) unfolding output_pauses_def by blast
  from drain_unheard [OF this] show ?thesis using None by auto
next
  case (Some sh)
  obtain n where n: "\<not> hears n e (parser (ss_term sh)) (tgrid (ss_term sh)) pty" using assms(1) unfolding output_pauses_def by blast
  have ok: "grid_wf (tgrid (ss_term sh))" "wide_ok (se_width e) (g_cols (tgrid (ss_term sh)))"
    using assms(2) Some by (simp_all add: shell_ok_def ss_screen_def)
  have same: "sh\<lparr>ss_term := \<lparr>parser = parser (ss_term sh), tgrid = tgrid (ss_term sh)\<rparr>\<rparr> = sh" by simp
  show ?thesis using drain_heard [OF n ok, of sh] Some unfolding same by (fastforce simp: shell_ok_def ss_screen_def)
qed

lemma pump_rest:
  assumes "output_pauses e" "pred_option (shell_ok (se_width e)) (sv_shell s)"
  shows "\<exists>s'. pump_output e s = Some s' \<and> life s' = life s \<and> pred_option (shell_ok (se_width e)) (sv_shell s')"
  using drain_ok [OF assms, of "the (sv_pty s)"] assms(2)
  by (cases "sv_pty s") (auto simp: pump_output_def life_def)

lemma detect_rest:
  "sv_idle (detect_exit e s) = sv_idle s" "sv_exit_ticks (detect_exit e s) = sv_exit_ticks s"
  "sv_shell (detect_exit e s) = sv_shell s" "sv_exit s \<noteq> None \<Longrightarrow> sv_exit (detect_exit e s) = sv_exit s"
  by (auto simp: detect_exit_def split: option.splits prod.splits)

lemma emit_exit_rest:
  "sv_exit (snd (snd (emit_exit e s))) = sv_exit s" "sv_idle (snd (snd (emit_exit e s))) = sv_idle s"
  "sv_shell (snd (snd (emit_exit e s))) = sv_shell s"
  "sv_exit s = None \<Longrightarrow> sv_exit_ticks (snd (snd (emit_exit e s))) = sv_exit_ticks s"
  "sv_exit s \<noteq> None \<Longrightarrow> sv_exit_ticks (snd (snd (emit_exit e s))) = wrap32 (sv_exit_ticks s + 1)"
  "fst (snd (emit_exit e s)) \<longleftrightarrow> sv_exit s \<noteq> None \<and> EXIT_RETRANSMIT_TICKS \<le> wrap32 (sv_exit_ticks s + 1)"
  using seal_session_rest [of e _ s]
  by (auto simp: emit_exit_def life_def Let_def split: option.splits prod.splits) (metis prod.inject snd_conv)+


lemma tick_session_ttl:
  assumes "output_pauses e" "live_ok (se_width e) s"
  shows "\<exists>o1 evs fin s'. tick_session e s = Some (o1, evs, fin, s') \<and> (fin \<or> live_ok (se_width e) s' \<and> ttl s' < ttl s)"
proof -
  let ?s = "s\<lparr>sv_idle := saturating_add32 (sv_idle s) 1\<rparr>"
  have "pred_option (shell_ok (se_width e)) (sv_shell (snd (announce_version e ?s)))"
    using assms(2) by (simp add: live_ok_def announce_rest)
  then obtain s1 where s1: "pump_output e (snd (announce_version e ?s)) = Some s1" "life s1 = life ?s"
    "pred_option (shell_ok (se_width e)) (sv_shell s1)"
    using pump_rest [OF assms(1)] announce_rest(1) by metis
  define s2 where "s2 = snd (snd (emit_streams e (snd (emit_diff e s1))))"
  have s2: "life s2 = life ?s" "pred_option (shell_ok (se_width e)) (sv_shell s2)"
    using s1(2,3) by (simp_all add: s2_def streams_rest diff_rest)
  have "tick_session e s \<noteq> None" using s1(1) by (auto simp: tick_session_def Let_def case_prod_unfold)
  then obtain o1 evs fin s' where t: "tick_session e s = Some (o1, evs, fin, s')" by auto
  from t have "fin \<or> live_ok (se_width e) s' \<and> ttl s' < ttl s"
  proof (cases rule: tick_session_cases)
    case (ticked s1' s2')
    then have eq: "s' = snd (snd (emit_exit e (detect_exit e s2)))" "fin = fst (snd (emit_exit e (detect_exit e s2)))"
      using s1(1) by (simp_all add: s2_def)
    show ?thesis
      using assms(2) s2 ticked(1)
      by (cases "sv_exit s"; cases "sv_exit (detect_exit e s2)")
        (auto simp: eq emit_exit_rest detect_rest live_ok_def ttl_def life_def saturating_add32_def
          EXIT_RETRANSMIT_TICKS_def IDLE_REAP_TICKS_def two32_def)
  qed simp
  with t show ?thesis by blast
qed

text \<open>The sessions \<open>ks\<close> were ticked, from \<open>c\<close> to \<open>c'\<close>, and \<open>fin'\<close> are finished: the others are closer to
  their end.\<close>

definition ticked_to :: "(nat \<Rightarrow> nat) \<Rightarrow> bytes list \<Rightarrow> ('s, 't, 'y, 'p, 'a) server_core \<Rightarrow> bytes list \<Rightarrow>
    ('s, 't, 'y, 'p, 'a) server_core \<Rightarrow> bool" where
  "ticked_to width ks c fin' c' \<longleftrightarrow>
     (\<forall>k. k \<notin> set ks \<longrightarrow> bt_get (sc_sessions c') k = bt_get (sc_sessions c) k) \<and>
     (\<forall>k s'. k \<in> set ks \<longrightarrow> bt_get (sc_sessions c') k = Some s' \<longrightarrow> k \<in> set fin' \<or>
       (\<exists>s. bt_get (sc_sessions c) k = Some s \<and> live_ok width s' \<and> ttl s' < ttl s))"

lemma ticked_to_skip:
  assumes "ticked_to w ks c fin' c'" "bt_get (sc_sessions c) k = None" "k \<notin> set ks"
  shows "ticked_to w (k # ks) c fin' c'"
  using assms by (auto simp: ticked_to_def)

lemma ticked_to_step:
  assumes "ticked_to w ks (c\<lparr>sc_sessions := bt_insert k s1 (sc_sessions c)\<rparr>) fin' c'" "bt_get (sc_sessions c) k = Some s" "k \<notin> set ks"
    and "k \<in> set fin' \<or> live_ok w s1 \<and> ttl s1 < ttl s"
  shows "ticked_to w (k # ks) c fin' c'"
  unfolding ticked_to_def
proof (intro conjI allI impI)
  fix k' s' assume k': "k' \<in> set (k # ks)" "bt_get (sc_sessions c') k' = Some s'"
  show "k' \<in> set fin' \<or> (\<exists>s. bt_get (sc_sessions c) k' = Some s \<and> live_ok w s' \<and> ttl s' < ttl s)"
  proof (cases "k' = k")
    case True
    then show ?thesis using k' assms by (auto simp: ticked_to_def)
  next
    case False
    then have "k' \<in> set ks" using k' by simp
    then have "k' \<in> set fin' \<or>
      (\<exists>s. bt_get (sc_sessions (c\<lparr>sc_sessions := bt_insert k s1 (sc_sessions c)\<rparr>)) k' = Some s \<and> live_ok w s' \<and> ttl s' < ttl s)"
      using k'(2) assms(1) unfolding ticked_to_def by blast
    then show ?thesis using False by simp
  qed
qed (use assms(1) in \<open>auto simp: ticked_to_def\<close>)

lemma tick_fold_ttl:
  assumes "output_pauses e" "distinct ks"
    and "\<And>k s. k \<in> set ks \<Longrightarrow> bt_get (sc_sessions c) k = Some s \<Longrightarrow> live_ok (se_width e) s"
  shows "\<exists>out' fin' evs' c'. opt_fold (tick_one e) ks (out, fin, evs, c) = Some (out', fin', evs', c') \<and>
    set fin \<subseteq> set fin' \<and> ticked_to (se_width e) ks c fin' c'"
  using assms(2,3)
proof (induction ks arbitrary: out fin evs c)
  case (Cons k ks)
  show ?case
  proof (cases "bt_get (sc_sessions c) k")
    case None
    have "\<exists>out' fin' evs' c'. opt_fold (tick_one e) ks (out, fin, evs, c) = Some (out', fin', evs', c') \<and>
        set fin \<subseteq> set fin' \<and> ticked_to (se_width e) ks c fin' c'"
      by (rule Cons.IH) (use Cons.prems in auto)
    moreover have "tick_one e k (out, fin, evs, c) = Some (out, fin, evs, c)" by (simp add: tick_one_def None)
    ultimately show ?thesis using None Cons.prems(1) by (auto intro: ticked_to_skip)
  next
    case (Some s)
    then obtain o1 ev1 f1 s1 where t: "tick_session e s = Some (o1, ev1, f1, s1)" "f1 \<or> live_ok (se_width e) s1 \<and> ttl s1 < ttl s"
      using tick_session_ttl [OF assms(1)] Cons.prems(2) by (metis list.set_intros(1))
    let ?c = "c\<lparr>sc_sessions := bt_insert k s1 (sc_sessions c)\<rparr>"
    let ?f = "if f1 then fin @ [k] else fin"
    let ?o = "out @ o1" and ?e = "evs @ map (\<lambda>ev. (k, ev)) ev1"
    have "\<exists>out' fin' evs' c'. opt_fold (tick_one e) ks (?o, ?f, ?e, ?c) = Some (out', fin', evs', c') \<and>
        set ?f \<subseteq> set fin' \<and> ticked_to (se_width e) ks ?c fin' c'"
      by (rule Cons.IH) (use Cons.prems in \<open>auto split: if_splits\<close>)
    then obtain out' fin' evs' c' where r: "opt_fold (tick_one e) ks (?o, ?f, ?e, ?c) = Some (out', fin', evs', c')"
      "set ?f \<subseteq> set fin'" "ticked_to (se_width e) ks ?c fin' c'" by blast
    have "tick_one e k (out, fin, evs, c) = Some (?o, ?f, ?e, ?c)"
      using Some t(1) by (simp add: tick_one_def)
    then have "opt_fold (tick_one e) (k # ks) (out, fin, evs, c) = Some (out', fin', evs', c')" using r(1) by simp
    moreover have "ticked_to (se_width e) (k # ks) c fin' c'"
      by (rule ticked_to_step [OF r(3) Some]) (use t(2) r(2) Cons.prems(1) in auto)
    moreover have "set fin \<subseteq> set fin'" using r(2) by (auto split: if_splits)
    ultimately show ?thesis by blast
  qed
qed (simp add: ticked_to_def)

lemma server_tick_ttl:
  assumes "output_pauses e" "\<And>ks. distinct ks \<Longrightarrow> distinct (se_iter e ks) \<and> set (se_iter e ks) = set ks"
    and "bt_ok (sc_sessions c)" "\<And>k s. bt_get (sc_sessions c) k = Some s \<Longrightarrow> live_ok (se_width e) s"
  shows "\<exists>out c'. server_tick e c = Some (out, c') \<and> bt_ok (sc_sessions c') \<and> sc_pending c' = sc_pending c \<and>
    (\<forall>k s'. bt_get (sc_sessions c') k = Some s' \<longrightarrow>
       (\<exists>s. bt_get (sc_sessions c) k = Some s \<and> live_ok (se_width e) s' \<and> ttl s' < ttl s))"
proof -
  have "distinct (bt_keys (sc_sessions c))"
    using assms(3) by (simp add: bt_ok_def bt_keys_def strict_sorted_iff)
  then have it: "distinct (se_iter e (bt_keys (sc_sessions c)))" "set (se_iter e (bt_keys (sc_sessions c))) = fst ` set (sc_sessions c)"
    using assms(2) by (auto simp: bt_keys_def)
  have "\<exists>out fin evs c1. opt_fold (tick_one e) (se_iter e (bt_keys (sc_sessions c))) ([], [], [], c) = Some (out, fin, evs, c1) \<and>
      set [] \<subseteq> set fin \<and> ticked_to (se_width e) (se_iter e (bt_keys (sc_sessions c))) c fin c1"
    by (rule tick_fold_ttl [OF assms(1) it(1)]) (rule assms(4))
  then obtain out fin evs c1 where f: "opt_fold (tick_one e) (se_iter e (bt_keys (sc_sessions c))) ([], [], [], c) = Some (out, fin, evs, c1)"
    and dn: "ticked_to (se_width e) (se_iter e (bt_keys (sc_sessions c))) c fin c1" by blast
  let ?c = "c1\<lparr>sc_sessions := fold bt_remove fin (sc_sessions c1), sc_events := sc_events c1 @ evs\<rparr>"
  have t: "server_tick e c = Some (out, ?c)" using f by (simp add: server_tick_def)
  have k: "keeps c c1" by (rule keeps_tick_fold [OF f])
  then have ok: "bt_ok (sc_sessions c1)" "sc_pending c1 = sc_pending c" using assms(3) by (simp_all add: keeps_def)
  have "\<exists>s. bt_get (sc_sessions c) k = Some s \<and> live_ok (se_width e) s' \<and> ttl s' < ttl s"
    if "bt_get (sc_sessions ?c) k = Some s'" for k s'
    using that ok(1) dn bt_get_None_iff [of "sc_sessions c" k]
    by (cases "k \<in> fst ` set (sc_sessions c)") (auto simp: ticked_to_def it(2) bt_get_fold_remove split: if_splits)
  with t ok show ?thesis by auto
qed


text \<open>C23: a silent server forgets its sessions. From any state whose sessions have well-formed screens (wide enough for
  double-width characters) and exit notices that have not run out, if nothing is received any more then
  \<open>IDLE_REAP_TICKS + EXIT_RETRANSMIT_TICKS\<close> ticks all return, and after them no session is left, whatever the shells and
  streams were doing, provided that the output of every terminal pauses whenever it is read (and the hash map's iterator
  gives every key once); the pending handshakes, however, are exactly those of before.\<close>

theorem silent_sessions_reclaimed:
  assumes "output_pauses e" "\<And>ks. distinct ks \<Longrightarrow> distinct (se_iter e ks) \<and> set (se_iter e ks) = set ks"
    and "bt_ok (sc_sessions c)" "\<And>k s. bt_get (sc_sessions c) k = Some s \<Longrightarrow> live_ok (se_width e) s"
    and "IDLE_REAP_TICKS + EXIT_RETRANSMIT_TICKS \<le> n"
  shows "\<exists>c'. opt_fold (server_step e) (replicate n STick) c = Some c' \<and> sc_sessions c' = [] \<and> sc_pending c' = sc_pending c"
proof -
  have "\<exists>c'. opt_fold (server_step e) (replicate n STick) c = Some c' \<and> bt_ok (sc_sessions c') \<and> sc_pending c' = sc_pending c \<and>
      (\<forall>k s'. bt_get (sc_sessions c') k = Some s' \<longrightarrow>
         live_ok (se_width e) s' \<and> (\<exists>s. bt_get (sc_sessions c) k = Some s \<and> ttl s' + n \<le> ttl s))"
    using assms(3,4)
  proof (induction n arbitrary: c)
    case (Suc n)
    have "\<exists>out c1. server_tick e c = Some (out, c1) \<and> bt_ok (sc_sessions c1) \<and> sc_pending c1 = sc_pending c \<and>
      (\<forall>k s'. bt_get (sc_sessions c1) k = Some s' \<longrightarrow>
         (\<exists>s. bt_get (sc_sessions c) k = Some s \<and> live_ok (se_width e) s' \<and> ttl s' < ttl s))"
      by (rule server_tick_ttl [OF assms(1,2) Suc.prems])
    then obtain out c1 where c1: "server_tick e c = Some (out, c1)" "bt_ok (sc_sessions c1)" "sc_pending c1 = sc_pending c"
      "\<And>k s'. bt_get (sc_sessions c1) k = Some s' \<Longrightarrow> \<exists>s. bt_get (sc_sessions c) k = Some s \<and> live_ok (se_width e) s' \<and> ttl s' < ttl s"
      by blast
    have "\<exists>c'. opt_fold (server_step e) (replicate n STick) c1 = Some c' \<and> bt_ok (sc_sessions c') \<and> sc_pending c' = sc_pending c1 \<and>
      (\<forall>k s'. bt_get (sc_sessions c') k = Some s' \<longrightarrow>
         live_ok (se_width e) s' \<and> (\<exists>s. bt_get (sc_sessions c1) k = Some s \<and> ttl s' + n \<le> ttl s))"
      by (rule Suc.IH [OF c1(2)]) (use c1(4) in blast)
    then show ?case using c1 by (fastforce dest: c1(4))
  qed simp
  then obtain c' where c': "opt_fold (server_step e) (replicate n STick) c = Some c'" "bt_ok (sc_sessions c')" "sc_pending c' = sc_pending c"
    "\<And>k s'. bt_get (sc_sessions c') k = Some s' \<Longrightarrow> live_ok (se_width e) s' \<and> (\<exists>s. bt_get (sc_sessions c) k = Some s \<and> ttl s' + n \<le> ttl s)"
    by blast
  have "False" if "bt_get (sc_sessions c') k = Some s'" for k s'
    using c'(4) [OF that] assms(5) by (auto simp: ttl_def live_ok_def EXIT_RETRANSMIT_TICKS_def split: if_splits)
  then have "bt_get (sc_sessions c') k = None" for k by (metis not_None_eq)
  then have "fst ` set (sc_sessions c') = {}" by (metis bt_get_None_iff equals0I)
  then have "sc_sessions c' = []" by simp
  with c' show ?thesis by blast
qed


theorem silent_sessions_reclaimed_witness:
  "\<exists>c'. opt_fold (server_step busy_env) (replicate 20050 STick) (demo_server\<lparr>sc_sessions := [(demo_sid, busy_session)]\<rparr>) = Some c' \<and>
    sc_sessions c' = [] \<and> sc_pending c' = sc_pending (demo_server\<lparr>sc_sessions := [(demo_sid, busy_session)]\<rparr>)"
proof (rule silent_sessions_reclaimed)
  have "\<exists>n. fst (py_read (se_pty busy_env) 8192 (((\<lambda>y. snd (py_read (se_pty busy_env) 8192 y)) ^^ n) y)) = None" for y
  proof (rule exI [of _ y])
    have "((\<lambda>y. snd (py_read (se_pty busy_env) 8192 y)) ^^ n) y = y - n" for n y
      by (induction n arbitrary: y) (auto simp: busy_env_def demo_pty_def)
    then show "fst (py_read (se_pty busy_env) 8192 (((\<lambda>y. snd (py_read (se_pty busy_env) 8192 y)) ^^ y) y)) = None"
      by (simp add: busy_env_def demo_pty_def)
  qed
  then show "output_pauses busy_env" unfolding output_pauses_def using busy_pauses by blast
  show "distinct (se_iter busy_env ks) \<and> set (se_iter busy_env ks) = set ks" if "distinct ks" for ks
    using that by (simp add: busy_env_def demo_env_def)
  have "live_ok (se_width busy_env) busy_session"
    by (simp add: live_ok_def busy_session_def shell_ok_def ss_screen_def server_shell_new_def terminal_new_def
        wide_ok_def busy_env_def demo_env_def demo_session_def server_session_new_def EXIT_RETRANSMIT_TICKS_def Let_def)
  then show "live_ok (se_width busy_env) s"
    if "bt_get (sc_sessions (demo_server\<lparr>sc_sessions := [(demo_sid, busy_session)]\<rparr>)) k = Some s" for k s
    using that by (simp split: if_splits)
qed (simp_all add: IDLE_REAP_TICKS_def EXIT_RETRANSMIT_TICKS_def)


section \<open>Handshakes that are never completed\<close>

text \<open>Once all slots hold handshakes that their clients abandoned, the server ignores every new
  client, and no number of ticks gives a slot back.\<close>

theorem abandoned_handshakes_lock_out:
  assumes "length (sc_pending c) = MAX_PENDING_HANDSHAKES" "length sid = 8" "bt_get (sc_pending c) sid = None"
    and "opt_fold (server_step e) (replicate n STick) c = Some c'"
  shows "server_handle_packet e src (build_handshake_packet sid body) c' = Some ([], c')"
proof -
  have "sc_pending c' = sc_pending c"
    using assms(4)
  proof (induction n arbitrary: c)
    case (Suc n)
    then obtain out c1 where "server_tick e c = Some (out, c1)" "opt_fold (server_step e) (replicate n STick) c1 = Some c'"
      by (auto split: bind_splits)
    then show ?case using Suc.IH [of c1] keeps_tick by (fastforce simp: keeps_def)
  qed simp
  then show ?thesis
    using assms(1-3)
    by (auto simp: parse_handshake server_handle_packet_def try_handle_packet_def server_handle_handshake_def)
qed

end
