(* ===== verification/Tcp.thy ===== *)
theory Tcp
  imports Prelude
begin

text \<open>
  Non-blocking byte streams of the operating system (TCP connections, Unix sockets, pipes), as the
  code uses them. The stream is a state \<open>'k\<close>. A read gives \<open>Data\<close> for \<^verbatim>\<open>Ok(n)\<close> with \<open>n > 0\<close>, \<open>Closed\<close> for
  \<^verbatim>\<open>Ok(0)\<close> and \<open>Empty\<close> for \<^verbatim>\<open>WouldBlock\<close>; a write gives the number of bytes taken, or \<open>Full\<close> for
  \<^verbatim>\<open>WouldBlock\<close>. A call that is interrupted is repeated and is not seen here.
\<close>

datatype tcp_read = Data bytes | Closed | Empty | ReadError

datatype tcp_write = Taken nat | Full | WriteError

record 'k tcp_ops =
  tc_read :: "nat \<Rightarrow> 'k \<Rightarrow> tcp_read \<times> 'k"
  tc_write :: "bytes \<Rightarrow> 'k \<Rightarrow> tcp_write \<times> 'k"

text \<open>
  What is relied on of a connection: \<open>given\<close> is what its other side is given, \<open>incoming\<close> what it still
  sends before it stops. Of the bytes offered a write takes a prefix, which goes out after all that
  was given before. A read returns at least one byte, the next ones; end of file is seen only after all of them.
\<close>

definition honest_socket :: "'k tcp_ops \<Rightarrow> ('k \<Rightarrow> bytes) \<Rightarrow> ('k \<Rightarrow> bytes) \<Rightarrow> bool" where
  "honest_socket io given incoming \<longleftrightarrow>
     (\<forall>bs k r k'. tc_write io bs k = (r, k') \<longrightarrow>
        given k' = given k @ (case r of Taken n \<Rightarrow> take n bs | _ \<Rightarrow> []) \<and> incoming k' = incoming k) \<and>
     (\<forall>n k r k'. tc_read io n k = (r, k') \<longrightarrow> given k' = given k \<and>
        (case r of Data bs \<Rightarrow> bs \<noteq> [] \<and> incoming k = bs @ incoming k'
         | Closed \<Rightarrow> incoming k = [] \<and> incoming k' = []
         | _ \<Rightarrow> incoming k' = incoming k))"

lemma honest_socket_write:
  "honest_socket io given incoming \<Longrightarrow> tc_write io bs k = (r, k') \<Longrightarrow>
     given k' = given k @ (case r of Taken n \<Rightarrow> take n bs | _ \<Rightarrow> []) \<and> incoming k' = incoming k"
  unfolding honest_socket_def by blast

lemma honest_socket_read:
  "honest_socket io given incoming \<Longrightarrow> tc_read io n k = (r, k') \<Longrightarrow> given k' = given k \<and>
     (case r of Data bs \<Rightarrow> bs \<noteq> [] \<and> incoming k = bs @ incoming k'
      | Closed \<Rightarrow> incoming k = [] \<and> incoming k' = []
      | _ \<Rightarrow> incoming k' = incoming k)"
  unfolding honest_socket_def by blast

text \<open>A connection that takes at least a byte of everything it is offered.\<close>

definition willing :: "'k tcp_ops \<Rightarrow> bool" where
  "willing io \<longleftrightarrow> (\<forall>bs k. bs \<noteq> [] \<longrightarrow> (\<exists>n k'. tc_write io bs k = (Taken n, k') \<and> 0 < n))"

text \<open>A connection held in two buffers, the second with the number of bytes a write takes at most.\<close>

record buffer_socket =
  bs_in :: bytes
  bs_out :: bytes

definition buffer_io :: "nat \<Rightarrow> buffer_socket tcp_ops" where
  "buffer_io w =
     \<lparr>tc_read = (\<lambda>n k. if bs_in k = [] then (Closed, k)
                      else if n = 0 then (Empty, k)
                      else (Data (take n (bs_in k)), k\<lparr>bs_in := drop n (bs_in k)\<rparr>)),
      tc_write = (\<lambda>bs k. if w = 0 then (Full, k) else (Taken (min w (length bs)), k\<lparr>bs_out := bs_out k @ take w bs\<rparr>))\<rparr>"

lemma buffer_io_honest: "honest_socket (buffer_io w) bs_out bs_in"
  by (auto simp: honest_socket_def buffer_io_def min_def split: if_splits)

lemma buffer_io_willing: "0 < w \<Longrightarrow> willing (buffer_io w)"
  by (simp add: willing_def buffer_io_def)

end
