(* ===== verification/Socks.thy ===== *)
theory Socks
  imports RustStr Tcp "HOL-Library.Monad_Syntax"
begin

text \<open>
  The SOCKS front-end for dynamic forwarding, \<^verbatim>\<open>src/socks.rs\<close>: SOCKS5 without authentication and
  SOCKS4/4a, \<^verbatim>\<open>CONNECT\<close> only. The local TCP stream is a parameter: reads and writes on a state \<open>'k\<close>.
\<close>

section \<open>Addresses as text\<close>

definition be16 :: "u8 \<Rightarrow> u8 \<Rightarrow> nat" where
  "be16 a b = unat a * 256 + unat b"

definition dotted :: "u8 \<Rightarrow> u8 \<Rightarrow> u8 \<Rightarrow> u8 \<Rightarrow> bytes" where
  "dotted a b c d = dec_digits (unat a) @ asc ''.'' @ dec_digits (unat b) @ asc ''.'' @ dec_digits (unat c) @ asc ''.'' @ dec_digits (unat d)"

definition hex_digit :: "nat \<Rightarrow> u8" where
  "hex_digit n = (if n < 10 then of_nat (48 + n) else of_nat (87 + n))"

fun hex_digits :: "nat \<Rightarrow> bytes" where
  "hex_digits n = (if n < 16 then [hex_digit n] else hex_digits (n div 16) @ [hex_digit (n mod 16)])"

declare hex_digits.simps [simp del]

text \<open>\<^verbatim>\<open>Ipv6Addr::to_string\<close>: IPv4-mapped addresses end in dotted form; otherwise the first longest run of at
  least two zero segments is written as two colons.\<close>

fun colon_hex :: "nat list \<Rightarrow> bytes" where
  "colon_hex [] = []"
| "colon_hex [s] = hex_digits s"
| "colon_hex (s # t # ss) = hex_digits s @ asc '':'' @ colon_hex (t # ss)"

fun zero_span :: "nat list \<Rightarrow> nat \<Rightarrow> nat \<times> nat \<Rightarrow> nat \<times> nat \<Rightarrow> nat \<times> nat" where
  "zero_span [] i cur longest = longest"
| "zero_span (s # ss) i cur longest =
     (if s = 0 then
        (let cur = (if snd cur = 0 then i else fst cur, snd cur + 1)
         in zero_span ss (i + 1) cur (if snd cur > snd longest then cur else longest))
      else zero_span ss (i + 1) (0, 0) longest)"

definition ipv6_to_string :: "nat list \<Rightarrow> bytes" where
  "ipv6_to_string seg =
     (if take 5 seg = [0, 0, 0, 0, 0] \<and> seg ! 5 = 0xffff then
        asc ''::ffff:'' @ dotted (of_nat (seg ! 6 div 256)) (of_nat (seg ! 6 mod 256)) (of_nat (seg ! 7 div 256)) (of_nat (seg ! 7 mod 256))
      else case zero_span seg 0 (0, 0) (0, 0) of (start, len) \<Rightarrow>
        if len > 1 then colon_hex (take start seg) @ asc ''::'' @ colon_hex (drop (start + len) seg)
        else colon_hex seg)"


section \<open>Negotiation\<close>

definition MAX_NEGOTIATION_BYTES :: nat where "MAX_NEGOTIATION_BYTES = 600"

datatype phase = Greeting | Request | Done | Failed

record 'k socks_conn =
  so_stream :: 'k
  so_inbuf :: bytes
  so_out :: bytes
  so_phase :: phase
  so_target :: "bytes option"

definition socks_conn_new :: "'k \<Rightarrow> 'k socks_conn" where
  "socks_conn_new k = \<lparr>so_stream = k, so_inbuf = [], so_out = [], so_phase = Greeting, so_target = None\<rparr>"

definition fail_socks5 :: "u8 \<Rightarrow> 'k socks_conn \<Rightarrow> 'k socks_conn" where
  "fail_socks5 rep s = s\<lparr>so_out := so_out s @ [5, rep, 0, 1, 0, 0, 0, 0, 0, 0], so_phase := Failed\<rparr>"

definition fail_socks4 :: "'k socks_conn \<Rightarrow> 'k socks_conn" where
  "fail_socks4 s = s\<lparr>so_out := so_out s @ [0, 0x5B, 0, 0, 0, 0, 0, 0], so_phase := Failed\<rparr>"

text \<open>Where the address of a SOCKS5 request lies: \<open>Some (Some (length, start))\<close>, \<open>Some None\<close> for an unknown
  type, \<open>None\<close> if the length byte is missing.\<close>

definition socks5_addr :: "u8 \<Rightarrow> bytes \<Rightarrow> (nat \<times> nat) option option" where
  "socks5_addr atyp buf =
     (if atyp = 1 then Some (Some (4, 4))
      else if atyp = 4 then Some (Some (16, 4))
      else if atyp = 3 then (if length buf \<le> 4 then None else Some (Some (unat (buf ! 4), 5)))
      else Some None)"

definition socks5_host :: "u8 \<Rightarrow> bytes \<Rightarrow> bytes option" where
  "socks5_host atyp addr =
     (if atyp = 1 then Some (dotted (addr ! 0) (addr ! 1) (addr ! 2) (addr ! 3))
      else if atyp = 4 then Some (ipv6_to_string (map (\<lambda>i. be16 (addr ! (i * 2)) (addr ! (i * 2 + 1))) [0..<8]))
      else if utf8_ok addr then Some addr else None)"

definition parse_socks5_request :: "'k socks_conn \<Rightarrow> bool \<times> 'k socks_conn" where
  "parse_socks5_request s =
     (let buf = so_inbuf s in
      if length buf < 4 then (False, s)
      else if buf ! 0 \<noteq> 5 then (True, fail_socks5 1 s)
      else case socks5_addr (buf ! 3) buf of
        None \<Rightarrow> (False, s)
      | Some None \<Rightarrow> (True, fail_socks5 8 s)
      | Some (Some (addr_len, addr_start)) \<Rightarrow>
          (let need = addr_start + addr_len + 2 in
           if length buf < need then (False, s)
           else if buf ! 1 \<noteq> 1 then (True, fail_socks5 7 s)
           else
             (let addr = take addr_len (drop addr_start buf);
                  port = be16 (buf ! (addr_start + addr_len)) (buf ! (addr_start + addr_len + 1))
              in case socks5_host (buf ! 3) addr of
                   None \<Rightarrow> (True, fail_socks5 1 s)
                 | Some host \<Rightarrow>
                     (True, s\<lparr>so_inbuf := drop need buf, so_out := so_out s @ [5, 0, 0, 1, 0, 0, 0, 0, 0, 0],
                       so_target := Some ((if buf ! 3 = 4 then asc ''['' @ host @ asc '']'' else host) @ asc '':'' @ dec_digits port),
                       so_phase := Done\<rparr>))))"

text \<open>\<^verbatim>\<open>iter().position(|&b| b == 0)\<close> from an offset on.\<close>

definition nul_at :: "nat \<Rightarrow> bytes \<Rightarrow> nat option" where
  "nul_at i buf = (let n = length (takeWhile (\<lambda>b. b \<noteq> 0) (drop i buf)) in if i + n < length buf then Some (i + n) else None)"

definition grant_socks4 :: "bytes \<Rightarrow> nat \<Rightarrow> 'k socks_conn \<Rightarrow> 'k socks_conn" where
  "grant_socks4 host consumed s =
     (let buf = so_inbuf s in
      if buf ! 1 \<noteq> 1 then fail_socks4 s
      else s\<lparr>so_inbuf := drop consumed buf, so_out := so_out s @ [0, 0x5A] @ take 6 (drop 2 buf),
             so_target := Some (host @ asc '':'' @ dec_digits (be16 (buf ! 2) (buf ! 3))), so_phase := Done\<rparr>)"

definition parse_socks4 :: "'k socks_conn \<Rightarrow> 'k socks_conn" where
  "parse_socks4 s =
     (let buf = so_inbuf s in
      if length buf < 9 then s
      else
        (let ip = take 4 (drop 4 buf) in
         if ip = [0, 0, 0, 0] then fail_socks4 s
         else case nul_at 8 buf of
           None \<Rightarrow> s
         | Some uid_nul \<Rightarrow>
             if ip ! 0 = 0 \<and> ip ! 1 = 0 \<and> ip ! 2 = 0 \<and> ip ! 3 \<noteq> 0 then
               (case nul_at (uid_nul + 1) buf of
                  None \<Rightarrow> s
                | Some host_nul \<Rightarrow>
                    (let host = take (host_nul - (uid_nul + 1)) (drop (uid_nul + 1) buf)
                     in if utf8_ok host then grant_socks4 host (host_nul + 1) s else fail_socks4 s))
             else grant_socks4 (dotted (ip ! 0) (ip ! 1) (ip ! 2) (ip ! 3)) (uid_nul + 1) s))"

text \<open>The greeting: what it does, and whether the loop goes on.\<close>

definition parse_greeting :: "'k socks_conn \<Rightarrow> bool \<times> 'k socks_conn" where
  "parse_greeting s =
     (let buf = so_inbuf s in
      if buf = [] then (False, s)
      else if buf ! 0 = 5 then
        (if length buf < 2 then (False, s)
         else let n = buf ! 1 in
           if n = 0 then (False, s\<lparr>so_phase := Failed\<rparr>)
           else if length buf < 2 + unat n then (False, s)
           else (True, s\<lparr>so_inbuf := drop (2 + unat n) buf, so_out := so_out s @ [5, 0], so_phase := Request\<rparr>))
      else if buf ! 0 = 4 then (False, parse_socks4 s)
      else (False, s\<lparr>so_phase := Failed\<rparr>))"

text \<open>The loop of \<^verbatim>\<open>try_parse\<close>. A step that goes on moves to a later phase, so the loop turns at most three
  times.\<close>

fun phase_rank :: "phase \<Rightarrow> nat" where
  "phase_rank Greeting = 2" | "phase_rank Request = 1" | "phase_rank Done = 0" | "phase_rank Failed = 0"

definition parse_step :: "'k socks_conn \<Rightarrow> bool \<times> 'k socks_conn" where
  "parse_step s =
     (case so_phase s of Greeting \<Rightarrow> parse_greeting s | Request \<Rightarrow> parse_socks5_request s | _ \<Rightarrow> (False, s))"

lemma parse_socks5_phase: "so_phase (snd (parse_socks5_request s)) = Done \<or> so_phase (snd (parse_socks5_request s)) = Failed \<or>
    \<not> fst (parse_socks5_request s)"
  by (simp add: parse_socks5_request_def fail_socks5_def Let_def split: option.split prod.split)

lemma parse_greeting_phase: "fst (parse_greeting s) \<Longrightarrow> so_phase (snd (parse_greeting s)) = Request"
  by (simp add: parse_greeting_def Let_def split: if_split_asm)

lemma parse_step_rank: "fst (parse_step s) \<Longrightarrow> phase_rank (so_phase (snd (parse_step s))) < phase_rank (so_phase s)"
  using parse_socks5_phase [of s] parse_greeting_phase [of s] by (cases "so_phase s") (auto simp: parse_step_def)

function try_parse :: "'k socks_conn \<Rightarrow> 'k socks_conn" where
  "try_parse s = (let r = parse_step s in if fst r then try_parse (snd r) else snd r)"
  by pat_completeness auto
termination
  by (relation "measure (\<lambda>s. phase_rank (so_phase s))") (simp_all add: parse_step_rank)

declare try_parse.simps [simp del]

function flush_out :: "'k tcp_ops \<Rightarrow> 'k socks_conn \<Rightarrow> 'k socks_conn" where
  "flush_out io s =
     (if so_out s = [] then s
      else case tc_write io (so_out s) (so_stream s) of
        (Taken n, k) \<Rightarrow>
          if n = 0 then s\<lparr>so_stream := k\<rparr>
          else flush_out io (s\<lparr>so_stream := k, so_out := drop n (so_out s)\<rparr>)
      | (Full, k) \<Rightarrow> s\<lparr>so_stream := k\<rparr>
      | (WriteError, k) \<Rightarrow> s\<lparr>so_stream := k, so_phase := Failed\<rparr>)"
  by pat_completeness auto
termination
  by (relation "measure (\<lambda>(io, s). length (so_out s))") auto

declare flush_out.simps [simp del]

text \<open>Reading what is there. \<open>Inl\<close> is a failed negotiation; a peer that never stops sending is \<open>None\<close>.\<close>

partial_function (option) drain_in :: "'k tcp_ops \<Rightarrow> 'k socks_conn \<Rightarrow> (unit + 'k socks_conn) option" where
  "drain_in io s =
     (case tc_read io 1024 (so_stream s) of
        (Data bs, k) \<Rightarrow> drain_in io (s\<lparr>so_stream := k, so_inbuf := so_inbuf s @ bs\<rparr>)
      | (Closed, k) \<Rightarrow> Some (Inl ())
      | (Empty, k) \<Rightarrow> Some (Inr (s\<lparr>so_stream := k\<rparr>))
      | (ReadError, k) \<Rightarrow> Some (Inl ()))"

datatype 'k progress = Pending "'k socks_conn" | Connected bytes 'k bytes | PFailed

definition settle :: "'k socks_conn \<Rightarrow> 'k progress" where
  "settle s =
     (case so_phase s of
        Failed \<Rightarrow> PFailed
      | Done \<Rightarrow> if so_out s = [] then Connected (case so_target s of Some t \<Rightarrow> t | None \<Rightarrow> []) (so_stream s) (so_inbuf s) else Pending s
      | _ \<Rightarrow> Pending s)"

definition negotiate :: "'k tcp_ops \<Rightarrow> 'k socks_conn \<Rightarrow> 'k progress option" where
  "negotiate io s =
     (let s = flush_out io s in
      if so_phase s = Failed then Some PFailed
      else do { r \<leftarrow> drain_in io s;
                (case r of
                   Inl _ \<Rightarrow> Some PFailed
                 | Inr s \<Rightarrow>
                     if length (so_inbuf s) > MAX_NEGOTIATION_BYTES then Some PFailed
                     else Some (settle (flush_out io (try_parse s)))) })"

end
