(* ===== verification/SocksSafe.thy ===== *)
theory SocksSafe
  imports Socks
begin

text \<open>
  Properties of the SOCKS front-end: how the bytes of a negotiation are cut into reads makes no
  difference, a request is understood exactly, and early application data is kept.
\<close>

section \<open>Cutting the input into reads\<close>

definition ext :: "bytes \<Rightarrow> 'k socks_conn \<Rightarrow> 'k socks_conn" where
  "ext b s = s\<lparr>so_inbuf := so_inbuf s @ b\<rparr>"

lemma ext_fields [simp]:
  "so_phase (ext b s) = so_phase s" "so_inbuf (ext b s) = so_inbuf s @ b" "so_out (ext b s) = so_out s"
  by (simp_all add: ext_def)

lemma ext_fail: "fail_socks5 r (ext b s) = ext b (fail_socks5 r s)" "fail_socks4 (ext b s) = ext b (fail_socks4 s)"
  by (simp_all add: ext_def fail_socks5_def fail_socks4_def)

lemma socks5_addr_ext: "socks5_addr a buf = Some r \<Longrightarrow> socks5_addr a (buf @ b) = Some r"
  by (auto simp: socks5_addr_def nth_append split: if_splits)

lemma request_ext:
  assumes "parse_socks5_request s = (True, s')"
  shows "parse_socks5_request (ext b s) = (True, ext b s')"
proof -
  have len: "4 \<le> length (so_inbuf s)" using assms by (auto simp: parse_socks5_request_def Let_def split: if_splits)
  then have hd: "(so_inbuf s @ b) ! i = so_inbuf s ! i" if "i < 4" for i using that by (simp add: nth_append)
  show ?thesis
  proof (cases "so_inbuf s ! 0 \<noteq> 5")
    case True
    then show ?thesis using assms len hd by (simp add: parse_socks5_request_def Let_def ext_fail)
  next
    case False
    then obtain r where r: "socks5_addr (so_inbuf s ! 3) (so_inbuf s) = Some r"
      using assms len by (auto simp: parse_socks5_request_def Let_def split: option.splits)
    note r' = socks5_addr_ext [OF r, of b]
    show ?thesis
    proof (cases r)
      case None
      then show ?thesis using assms False len hd r r' by (simp add: parse_socks5_request_def Let_def ext_fail)
    next
      case (Some la)
      obtain l a where la: "la = (l, a)" by (cases la)
      have need: "a + l + 2 \<le> length (so_inbuf s)"
        using assms False len r Some la by (auto simp: parse_socks5_request_def Let_def split: if_splits)
      then have nth: "(so_inbuf s @ b) ! (a + l) = so_inbuf s ! (a + l)" "(so_inbuf s @ b) ! Suc (a + l) = so_inbuf s ! Suc (a + l)"
        by (simp_all add: nth_append)
      show ?thesis
        using assms False len hd r r' Some la need nth
        by (auto simp: parse_socks5_request_def Let_def ext_fail split: option.splits if_splits) (auto simp: ext_def)
    qed
  qed
qed

lemma request_wait: "parse_socks5_request s = (False, s') \<Longrightarrow> s' = s"
  by (auto simp: parse_socks5_request_def Let_def split: if_splits option.splits)

lemma nul_at_ext:
  assumes "nul_at i buf = Some n"
  shows "nul_at i (buf @ b) = Some n" "n < length buf" "i \<le> n"
proof -
  let ?P = "\<lambda>b :: u8. b \<noteq> 0"
  have n: "n = i + length (takeWhile ?P (drop i buf))" "n < length buf"
    using assms by (auto simp: nul_at_def Let_def split: if_splits)
  then have "length (takeWhile ?P (drop i buf)) \<noteq> length (drop i buf)" by simp
  then have "takeWhile ?P (drop i buf) \<noteq> drop i buf" by metis
  then obtain x where "x \<in> set (drop i buf)" "\<not> ?P x" unfolding takeWhile_eq_all_conv by blast
  then have "takeWhile ?P (drop i buf @ c) = takeWhile ?P (drop i buf)" for c by (rule takeWhile_append1)
  then show "nul_at i (buf @ b) = Some n" "n < length buf" "i \<le> n" using n by (simp_all add: nul_at_def Let_def)
qed

lemma grant_ext:
  assumes "9 \<le> length (so_inbuf s)" "c \<le> length (so_inbuf s)"
  shows "grant_socks4 host c (ext b s) = ext b (grant_socks4 host c s)"
  using assms by (simp add: grant_socks4_def Let_def nth_append ext_fail) (simp add: ext_def)

definition names_host :: "bytes \<Rightarrow> bool" where
  "names_host ip \<longleftrightarrow> ip ! 0 = 0 \<and> ip ! 1 = 0 \<and> ip ! 2 = 0 \<and> ip ! 3 \<noteq> 0"

lemma socks4_plain:
  assumes "so_inbuf s = buf" "\<not> length buf < 9" "take 4 (drop 4 buf) = ip" "ip \<noteq> [0, 0, 0, 0]" "nul_at 8 buf = Some u" "\<not> names_host ip"
  shows "parse_socks4 s = grant_socks4 (dotted (ip ! 0) (ip ! 1) (ip ! 2) (ip ! 3)) (u + 1) s"
  using assms by (auto simp: parse_socks4_def names_host_def Let_def)

lemma socks4_named:
  assumes "so_inbuf s = buf" "\<not> length buf < 9" "take 4 (drop 4 buf) = ip" "ip \<noteq> [0, 0, 0, 0]" "nul_at 8 buf = Some u" "names_host ip"
    and "nul_at (u + 1) buf = Some h" "take (h - (u + 1)) (drop (u + 1) buf) = host"
  shows "parse_socks4 s = (if utf8_ok host then grant_socks4 host (h + 1) s else fail_socks4 s)"
  unfolding parse_socks4_def Let_def assms(1,3) option.case assms(5,7,8)
  using assms(2,4,6) by (simp add: names_host_def)

text \<open>A SOCKS4 request waits, or is decided whatever follows it.\<close>

lemma socks4_cases:
  obtains (wait) "parse_socks4 s = s"
  | (decided) "so_phase (parse_socks4 s) \<in> {Done, Failed}" "\<And>b. parse_socks4 (ext b s) = ext b (parse_socks4 s)"
proof -
  let ?buf = "so_inbuf s"
  let ?ip = "take 4 (drop 4 ?buf)"
  have fin: "so_phase (fail_socks4 s) \<in> {Done, Failed}" "so_phase (grant_socks4 h c s) \<in> {Done, Failed}" for h c
    by (simp_all add: fail_socks4_def grant_socks4_def Let_def)
  show thesis
  proof (cases "length ?buf < 9")
    case True
    then show ?thesis using wait by (simp add: parse_socks4_def)
  next
    case len: False
    then have ip: "take 4 (drop 4 (?buf @ b)) = ?ip" for b by simp
    show ?thesis
    proof (cases "?ip = [0, 0, 0, 0] \<or> nul_at 8 ?buf = None")
      case True
      then show ?thesis
        using len ip fin wait decided by (cases "?ip = [0, 0, 0, 0]") (simp_all add: parse_socks4_def Let_def ext_fail)
    next
      case False
      then obtain u where u: "?ip \<noteq> [0, 0, 0, 0]" "nul_at 8 ?buf = Some u" by auto
      note u' = nul_at_ext [OF u(2)]
      show ?thesis
      proof (cases "names_host ?ip")
        case plain: False
        note socks4_plain [OF _ _ _ u(1) _ plain]
        from this [OF refl len refl u(2)] this [OF ext_fields(2) _ ip u'(1)]
        show ?thesis using decided fin grant_ext [of s "u + 1"] len u'(2) by simp
      next
        case named: True
        show ?thesis
        proof (cases "nul_at (u + 1) ?buf")
          case None
          then show ?thesis using len u named wait by (auto simp: parse_socks4_def names_host_def Let_def)
        next
          case (Some h)
          note h' = nul_at_ext [OF Some]
          let ?host = "take (h - (u + 1)) (drop (u + 1) ?buf)"
          have host: "take (h - (u + 1)) (drop (u + 1) (?buf @ b)) = ?host" for b using h'(2,3) by simp
          have "parse_socks4 (ext b s) = (if utf8_ok ?host then grant_socks4 ?host (h + 1) (ext b s) else fail_socks4 (ext b s))" for b
            using socks4_named [OF ext_fields(2) _ ip u(1) u'(1) named h'(1) host, of b] len by simp
          moreover have "parse_socks4 s = (if utf8_ok ?host then grant_socks4 ?host (h + 1) s else fail_socks4 s)"
            by (rule socks4_named [OF refl len refl u(1,2) named Some refl])
          ultimately show ?thesis
            using fin grant_ext [of s "h + 1"] len h'(2) by (intro decided) (auto simp: ext_fail)
        qed
      qed
    qed
  qed
qed


text \<open>One step of the parser waits, or does the same with more input behind it.\<close>

lemma greeting_cases:
  obtains (wait) "parse_greeting s = (False, s)"
  | (decided) "so_phase (snd (parse_greeting s)) \<in> {Done, Failed} \<or> fst (parse_greeting s)"
      "\<And>b. parse_greeting (ext b s) = (fst (parse_greeting s), ext b (snd (parse_greeting s)))"
proof (cases "so_inbuf s")
  case Nil
  then show ?thesis using wait by (simp add: parse_greeting_def)
next
  case (Cons v r)
  then have hd: "so_inbuf s ! 0 = v" "(so_inbuf s @ b) ! 0 = v" "so_inbuf s \<noteq> []" "so_inbuf s @ b \<noteq> []" for b by simp_all
  consider (five) "v = 5" | (four) "v = 4" | (other) "v \<noteq> 5" "v \<noteq> 4" by blast
  then show ?thesis
  proof cases
    case four
    have eq: "parse_greeting s = (False, parse_socks4 s)" "parse_greeting (ext b s) = (False, parse_socks4 (ext b s))" for b
      using four hd by (simp_all add: parse_greeting_def)
    show ?thesis by (cases rule: socks4_cases [of s]) (use eq wait decided in auto)
  next
    case other
    then show ?thesis using hd by (intro decided) (simp_all add: parse_greeting_def ext_def)
  next
    case five
    show ?thesis
    proof (cases "length (so_inbuf s) < 2 \<or> so_inbuf s ! 1 \<noteq> 0 \<and> length (so_inbuf s) < 2 + unat (so_inbuf s ! 1)")
      case True
      then show ?thesis using five hd wait by (auto simp: parse_greeting_def Let_def)
    next
      case False
      then have "(so_inbuf s @ b) ! 1 = so_inbuf s ! 1" for b by (simp add: nth_append)
      with False show ?thesis
        using five hd by (intro decided) (auto simp: parse_greeting_def Let_def ext_def)
    qed
  qed
qed

lemma step_cases:
  obtains (wait) "parse_step s = (False, s)"
  | (decided) "so_phase (snd (parse_step s)) \<in> {Done, Failed} \<or> fst (parse_step s)"
      "\<And>b. parse_step (ext b s) = (fst (parse_step s), ext b (snd (parse_step s)))"
proof (cases "so_phase s")
  case Greeting
  then have "parse_step (ext b s) = parse_greeting (ext b s)" "parse_step s = parse_greeting s" for b by (simp_all add: parse_step_def)
  then show ?thesis by (cases rule: greeting_cases [of s]) (use wait decided in auto)
next
  case Request
  then have eq: "parse_step (ext b s) = parse_socks5_request (ext b s)" "parse_step s = parse_socks5_request s" for b
    by (simp_all add: parse_step_def)
  show ?thesis
  proof (cases "parse_socks5_request s")
    case (Pair g s')
    then show ?thesis using eq request_ext [of s s'] request_wait [of s s'] wait by (cases g) (auto intro!: decided)
  qed
qed (simp_all add: wait parse_step_def)

lemma try_parse_finished: "so_phase s \<in> {Done, Failed} \<Longrightarrow> try_parse s = s"
  by (subst try_parse.simps) (auto simp: parse_step_def)

lemma try_parse_ext: "try_parse (ext b (try_parse s)) = try_parse (ext b s)"
proof (induction s rule: try_parse.induct)
  case (1 s)
  show ?case
  proof (cases rule: step_cases [of s])
    case wait
    then have "try_parse s = s" by (subst try_parse.simps) simp
    then show ?thesis by simp
  next
    case decided
    show ?thesis
    proof (cases "fst (parse_step s)")
      case True
      have "try_parse s = try_parse (snd (parse_step s))" using True by (subst try_parse.simps) simp
      moreover have "try_parse (ext b s) = try_parse (ext b (snd (parse_step s)))"
        using True decided(2) by (subst try_parse.simps) simp
      ultimately show ?thesis using "1.IH" [OF refl True] by simp
    next
      case False
      have "try_parse s = snd (parse_step s)" "try_parse (ext b s) = ext b (snd (parse_step s))"
        using False decided(2) by (subst try_parse.simps, simp)+
      then show ?thesis using decided(1) False by (simp add: try_parse_finished)
    qed
  qed
qed

text \<open>Bytes arrive and the parser runs.\<close>

definition socks_feed :: "bytes \<Rightarrow> 'k socks_conn \<Rightarrow> 'k socks_conn" where
  "socks_feed bs s = try_parse (ext bs s)"

lemma socks_feed_feed: "socks_feed b (socks_feed a s) = socks_feed (a @ b) s"
  by (simp add: socks_feed_def try_parse_ext) (simp add: ext_def)

lemma socks_chunks_fold: "fold socks_feed chunks (socks_conn_new k) = socks_feed (concat chunks) (socks_conn_new k)"
proof -
  have new: "socks_feed [] (socks_conn_new k) = socks_conn_new k"
    unfolding socks_feed_def by (subst try_parse.simps) (simp add: ext_def parse_step_def parse_greeting_def socks_conn_new_def)
  have "fold socks_feed chunks (socks_feed a s) = socks_feed (a @ concat chunks) s" for a and s :: "'a socks_conn"
    by (induction chunks arbitrary: a) (simp_all add: socks_feed_feed)
  from this [of "[]" "socks_conn_new k"] show ?thesis by (simp add: new)
qed

text \<open>C30: how a negotiation is cut into reads makes no difference. However the bytes a SOCKS client sends
  are split over reads, the parser ends in the same phase, with the same replies, the same target and
  the same bytes left over as if they had arrived at once.\<close>

theorem socks_chunks_equivalent:
  "fold socks_feed chunks (socks_conn_new k) = socks_feed (concat chunks) (socks_conn_new k)"
  by (rule socks_chunks_fold)


section \<open>What a request asks for\<close>

definition socks5_connect :: "bytes \<Rightarrow> bytes \<Rightarrow> nat \<Rightarrow> bytes" where
  "socks5_connect methods host port =
     [5, of_nat (length methods)] @ methods @ [5, 1, 0, 3, of_nat (length host)] @ host @ [of_nat (port div 256), of_nat (port mod 256)]"

lemma unat_byte: "n < 256 \<Longrightarrow> unat (of_nat n :: u8) = n"
  by (simp add: unsigned_of_nat take_bit_nat_eq_self)

lemma greeting_step:
  assumes "0 < length methods" "length methods < 256"
  shows "socks_feed ([5, of_nat (length methods)] @ methods @ rest) (socks_conn_new k) =
    try_parse \<lparr>so_stream = k, so_inbuf = rest, so_out = [5, 0], so_phase = Request, so_target = None\<rparr>"
proof -
  have n: "unat (of_nat (length methods) :: u8) = length methods" "(of_nat (length methods) :: u8) \<noteq> 0"
    using assms unat_byte [of "length methods"] by (auto simp: unsigned_eq_0_iff [symmetric])
  then show ?thesis
    unfolding socks_feed_def by (subst try_parse.simps) (simp add: ext_def parse_step_def parse_greeting_def socks_conn_new_def Let_def)
qed

lemma request_step:
  assumes "length host < 256" "utf8_ok host" "port < 65536"
  shows "try_parse \<lparr>so_stream = k, so_inbuf = [5, 1, 0, 3, of_nat (length host)] @ host @ [of_nat (port div 256), of_nat (port mod 256)] @ rest,
      so_out = out, so_phase = Request, so_target = None\<rparr> =
    \<lparr>so_stream = k, so_inbuf = rest, so_out = out @ [5, 0, 0, 1, 0, 0, 0, 0, 0, 0], so_phase = Done,
      so_target = Some (host @ asc '':'' @ dec_digits port)\<rparr>"
proof -
  have p: "be16 (of_nat (port div 256)) (of_nat (port mod 256)) = port"
    using assms(3) by (simp add: be16_def unat_byte)
  let ?s = "\<lparr>so_stream = k, so_inbuf = [5, 1, 0, 3, of_nat (length host)] @ host @ [of_nat (port div 256), of_nat (port mod 256)] @ rest,
      so_out = out, so_phase = Request, so_target = None\<rparr>"
  let ?d = "\<lparr>so_stream = k, so_inbuf = rest, so_out = out @ [5, 0, 0, 1, 0, 0, 0, 0, 0, 0], so_phase = Done,
      so_target = Some (host @ asc '':'' @ dec_digits port)\<rparr>"
  have d: "drop (7 + length host) (5 # 1 # 0 # 3 # x # host @ a # b # rest) = rest" for x a b :: u8
    by (simp add: numeral_eq_Suc)
  have "parse_step ?s = (True, ?d)"
    using assms p by (simp add: d parse_step_def parse_socks5_request_def socks5_addr_def socks5_host_def unat_byte nth_append Let_def)
  then have "try_parse ?s = try_parse ?d" by (subst try_parse.simps) simp
  then show ?thesis by (simp add: try_parse_finished)
qed

text \<open>A SOCKS5 request is understood exactly. However a greeting with any methods and a request for a
  host name and port, followed by application data, are cut into reads, the negotiation is done: the
  target is the host and port of the request, the replies are \<open>no authentication\<close> and \<open>succeeded\<close>, and
  exactly the application data is left over for the stream.\<close>

theorem socks5_connect_understood:
  assumes "concat chunks = socks5_connect methods host port @ early"
    and "0 < length methods" "length methods < 256" "length host < 256" "utf8_ok host" "port < 65536"
  shows "fold socks_feed chunks (socks_conn_new k) =
    \<lparr>so_stream = k, so_inbuf = early, so_out = [5, 0] @ [5, 0, 0, 1, 0, 0, 0, 0, 0, 0], so_phase = Done,
     so_target = Some (host @ asc '':'' @ dec_digits port)\<rparr>"
  unfolding socks_chunks_fold assms(1)
  by (simp add: socks5_connect_def greeting_step [OF assms(2,3), simplified] request_step [OF assms(4-6), simplified])

theorem socks5_connect_understood_witness:
  "fold socks_feed [[5], [1, 0, 5, 1], [0, 3, 2, 104, 105, 1], [187, 22, 3]] (socks_conn_new (0 :: nat)) =
    \<lparr>so_stream = 0, so_inbuf = [22, 3], so_out = [5, 0] @ [5, 0, 0, 1, 0, 0, 0, 0, 0, 0], so_phase = Done,
     so_target = Some ([104, 105] @ asc '':'' @ dec_digits 443)\<rparr>"
proof (rule socks5_connect_understood)
  show "concat [[5], [1, 0, 5, 1], [0, 3, 2, 104, 105, 1], [187, 22, 3]] = socks5_connect [0] [104, 105] 443 @ [22, 3]"
    by (simp add: socks5_connect_def)
qed (simp_all add: utf8_ascii)

end
