(* ===== verification/Forward.thy ===== *)
theory Forward
  imports Tcp Mux "HOL-Library.Sublist" "HOL-Library.Monad_Syntax"
begin

text \<open>
  Forwarded connections, \<^verbatim>\<open>src/forward.rs\<close>: one local socket paired with a session stream. The
  sockets are a parameter. A local peer that never stops sending is the value \<open>None\<close>. The second
  part is what the drivers do with a connection, over the stream interface they share, and that no
  byte is lost, repeated or swapped on the way.
\<close>

section \<open>One connection\<close>

record 'k forward_conn =
  fc_stream :: 'k
  fc_out :: bytes
  fc_read_closed :: bool
  fc_peer_closed :: bool
  fc_fin_sent :: bool
  fc_dead :: bool
  fc_flush_stall :: nat

definition FLUSH_STALL_LIMIT :: nat where "FLUSH_STALL_LIMIT = 3000"

definition from_stream :: "'k \<Rightarrow> 'k forward_conn" where
  "from_stream k = \<lparr>fc_stream = k, fc_out = [], fc_read_closed = False, fc_peer_closed = False, fc_fin_sent = False,
     fc_dead = False, fc_flush_stall = 0\<rparr>"

partial_function (option) read_loop :: "'k tcp_ops \<Rightarrow> bytes \<Rightarrow> 'k forward_conn \<Rightarrow> (bytes \<times> 'k forward_conn) option" where
  "read_loop io acc c =
     (case tc_read io 16384 (fc_stream c) of
        (Closed, k) \<Rightarrow> Some (acc, c\<lparr>fc_stream := k, fc_read_closed := True\<rparr>)
      | (Data bs, k) \<Rightarrow> read_loop io (acc @ bs) (c\<lparr>fc_stream := k\<rparr>)
      | (Empty, k) \<Rightarrow> Some (acc, c\<lparr>fc_stream := k\<rparr>)
      | (ReadError, k) \<Rightarrow> Some (acc, c\<lparr>fc_stream := k, fc_dead := True\<rparr>))"

definition read_tcp :: "'k tcp_ops \<Rightarrow> 'k forward_conn \<Rightarrow> (bytes \<times> 'k forward_conn) option" where
  "read_tcp io c = (if fc_read_closed c \<or> fc_dead c then Some ([], c) else read_loop io [] c)"

function fc_flush :: "'k tcp_ops \<Rightarrow> 'k forward_conn \<Rightarrow> 'k forward_conn" where
  "fc_flush io c =
     (if fc_out c = [] \<or> fc_dead c then c
      else case tc_write io (fc_out c) (fc_stream c) of
        (Taken n, k) \<Rightarrow>
          if n = 0 then c\<lparr>fc_stream := k\<rparr>
          else fc_flush io (c\<lparr>fc_stream := k, fc_out := drop n (fc_out c), fc_flush_stall := 0\<rparr>)
      | (Full, k) \<Rightarrow>
          (let n = saturating_add32 (fc_flush_stall c) 1 in
           if n \<ge> FLUSH_STALL_LIMIT then c\<lparr>fc_stream := k, fc_flush_stall := n, fc_dead := True, fc_out := []\<rparr>
           else c\<lparr>fc_stream := k, fc_flush_stall := n\<rparr>)
      | (WriteError, k) \<Rightarrow> c\<lparr>fc_stream := k, fc_dead := True, fc_out := []\<rparr>)"
  by pat_completeness auto
termination
  by (relation "measure (\<lambda>(io, c). length (fc_out c))") auto

declare fc_flush.simps [simp del]

definition queue_to_tcp :: "'k tcp_ops \<Rightarrow> bytes \<Rightarrow> 'k forward_conn \<Rightarrow> 'k forward_conn" where
  "queue_to_tcp io data c = fc_flush io (c\<lparr>fc_out := fc_out c @ data\<rparr>)"

definition mark_peer_closed :: "'k forward_conn \<Rightarrow> 'k forward_conn" where
  "mark_peer_closed c = c\<lparr>fc_peer_closed := True\<rparr>"

definition needs_fin :: "'k forward_conn \<Rightarrow> bool \<times> 'k forward_conn" where
  "needs_fin c = (if fc_read_closed c \<and> \<not> fc_fin_sent c then (True, c\<lparr>fc_fin_sent := True\<rparr>) else (False, c))"

definition fc_finished :: "'k forward_conn \<Rightarrow> bool" where
  "fc_finished c \<longleftrightarrow> fc_dead c \<or> (fc_read_closed c \<and> fc_peer_closed c \<and> fc_out c = [])"

definition wants_write :: "'k forward_conn \<Rightarrow> bool" where
  "wants_write c \<longleftrightarrow> fc_out c \<noteq> []"


section \<open>The two directions\<close>

text \<open>
  The code pumps a connection in three places with the same statements, on the client's streams and on
  the server's. What they need of a core \<open>'c\<close> is its stream interface: read, write, close, and the
  number of unacknowledged bytes.
\<close>

record 'c stream_ops =
  so_read :: "'c \<Rightarrow> bytes \<times> 'c"
  so_write :: "bytes \<Rightarrow> 'c \<Rightarrow> 'c"
  so_close :: "'c \<Rightarrow> 'c"
  so_in_flight :: "'c \<Rightarrow> nat"

definition FORWARD_SEND_CAP :: nat where "FORWARD_SEND_CAP = 512 * 1024"

text \<open>From the session to the socket, while the buffer has room.\<close>

partial_function (option) relay_in :: "'k tcp_ops \<Rightarrow> ('c, 'z) stream_ops_scheme \<Rightarrow> 'k forward_conn \<Rightarrow> 'c \<Rightarrow> ('k forward_conn \<times> 'c) option" where
  "relay_in io st c core =
     (if length (fc_out c) < FORWARD_SEND_CAP then
        (case so_read st core of (d, core') \<Rightarrow>
           if d = [] then Some (c, core') else relay_in io st (queue_to_tcp io d c) core')
      else Some (c, core))"

definition relay_out :: "'k tcp_ops \<Rightarrow> ('c, 'z) stream_ops_scheme \<Rightarrow> 'k forward_conn \<Rightarrow> 'c \<Rightarrow> ('k forward_conn \<times> 'c) option" where
  "relay_out io st c core =
     (if so_in_flight st core < FORWARD_SEND_CAP then
        do { (d, c') \<leftarrow> read_tcp io c; Some (c', if d \<noteq> [] then so_write st d core else core) }
      else Some (c, core))"

text \<open>One round for one connection; the boolean says that it is finished and goes.\<close>

definition pump_conn :: "'k tcp_ops \<Rightarrow> ('c, 'z) stream_ops_scheme \<Rightarrow> 'k forward_conn \<Rightarrow> 'c \<Rightarrow> (bool \<times> 'k forward_conn \<times> 'c) option" where
  "pump_conn io st c core =
     do { (c, core) \<leftarrow> relay_in io st (fc_flush io c) core;
          (c, core) \<leftarrow> relay_out io st c core;
          (case needs_fin c of (fin, c) \<Rightarrow>
             Some (fc_finished c, c, if fin then so_close st core else core)) }"


section \<open>The stream interface\<close>

text \<open>What the pump relies on: the operations are those of one stream, seen through \<open>view\<close>.\<close>

locale session_stream =
  fixes st :: "('c, 'z) stream_ops_scheme"
    and view :: "'c \<Rightarrow> stream_state option"
  assumes read_view: "so_read st c = (d, c') \<Longrightarrow> view c = Some s \<Longrightarrow> d = fst (stream_read s) \<and> view c' = Some (snd (stream_read s))"
    and write_view: "view (so_write st d c) = map_option (stream_write d) (view c)"
    and close_view: "view (so_close st c) = map_option (stream_close 0) (view c)"
    and flight_view: "view c = Some s \<Longrightarrow> so_in_flight st c = length (send_buf s)"

text \<open>
  \<open>conn_inv given incoming base src sent c s\<close>: after the bytes \<open>base\<close> of a negotiation the socket was given
  exactly what the stream has delivered of \<open>src\<close>, up to what is still buffered; the stream holds what was
  read of \<open>sent\<close>, all the local side sends; the half-close is passed on after all of it.
\<close>

definition conn_inv :: "('k \<Rightarrow> bytes) \<Rightarrow> ('k \<Rightarrow> bytes) \<Rightarrow> bytes \<Rightarrow> bytes \<Rightarrow> bytes \<Rightarrow> 'k forward_conn \<Rightarrow> stream_state \<Rightarrow> bool" where
  "conn_inv given incoming base src sent c s \<longleftrightarrow>
     reasm_agrees (recv s) src \<and> rdelivered (recv s) \<le> length src \<and>
     prefix (given (fc_stream c)) (base @ take (rdelivered (recv s)) src) \<and>
     (\<not> fc_dead c \<longrightarrow> given (fc_stream c) @ fc_out c = base @ take (rdelivered (recv s)) src) \<and>
     (\<exists>w. send_ok w s \<and> sent = w @ incoming (fc_stream c)) \<and>
     (fc_read_closed c \<longrightarrow> incoming (fc_stream c) = []) \<and>
     (send_fin s \<longleftrightarrow> fc_fin_sent c) \<and> (fc_fin_sent c \<longrightarrow> fc_read_closed c)"

lemma conn_invD:
  assumes "conn_inv given incoming base src sent c s"
  shows "reasm_agrees (recv s) src" "rdelivered (recv s) \<le> length src"
    and "prefix (given (fc_stream c)) (base @ take (rdelivered (recv s)) src)"
    and "\<not> fc_dead c \<Longrightarrow> given (fc_stream c) @ fc_out c = base @ take (rdelivered (recv s)) src"
    and "fc_read_closed c \<Longrightarrow> incoming (fc_stream c) = []" "send_fin s = fc_fin_sent c"
    and "fc_fin_sent c \<Longrightarrow> fc_read_closed c" "\<exists>w. send_ok w s \<and> sent = w @ incoming (fc_stream c)"
  using assms by (auto simp: conn_inv_def)

text \<open>Flushing moves a prefix of the buffer into the socket and changes nothing else; a connection dies
  only by losing its socket.\<close>

lemma fc_flush_moves:
  assumes io: "honest_socket io given incoming"
  shows "prefix (given (fc_stream (fc_flush io c))) (given (fc_stream c) @ fc_out c) \<and>
     (\<not> fc_dead (fc_flush io c) \<longrightarrow> \<not> fc_dead c \<and>
        given (fc_stream (fc_flush io c)) @ fc_out (fc_flush io c) = given (fc_stream c) @ fc_out c) \<and>
     incoming (fc_stream (fc_flush io c)) = incoming (fc_stream c) \<and>
     fc_read_closed (fc_flush io c) = fc_read_closed c \<and> fc_fin_sent (fc_flush io c) = fc_fin_sent c \<and>
     fc_peer_closed (fc_flush io c) = fc_peer_closed c"
  using io
proof (induction io c rule: fc_flush.induct)
  case (1 io c)
  note io = 1(2)
  show ?case
  proof (cases "fc_out c = [] \<or> fc_dead c")
    case True
    then show ?thesis by (auto simp: fc_flush.simps [of io c])
  next
    case False
    obtain r k where w: "tc_write io (fc_out c) (fc_stream c) = (r, k)" by (cases "tc_write io (fc_out c) (fc_stream c)")
    note h = honest_socket_write [OF io w]
    show ?thesis
    proof (cases r)
      case (Taken n)
      let ?c = "c\<lparr>fc_stream := k, fc_out := drop n (fc_out c), fc_flush_stall := 0\<rparr>"
      show ?thesis
      proof (cases "n = 0")
        case True
        then show ?thesis using h False w Taken by (simp add: fc_flush.simps [of io c])
      next
        case n: False
        have "fc_flush io c = fc_flush io ?c" using False w Taken n by (simp add: fc_flush.simps [of io c])
        then show ?thesis using 1(1) [OF False w [symmetric] Taken n io] h Taken by simp
      qed
    qed (use h False w in \<open>auto simp: fc_flush.simps [of io c] Let_def\<close>)
  qed
qed

lemma fc_flush_willing:
  assumes "willing io"
  shows "\<not> fc_dead c \<Longrightarrow> \<not> fc_dead (fc_flush io c) \<and> fc_out (fc_flush io c) = []"
  using assms
proof (induction io c rule: fc_flush.induct)
  case (1 io c)
  show ?case
  proof (cases "fc_out c = []")
    case False
    obtain n k where w: "tc_write io (fc_out c) (fc_stream c) = (Taken n, k)" "n \<noteq> 0"
      using 1(3) False unfolding willing_def by blast
    then show ?thesis using 1(1) [OF _ w(1) [symmetric] refl w(2)] 1(2,3) False by (simp add: fc_flush.simps [of io c])
  qed (use 1(2) in \<open>simp add: fc_flush.simps [of io c]\<close>)
qed

lemma fc_flush_dead: "fc_dead c \<Longrightarrow> fc_flush io c = c"
  by (simp add: fc_flush.simps)

lemma conn_inv_flush:
  assumes io: "honest_socket io given incoming" and inv: "conn_inv given incoming base src sent c s"
  shows "conn_inv given incoming base src sent (fc_flush io c) s"
proof (cases "fc_dead c")
  case False
  then show ?thesis
    using fc_flush_moves [OF io, of c] inv unfolding conn_inv_def by auto
qed (simp add: fc_flush_dead inv)

lemma stream_read_inv:
  assumes "reasm_agrees (recv s) src" "rdelivered (recv s) \<le> length src"
  shows "reasm_agrees (recv (snd (stream_read s))) src" "rdelivered (recv (snd (stream_read s))) \<le> length src"
    and "take (rdelivered (recv (snd (stream_read s)))) src = take (rdelivered (recv s)) src @ fst (stream_read s)"
    and "send_ok w (snd (stream_read s)) = send_ok w s" "send_fin (snd (stream_read s)) = send_fin s"
proof -
  note seg = reasm_read_segment [OF assms]
  have eq: "recv (snd (stream_read s)) = snd (reasm_read (recv s))" "fst (stream_read s) = fst (reasm_read (recv s))"
    by (simp_all add: stream_read_def split: prod.split)
  show "reasm_agrees (recv (snd (stream_read s))) src" using reasm_agrees_read [OF assms(1)] by (simp add: eq)
  show "rdelivered (recv (snd (stream_read s))) \<le> length src"
    using seg by (simp add: eq rdelivered_read segment_def)
  show "take (rdelivered (recv (snd (stream_read s)))) src = take (rdelivered (recv s)) src @ fst (stream_read s)"
    using seg by (simp add: eq rdelivered_read segment_def take_add)
  show "send_ok w (snd (stream_read s)) = send_ok w s" "send_fin (snd (stream_read s)) = send_fin s"
    by (simp_all add: stream_read_def send_ok_def split: prod.split)
qed

lemma conn_inv_queue:
  assumes io: "honest_socket io given incoming" and inv: "conn_inv given incoming base src sent c s"
  shows "conn_inv given incoming base src sent (queue_to_tcp io (fst (stream_read s)) c) (snd (stream_read s))"
proof -
  note r = stream_read_inv [OF conn_invD(1,2) [OF inv]]
  have "prefix (given (fc_stream c)) (base @ take (rdelivered (recv (snd (stream_read s)))) src)"
    unfolding r(3) using conn_invD(3) [OF inv] by (metis append_assoc prefix_prefix)
  moreover have "given (fc_stream c) @ fc_out c @ fst (stream_read s) = base @ take (rdelivered (recv (snd (stream_read s)))) src"
    if "\<not> fc_dead c"
    using conn_invD(4) [OF inv that] by (simp add: r(3) flip: append_assoc)
  ultimately have "conn_inv given incoming base src sent (c\<lparr>fc_out := fc_out c @ fst (stream_read s)\<rparr>) (snd (stream_read s))"
    using inv unfolding conn_inv_def r(4,5) by (simp add: r(1,2))
  then show ?thesis unfolding queue_to_tcp_def by (rule conn_inv_flush [OF io])
qed

text \<open>The local side was read until it failed, closed or had nothing more for now.\<close>

definition socket_drained :: "'k tcp_ops \<Rightarrow> 'k forward_conn \<Rightarrow> bool" where
  "socket_drained io c \<longleftrightarrow> fc_dead c \<or> fc_read_closed c \<or> (\<exists>n k. tc_read io n k = (Empty, fc_stream c))"

text \<open>Reading the socket ends when the peer has nothing left, and takes its bytes in order.\<close>

lemma read_loop_reads:
  assumes io: "honest_socket io given incoming"
  shows "\<exists>d c'. read_loop io acc c = Some (acc @ d, c') \<and> incoming (fc_stream c) = d @ incoming (fc_stream c') \<and>
     given (fc_stream c') = given (fc_stream c) \<and> fc_out c' = fc_out c \<and> fc_fin_sent c' = fc_fin_sent c \<and>
     fc_peer_closed c' = fc_peer_closed c \<and> (fc_dead c \<longrightarrow> fc_dead c') \<and>
     (fc_read_closed c' \<longrightarrow> fc_read_closed c \<or> incoming (fc_stream c') = []) \<and> (fc_read_closed c \<longrightarrow> fc_read_closed c') \<and>
     socket_drained io c'"
proof (induction "length (incoming (fc_stream c))" arbitrary: acc c rule: less_induct)
  case less
  obtain r k where rd: "tc_read io 16384 (fc_stream c) = (r, k)" by (cases "tc_read io 16384 (fc_stream c)")
  note h = honest_socket_read [OF io rd]
  show ?case
  proof (cases r)
    case (Data bs)
    have "length (incoming k) < length (incoming (fc_stream c))" using h Data by auto
    from less [of "c\<lparr>fc_stream := k\<rparr>" "acc @ bs", simplified, OF this] show ?thesis
      using h Data rd by (auto simp: read_loop.simps [of io acc c])
  qed (use h rd in \<open>auto simp: read_loop.simps [of io acc c] socket_drained_def intro!: exI [of _ "[]"]\<close>)
qed

lemma read_tcp_inv:
  assumes io: "honest_socket io given incoming" and inv: "conn_inv given incoming base src sent c s"
  shows "\<exists>d c'. read_tcp io c = Some (d, c') \<and> fc_fin_sent c' = fc_fin_sent c \<and> fc_peer_closed c' = fc_peer_closed c \<and>
     given (fc_stream c') = given (fc_stream c) \<and> fc_out c' = fc_out c \<and> socket_drained io c' \<and>
     conn_inv given incoming base src sent c' (if d \<noteq> [] then stream_write d s else s)"
proof (cases "fc_read_closed c \<or> fc_dead c")
  case True
  then show ?thesis using inv by (auto simp: read_tcp_def socket_drained_def)
next
  case False
  obtain d c' where r: "read_loop io [] c = Some (d, c')" "incoming (fc_stream c) = d @ incoming (fc_stream c')"
    "given (fc_stream c') = given (fc_stream c)" "fc_out c' = fc_out c" "fc_fin_sent c' = fc_fin_sent c"
    "fc_peer_closed c' = fc_peer_closed c" "fc_read_closed c' \<longrightarrow> incoming (fc_stream c') = []" "socket_drained io c'"
    using read_loop_reads [OF io, of "[]" c] False by auto
  obtain w where w: "send_ok w s" "sent = w @ incoming (fc_stream c)" using conn_invD(8) [OF inv] by auto
  let ?s = "if d \<noteq> [] then stream_write d s else s"
  have "send_ok (w @ d) ?s" "recv ?s = recv s" "send_fin ?s = send_fin s" "sent = (w @ d) @ incoming (fc_stream c')"
    using w r(2) by (auto intro: send_ok_write) (auto simp: stream_write_def)
  then have "conn_inv given incoming base src sent c' ?s"
    using inv r(3-7) False unfolding conn_inv_def by auto
  then show ?thesis using r(1,3-6,8) False by (simp add: read_tcp_def)
qed

lemma needs_fin_inv:
  assumes inv: "conn_inv given incoming base src sent c s" and fin: "needs_fin c = (fin, c')"
  shows "conn_inv given incoming base src sent c' (if fin then stream_close 0 s else s)"
    and "fc_read_closed c' \<longrightarrow> send_fin (if fin then stream_close 0 s else s)"
    and "fc_dead c' = fc_dead c" "fc_peer_closed c' = fc_peer_closed c" "fc_stream c' = fc_stream c" "fc_out c' = fc_out c"
    and "socket_drained io c' = socket_drained io c"
  using fin inv by (auto simp: needs_fin_def conn_inv_def stream_close_def send_ok_def socket_drained_def split: if_splits)

text \<open>A read that returns nothing changes nothing, any other takes a segment.\<close>

lemma stream_read_Nil:
  assumes "reasm_agrees (recv s) src" "fst (stream_read s) = []"
  shows "snd (stream_read s) = s"
proof (cases "bt_get (segs (recv s)) (rdelivered (recv s))")
  case (Some seg)
  then have "seg \<noteq> []"
    using assms(1) by (auto simp: reasm_agrees_def reasm_ok_def seg_ok_def dest!: bt_get_SomeD)
  then show ?thesis using assms(2) Some by (simp add: stream_read_def reasm_read_def)
qed (simp add: stream_read_def reasm_read_def)

lemma stream_read_shrinks:
  assumes "reasm_agrees (recv s) src" "fst (stream_read s) \<noteq> []"
  shows "length (segs (recv (snd (stream_read s)))) < length (segs (recv s))"
proof (cases "bt_get (segs (recv s)) (rdelivered (recv s))")
  case (Some seg)
  have "bt_ok (segs (recv s))" using assms(1) by (simp add: reasm_agrees_def reasm_ok_def seg_ok_def)
  then have "length (bt_remove (rdelivered (recv s)) (segs (recv s))) < length (segs (recv s))"
    unfolding bt_remove_filter [OF \<open>bt_ok _\<close>]
    by (intro length_filter_less [OF bt_get_SomeD [OF Some]]) simp
  then show ?thesis using Some by (simp add: stream_read_def reasm_read_def)
qed (use assms(2) in \<open>simp add: stream_read_def reasm_read_def\<close>)

context session_stream
begin

text \<open>A round of the pump always returns when the local side sends finitely much, and keeps the invariant.\<close>

lemma relay_in_inv:
  assumes io: "honest_socket io given incoming"
  shows "view core = Some s \<Longrightarrow> conn_inv given incoming base src sent c s \<Longrightarrow>
     \<exists>c' core' s'. relay_in io st c core = Some (c', core') \<and> view core' = Some s' \<and> conn_inv given incoming base src sent c' s' \<and>
       (fst (stream_read s') = [] \<or> FORWARD_SEND_CAP \<le> length (fc_out c')) \<and>
       (willing io \<longrightarrow> \<not> fc_dead c \<longrightarrow> fc_out c = [] \<longrightarrow> \<not> fc_dead c' \<and> fc_out c' = [])"
proof (induction "length (segs (recv s))" arbitrary: c core s rule: less_induct)
  case less
  obtain d core1 where rd: "so_read st core = (d, core1)" by (cases "so_read st core")
  note v = read_view [OF rd less(2)]
  note inv = less(3) and ra = conn_invD(1) [OF less(3)]
  consider "FORWARD_SEND_CAP \<le> length (fc_out c)" | "length (fc_out c) < FORWARD_SEND_CAP" "d = []"
    | "length (fc_out c) < FORWARD_SEND_CAP" "d \<noteq> []" by force
  then show ?case
  proof cases
    case 1
    then show ?thesis using less(2,3) by (simp add: relay_in.simps [of io st c])
  next
    case 2
    then show ?thesis
      using v stream_read_Nil [OF ra] inv rd by (simp add: relay_in.simps [of io st c])
  next
    case 3
    have "length (segs (recv (snd (stream_read s)))) < length (segs (recv s))"
      using stream_read_shrinks [OF ra] 3 v by simp
    moreover have "\<not> fc_dead (queue_to_tcp io d c) \<and> fc_out (queue_to_tcp io d c) = []" if "willing io" "\<not> fc_dead c"
      using fc_flush_willing [OF that(1)] that(2) by (simp add: queue_to_tcp_def)
    ultimately show ?thesis
      using less(1) [OF _ conjunct2 [OF v] conn_inv_queue [OF io inv]] 3 v rd by (auto simp: relay_in.simps [of io st c])
  qed
qed

lemma relay_out_inv:
  assumes io: "honest_socket io given incoming" and vw: "view core = Some s" and inv: "conn_inv given incoming base src sent c s"
  shows "\<exists>c' core' s'. relay_out io st c core = Some (c', core') \<and> view core' = Some s' \<and> conn_inv given incoming base src sent c' s' \<and>
     recv s' = recv s \<and> fc_out c' = fc_out c \<and> given (fc_stream c') = given (fc_stream c) \<and>
     (socket_drained io c' \<or> FORWARD_SEND_CAP \<le> length (send_buf s'))"
proof (cases "so_in_flight st core < FORWARD_SEND_CAP")
  case True
  obtain d c' where "read_tcp io c = Some (d, c')" "conn_inv given incoming base src sent c' (if d \<noteq> [] then stream_write d s else s)"
    "fc_out c' = fc_out c" "given (fc_stream c') = given (fc_stream c)" "socket_drained io c'"
    using read_tcp_inv [OF io inv] by auto
  moreover have "recv (stream_write d s) = recv s" for d by (simp add: stream_write_def)
  ultimately show ?thesis using True vw by (auto simp: relay_out_def write_view)
qed (use vw inv flight_view [OF vw] in \<open>simp add: relay_out_def\<close>)

lemma pump_conn_inv:
  assumes io: "honest_socket io given incoming" and vw: "view core = Some s" and inv: "conn_inv given incoming base src sent c s"
  shows "\<exists>fin c' core' s'. pump_conn io st c core = Some (fin, c', core') \<and> view core' = Some s' \<and>
     conn_inv given incoming base src sent c' s' \<and> fin = fc_finished c' \<and> (fc_read_closed c' \<longrightarrow> send_fin s') \<and>
     (fst (stream_read s') = [] \<or> FORWARD_SEND_CAP \<le> length (fc_out c')) \<and>
     (willing io \<longrightarrow> \<not> fc_dead c \<longrightarrow> fst (stream_read s') = [] \<and> given (fc_stream c') = base @ take (rdelivered (recv s')) src) \<and>
     (socket_drained io c' \<or> FORWARD_SEND_CAP \<le> length (send_buf s'))"
proof -
  have flushed: "willing io \<longrightarrow> \<not> fc_dead c \<longrightarrow> \<not> fc_dead (fc_flush io c) \<and> fc_out (fc_flush io c) = []"
    using fc_flush_willing by blast
  obtain c1 core1 s1 where 1: "relay_in io st (fc_flush io c) core = Some (c1, core1)" "view core1 = Some s1"
    "conn_inv given incoming base src sent c1 s1" "fst (stream_read s1) = [] \<or> FORWARD_SEND_CAP \<le> length (fc_out c1)"
    "willing io \<longrightarrow> \<not> fc_dead c \<longrightarrow> \<not> fc_dead c1 \<and> fc_out c1 = []"
    using relay_in_inv [OF io vw conn_inv_flush [OF io inv]] flushed by blast
  have all: "willing io \<longrightarrow> \<not> fc_dead c \<longrightarrow> given (fc_stream c1) = base @ take (rdelivered (recv s1)) src \<and> fst (stream_read s1) = []"
    using 1(4,5) conn_invD(4) [OF 1(3)] by (auto simp: FORWARD_SEND_CAP_def)
  obtain c2 core2 s2 where 2: "relay_out io st c1 core1 = Some (c2, core2)" "view core2 = Some s2"
    "conn_inv given incoming base src sent c2 s2" "recv s2 = recv s1" "fc_out c2 = fc_out c1" "given (fc_stream c2) = given (fc_stream c1)"
    "socket_drained io c2 \<or> FORWARD_SEND_CAP \<le> length (send_buf s2)"
    using relay_out_inv [OF io 1(2,3)] by auto
  obtain fin c3 where 3: "needs_fin c2 = (fin, c3)" by (cases "needs_fin c2")
  let ?s = "if fin then stream_close 0 s2 else s2"
  have same: "recv ?s = recv s1" "send_buf ?s = send_buf s2" "fst (stream_read ?s) = fst (stream_read s1)"
    using 2(4) by (simp_all add: stream_close_def stream_read_def split: prod.split)
  have run: "pump_conn io st c core = Some (fc_finished c3, c3, if fin then so_close st core2 else core2)"
    "view (if fin then so_close st core2 else core2) = Some ?s"
    using 1(1) 2(1,2) 3 by (simp_all add: pump_conn_def close_view)
  have "fst (stream_read ?s) = [] \<or> FORWARD_SEND_CAP \<le> length (fc_out c3)" using 1(4) same(3) 2(5) needs_fin_inv(6) [OF 2(3) 3] by simp
  moreover have "willing io \<longrightarrow> \<not> fc_dead c \<longrightarrow> fst (stream_read ?s) = [] \<and> given (fc_stream c3) = base @ take (rdelivered (recv ?s)) src"
    using all same(1,3) 2(6) needs_fin_inv(5) [OF 2(3) 3] by simp
  moreover have "socket_drained io c3 \<or> FORWARD_SEND_CAP \<le> length (send_buf ?s)" using 2(7) same(2) needs_fin_inv(7) [OF 2(3) 3] by simp
  ultimately show ?thesis using run needs_fin_inv(1,2) [OF 2(3) 3] by blast
qed

end

end
