(* ===== verification/Client.thy ===== *)
theory Client
  imports Runtime Shell
begin

text \<open>
  The client core, \<^verbatim>\<open>ClientCore\<close> of \<^verbatim>\<open>src/client.rs\<close>: the handshake with the trust decision, the dispatch
  of received frames, what is sent at a tick, and the streams it opens. Parameters are the snow
  library, the session id drawn at random, and the value of the environment variable \<^verbatim>\<open>TERM\<close>.
\<close>

section \<open>State\<close>

record ('s, 't, 'a) client_core =
  cc_hs :: "'s handshaker option"
  cc_session :: "('a session \<times> 't noise_session) option"
  cc_shell :: client_shell
  cc_known :: known_hosts
  cc_host :: ustr
  cc_addr :: 'a
  cc_rows :: u16
  cc_cols :: u16
  cc_term :: bytes
  cc_established :: bool
  cc_server_static :: "bytes option"
  cc_exited :: "u32 option"
  cc_pending_control :: "frame list"
  cc_open_shell_pending :: bool
  cc_open_shell_ticks :: nat
  cc_need_ack :: bool
  cc_mux :: stream_mux
  cc_events :: "stream_event list"
  cc_want_shell :: bool
  cc_want_agent :: bool
  cc_remote_forwards :: "(u16 \<times> bytes) list"
  cc_remote_forward_ticks :: nat
  cc_known_dirty :: bool
  cc_server_version :: "bytes option"

text \<open>A string is its bytes: a character outside ASCII has only bytes from 128, none of which is
  allowed.\<close>

definition version_char :: "u8 \<Rightarrow> bool" where
  "version_char b \<longleftrightarrow> is_digit b \<or> 65 \<le> b \<and> b \<le> 90 \<or> 97 \<le> b \<and> b \<le> 122 \<or> b = 46 \<or> b = 45 \<or> b = 43"

definition sane_version :: "bytes \<Rightarrow> bool" where
  "sane_version v \<longleftrightarrow> v \<noteq> [] \<and> length v \<le> 32 \<and> is_digit (v ! 0) \<and> list_all version_char v"

definition OPEN_SHELL_MAX_TICKS :: nat where "OPEN_SHELL_MAX_TICKS = 300"
definition REMOTE_FORWARD_MAX_TICKS :: nat where "REMOTE_FORWARD_MAX_TICKS = 300"

definition client_core_new :: "('s, 't) snow \<Rightarrow> bytes \<Rightarrow> bytes option \<Rightarrow> bytes \<Rightarrow> known_hosts \<Rightarrow> ustr \<Rightarrow> 'a \<Rightarrow>
    u16 \<Rightarrow> u16 \<Rightarrow> display_mode \<Rightarrow> runtime_error + (('s, 't, 'a) client_core \<times> bytes)" where
  "client_core_new sn sid term_var priv known host addr rows cols mode =
     rbind (map_err RHandshakeDriver (handshaker_client sn priv sid)) (\<lambda>(hs, first).
       Inr (\<lparr>cc_hs = Some hs, cc_session = None,
             cc_shell = with_prediction mode (client_shell_new (unat rows) (unat cols)),
             cc_known = known, cc_host = host, cc_addr = addr, cc_rows = rows, cc_cols = cols,
             cc_term = (case term_var of Some t \<Rightarrow> if t \<noteq> [] then t else asc ''xterm-256color'' | None \<Rightarrow> asc ''xterm-256color''),
             cc_established = False, cc_server_static = None, cc_exited = None, cc_pending_control = [],
             cc_open_shell_pending = False, cc_open_shell_ticks = 0, cc_need_ack = False, cc_mux = mux_new True,
             cc_events = [], cc_want_shell = True, cc_want_agent = False, cc_remote_forwards = [],
             cc_remote_forward_ticks = 0, cc_known_dirty = False, cc_server_version = None\<rparr>, first))"

definition set_want_shell :: "bool \<Rightarrow> ('s, 't, 'a) client_core \<Rightarrow> ('s, 't, 'a) client_core" where
  "set_want_shell want c = c\<lparr>cc_want_shell := want\<rparr>"

definition set_want_agent :: "bool \<Rightarrow> ('s, 't, 'a) client_core \<Rightarrow> ('s, 't, 'a) client_core" where
  "set_want_agent want c = c\<lparr>cc_want_agent := want\<rparr>"

definition cc_type_input :: "bytes \<Rightarrow> ('s, 't, 'a) client_core \<Rightarrow> ('s, 't, 'a) client_core" where
  "cc_type_input bs c = c\<lparr>cc_shell := type_input bs (cc_shell c)\<rparr>"

definition client_resize :: "u16 \<Rightarrow> u16 \<Rightarrow> ('s, 't, 'a) client_core \<Rightarrow> ('s, 't, 'a) client_core" where
  "client_resize cols rows c =
     c\<lparr>cc_rows := rows, cc_cols := cols,
       cc_pending_control := cc_pending_control c @ [Control (control_encode (CResize cols rows))]\<rparr>"

definition send_bye :: "('s, 't, 'a) client_core \<Rightarrow> ('s, 't, 'a) client_core" where
  "send_bye c = c\<lparr>cc_pending_control := cc_pending_control c @ [Control (control_encode CBye)]\<rparr>"

definition cc_screen :: "('s, 't, 'a) client_core \<Rightarrow> grid" where
  "cc_screen c = cs_grid (cc_shell c)"

definition cc_overlay :: "('s, 't, 'a) client_core \<Rightarrow> grid" where
  "cc_overlay c = client_overlay (cc_shell c)"


section \<open>Sending\<close>

text \<open>The frames a tick sends, and the state after collecting them.\<close>

definition open_shell_frames :: "('s, 't, 'a) client_core \<Rightarrow> frame list \<times> ('s, 't, 'a) client_core" where
  "open_shell_frames c =
     (if cc_open_shell_pending c then
        (let n = wrap32 (cc_open_shell_ticks c + 1) in
         ([Control (control_encode (COpenShell (cc_cols c) (cc_rows c) (cc_term c) (cc_want_agent c)))],
          c\<lparr>cc_open_shell_ticks := n, cc_open_shell_pending := (n < OPEN_SHELL_MAX_TICKS)\<rparr>))
      else ([], c))"

definition remote_forward_frames :: "('s, 't, 'a) client_core \<Rightarrow> frame list \<times> ('s, 't, 'a) client_core" where
  "remote_forward_frames c =
     (if cc_remote_forwards c \<noteq> [] \<and> cc_remote_forward_ticks c < REMOTE_FORWARD_MAX_TICKS then
        (map (\<lambda>(bind_port, target). Control (control_encode (CRemoteForward bind_port target))) (cc_remote_forwards c),
         c\<lparr>cc_remote_forward_ticks := cc_remote_forward_ticks c + 1\<rparr>)
      else ([], c))"

definition stream_frames :: "('s, 't, 'a) client_core \<Rightarrow> frame list \<times> ('s, 't, 'a) client_core" where
  "stream_frames c =
     (case poll_transmit (cc_mux c) of (frames, m) \<Rightarrow>
      case take_events m of (evs, m) \<Rightarrow> (frames, c\<lparr>cc_mux := m, cc_events := cc_events c @ evs\<rparr>))"

definition outgoing :: "('s, 't) snow \<Rightarrow> ('s, 't, 'a) client_core \<Rightarrow> (runtime_error + bytes list) \<times> ('s, 't, 'a) client_core" where
  "outgoing sn c =
     (case cc_session c of
        None \<Rightarrow> (Inr [], c)
      | Some (session, noise) \<Rightarrow>
          (case open_shell_frames c of (fs1, c) \<Rightarrow>
           case remote_forward_frames c of (fs2, c) \<Rightarrow>
             (let fs3 = cc_pending_control c;
                  c = c\<lparr>cc_pending_control := []\<rparr>;
                  fs4 = client_poll_frames (cc_shell c)
              in case stream_frames c of (fs5, c) \<Rightarrow>
                (let frames = fs1 @ fs2 @ fs3 @ fs4 @ fs5 in
                 if frames = [] then (Inr [], c)
                 else
                   (case seal_many (noise_encrypt sn noise) frames MAX_DATAGRAM_PLAINTEXT session of
                      (Inl err, session') \<Rightarrow> (Inl (RTransport err), c\<lparr>cc_session := Some (session', noise)\<rparr>)
                    | (Inr pkts, session') \<Rightarrow>
                        (Inr pkts, c\<lparr>cc_session := Some (session', noise), cc_need_ack := False\<rparr>))))))"

definition client_tick :: "('s, 't) snow \<Rightarrow> ('s, 't, 'a) client_core \<Rightarrow> bytes list \<times> ('s, 't, 'a) client_core" where
  "client_tick sn c = (case outgoing sn c of (r, c') \<Rightarrow> (case r of Inr pkts \<Rightarrow> pkts | Inl _ \<Rightarrow> [], c'))"

definition has_outgoing :: "('s, 't, 'a) client_core \<Rightarrow> bool" where
  "has_outgoing c \<longleftrightarrow> cc_session c \<noteq> None \<and>
     (cc_open_shell_pending c \<or> cc_pending_control c \<noteq> [] \<or> cc_need_ack c \<or> has_pending_input (cc_shell c) \<or>
      has_traffic (cc_mux c) \<or> (cc_remote_forwards c \<noteq> [] \<and> cc_remote_forward_ticks c < REMOTE_FORWARD_MAX_TICKS))"

definition keepalive :: "('s, 't) snow \<Rightarrow> ('s, 't, 'a) client_core \<Rightarrow> bytes option \<times> ('s, 't, 'a) client_core" where
  "keepalive sn c =
     (case cc_session c of
        None \<Rightarrow> (None, c)
      | Some (session, noise) \<Rightarrow>
          (case seal (noise_encrypt sn noise) [Ping 0] session of (r, session') \<Rightarrow>
             (case r of Inr pkt \<Rightarrow> Some pkt | Inl _ \<Rightarrow> None, c\<lparr>cc_session := Some (session', noise)\<rparr>)))"


section \<open>Receiving\<close>

definition learn_version :: "bytes \<Rightarrow> ('s, 't, 'a) client_core \<Rightarrow> ('s, 't, 'a) client_core" where
  "learn_version v c = (if cc_server_version c = None \<and> sane_version v then c\<lparr>cc_server_version := Some v\<rparr> else c)"

text \<open>The part of \<^verbatim>\<open>handle_handshake\<close> after the trust decision.\<close>

definition client_establish :: "('s, 't) snow \<Rightarrow> 's handshaker \<Rightarrow> bytes \<Rightarrow> bytes list \<Rightarrow> ('s, 't, 'a) client_core \<Rightarrow>
    (runtime_error + bytes list) \<times> ('s, 't, 'a) client_core" where
  "client_establish sn hs server_static out c0 =
     (let c = c0\<lparr>cc_server_static := Some server_static\<rparr>;
          c = (case hk_peer hs of Some p \<Rightarrow> if utf8_ok p then learn_version p c else c | None \<Rightarrow> c);
          c = c\<lparr>cc_hs := None\<rparr>
      in case into_session sn (Some (cc_addr c)) hs of
           Inl err \<Rightarrow> (Inl (RHandshakeDriver err), c)
         | Inr (session, noise) \<Rightarrow>
             (case outgoing sn (c\<lparr>cc_session := Some (session, noise), cc_established := True,
                                 cc_open_shell_pending := cc_want_shell c\<rparr>) of
                (r, c') \<Rightarrow> (rbind r (\<lambda>pkts. Inr (out @ pkts)), c')))"

definition client_handle_handshake :: "('s, 't) snow \<Rightarrow> bytes \<Rightarrow> ('s, 't, 'a) client_core \<Rightarrow>
    (runtime_error + bytes list) \<times> ('s, 't, 'a) client_core" where
  "client_handle_handshake sn body c =
     (case cc_hs c of
        None \<Rightarrow> (Inl RHandshake, c)
      | Some hs0 \<Rightarrow>
          (case handshaker_read sn body hs0 of
             (Inl err, hs) \<Rightarrow> (Inl (RHandshakeDriver err), c\<lparr>cc_hs := Some hs\<rparr>)
           | (Inr oc, hs) \<Rightarrow>
               (let c = c\<lparr>cc_hs := Some hs\<rparr>;
                    out = (case ho_reply oc of Some reply \<Rightarrow> [reply] | None \<Rightarrow> [])
                in if ho_finished oc then
                     (case hk_remote_static sn hs of
                        None \<Rightarrow> (Inl RHandshake, c)
                      | Some server_static \<Rightarrow>
                          (case verify_server (cc_host c) server_static (cc_known c) of
                             (TofuMismatch, known) \<Rightarrow> (Inl (RHostKeyMismatch (cc_host c)), c\<lparr>cc_known := known\<rparr>)
                           | (TofuNew, known) \<Rightarrow>
                               client_establish sn hs server_static out (c\<lparr>cc_known := known, cc_known_dirty := True\<rparr>)
                           | (TofuMatch, known) \<Rightarrow>
                               client_establish sn hs server_static out (c\<lparr>cc_known := known\<rparr>)))
                   else (Inr out, c))))"

fun client_frame :: "frame \<Rightarrow> ('s, 't, 'a) client_core \<Rightarrow> ('s, 't, 'a) client_core" where
  "client_frame (StateDiff sq base data) c =
     c\<lparr>cc_shell := snd (apply_state_diff (unat sq) (unat base) data (cc_shell c)), cc_need_ack := True\<rparr>"
| "client_frame (Ack sq) c = c\<lparr>cc_shell := on_input_ack (unat sq) (cc_shell c)\<rparr>"
| "client_frame (Control data) c =
     (case control_decode data of
        Inr (CExit status) \<Rightarrow> c\<lparr>cc_exited := Some status\<rparr>
      | Inr (CServerVersion v) \<Rightarrow> learn_version v c
      | _ \<Rightarrow> c)"
| "client_frame (Input offset data) c = c"
| "client_frame (Resize cols rows) c = c"
| "client_frame (Ping stamp) c = c"
| "client_frame (Pong stamp) c = c"
| "client_frame f c = c\<lparr>cc_mux := mux_on_frame f (cc_mux c)\<rparr>"

definition client_handle_transport :: "('s, 't) snow \<Rightarrow> bytes \<Rightarrow> ('s, 't, 'a) client_core \<Rightarrow> ('s, 't, 'a) client_core" where
  "client_handle_transport sn buf c =
     (case cc_session c of
        None \<Rightarrow> c
      | Some (session, noise) \<Rightarrow>
          (case open_packet (noise_decrypt sn noise) (cc_addr c) buf session of
             (Inl _, session') \<Rightarrow> c\<lparr>cc_session := Some (session', noise)\<rparr>
           | (Inr frames, session') \<Rightarrow>
               (let c = fold client_frame frames (c\<lparr>cc_session := Some (session', noise)\<rparr>) in
                case take_events (cc_mux c) of (evs, m) \<Rightarrow>
                  (let c = c\<lparr>cc_mux := m, cc_events := cc_events c @ evs\<rparr>
                   in if cs_seq (cc_shell c) > 0 then c\<lparr>cc_open_shell_pending := False\<rparr> else c))))"

definition client_handle_packet :: "('s, 't) snow \<Rightarrow> bytes \<Rightarrow> ('s, 't, 'a) client_core \<Rightarrow>
    (runtime_error + bytes list) \<times> ('s, 't, 'a) client_core" where
  "client_handle_packet sn buf c =
     (case parse_packet buf of
        Inl err \<Rightarrow> (Inl (RTransport err), c)
      | Inr (PHandshake sid body) \<Rightarrow> client_handle_handshake sn body c
      | Inr (PTransport sid nonce body) \<Rightarrow> (Inr [], client_handle_transport sn buf c))"


section \<open>Streams\<close>

definition cc_open :: "stream_kind \<Rightarrow> bytes \<Rightarrow> ('s, 't, 'a) client_core \<Rightarrow> u64 \<times> ('s, 't, 'a) client_core" where
  "cc_open kind meta c = (case mux_open kind meta (cc_mux c) of (i, m) \<Rightarrow> (i, c\<lparr>cc_mux := m\<rparr>))"

definition cc_open_forward :: "bytes \<Rightarrow> ('s, 't, 'a) client_core \<Rightarrow> u64 \<times> ('s, 't, 'a) client_core" where
  "cc_open_forward target c = cc_open Forward target c"

definition cc_open_xfer :: "xfer_request \<Rightarrow> ('s, 't, 'a) client_core \<Rightarrow> u64 \<times> ('s, 't, 'a) client_core" where
  "cc_open_xfer req c = cc_open FileTransfer (xfer_encode req) c"

definition cc_open_exec :: "bytes \<Rightarrow> ('s, 't, 'a) client_core \<Rightarrow> u64 \<times> ('s, 't, 'a) client_core" where
  "cc_open_exec cmd c = cc_open Exec cmd c"

definition cc_stream_write :: "u64 \<Rightarrow> bytes \<Rightarrow> ('s, 't, 'a) client_core \<Rightarrow> ('s, 't, 'a) client_core" where
  "cc_stream_write i data c = c\<lparr>cc_mux := mux_write i data (cc_mux c)\<rparr>"

definition cc_stream_read :: "u64 \<Rightarrow> ('s, 't, 'a) client_core \<Rightarrow> bytes \<times> ('s, 't, 'a) client_core" where
  "cc_stream_read i c = (case mux_read i (cc_mux c) of (out, m) \<Rightarrow> (out, c\<lparr>cc_mux := m\<rparr>))"

definition cc_stream_close :: "u64 \<Rightarrow> ('s, 't, 'a) client_core \<Rightarrow> ('s, 't, 'a) client_core" where
  "cc_stream_close i c = c\<lparr>cc_mux := mux_close i 0 (cc_mux c)\<rparr>"

definition request_remote_forward :: "u16 \<Rightarrow> bytes \<Rightarrow> ('s, 't, 'a) client_core \<Rightarrow> ('s, 't, 'a) client_core" where
  "request_remote_forward bind_port target c =
     c\<lparr>cc_remote_forwards := cc_remote_forwards c @ [(bind_port, target)], cc_remote_forward_ticks := 0\<rparr>"

definition cc_stream_in_flight :: "u64 \<Rightarrow> ('s, 't, 'a) client_core \<Rightarrow> nat" where
  "cc_stream_in_flight i c = in_flight i (cc_mux c)"

definition cc_stream_recv_finished :: "u64 \<Rightarrow> ('s, 't, 'a) client_core \<Rightarrow> bool" where
  "cc_stream_recv_finished i c = is_recv_finished i (cc_mux c)"

definition cc_take_events :: "('s, 't, 'a) client_core \<Rightarrow> stream_event list \<times> ('s, 't, 'a) client_core" where
  "cc_take_events c = (cc_events c, c\<lparr>cc_events := []\<rparr>)"

end
