(* ===== verification/ClientSafe.thy ===== *)
theory ClientSafe
  imports Client
begin

text \<open>
  Properties of the client core: it talks only to the server whose key is pinned, a version it
  shows is harmless text, a forged transport packet changes nothing, and an idle client becomes
  silent. A datagram that does not parse, or a late handshake datagram, is an error of the whole
  client.
\<close>

section \<open>Whom the client trusts\<close>

text \<open>What the trust decision rests on, which only the end of a handshake changes.\<close>

definition trust_view :: "('s, 't, 'a) client_core \<Rightarrow>
    bool \<times> 't noise_session option \<times> known_hosts \<times> ustr \<times> bytes option \<times> 's handshaker option" where
  "trust_view c = (cc_established c, map_option snd (cc_session c), cc_known c, cc_host c, cc_server_static c, cc_hs c)"

definition version_ok :: "('s, 't, 'a) client_core \<Rightarrow> bool" where
  "version_ok c \<longleftrightarrow> pred_option sane_version (cc_server_version c)"

definition same_trust :: "('s, 't, 'a) client_core \<Rightarrow> ('s, 't, 'a) client_core \<Rightarrow> bool" where
  "same_trust c c' \<longleftrightarrow> trust_view c' = trust_view c \<and> (version_ok c \<longrightarrow> version_ok c')"

lemma same_trust_refl [simp]: "same_trust c c"
  by (simp add: same_trust_def)

lemma same_trust_trans [trans]: "same_trust a b \<Longrightarrow> same_trust b c \<Longrightarrow> same_trust a c"
  by (simp add: same_trust_def)

lemma trust_outgoing: "same_trust c (snd (outgoing sn c))"
  by (auto simp: outgoing_def open_shell_frames_def remote_forward_frames_def stream_frames_def same_trust_def
      trust_view_def version_ok_def Let_def split: option.splits prod.splits sum.splits)

lemma trust_learn: "same_trust c (learn_version v c)"
  by (simp add: learn_version_def same_trust_def trust_view_def version_ok_def)

lemma trust_frame: "same_trust c (client_frame f c)"
proof (cases f)
  case (Control data)
  then show ?thesis
    using trust_learn [of c] by (auto simp: same_trust_def trust_view_def version_ok_def split: sum.splits control_msg.splits)
qed (auto simp: same_trust_def trust_view_def version_ok_def simp del: mux_on_frame.simps)

lemma trust_frames: "same_trust c (fold client_frame fs c)"
proof (induction fs arbitrary: c)
  case (Cons f fs)
  show ?case using same_trust_trans [OF trust_frame Cons.IH] by simp
qed simp

lemma trust_transport: "same_trust c (client_handle_transport sn buf c)"
proof (cases "cc_session c")
  case (Some sn')
  obtain session noise where s: "cc_session c = Some (session, noise)" using Some by (cases sn') simp
  obtain r session' where o: "open_packet (noise_decrypt sn noise) (cc_addr c) buf session = (r, session')" by fastforce
  let ?c = "c\<lparr>cc_session := Some (session', noise)\<rparr>"
  have c: "same_trust c ?c" using s by (simp add: same_trust_def trust_view_def version_ok_def)
  show ?thesis
  proof (cases r)
    case (Inl err)
    then show ?thesis using s o c by (simp add: client_handle_transport_def)
  next
    case (Inr frames)
    have "same_trust c (fold client_frame frames ?c)" using c trust_frames by (rule same_trust_trans)
    then show ?thesis
      using s o Inr by (auto simp: client_handle_transport_def same_trust_def trust_view_def version_ok_def Let_def
          split: prod.splits)
  qed
qed (simp add: client_handle_transport_def)

text \<open>An established client has a session with the pinned server, and only with it; the pins it
  started with still hold.\<close>

definition client_inv :: "known_hosts \<Rightarrow> ustr \<Rightarrow> ('s, 't, 'a) client_core \<Rightarrow> bool" where
  "client_inv known0 host c \<longleftrightarrow> cc_host c = host \<and> (cc_established c \<longleftrightarrow> cc_session c \<noteq> None) \<and>
     (\<forall>n. map_option snd (cc_session c) = Some n \<longrightarrow>
        kh_get host (cc_known c) = Some (ns_remote n) \<and> cc_server_static c = Some (ns_remote n) \<and> cc_hs c = None) \<and>
     (\<forall>h k. kh_get h known0 = Some k \<longrightarrow> kh_get h (cc_known c) = Some k) \<and> version_ok c"

lemma inv_same_trust: "client_inv k0 host c \<Longrightarrow> same_trust c c' \<Longrightarrow> client_inv k0 host c'"
  by (cases "cc_session c"; cases "cc_session c'") (auto simp: client_inv_def same_trust_def trust_view_def)

text \<open>What an accepting trust decision leaves behind.\<close>

lemma verify_accepts:
  assumes "verify_server host key known = (t, known')" "t \<noteq> TofuMismatch"
  shows "kh_get host known' = Some key" "kh_get h known = Some k \<Longrightarrow> kh_get h known' = Some k"
  using assms by (auto simp: verify_server_def check_or_add_def key_from_bytes_def kh_get_def
      split: sum.splits option.splits if_splits)

lemma verify_refuses: "verify_server host key known = (TofuMismatch, known') \<Longrightarrow> known' = known"
  by (auto simp: verify_server_def check_or_add_def split: sum.splits option.splits if_splits)

lemma inv_establish_client:
  assumes "client_inv k0 host c" "cc_session c = None" "hk_remote_static sn hs = Some key" "kh_get host (cc_known c) = Some key"
  shows "client_inv k0 host (snd (client_establish sn hs key out c))"
proof -
  let ?c1 = "c\<lparr>cc_server_static := Some key\<rparr>"
  let ?c2 = "case hk_peer hs of Some p \<Rightarrow> if utf8_ok p then learn_version p ?c1 else ?c1 | None \<Rightarrow> ?c1"
  have t: "same_trust ?c1 ?c2" using trust_learn [of ?c1] by (auto split: option.splits)
  then have view: "cc_established ?c2 = cc_established c" "cc_session ?c2 = None" "cc_known ?c2 = cc_known c"
    "cc_host ?c2 = cc_host c" "cc_server_static ?c2 = Some key"
    using assms(2) by (auto simp: same_trust_def trust_view_def)
  have v: "version_ok ?c2" using t assms(1) by (auto simp: same_trust_def client_inv_def version_ok_def)
  show ?thesis
  proof (cases "into_session sn (Some (cc_addr (?c2\<lparr>cc_hs := None\<rparr>))) hs")
    case (Inl err)
    have "client_inv k0 host (?c2\<lparr>cc_hs := None\<rparr>)"
      using assms(1,2) view v by (simp add: client_inv_def version_ok_def)
    then show ?thesis using Inl by (simp add: client_establish_def Let_def)
  next
    case (Inr sn2)
    obtain session noise where sn2: "sn2 = (session, noise)" by (cases sn2)
    have remote: "ns_remote noise = key"
      using into_session_ok(3) [OF Inr [unfolded sn2]] assms(3) by simp
    let ?c3 = "?c2\<lparr>cc_hs := None, cc_session := Some (session, noise), cc_established := True, cc_open_shell_pending := cc_want_shell ?c2\<rparr>"
    have "client_inv k0 host ?c3"
      using assms(1,4) view v remote by (simp add: client_inv_def version_ok_def)
    then have "client_inv k0 host (snd (outgoing sn ?c3))" using trust_outgoing by (rule inv_same_trust)
    then show ?thesis using Inr sn2 by (simp add: client_establish_def Let_def case_prod_unfold)
  qed
qed


lemma inv_handshake_client:
  assumes "client_inv k0 host c"
  shows "client_inv k0 host (snd (client_handle_handshake sn body c))"
proof (cases "cc_hs c")
  case (Some hs0)
  obtain r hs where h: "handshaker_read sn body hs0 = (r, hs)" by fastforce
  have no_session: "cc_session c = None" using assms Some by (cases "cc_session c") (auto simp: client_inv_def)
  let ?c = "c\<lparr>cc_hs := Some hs\<rparr>"
  have inv: "client_inv k0 host ?c" using assms no_session by (simp add: client_inv_def version_ok_def)
  show ?thesis
  proof (cases r)
    case (Inl err)
    then show ?thesis using Some h inv by (simp add: client_handle_handshake_def)
  next
    case (Inr oc)
    show ?thesis
    proof (cases "ho_finished oc \<and> hk_remote_static sn hs \<noteq> None")
      case False
      then show ?thesis using Some h Inr inv by (auto simp: client_handle_handshake_def Let_def)
    next
      case True
      then obtain key where key: "hk_remote_static sn hs = Some key" by auto
      obtain t known where v: "verify_server (cc_host c) key (cc_known c) = (t, known)" by fastforce
      have est: "client_inv k0 host (snd (client_establish sn hs key out (?c\<lparr>cc_known := known, cc_known_dirty := d\<rparr>)))"
        if "t \<noteq> TofuMismatch" for out d
        using verify_accepts [OF v that] inv no_session
        by (intro inv_establish_client [OF _ _ key]) (auto simp: client_inv_def version_ok_def)
      have est': "client_inv k0 host (snd (client_establish sn hs key out (?c\<lparr>cc_known := known\<rparr>)))"
        if "t \<noteq> TofuMismatch" for out
        using verify_accepts [OF v that] inv no_session
        by (intro inv_establish_client [OF _ _ key]) (auto simp: client_inv_def version_ok_def)
      show ?thesis
        using True Some h Inr key v est est' inv verify_refuses [of "cc_host c" key "cc_known c" known]
        by (cases t) (auto simp: client_handle_handshake_def Let_def client_inv_def version_ok_def)
    qed
  qed
qed (use assms in \<open>simp add: client_handle_handshake_def\<close>)

text \<open>Everything that can happen to a client core.\<close>

datatype client_op =
    CPacket bytes
  | CTick
  | CKeepalive
  | CType bytes
  | CWindow u16 u16
  | CSendBye
  | CWantShell bool
  | CWantAgent bool
  | COpenStream stream_kind bytes
  | CWrite u64 bytes
  | CRead u64
  | CClose u64
  | CForwardReq u16 bytes
  | CTakeEvents

fun client_step :: "('s, 't) snow \<Rightarrow> client_op \<Rightarrow> ('s, 't, 'a) client_core \<Rightarrow> ('s, 't, 'a) client_core" where
  "client_step sn (CPacket buf) c = snd (client_handle_packet sn buf c)"
| "client_step sn CTick c = snd (client_tick sn c)"
| "client_step sn CKeepalive c = snd (keepalive sn c)"
| "client_step sn (CType bs) c = cc_type_input bs c"
| "client_step sn (CWindow cols rows) c = client_resize cols rows c"
| "client_step sn CSendBye c = send_bye c"
| "client_step sn (CWantShell b) c = set_want_shell b c"
| "client_step sn (CWantAgent b) c = set_want_agent b c"
| "client_step sn (COpenStream kind meta) c = snd (cc_open kind meta c)"
| "client_step sn (CWrite i data) c = cc_stream_write i data c"
| "client_step sn (CRead i) c = snd (cc_stream_read i c)"
| "client_step sn (CClose i) c = cc_stream_close i c"
| "client_step sn (CForwardReq port target) c = request_remote_forward port target c"
| "client_step sn CTakeEvents c = snd (cc_take_events c)"

lemmas client_op_defs = keepalive_def cc_type_input_def client_resize_def send_bye_def set_want_shell_def set_want_agent_def
  cc_open_def cc_stream_write_def cc_stream_read_def cc_stream_close_def request_remote_forward_def cc_take_events_def

lemma trust_tick: "same_trust c (snd (client_tick sn c))"
  using trust_outgoing [of c sn] by (simp add: client_tick_def case_prod_unfold)

lemma step_inv_client:
  assumes "client_inv k0 host c"
  shows "client_inv k0 host (client_step sn op c)"
proof (cases op)
  case (CPacket buf)
  then show ?thesis
    using assms inv_handshake_client [OF assms] inv_same_trust [OF assms trust_transport]
    by (auto simp: client_handle_packet_def split: sum.splits packet.splits)
next
  case CTick
  then show ?thesis using inv_same_trust [OF assms trust_tick] by simp
qed (auto intro!: inv_same_trust [OF assms] simp: client_op_defs same_trust_def trust_view_def version_ok_def
    split: option.splits prod.splits)

interpretation client_run: invariant_machine "client_step sn" "client_inv k0 host" "\<lambda>_. True" for sn k0 host
  by unfold_locales (rule step_inv_client)

lemma inv_client_new:
  assumes "client_core_new sn sid tv priv known host addr rows cols mode = Inr (c, first)"
  shows "client_inv known host c"
  using assms by (auto simp: client_core_new_def client_inv_def version_ok_def rbind_def map_err_def split: sum.splits)

text \<open>The client's pins are those it was given, or these with one more for the host, and then it says so.\<close>

definition pin_inv :: "known_hosts \<Rightarrow> ustr \<Rightarrow> ('s, 't, 'a) client_core \<Rightarrow> bool" where
  "pin_inv known0 host c \<longleftrightarrow> cc_host c = host \<and>
     (if cc_known_dirty c then cc_hs c = None \<and> kh_get host known0 = None \<and> (\<exists>key. cc_known c = snd (check_or_add host key known0))
      else cc_known c = known0)"

lemma dirty_outgoing [simp]: "cc_known_dirty (snd (outgoing sn c)) = cc_known_dirty c"
  by (auto simp: outgoing_def open_shell_frames_def remote_forward_frames_def stream_frames_def Let_def
      split: option.splits prod.splits sum.splits)

lemma dirty_frame: "cc_known_dirty (client_frame f c) = cc_known_dirty c"
  by (cases f) (auto simp: learn_version_def simp del: mux_on_frame.simps split: sum.splits control_msg.splits)

lemma dirty_frames: "cc_known_dirty (fold client_frame fs c) = cc_known_dirty c"
  by (induction fs arbitrary: c) (simp_all add: dirty_frame)

lemma dirty_transport: "cc_known_dirty (client_handle_transport sn buf c) = cc_known_dirty c"
  by (auto simp: client_handle_transport_def dirty_frames Let_def split: option.splits prod.splits sum.splits)

lemma pin_same: "pin_inv k0 host c \<Longrightarrow> same_trust c c' \<Longrightarrow> cc_known_dirty c' = cc_known_dirty c \<Longrightarrow> pin_inv k0 host c'"
  by (auto simp: pin_inv_def same_trust_def trust_view_def)

lemma establish_pins:
  fixes c :: "('s, 't, 'a) client_core"
  assumes c': "c' = snd (client_establish sn hs key out c)"
  shows "cc_known c' = cc_known c \<and> cc_host c' = cc_host c \<and> cc_known_dirty c' = cc_known_dirty c \<and> cc_hs c' = None"
proof -
  have o: "cc_known (snd (outgoing sn d)) = cc_known d" "cc_host (snd (outgoing sn d)) = cc_host d" "cc_hs (snd (outgoing sn d)) = cc_hs d"
    for d :: "('s, 't, 'a) client_core" using trust_outgoing [of d sn] by (simp_all add: same_trust_def trust_view_def)
  have l: "cc_known (learn_version v d) = cc_known d" "cc_host (learn_version v d) = cc_host d" "cc_known_dirty (learn_version v d) = cc_known_dirty d"
    for v and d :: "('s, 't, 'a) client_core" by (simp_all add: learn_version_def)
  show ?thesis
    unfolding c' client_establish_def Let_def
    by (auto simp: o l case_prod_unfold split: sum.splits option.splits)
qed

lemma verify_server_cases:
  "verify_server host key known = (TofuMatch, known') \<Longrightarrow> known' = known"
  "verify_server host key known = (TofuNew, known') \<Longrightarrow> kh_get host known = None \<and> known' = snd (check_or_add host key known)"
  by (auto simp: verify_server_def check_or_add_def key_from_bytes_def kh_get_def split: sum.splits option.splits if_splits)

lemma pin_handshake:
  assumes "pin_inv k0 host c"
  shows "pin_inv k0 host (snd (client_handle_handshake sn body c))"
proof (cases "cc_hs c")
  case (Some hs0)
  obtain r hs where h: "handshaker_read sn body hs0 = (r, hs)" by fastforce
  have c: "cc_host c = host" "\<not> cc_known_dirty c" "cc_known c = k0" using assms Some by (auto simp: pin_inv_def split: if_splits)
  show ?thesis
  proof (cases "\<exists>oc key. r = Inr oc \<and> ho_finished oc \<and> hk_remote_static sn hs = Some key")
    case False
    then show ?thesis
      using Some h c by (cases r) (auto simp: client_handle_handshake_def pin_inv_def Let_def split: option.splits)
  next
    case True
    then obtain oc key where oc: "r = Inr oc" "ho_finished oc" "hk_remote_static sn hs = Some key" by blast
    obtain t known where v: "verify_server host key k0 = (t, known)" by fastforce
    note e = establish_pins [OF refl, of sn hs key "case ho_reply oc of Some reply \<Rightarrow> [reply] | None \<Rightarrow> []"]
    show ?thesis
    proof (cases t)
      case TofuNew
      then show ?thesis
        using Some h c oc v verify_server_cases(2) [OF v [unfolded TofuNew]] e [of "c\<lparr>cc_hs := Some hs, cc_known := known, cc_known_dirty := True\<rparr>"]
        by (auto simp: client_handle_handshake_def Let_def pin_inv_def)
    next
      case TofuMatch
      then show ?thesis
        using Some h c oc v verify_server_cases(1) [OF v [unfolded TofuMatch]] e [of "c\<lparr>cc_hs := Some hs, cc_known := known\<rparr>"]
        by (auto simp: client_handle_handshake_def Let_def pin_inv_def)
    next
      case TofuMismatch
      then show ?thesis
        using Some h c oc v verify_refuses [OF v [unfolded TofuMismatch]] by (auto simp: client_handle_handshake_def Let_def pin_inv_def)
    qed
  qed
qed (use assms in \<open>simp add: client_handle_handshake_def\<close>)

lemma pin_packet: "pin_inv k0 host c \<Longrightarrow> pin_inv k0 host (snd (client_handle_packet sn buf c))"
  using pin_handshake pin_same [OF _ trust_transport dirty_transport]
  by (auto simp: client_handle_packet_def split: sum.splits packet.splits)

lemma pin_tick: "pin_inv k0 host c \<Longrightarrow> pin_inv k0 host (snd (client_tick sn c))"
  by (rule pin_same [OF _ trust_tick]) (simp_all add: client_tick_def case_prod_unfold)

lemma pin_step: "pin_inv k0 host c \<Longrightarrow> pin_inv k0 host (client_step sn op c)"
proof (cases op)
  case (CPacket buf)
  then show "pin_inv k0 host c \<Longrightarrow> ?thesis" using pin_packet by simp
next
  case CTick
  then show "pin_inv k0 host c \<Longrightarrow> ?thesis" using pin_tick by simp
qed (auto simp: client_op_defs pin_inv_def split: option.splits prod.splits)

interpretation pin_run: invariant_machine "client_step sn" "pin_inv k0 host" "\<lambda>_. True" for sn k0 host
  by unfold_locales (rule pin_step)

lemma pin_client_new:
  assumes "client_core_new sn sid tv priv known host addr rows cols mode = Inr (c, first)"
  shows "pin_inv known host c"
  using assms by (auto simp: client_core_new_def pin_inv_def rbind_def map_err_def split: sum.splits)

text \<open>C2: the client talks only to the pinned server, and pins are never changed behind the user's back. After any sequence of
  datagrams and local operations, established or not, the pin of every other host is as it was, and if the host itself had a pin,
  then the pins are exactly those the client was given. An established client has a session whose Noise peer key is the one
  pinned for the host, which is the pin it was given if there was one. A client that is not established sends nothing at
  a tick and no keepalive.\<close>

theorem client_talks_to_pinned_server:
  assumes "client_core_new sn sid tv priv known host addr rows cols mode = Inr (c0, first)"
    and "c = fold (client_step sn) ops c0"
  shows "(\<forall>h. h \<noteq> host \<longrightarrow> kh_get h (cc_known c) = kh_get h known) \<and> (kh_get host known \<noteq> None \<longrightarrow> cc_known c = known) \<and>
     (if cc_established c then \<exists>session noise. cc_session c = Some (session, noise) \<and>
        kh_get host (cc_known c) = Some (ns_remote noise) \<and> cc_server_static c = Some (ns_remote noise) \<and>
        kh_get host known \<in> {None, Some (ns_remote noise)}
      else client_tick sn c = ([], c) \<and> keepalive sn c = (None, c))"
proof -
  have inv: "client_inv known host c" and pins: "pin_inv known host c"
    unfolding assms(2)
    by (rule client_run.run_inv [OF inv_client_new [OF assms(1)]], simp) (rule pin_run.run_inv [OF pin_client_new [OF assms(1)]], simp)
  have "kh_get h (snd (check_or_add host key known)) = kh_get h known" if "h \<noteq> host" for h key
    using that by (auto simp: check_or_add_def kh_get_def split: option.splits)
  then have "(\<forall>h. h \<noteq> host \<longrightarrow> kh_get h (cc_known c) = kh_get h known) \<and> (kh_get host known \<noteq> None \<longrightarrow> cc_known c = known)"
    using pins by (auto simp: pin_inv_def split: if_splits)
  moreover have "if cc_established c then \<exists>session noise. cc_session c = Some (session, noise) \<and>
        kh_get host (cc_known c) = Some (ns_remote noise) \<and> cc_server_static c = Some (ns_remote noise) \<and>
        kh_get host known \<in> {None, Some (ns_remote noise)}
      else client_tick sn c = ([], c) \<and> keepalive sn c = (None, c)"
    using inv by (cases "cc_session c"; cases "kh_get host known")
      (auto simp: client_inv_def client_tick_def outgoing_def keepalive_def)
  ultimately show ?thesis by blast
qed

text \<open>What the client shows as the server's version is harmless. Whatever a server sends, in the
  handshake or later, a stored version is a token of at most 32 characters that starts with a
  digit and contains only printable ASCII, no control character, space or escape.\<close>

theorem shown_version_is_harmless:
  assumes "client_core_new sn sid tv priv known host addr rows cols mode = Inr (c0, first)"
    and "cc_server_version (fold (client_step sn) ops c0) = Some v"
  shows "v \<noteq> [] \<and> length v \<le> 32 \<and> is_digit (v ! 0) \<and> list_all (\<lambda>b. 43 \<le> b \<and> b \<le> 122) v"
proof -
  have "client_inv known host (fold (client_step sn) ops c0)"
    by (rule client_run.run_inv [OF inv_client_new [OF assms(1)]]) simp
  then have "sane_version v" using assms(2) by (simp add: client_inv_def version_ok_def)
  moreover have "43 \<le> b \<and> b \<le> 122" if "version_char b" for b
    using that unfolding version_char_def is_digit_def word_le_nat_alt word_less_nat_alt by auto
  ultimately show ?thesis by (auto simp: sane_version_def list_all_iff)
qed


text \<open>A demonstration: a client that has the server's key pinned, and the server's answer.\<close>

definition demo_known :: known_hosts where
  "demo_known = \<lparr>kh_hosts = [(uni ''h'', replicate 32 2)]\<rparr>"

definition demo_client :: "(nat \<times> bytes \<times> bytes option, unit, nat) client_core" where
  "demo_client = fst (projr (client_core_new toy_snow (replicate 8 5) None (replicate 32 1) demo_known (uni ''h'') 9 24 80 Never))"

definition demo_answer :: bytes where
  "demo_answer = build_handshake_packet (replicate 8 5) (replicate 32 2 @ [49])"

lemma demo_client_new:
  "client_core_new toy_snow (replicate 8 5) None (replicate 32 1) demo_known (uni ''h'') 9 24 80 Never =
    Inr (demo_client, build_handshake_packet (replicate 8 5) (replicate 32 1 @ replicate MIN_HANDSHAKE_INIT 0))"
  by (simp add: demo_client_def client_core_new_def handshaker_client_def handshake_new_def write_message_def toy_snow_def
      rbind_def map_err_def)

lemma outgoing_version: "cc_server_version (snd (outgoing sn c)) = cc_server_version c"
  by (auto simp: outgoing_def open_shell_frames_def remote_forward_frames_def stream_frames_def Let_def
      split: option.splits prod.splits sum.splits)

lemma outgoing_established: "cc_established (snd (outgoing sn c)) = cc_established c"
  using trust_outgoing [of c sn] by (simp add: same_trust_def trust_view_def)

lemma demo_digit: "sane_version [49]" "utf8_ok [49]"
  by (simp_all add: sane_version_def version_char_def is_digit_def utf8_ok.simps [of "[49]"])

lemma demo_connected:
  "cc_established (snd (client_handle_packet toy_snow demo_answer demo_client))"
  "cc_server_version (snd (client_handle_packet toy_snow demo_answer demo_client)) = Some [49]"
  by (simp_all add: client_handle_packet_def demo_answer_def parse_handshake demo_client_def client_core_new_def
      handshaker_client_def handshake_new_def write_message_def toy_snow_def rbind_def map_err_def client_handle_handshake_def
      handshaker_read_def read_message_def note_payload_def hs_answer_def hk_remote_static_def verify_server_def
      key_from_bytes_def KEY_LEN_def check_or_add_def demo_known_def client_establish_def learn_version_def demo_digit
      into_session_def into_transport_def Let_def case_prod_unfold outgoing_version outgoing_established)

theorem client_talks_to_pinned_server_witness:
  "let c = fold (client_step toy_snow) [CPacket demo_answer] demo_client in
    cc_known c = demo_known \<and> cc_established c \<and> (\<exists>session noise. cc_session c = Some (session, noise) \<and>
        kh_get (uni ''h'') (cc_known c) = Some (ns_remote noise) \<and> cc_server_static c = Some (ns_remote noise) \<and>
        kh_get (uni ''h'') demo_known \<in> {None, Some (ns_remote noise)})"
proof -
  have "kh_get (uni ''h'') demo_known \<noteq> None" by (simp add: demo_known_def kh_get_def)
  then show ?thesis
    using client_talks_to_pinned_server [OF demo_client_new refl, of "[CPacket demo_answer]"] demo_connected(1)
    by (simp only: Let_def) auto
qed

theorem shown_version_is_harmless_witness:
  "[49 :: u8] \<noteq> [] \<and> length [49 :: u8] \<le> 32 \<and> is_digit ([49] ! 0) \<and> list_all (\<lambda>b. 43 \<le> b \<and> b \<le> (122 :: u8)) [49]"
proof (rule shown_version_is_harmless [OF demo_client_new])
  show "cc_server_version (fold (client_step toy_snow) [CPacket demo_answer] demo_client) = Some [49]"
    using demo_connected(2) by simp
qed


section \<open>Forged and stray datagrams\<close>

text \<open>A transport packet that does not authenticate leaves the client as it was, without reply or
  error: no session yet, another session's id, or a failed decryption.\<close>

theorem forged_transport_ignored:
  assumes "parse_packet buf = (Inr (PTransport sid nonce body) :: noise_error transport_error + packet)"
    and "\<And>session noise. cc_session c = Some (session, noise) \<Longrightarrow> sid \<noteq> session_id session \<or> isl (noise_decrypt sn noise nonce body)"
  shows "client_handle_packet sn buf c = (Inr [], c)"
proof (cases "cc_session c")
  case None
  then show ?thesis using assms(1) by (simp add: client_handle_packet_def client_handle_transport_def)
next
  case (Some p)
  obtain session noise where p: "p = (session, noise)" by (cases p)
  have "\<exists>err. open_packet (noise_decrypt sn noise) (cc_addr c) buf session = (Inl err, session)"
    using assms(1) assms(2) [of session noise] Some p
    by (auto simp: open_packet_def split: sum.splits)
  moreover have "c\<lparr>cc_session := Some (session, noise)\<rparr> = c" using Some p by simp
  ultimately show ?thesis using assms(1) Some p by (auto simp: client_handle_packet_def client_handle_transport_def)
qed

definition stray_packet :: bytes where
  "stray_packet = PKT_TRANSPORT # replicate 8 7 @ be_bytes 8 0 @ [1, 2, 3]"

theorem forged_transport_ignored_witness:
  "let c = demo_client\<lparr>cc_session := Some (session_new (replicate 8 5) (Some 9), \<lparr>ns_transport = (), ns_remote = replicate 32 2\<rparr>)\<rparr> in
   client_handle_packet toy_snow stray_packet c = (Inr [], c)"
proof -
  have p: "parse_packet stray_packet = (Inr (PTransport (replicate 8 7) 0 [1, 2, 3]) :: noise_error transport_error + packet)"
    unfolding stray_packet_def by (rule parse_transport) (simp_all add: two64_def)
  show ?thesis
    unfolding Let_def by (rule forged_transport_ignored [OF p]) (auto simp: session_new_def replicate_eq_replicate)
qed

text \<open>But a datagram too short to have a header, of unknown type, or any handshake datagram that arrives once
  the session is up, is reported as an error of the client, whoever sent it: the driver's
  \<^verbatim>\<open>recv_and_handle\<close> passes it on, and the session loops end with it.\<close>

theorem stray_datagram_is_fatal:
  assumes "client_inv known0 host c" "cc_established c"
  shows "client_handle_packet sn [] c = (Inl (RTransport Short), c) \<and>
    client_handle_packet sn (build_handshake_packet (replicate 8 0) body) c = (Inl RHandshake, c)"
proof -
  have "cc_hs c = None" using assms by (cases "cc_session c") (auto simp: client_inv_def)
  then show ?thesis
    by (simp add: client_handle_packet_def parse_handshake client_handle_handshake_def) (simp add: parse_packet_def)
qed


section \<open>An idle client becomes silent\<close>

text \<open>How many more ticks have something to say on their own account.\<close>

definition idle_after :: "('s, 't, 'a) client_core \<Rightarrow> nat" where
  "idle_after c = max (if cc_open_shell_pending c then OPEN_SHELL_MAX_TICKS - cc_open_shell_ticks c else 0)
     (if cc_remote_forwards c \<noteq> [] then REMOTE_FORWARD_MAX_TICKS - cc_remote_forward_ticks c else 0)"

definition nothing_new :: "('s, 't, 'a) client_core \<Rightarrow> bool" where
  "nothing_new c \<longleftrightarrow> cc_session c \<noteq> None \<and> streams (cc_mux c) = [] \<and> \<not> has_pending_input (cc_shell c) \<and>
     (cc_open_shell_pending c \<longrightarrow> cc_open_shell_ticks c < OPEN_SHELL_MAX_TICKS)"

lemma seal_all_total:
  assumes "\<And>n p. \<not> isl (enc n p)"
  shows "\<exists>pkts s'. seal_all enc gs s = (Inr pkts, s')"
proof (induction gs arbitrary: s)
  case (Cons g gs)
  obtain ct where "enc (send_nonce s) (encode_frames g) = Inr ct"
    using assms [of "send_nonce s" "encode_frames g"] by (cases "enc (send_nonce s) (encode_frames g)") auto
  moreover obtain pkts s' where "seal_all enc gs (s\<lparr>send_nonce := wrap64 (send_nonce s + 1)\<rparr>) = (Inr pkts, s')"
    using Cons.IH by blast
  ultimately show ?case by (simp add: seal_def rbind_def map_err_def Let_def)
qed simp

lemma outgoing_idle:
  assumes "\<And>t n p. \<not> isl (noise_encrypt sn t n p)" "nothing_new c"
  shows "nothing_new (snd (outgoing sn c)) \<and> idle_after (snd (outgoing sn c)) = idle_after c - 1 \<and>
    cc_pending_control (snd (outgoing sn c)) = [] \<and> \<not> cc_need_ack (snd (outgoing sn c))"
proof -
  obtain session noise where s: "cc_session c = Some (session, noise)" using assms(2) by (auto simp: nothing_new_def)
  have "\<exists>pkts session'. seal_many (noise_encrypt sn noise) fs mx session = (Inr pkts, session')" for fs mx
    unfolding seal_many_groups by (rule seal_all_total) (rule assms(1))
  then obtain pk st where seal: "\<And>fs mx. seal_many (noise_encrypt sn noise) fs mx session = (Inr (pk fs mx), st fs mx)"
    by metis
  have poll: "poll_transmit (cc_mux c) = ([], (cc_mux c)\<lparr>mux_now := wrap64 (mux_now (cc_mux c) + 1)\<rparr>)"
    using assms(2) by (simp add: poll_transmit_def nothing_new_def)
  show ?thesis
    using assms(2) s
    by (cases "cc_open_shell_pending c"; cases "cc_open_shell_ticks c < 299"; cases "cc_remote_forwards c = []";
        cases "cc_remote_forward_ticks c < 300")
      (simp_all add: outgoing_def open_shell_frames_def remote_forward_frames_def stream_frames_def poll take_events_def seal
        client_poll_frames_def nothing_new_def has_pending_input_def idle_after_def OPEN_SHELL_MAX_TICKS_def
        REMOTE_FORWARD_MAX_TICKS_def two32_def Let_def)
qed

text \<open>An idle client becomes silent. A connected client with no streams and no unacknowledged input
  has nothing to send after 300 more ticks (whether or not the server ever opens the shell or
  honours the remote forwards), so an event-driven driver can sleep until its keepalive.\<close>

theorem idle_client_becomes_silent:
  assumes "\<And>t n p. \<not> isl (noise_encrypt sn t n p)" "nothing_new c" "300 \<le> n"
  shows "\<not> has_outgoing (fold (client_step sn) (replicate n CTick) c)"
proof -
  have "nothing_new (fold (client_step sn) (replicate n CTick) c) \<and> idle_after (fold (client_step sn) (replicate n CTick) c) = idle_after c - n \<and>
      (0 < n \<longrightarrow> cc_pending_control (fold (client_step sn) (replicate n CTick) c) = [] \<and>
        \<not> cc_need_ack (fold (client_step sn) (replicate n CTick) c))" for n
  proof (induction n)
    case 0
    then show ?case using assms(2) by simp
  next
    case (Suc n)
    have "fold (client_step sn) (replicate (Suc n) CTick) c = snd (outgoing sn (fold (client_step sn) (replicate n CTick) c))"
      by (simp add: replicate_append_same [symmetric] client_tick_def case_prod_unfold del: replicate_Suc)
    then show ?case using outgoing_idle [OF assms(1), of "fold (client_step sn) (replicate n CTick) c"] Suc.IH by simp
  qed
  moreover have "idle_after c \<le> 300"
    by (simp add: idle_after_def OPEN_SHELL_MAX_TICKS_def REMOTE_FORWARD_MAX_TICKS_def)
  ultimately have "nothing_new (fold (client_step sn) (replicate n CTick) c)" "idle_after (fold (client_step sn) (replicate n CTick) c) = 0"
    "cc_pending_control (fold (client_step sn) (replicate n CTick) c) = []" "\<not> cc_need_ack (fold (client_step sn) (replicate n CTick) c)"
    using assms(3) by (auto simp del: fold_replicate)
  then show ?thesis
    by (auto simp: has_outgoing_def nothing_new_def has_traffic_def idle_after_def simp del: fold_replicate split: if_splits)
qed


theorem idle_client_becomes_silent_witness:
  "\<not> has_outgoing (fold (client_step toy_snow) (replicate 300 CTick)
     (demo_client\<lparr>cc_session := Some (session_new (replicate 8 5) (Some 9), \<lparr>ns_transport = (), ns_remote = replicate 32 2\<rparr>),
        cc_open_shell_pending := True, cc_remote_forwards := [(80, asc ''h:1'')], cc_need_ack := True\<rparr>))"
proof (rule idle_client_becomes_silent)
  show "\<not> isl (noise_encrypt toy_snow t n p)" for t :: "unit noise_session" and n p
    by (simp add: noise_encrypt_def toy_snow_def map_err_def)
  show "nothing_new (demo_client\<lparr>cc_session := Some (session_new (replicate 8 5) (Some 9), \<lparr>ns_transport = (), ns_remote = replicate 32 2\<rparr>),
        cc_open_shell_pending := True, cc_remote_forwards := [(80, asc ''h:1'')], cc_need_ack := True\<rparr>)"
    by (simp add: nothing_new_def demo_client_def client_core_new_def handshaker_client_def handshake_new_def write_message_def
        toy_snow_def rbind_def map_err_def mux_new_def bt_empty_def has_pending_input_def with_prediction_def client_shell_new_def
        input_pending_def input_sender_new_def OPEN_SHELL_MAX_TICKS_def Let_def)
qed simp

end
