(* ===== verification/Forwarder.thy ===== *)
theory Forwarder
  imports Forward ClientSafe Socks
begin

text \<open>
  The client's forwarder, \<^verbatim>\<open>Forwarder\<close> of \<^verbatim>\<open>src/client.rs\<close>: local listeners (\<^verbatim>\<open>-L\<close>), SOCKS listeners
  (\<^verbatim>\<open>-D\<close>), connections the server asks for (\<^verbatim>\<open>-R\<close>) and the pump over all of them. Parameters are the
  sockets and listeners, the dialling of a target and the iteration order of the hash map.
\<close>

section \<open>The client's forwarder\<close>

record ('k, 'l) net_ops =
  ne_tcp :: "'k tcp_ops"
  ne_bind :: "bytes \<Rightarrow> u16 \<Rightarrow> 'l option"
  ne_connect :: "bytes \<Rightarrow> 'k option"
  ne_accept :: "'l \<Rightarrow> 'k option \<times> 'l"
  ne_nonblocking :: "'k \<Rightarrow> 'k option"
  ne_iter :: "u64 list \<Rightarrow> u64 list"

record ('k, 'l) forwarder =
  fw_listeners :: "('l \<times> bytes) list"
  fw_socks :: "'l list"
  fw_pending :: "'k socks_conn list"
  fw_conns :: "(u64, 'k forward_conn) btree"

definition client_streams :: "u64 \<Rightarrow> ('s, 't, 'a) client_core stream_ops" where
  "client_streams i = \<lparr>so_read = cc_stream_read i, so_write = cc_stream_write i, so_close = cc_stream_close i,
     so_in_flight = cc_stream_in_flight i\<rparr>"

text \<open>Binding stops at the first listener that cannot be opened.\<close>

fun bind_all :: "('k, 'l) net_ops \<Rightarrow> (bytes \<times> u16) list \<Rightarrow> 'l list option" where
  "bind_all nw [] = Some []"
| "bind_all nw ((addr, port) # ps) = do { l \<leftarrow> ne_bind nw addr port; ls \<leftarrow> bind_all nw ps; Some (l # ls) }"

definition forwarder_bind :: "('k, 'l) net_ops \<Rightarrow> (u16 \<times> bytes) list \<Rightarrow> (u16 \<times> bytes) list \<Rightarrow> (bytes \<times> u16) list \<Rightarrow>
    ('s, 't, 'a) client_core \<Rightarrow> (runtime_error + ('k, 'l) forwarder) \<times> ('s, 't, 'a) client_core" where
  "forwarder_bind nw loc remote dynamic core =
     (case bind_all nw (map (\<lambda>(port, target). (asc ''127.0.0.1'', port)) loc) of
        None \<Rightarrow> (Inl RIo, core)
      | Some ls \<Rightarrow>
          (let core = fold (\<lambda>(port, target). request_remote_forward port target) remote core in
           case bind_all nw dynamic of
             None \<Rightarrow> (Inl RIo, core)
           | Some ss \<Rightarrow> (Inr \<lparr>fw_listeners = zip ls (map snd loc), fw_socks = ss, fw_pending = [], fw_conns = []\<rparr>, core)))"

definition forwarder_busy :: "('k, 'l) forwarder \<Rightarrow> bool" where
  "forwarder_busy f \<longleftrightarrow> list_ex (\<lambda>(i, c). wants_write c) (fw_conns f) \<or> fw_pending f \<noteq> []"

text \<open>Accepting on one listener until it has no more connections.\<close>

partial_function (option) accept_all :: "('k, 'l) net_ops \<Rightarrow> 'k list \<Rightarrow> 'l \<Rightarrow> ('k list \<times> 'l) option" where
  "accept_all nw acc l =
     (case ne_accept nw l of
        (Some k, l') \<Rightarrow> accept_all nw (acc @ [k]) l'
      | (None, l') \<Rightarrow> Some (acc, l'))"

definition open_local :: "('k, 'l) net_ops \<Rightarrow> bytes \<Rightarrow> 'k \<Rightarrow>
    ('k, 'l) forwarder \<times> ('s, 't, 'a) client_core \<Rightarrow> ('k, 'l) forwarder \<times> ('s, 't, 'a) client_core" where
  "open_local nw target k st =
     (case ne_nonblocking nw k of
        None \<Rightarrow> st
      | Some k' \<Rightarrow>
          (case st of (f, core) \<Rightarrow>
           case cc_open_forward target core of (i, core') \<Rightarrow>
             (f\<lparr>fw_conns := bt_insert i (from_stream k') (fw_conns f)\<rparr>, core')))"

fun accept_local :: "('k, 'l) net_ops \<Rightarrow> ('l \<times> bytes) list \<Rightarrow> ('l \<times> bytes) list \<Rightarrow>
    ('k, 'l) forwarder \<times> ('s, 't, 'a) client_core \<Rightarrow> (('k, 'l) forwarder \<times> ('s, 't, 'a) client_core) option" where
  "accept_local nw seen [] st = Some (case st of (f, core) \<Rightarrow> (f\<lparr>fw_listeners := seen\<rparr>, core))"
| "accept_local nw seen ((l, target) # ls) st =
     do { (ks, l') \<leftarrow> accept_all nw [] l;
          accept_local nw (seen @ [(l', target)]) ls (fold (open_local nw target) ks st) }"

fun accept_socks :: "('k, 'l) net_ops \<Rightarrow> 'l list \<Rightarrow> 'l list \<Rightarrow> ('k, 'l) forwarder \<Rightarrow> ('k, 'l) forwarder option" where
  "accept_socks nw seen [] f = Some (f\<lparr>fw_socks := seen\<rparr>)"
| "accept_socks nw seen (l # ls) f =
     do { (ks, l') \<leftarrow> accept_all nw [] l;
          accept_socks nw (seen @ [l']) ls
            (f\<lparr>fw_pending := fw_pending f @ map socks_conn_new (List.map_filter (ne_nonblocking nw) ks)\<rparr>) }"

fun drive_socks :: "('k, 'l) net_ops \<Rightarrow> 'k socks_conn list \<Rightarrow> 'k socks_conn list \<Rightarrow>
    ('k, 'l) forwarder \<times> ('s, 't, 'a) client_core \<Rightarrow> (('k, 'l) forwarder \<times> ('s, 't, 'a) client_core) option" where
  "drive_socks nw still [] st = Some (case st of (f, core) \<Rightarrow> (f\<lparr>fw_pending := still\<rparr>, core))"
| "drive_socks nw still (sc # scs) st =
     do { r \<leftarrow> negotiate (ne_tcp nw) sc;
          (case r of
             Pending sc' \<Rightarrow> drive_socks nw (still @ [sc']) scs st
           | PFailed \<Rightarrow> drive_socks nw still scs st
           | Connected target k leftover \<Rightarrow>
               (case ne_nonblocking nw k of
                  None \<Rightarrow> drive_socks nw still scs st
                | Some k' \<Rightarrow>
                    (case st of (f, core) \<Rightarrow>
                     case cc_open_forward target core of (i, core) \<Rightarrow>
                       drive_socks nw still scs
                         (f\<lparr>fw_conns := bt_insert i (from_stream k') (fw_conns f)\<rparr>,
                          if leftover \<noteq> [] then cc_stream_write i leftover core else core)))) }"

definition forwarder_accept :: "('k, 'l) net_ops \<Rightarrow> ('k, 'l) forwarder \<times> ('s, 't, 'a) client_core \<Rightarrow>
    (('k, 'l) forwarder \<times> ('s, 't, 'a) client_core) option" where
  "forwarder_accept nw st =
     do { (f, core) \<leftarrow> accept_local nw [] (fw_listeners (fst st)) st;
          f \<leftarrow> accept_socks nw [] (fw_socks f) f;
          drive_socks nw [] (fw_pending f) (f, core) }"

text \<open>Stream events: the one that is not the forwarder's is handed back.\<close>

fun forwarder_event :: "('k, 'l) net_ops \<Rightarrow> stream_event \<Rightarrow> ('k, 'l) forwarder \<times> ('s, 't, 'a) client_core \<Rightarrow>
    stream_event option \<times> ('k, 'l) forwarder \<times> ('s, 't, 'a) client_core" where
  "forwarder_event nw (EvOpened i kind meta) (f, core) =
     (if kind = Forward then
        (case (if utf8_ok meta then Option.bind (ne_connect nw meta) (ne_nonblocking nw) else None) of
           Some k \<Rightarrow> (None, f\<lparr>fw_conns := bt_insert i (from_stream k) (fw_conns f)\<rparr>, core)
         | None \<Rightarrow> (None, f, cc_stream_close i core))
      else (Some (EvOpened i kind meta), f, core))"
| "forwarder_event nw (EvReadable i) (f, core) =
     (if bt_get (fw_conns f) i \<noteq> None then (None, f, core) else (Some (EvReadable i), f, core))"
| "forwarder_event nw (EvClosed i status) (f, core) =
     (case bt_get (fw_conns f) i of
        Some c \<Rightarrow> (None, f\<lparr>fw_conns := bt_insert i (mark_peer_closed c) (fw_conns f)\<rparr>, core)
      | None \<Rightarrow> (Some (EvClosed i status), f, core))"
| "forwarder_event nw (EvReset i) (f, core) =
     (if bt_get (fw_conns f) i \<noteq> None then (None, f\<lparr>fw_conns := bt_remove i (fw_conns f)\<rparr>, core)
      else (Some (EvReset i), f, core))"

definition forwarder_pump_one :: "('k, 'l) net_ops \<Rightarrow> u64 \<Rightarrow> ('k, 'l) forwarder \<times> ('s, 't, 'a) client_core \<Rightarrow>
    (('k, 'l) forwarder \<times> ('s, 't, 'a) client_core) option" where
  "forwarder_pump_one nw i st =
     (case st of (f, core) \<Rightarrow>
        (case bt_get (fw_conns f) i of
           None \<Rightarrow> Some st
         | Some c \<Rightarrow>
             do { (finished, c, core) \<leftarrow> pump_conn (ne_tcp nw) (client_streams i) c core;
                  Some (f\<lparr>fw_conns := (if finished then bt_remove i else bt_insert i c) (fw_conns f)\<rparr>, core) }))"

definition forwarder_pump :: "('k, 'l) net_ops \<Rightarrow> ('k, 'l) forwarder \<times> ('s, 't, 'a) client_core \<Rightarrow>
    (('k, 'l) forwarder \<times> ('s, 't, 'a) client_core) option" where
  "forwarder_pump nw st = opt_fold (forwarder_pump_one nw) (ne_iter nw (bt_keys (fw_conns (fst st)))) st"

section \<open>What the local side and the server see of each other\<close>

definition client_view :: "u64 \<Rightarrow> ('s, 't, 'a) client_core \<Rightarrow> stream_state option" where
  "client_view i core = bt_get (streams (cc_mux core)) i"

interpretation client_stream: session_stream "client_streams i" "client_view i" for i
  by unfold_locales
    (auto simp: client_streams_def client_view_def cc_stream_read_def cc_stream_write_def cc_stream_close_def
       cc_stream_in_flight_def in_flight_def mux_read_def mux_write_def mux_close_def with_stream_def split: prod.splits option.splits)



text \<open>A demonstration: a local connection whose stream received two bytes.\<close>

definition demo_net :: "(buffer_socket, unit) net_ops" where
  "demo_net = \<lparr>ne_tcp = buffer_io 1, ne_bind = (\<lambda>_ _. Some ()), ne_connect = (\<lambda>_. None), ne_accept = (\<lambda>l. (None, l)), ne_nonblocking = Some, ne_iter = id\<rparr>"

definition demo_stream :: stream_state where
  "demo_stream = snd (stream_on_data 0 [7, 8] False (stream_state_new 0 Forward [] True))"

definition demo_core :: "stream_state \<Rightarrow> (nat \<times> bytes \<times> bytes option, unit, nat) client_core" where
  "demo_core s = demo_client\<lparr>cc_mux := (mux_new True)\<lparr>streams := [(0, s)]\<rparr>\<rparr>"

definition demo_conn :: "bytes \<Rightarrow> buffer_socket forward_conn" where
  "demo_conn bs = from_stream \<lparr>bs_in = bs, bs_out = []\<rparr>"

definition demo_forwarder :: "buffer_socket forward_conn \<Rightarrow> (buffer_socket, unit) forwarder" where
  "demo_forwarder c = \<lparr>fw_listeners = [], fw_socks = [], fw_pending = [], fw_conns = [(0, c)]\<rparr>"

lemma demo_stream_recv: "recv demo_stream = reasm_insert 0 [7, 8] reassembler_new"
  by (simp add: demo_stream_def stream_on_data_def checked_add64_def stream_state_new_def Let_def reassembler_new_def saturating_add64_def two64_def)

lemma demo_conn_inv: "conn_inv bs_out bs_in [] [7, 8] [65] (demo_conn [65]) demo_stream"
proof -
  have "reasm_agrees (recv demo_stream) [7, 8]"
    unfolding demo_stream_recv by (rule reasm_agrees_insert [OF reasm_agrees_new]) (simp add: segment_def)
  moreover have "send_ok [] demo_stream" "\<not> send_fin demo_stream"
    by (simp_all add: demo_stream_def stream_on_data_def checked_add64_def stream_state_new_def Let_def send_ok_def)
  ultimately show ?thesis
    by (auto simp: conn_inv_def demo_conn_def from_stream_def demo_stream_recv) (simp_all add: reassembler_new_def)
qed


text \<open>
  A finding. \<^verbatim>\<open>StreamClose\<close> is no part of the ordered stream: it may overtake the data sent before it. The
  forwarder takes the event for the end of the data, so that a connection whose local side has
  closed too is dropped, and the bytes that arrive next are never written to the socket.
\<close>

theorem early_close_truncates:
  fixes core :: "(nat \<times> bytes \<times> bytes option, unit, nat) client_core"
  defines "core \<equiv> demo_core (stream_state_new 0 Forward [] True)"
  defines "m \<equiv> mux_on_frame (StreamClose 0 0) (cc_mux core)"
  shows "events m = [EvClosed 0 0]" "\<not> is_recv_finished 0 m"
    and "case forwarder_event demo_net (EvClosed 0 0) (demo_forwarder (demo_conn []), core\<lparr>cc_mux := m\<rparr>) of
       (_, st) \<Rightarrow> map_option (fw_conns \<circ> fst) (forwarder_pump_one demo_net 0 st) = Some []"
proof -
  have m: "m = (mux_new True)\<lparr>streams := [(0, (stream_state_new 0 Forward [] True)\<lparr>close_received := True\<rparr>)], events := [EvClosed 0 0]\<rparr>"
    by (simp add: m_def core_def demo_core_def stream_on_close_def push_event_def mux_new_def stream_state_new_def)
  show "events m = [EvClosed 0 0]" "\<not> is_recv_finished 0 m"
    by (simp_all add: m is_recv_finished_def recv_finished_def stream_state_new_def)
  show "case forwarder_event demo_net (EvClosed 0 0) (demo_forwarder (demo_conn []), core\<lparr>cc_mux := m\<rparr>) of
       (_, st) \<Rightarrow> map_option (fw_conns \<circ> fst) (forwarder_pump_one demo_net 0 st) = Some []"
    by (simp add: demo_forwarder_def demo_conn_def from_stream_def mark_peer_closed_def forwarder_pump_one_def pump_conn_def
        fc_flush.simps relay_in.simps FORWARD_SEND_CAP_def client_streams_def cc_stream_read_def m mux_read_def mux_new_def
        stream_state_new_def stream_read_def reasm_read_def reassembler_new_def bt_empty_def relay_out_def cc_stream_in_flight_def
        in_flight_def read_tcp_def read_loop.simps demo_net_def buffer_io_def needs_fin_def fc_finished_def)
qed

end
