(* ===== verification/Files.thy ===== *)
theory Files
  imports Forward RustStr
begin

text \<open>
  File transfers: the two file ends, \<^verbatim>\<open>FileSource\<close> and \<^verbatim>\<open>FileSink\<close> of \<^verbatim>\<open>src/xfer.rs\<close>, and one round of the
  server's pump for one transfer, \<^verbatim>\<open>src/server.rs\<close>. Parameters are the file system \<open>'f\<close> with its open
  files \<open>'h\<close>, and the process id.
\<close>

section \<open>Paths\<close>

text \<open>\<^verbatim>\<open>std::path\<close> reads a path as its components: repeated slashes and inner dots disappear.\<close>

datatype component = CurDir | ParentDir | Normal bytes

datatype path = Path (path_root: bool) (path_comps: "component list")

definition path_component :: "bytes \<Rightarrow> component" where
  "path_component bs = (if bs = asc ''.'' then CurDir else if bs = asc ''..'' then ParentDir else Normal bs)"

fun split_slash :: "bytes \<Rightarrow> bytes \<Rightarrow> bytes list" where
  "split_slash acc [] = [acc]"
| "split_slash acc (b # bs) = (if b = 47 then acc # split_slash [] bs else split_slash (acc @ [b]) bs)"

definition path_from :: "bytes \<Rightarrow> path" where
  "path_from bs =
     (let absolute = take 1 bs = [47];
          cs = map path_component (filter (\<lambda>c. c \<noteq> []) (split_slash [] bs))
      in Path absolute (if absolute then filter (\<lambda>c. c \<noteq> CurDir) cs else take 1 cs @ filter (\<lambda>c. c \<noteq> CurDir) (drop 1 cs)))"

definition file_name :: "path \<Rightarrow> bytes option" where
  "file_name p = (if path_comps p = [] then None else case last (path_comps p) of Normal n \<Rightarrow> Some n | _ \<Rightarrow> None)"

definition with_file_name :: "bytes \<Rightarrow> path \<Rightarrow> path" where
  "with_file_name n p = Path (path_root p) ((if file_name p = None then path_comps p else butlast (path_comps p)) @ [Normal n])"

definition temp_path :: "nat \<Rightarrow> path \<Rightarrow> path" where
  "temp_path pid dest =
     with_file_name ((case file_name dest of Some s \<Rightarrow> s | None \<Rightarrow> asc ''.noissh'') @ asc ''.noissh-tmp-'' @ dec_digits pid) dest"


section \<open>The two file ends\<close>

record ('f, 'h) file_ops =
  fi_create :: "path \<Rightarrow> 'f \<Rightarrow> 'h option \<times> 'f"
  fi_open :: "path \<Rightarrow> 'f \<Rightarrow> 'h option"
  fi_read :: "nat \<Rightarrow> 'h \<Rightarrow> 'f \<Rightarrow> bytes option \<times> 'h"
  fi_write_all :: "bytes \<Rightarrow> 'h \<Rightarrow> 'f \<Rightarrow> bool \<times> 'h \<times> 'f"
  fi_sync :: "'h \<Rightarrow> 'f \<Rightarrow> bool"
  fi_rename :: "path \<Rightarrow> path \<Rightarrow> 'f \<Rightarrow> bool \<times> 'f"
  fi_remove :: "path \<Rightarrow> 'f \<Rightarrow> 'f"

record 'h file_source = sr_file :: 'h

definition source_open :: "('f, 'h) file_ops \<Rightarrow> bytes \<Rightarrow> 'f \<Rightarrow> 'h file_source option" where
  "source_open fs p f = map_option (\<lambda>h. \<lparr>sr_file = h\<rparr>) (fi_open fs (path_from p) f)"

definition read_chunk :: "('f, 'h) file_ops \<Rightarrow> nat \<Rightarrow> 'h file_source \<Rightarrow> 'f \<Rightarrow> bytes option \<times> 'h file_source" where
  "read_chunk fs mx src f = (case fi_read fs mx (sr_file src) f of (r, h) \<Rightarrow> (r, src\<lparr>sr_file := h\<rparr>))"

record 'h file_sink =
  sk_file :: 'h
  sk_tmp :: path
  sk_dest :: path
  sk_finalized :: bool

definition sink_create :: "('f, 'h) file_ops \<Rightarrow> nat \<Rightarrow> bytes \<Rightarrow> 'f \<Rightarrow> 'h file_sink option \<times> 'f" where
  "sink_create fs pid p f =
     (let dest = path_from p; tmp = temp_path pid dest in
      case fi_create fs tmp f of
        (None, f') \<Rightarrow> (None, f')
      | (Some h, f') \<Rightarrow> (Some \<lparr>sk_file = h, sk_tmp = tmp, sk_dest = dest, sk_finalized = False\<rparr>, f'))"

definition sink_write :: "('f, 'h) file_ops \<Rightarrow> bytes \<Rightarrow> 'h file_sink \<Rightarrow> 'f \<Rightarrow> bool \<times> 'h file_sink \<times> 'f" where
  "sink_write fs data sk f =
     (case fi_write_all fs data (sk_file sk) f of (ok, h, f') \<Rightarrow> (ok, sk\<lparr>sk_file := h\<rparr>, f'))"

definition sink_drop :: "('f, 'h) file_ops \<Rightarrow> 'h file_sink \<Rightarrow> 'f \<Rightarrow> 'f" where
  "sink_drop fs sk f = (if sk_finalized sk then f else fi_remove fs (sk_tmp sk) f)"

text \<open>Finalizing consumes the sink, which is dropped on every path out.\<close>

definition sink_finalize :: "('f, 'h) file_ops \<Rightarrow> 'h file_sink \<Rightarrow> 'f \<Rightarrow> bool \<times> 'f" where
  "sink_finalize fs sk f =
     (if \<not> fi_sync fs (sk_file sk) f then (False, sink_drop fs sk f)
      else case fi_rename fs (sk_tmp sk) (sk_dest sk) f of
        (False, f') \<Rightarrow> (False, sink_drop fs sk f')
      | (True, f') \<Rightarrow> (True, sink_drop fs (sk\<lparr>sk_finalized := True\<rparr>) f'))"


section \<open>The server's pump for one transfer\<close>

datatype 'h xfer_state = XferPut "'h file_sink" | XferGet "'h file_source"

text \<open>What the transfer pump needs beyond the stream interface: aborting a stream, and asking for its end.\<close>

record 'c xfer_stream_ops = "'c stream_ops" +
  so_reset :: "'c \<Rightarrow> 'c"
  so_recv_finished :: "'c \<Rightarrow> bool"

text \<open>Draining the stream into the sink; the boolean is \<^verbatim>\<open>abort\<close>.\<close>

partial_function (option) drain_put ::
  "('f, 'h) file_ops \<Rightarrow> ('c, 'z) stream_ops_scheme \<Rightarrow> 'h file_sink \<Rightarrow> 'c \<Rightarrow> 'f \<Rightarrow> (bool \<times> 'h file_sink \<times> 'c \<times> 'f) option" where
  "drain_put fs st sk core f =
     (case so_read st core of (d, core') \<Rightarrow>
        if d = [] then Some (False, sk, core', f)
        else case sink_write fs d sk f of (ok, sk', f') \<Rightarrow>
          if \<not> ok then Some (True, sk', core', f') else drain_put fs st sk' core' f')"

text \<open>The end of a transfer: aborted, or closed and then put in place.\<close>

definition finish_xfer :: "('f, 'h) file_ops \<Rightarrow> 'c xfer_stream_ops \<Rightarrow> bool \<Rightarrow> 'h xfer_state \<Rightarrow> 'c \<Rightarrow> 'f \<Rightarrow> 'c \<times> 'f" where
  "finish_xfer fs st abort x core f =
     (if abort then (so_reset st core, case x of XferPut sk \<Rightarrow> sink_drop fs sk f | XferGet src \<Rightarrow> f)
      else
        (let core = so_close st core in
         case x of
           XferPut sk \<Rightarrow> (case sink_finalize fs sk f of (ok, f') \<Rightarrow> (if ok then core else so_reset st core, f'))
         | XferGet src \<Rightarrow> (core, f)))"

text \<open>One round; \<open>None\<close> in the result means that the transfer is over.\<close>

definition pump_xfer :: "('f, 'h) file_ops \<Rightarrow> 'c xfer_stream_ops \<Rightarrow> 'h xfer_state \<Rightarrow> 'c \<Rightarrow> 'f \<Rightarrow>
    ('h xfer_state option \<times> 'c \<times> 'f) option" where
  "pump_xfer fs st x core f =
     (let get_has_window = so_in_flight st core < FORWARD_SEND_CAP in
      case x of
        XferPut sk \<Rightarrow>
          do { (abort, sk, core, f) \<leftarrow> drain_put fs st sk core f;
               Some (if abort \<or> so_recv_finished st core then (None, finish_xfer fs st abort (XferPut sk) core f)
                     else (Some (XferPut sk), core, f)) }
      | XferGet src \<Rightarrow>
          if get_has_window then
            (case read_chunk fs (64 * 1024) src f of
               (Some d, src') \<Rightarrow>
                 Some (if d \<noteq> [] then (Some (XferGet src'), so_write st d core, f)
                       else (None, finish_xfer fs st False (XferGet src') core f))
             | (None, src') \<Rightarrow> Some (None, finish_xfer fs st True (XferGet src') core f))
          else Some (Some (XferGet src), core, f))"


section \<open>A file arrives whole or not at all\<close>

text \<open>
  What is relied on of the file system: \<open>content\<close> is what the files hold, \<open>appends h p f\<close> says that \<open>h\<close> is a file
  opened for writing, at the end of the one that has the path \<open>p\<close>. A failed write may leave any part of
  its data, but only in its own file; renaming and removing touch the files they name.
\<close>

definition honest_files :: "('f, 'h) file_ops \<Rightarrow> ('f \<Rightarrow> path \<Rightarrow> bytes option) \<Rightarrow> ('h \<Rightarrow> path \<Rightarrow> 'f \<Rightarrow> bool) \<Rightarrow> bool" where
  "honest_files fs content appends \<longleftrightarrow>
     (\<forall>p f h f'. fi_create fs p f = (Some h, f') \<longrightarrow> content f' = (content f)(p \<mapsto> []) \<and> appends h p f') \<and>
     (\<forall>p f f'. fi_create fs p f = (None, f') \<longrightarrow> content f' = content f) \<and>
     (\<forall>d h p f ok h' f'. fi_write_all fs d h f = (ok, h', f') \<longrightarrow> appends h p f \<longrightarrow>
        (\<forall>q. q \<noteq> p \<longrightarrow> content f' q = content f q) \<and>
        (ok \<longrightarrow> content f' p = map_option (\<lambda>c. c @ d) (content f p) \<and> appends h' p f')) \<and>
     (\<forall>p q f f'. fi_rename fs p q f = (True, f') \<longrightarrow> content f p \<noteq> None \<and> content f' = (content f)(p := None, q := content f p)) \<and>
     (\<forall>p q f f'. fi_rename fs p q f = (False, f') \<longrightarrow> content f' = content f) \<and>
     (\<forall>p q f. q \<noteq> p \<longrightarrow> content (fi_remove fs p f) q = content f q)"

lemma honest_filesD:
  assumes "honest_files fs content appends"
  shows "fi_create fs p f = (Some h, f') \<Longrightarrow> content f' = (content f)(p \<mapsto> []) \<and> appends h p f'"
    and "fi_create fs p f = (None, f') \<Longrightarrow> content f' = content f"
    and "fi_write_all fs d h f = (ok, h', f') \<Longrightarrow> appends h p f \<Longrightarrow> q \<noteq> p \<Longrightarrow> content f' q = content f q"
    and "fi_write_all fs d h f = (True, h', f') \<Longrightarrow> appends h p f \<Longrightarrow>
      content f' p = map_option (\<lambda>c. c @ d) (content f p) \<and> appends h' p f'"
    and "fi_rename fs p q f = (True, f') \<Longrightarrow> content f p \<noteq> None \<and> content f' = (content f)(p := None, q := content f p)"
    and "fi_rename fs p q f = (False, f') \<Longrightarrow> content f' = content f"
    and "q \<noteq> p \<Longrightarrow> content (fi_remove fs p f) q = content f q"
  using assms unfolding honest_files_def by metis+

definition upload_inv :: "('f \<Rightarrow> path \<Rightarrow> bytes option) \<Rightarrow> ('h \<Rightarrow> path \<Rightarrow> 'f \<Rightarrow> bool) \<Rightarrow> bytes \<Rightarrow> 'h file_sink \<Rightarrow> stream_state \<Rightarrow> 'f \<Rightarrow> bool" where
  "upload_inv content appends src sk s f \<longleftrightarrow> reasm_agrees (recv s) src \<and> rdelivered (recv s) \<le> length src \<and>
     (\<forall>n. peer_fin s = Finished n \<longrightarrow> n = length src) \<and>
     content f (sk_tmp sk) = Some (take (rdelivered (recv s)) src) \<and> appends (sk_file sk) (sk_tmp sk) f \<and>
     \<not> sk_finalized sk \<and> sk_tmp sk \<noteq> sk_dest sk"

text \<open>A temporary file lies beside its destination and is never the destination itself.\<close>

lemma temp_path_other: "temp_path pid dest \<noteq> dest"
proof (cases "file_name dest")
  case None
  then show ?thesis by (cases dest) (auto simp: temp_path_def with_file_name_def)
next
  case (Some n)
  then have "last (path_comps dest) = Normal n" "path_comps dest \<noteq> []" by (auto simp: file_name_def split: if_splits component.splits)
  moreover have "last (path_comps (temp_path pid dest)) \<noteq> Normal n"
    using Some by (simp add: temp_path_def with_file_name_def asc_def)
  ultimately show ?thesis by auto
qed

lemma upload_inv_start:
  assumes "honest_files fs content appends" "sink_create fs pid p f = (Some sk, f')"
    and "recv s = reassembler_new" "peer_fin s = Open"
  shows "upload_inv content appends src sk s f'" and "sk_dest sk = path_from p"
    and "q \<noteq> sk_tmp sk \<Longrightarrow> content f' q = content f q"
  using assms(2-4) honest_filesD(1) [OF assms(1)] reasm_agrees_new [of src]
  by (auto simp: sink_create_def Let_def upload_inv_def temp_path_other reassembler_new_def split: prod.splits option.splits)

lemma sink_finalize_done:
  assumes fs: "honest_files fs content appends" and r: "sink_finalize fs sk f = (True, f')"
  shows "content f (sk_tmp sk) \<noteq> None" and "content f' = (content f)(sk_tmp sk := None, sk_dest sk := content f (sk_tmp sk))"
  using r honest_filesD(5) [OF fs]
  by (auto simp: sink_finalize_def sink_drop_def split: if_splits prod.splits bool.splits)

lemma sink_finalize_failed:
  assumes fs: "honest_files fs content appends" and r: "sink_finalize fs sk f = (False, f')" and q: "q \<noteq> sk_tmp sk"
  shows "content f' q = content f q"
  using r honest_filesD(6,7) [OF fs] q
  by (auto simp: sink_finalize_def sink_drop_def split: if_splits prod.splits bool.splits)

lemma sink_drop_others:
  "honest_files fs content appends \<Longrightarrow> q \<noteq> sk_tmp sk \<Longrightarrow> content (sink_drop fs sk f) q = content f q"
  by (simp add: sink_drop_def honest_filesD(7))

text \<open>Draining any session stream into a sink.\<close>

context session_stream
begin

lemma drain_put_inv:
  assumes fs: "honest_files fs content appends"
  shows "view core = Some s \<Longrightarrow> upload_inv content appends src sk s f \<Longrightarrow>
     \<exists>abort sk' core' f' s'. drain_put fs st sk core f = Some (abort, sk', core', f') \<and> view core' = Some s' \<and>
       st_reset s' = st_reset s \<and> send_fin s' = send_fin s \<and> sk_tmp sk' = sk_tmp sk \<and> sk_dest sk' = sk_dest sk \<and> sk_finalized sk' = sk_finalized sk \<and>
       (\<forall>q. q \<noteq> sk_tmp sk \<longrightarrow> content f' q = content f q) \<and> (\<not> abort \<longrightarrow> upload_inv content appends src sk' s' f')"
proof (induction "length (segs (recv s))" arbitrary: sk core s f rule: less_induct)
  case less
  obtain d core1 where rd: "so_read st core = (d, core1)" by (cases "so_read st core")
  note v = read_view [OF rd less(2)]
  have ra: "reasm_agrees (recv s) src" "rdelivered (recv s) \<le> length src" using less(3) by (simp_all add: upload_inv_def)
  show ?case
  proof (cases "d = []")
    case True
    then show ?thesis using v stream_read_Nil [OF ra(1)] less(2,3) rd by (intro exI [of _ False]) (simp add: drain_put.simps [of fs st sk])
  next
    case False
    obtain ok h f1 where w: "fi_write_all fs d (sk_file sk) f = (ok, h, f1)" by (cases "fi_write_all fs d (sk_file sk) f")
    let ?sk = "sk\<lparr>sk_file := h\<rparr>" and ?s = "snd (stream_read s)"
    have same: "st_reset ?s = st_reset s \<and> send_fin ?s = send_fin s" "peer_fin ?s = peer_fin s" by (simp_all add: stream_read_def split: prod.split)
    have app: "appends (sk_file sk) (sk_tmp sk) f" using less(3) by (simp add: upload_inv_def)
    note others = honest_filesD(3) [OF fs w app]
    show ?thesis
    proof (cases ok)
      case True
      then have w': "fi_write_all fs d (sk_file sk) f = (True, h, f1)" using w by simp
      have "upload_inv content appends src ?sk ?s f1"
        using honest_filesD(4) [OF fs w' app] less(3) stream_read_inv [OF ra] v same(2)
        by (simp add: upload_inv_def)
      moreover have "length (segs (recv ?s)) < length (segs (recv s))" using stream_read_shrinks [OF ra(1)] False v by simp
      ultimately show ?thesis
        using less(1) [of ?s core1 ?sk f1] v rd w True False same(1) others
        by (simp add: drain_put.simps [of fs st sk] sink_write_def)
    next
      case False
      then show ?thesis
        using \<open>d \<noteq> []\<close> v rd w same(1) others by (intro exI [of _ True]) (simp add: drain_put.simps [of fs st sk] sink_write_def)
    qed
  qed
qed

end

text \<open>A stream that is read to its end leaves all of \<open>src\<close> in the temporary file.\<close>

lemma upload_inv_full:
  "upload_inv content appends src sk s f \<Longrightarrow> recv_finished s \<Longrightarrow> content f (sk_tmp sk) = Some src"
  by (auto simp: upload_inv_def recv_finished_def split: half_state.splits)

text \<open>The stream of a transfer.\<close>

locale transfer_stream = session_stream st view
  for st :: "'c xfer_stream_ops" and view +
  assumes reset_view: "view (so_reset st c) = map_option (\<lambda>s. s\<lparr>st_reset := True\<rparr>) (view c)"
    and finished_view: "view c = Some s \<Longrightarrow> so_recv_finished st c = recv_finished s"
begin

text \<open>One round of an upload: it goes on, or the destination holds all of \<open>src\<close>, or the stream is aborted and the
  destination is as it was. No other file is touched.\<close>

lemma pump_put_inv:
  assumes fs: "honest_files fs content appends" and v: "view core = Some s" "\<not> st_reset s"
    and inv: "upload_inv content appends src sk s f"
  shows "\<exists>x core' f' s'. pump_xfer fs st (XferPut sk) core f = Some (x, core', f') \<and> view core' = Some s' \<and>
     (\<forall>q. q \<noteq> sk_tmp sk \<longrightarrow> q \<noteq> sk_dest sk \<longrightarrow> content f' q = content f q) \<and>
     (case x of
        Some y \<Rightarrow> \<exists>sk'. y = XferPut sk' \<and> sk_tmp sk' = sk_tmp sk \<and> sk_dest sk' = sk_dest sk \<and> \<not> st_reset s' \<and>
          upload_inv content appends src sk' s' f' \<and> content f' (sk_dest sk) = content f (sk_dest sk)
      | None \<Rightarrow> if st_reset s' then content f' (sk_dest sk) = content f (sk_dest sk)
               else content f' (sk_dest sk) = Some src \<and> content f' (sk_tmp sk) = None \<and> send_fin s')"
proof -
  obtain abort sk' core1 f1 s1 where d: "drain_put fs st sk core f = Some (abort, sk', core1, f1)" "view core1 = Some s1"
    "st_reset s1 = st_reset s" "sk_tmp sk' = sk_tmp sk" "sk_dest sk' = sk_dest sk" "sk_finalized sk' = sk_finalized sk"
    "\<And>q. q \<noteq> sk_tmp sk \<Longrightarrow> content f1 q = content f q" "\<not> abort \<Longrightarrow> upload_inv content appends src sk' s1 f1"
    using drain_put_inv [OF fs v(1) inv] by blast
  have other: "sk_tmp sk \<noteq> sk_dest sk" "\<not> sk_finalized sk" using inv by (simp_all add: upload_inv_def)
  note drop = honest_filesD(7) [OF fs]
  consider "abort" | "\<not> abort" "\<not> recv_finished s1" | "\<not> abort" "recv_finished s1" by blast
  then show ?thesis
  proof cases
    case 1
    then show ?thesis
      using d other drop by (auto simp: pump_xfer_def finish_xfer_def sink_drop_def reset_view Let_def)
  next
    case 2
    then show ?thesis
      using d other v(2) by (auto simp: pump_xfer_def finished_view Let_def)
  next
    case 3
    have full: "content f1 (sk_tmp sk) = Some src"
      using d(4) upload_inv_full [OF d(8) [OF 3(1)] 3(2)] by simp
    have close: "view (so_close st core1) = Some (stream_close 0 s1)" using d(2) by (simp add: close_view)
    obtain ok f2 where fin: "sink_finalize fs sk' f1 = (ok, f2)" by (cases "sink_finalize fs sk' f1")
    have run: "pump_xfer fs st (XferPut sk) core f = Some (None, if ok then so_close st core1 else so_reset st (so_close st core1), f2)"
      using d 3 fin by (simp add: pump_xfer_def finished_view finish_xfer_def Let_def)
    show ?thesis
    proof (cases ok)
      case True
      then have "content f2 = (content f1)(sk_tmp sk := None, sk_dest sk := content f1 (sk_tmp sk))"
        using fin sink_finalize_done(2) [OF fs, of sk' f1 f2] d(4,5) by simp
      then show ?thesis
        using run True close full d(3,7) v(2) other by (auto simp: stream_close_def)
    next
      case False
      then have "content f2 q = content f1 q" if "q \<noteq> sk_tmp sk" for q
        using fin sink_finalize_failed [OF fs, of sk' f1 f2 q] d(4) that by simp
      then show ?thesis
        using run False close d(7) other by (auto simp: reset_view)
    qed
  qed
qed

end

end
