(* ===== verification/ClientDriver.thy ===== *)
theory ClientDriver
  imports Forwarder Files
begin

text \<open>
  The UDP driver of the client, \<^verbatim>\<open>Client\<close> of \<^verbatim>\<open>src/client.rs\<close>: receiving and sending, the agent connections, and
  one iteration of each of its loops: forwards only, a file transfer, a remote command. Parameters are
  the datagrams that are ready, the files, and the standard streams (writing to one waits until all is written, or fails); waiting in \<^verbatim>\<open>poll\<close> is not
  modelled, and neither is the progress display. The datagrams an iteration sends are part of its result.
\<close>

record ('s, 't, 'a, 'k) client_driver =
  cd_core :: "('s, 't, 'a) client_core"
  cd_agent_sock :: "bytes option"
  cd_agent_conns :: "(u64, 'k forward_conn) btree"


section \<open>Datagrams\<close>

text \<open>One ready datagram, or none; any receive error counts as none.\<close>

definition recv_and_handle :: "('s, 't) snow \<Rightarrow> bytes option \<Rightarrow> ('s, 't, 'a) client_core \<Rightarrow>
    (runtime_error + bool) \<times> bytes list \<times> ('s, 't, 'a) client_core" where
  "recv_and_handle sn r core =
     (case r of
        None \<Rightarrow> (Inr False, [], core)
      | Some buf \<Rightarrow>
          (case client_handle_packet sn buf core of
             (Inl err, core') \<Rightarrow> (Inl err, [], core')
           | (Inr pkts, core') \<Rightarrow> (Inr True, pkts, core')))"

text \<open>\<^verbatim>\<open>while self.recv_and_handle()? {}\<close> over the datagrams that are ready.\<close>

fun recv_all :: "('s, 't) snow \<Rightarrow> bytes list \<Rightarrow> ('s, 't, 'a) client_core \<Rightarrow>
    (runtime_error + unit) \<times> bytes list \<times> ('s, 't, 'a) client_core" where
  "recv_all sn [] core = (Inr (), [], core)"
| "recv_all sn (r # rs) core =
     (case recv_and_handle sn (Some r) core of
        (Inl err, out, core') \<Rightarrow> (Inl err, out, core')
      | (Inr _, out, core') \<Rightarrow> (case recv_all sn rs core' of (res, out', core'') \<Rightarrow> (res, out @ out', core'')))"

definition client_flush :: "('s, 't) snow \<Rightarrow> ('s, 't, 'a) client_core \<Rightarrow> bytes list \<times> ('s, 't, 'a) client_core" where
  "client_flush sn core = client_tick sn core"

definition send_keepalive :: "('s, 't) snow \<Rightarrow> bool \<Rightarrow> ('s, 't, 'a) client_core \<Rightarrow> bytes list \<times> ('s, 't, 'a) client_core" where
  "send_keepalive sn due core =
     (if due then (case keepalive sn core of (p, core') \<Rightarrow> (case p of Some pkt \<Rightarrow> [pkt] | None \<Rightarrow> [], core')) else ([], core))"

definition pump_once :: "('s, 't) snow \<Rightarrow> bytes option \<Rightarrow> ('s, 't, 'a) client_core \<Rightarrow>
    (runtime_error + unit) \<times> bytes list \<times> ('s, 't, 'a) client_core" where
  "pump_once sn r core =
     (case recv_and_handle sn r core of
        (Inl err, out, core) \<Rightarrow> (Inl err, out, core)
      | (Inr _, out, core) \<Rightarrow> (case client_flush sn core of (out', core) \<Rightarrow> (Inr (), out @ out', core)))"

text \<open>The loop that completes the handshake: one round per element, the deadline is over after the last.\<close>

fun connect_loop :: "('s, 't) snow \<Rightarrow> bytes option list \<Rightarrow> ('s, 't, 'a) client_core \<Rightarrow>
    (runtime_error + unit) \<times> bytes list \<times> ('s, 't, 'a) client_core" where
  "connect_loop sn rs core =
     (if cc_established core then (Inr (), [], core)
      else case rs of
        [] \<Rightarrow> (Inl RTimeout, [], core)
      | r # rs' \<Rightarrow>
          (case pump_once sn r core of
             (Inl err, out, core) \<Rightarrow> (Inl err, out, core)
           | (Inr _, out, core) \<Rightarrow> (case connect_loop sn rs' core of (res, out', core) \<Rightarrow> (res, out @ out', core))))"

declare connect_loop.simps [simp del]

text \<open>Connecting: the first handshake datagram, then the loop. Binding the socket is a parameter that may fail.\<close>

definition connect_with :: "('s, 't) snow \<Rightarrow> bytes \<Rightarrow> bytes option \<Rightarrow> bool \<Rightarrow> bytes option list \<Rightarrow> bytes \<Rightarrow> known_hosts \<Rightarrow> ustr \<Rightarrow> 'a \<Rightarrow>
    u16 \<Rightarrow> u16 \<Rightarrow> display_mode \<Rightarrow> bool \<Rightarrow> bytes option \<Rightarrow> (runtime_error + ('s, 't, 'a, 'k) client_driver) \<times> bytes list" where
  "connect_with sn sid term_var bound rs priv known host addr rows cols mode want_shell agent_sock =
     (if \<not> bound then (Inl RIo, [])
      else case client_core_new sn sid term_var priv known host addr rows cols mode of
        Inl err \<Rightarrow> (Inl err, [])
      | Inr (core, first) \<Rightarrow>
          (case connect_loop sn rs (set_want_agent (agent_sock \<noteq> None) (set_want_shell want_shell core)) of
             (Inl err, out, _) \<Rightarrow> (Inl err, first # out)
           | (Inr _, out, core) \<Rightarrow> (Inr \<lparr>cd_core = core, cd_agent_sock = agent_sock, cd_agent_conns = []\<rparr>, first # out)))"

text \<open>Waiting for the server's version: a failing round ends the wait.\<close>

fun wait_for_server_version :: "('s, 't) snow \<Rightarrow> bytes option list \<Rightarrow> ('s, 't, 'a) client_core \<Rightarrow>
    bytes option \<times> bytes list \<times> ('s, 't, 'a) client_core" where
  "wait_for_server_version sn rs core =
     (if cc_server_version core \<noteq> None then (cc_server_version core, [], core)
      else case rs of
        [] \<Rightarrow> (None, [], core)
      | r # rs' \<Rightarrow>
          (case pump_once sn r core of
             (Inl err, out, core) \<Rightarrow> (cc_server_version core, out, core)
           | (Inr _, out, core) \<Rightarrow>
               (case wait_for_server_version sn rs' core of (v, out', core) \<Rightarrow> (v, out @ out', core))))"

declare wait_for_server_version.simps [simp del]

text \<open>Saying goodbye: six rounds whose results are ignored.\<close>

definition bye_round :: "('s, 't) snow \<Rightarrow> bytes option \<Rightarrow> bytes list \<times> ('s, 't, 'a) client_core \<Rightarrow> bytes list \<times> ('s, 't, 'a) client_core" where
  "bye_round sn r st =
     (case st of (out, core) \<Rightarrow>
      case client_flush sn core of (out1, core) \<Rightarrow>
      case recv_and_handle sn r core of (_, out2, core) \<Rightarrow> (out @ out1 @ out2, core))"

definition say_bye :: "('s, 't) snow \<Rightarrow> bytes option list \<Rightarrow> ('s, 't, 'a) client_core \<Rightarrow> bytes list \<times> ('s, 't, 'a) client_core" where
  "say_bye sn rs core = fold (\<lambda>i. bye_round sn (if i < length rs then rs ! i else None)) [0..<6] ([], send_bye core)"


section \<open>Agent connections\<close>

fun agent_event :: "('k, 'l) net_ops \<Rightarrow> stream_event \<Rightarrow> ('s, 't, 'a, 'k) client_driver \<Rightarrow> ('s, 't, 'a, 'k) client_driver" where
  "agent_event nw (EvOpened i kind meta) d =
     (if kind = Agent then
        (case Option.bind (cd_agent_sock d) (\<lambda>p. Option.bind (ne_connect nw p) (ne_nonblocking nw)) of
           Some k \<Rightarrow> d\<lparr>cd_agent_conns := bt_insert i (from_stream k) (cd_agent_conns d)\<rparr>
         | None \<Rightarrow> d\<lparr>cd_core := cc_stream_close i (cd_core d)\<rparr>)
      else d)"
| "agent_event nw (EvReadable i) d = d"
| "agent_event nw (EvClosed i status) d =
     (case bt_get (cd_agent_conns d) i of
        Some c \<Rightarrow> d\<lparr>cd_agent_conns := bt_insert i (mark_peer_closed c) (cd_agent_conns d)\<rparr>
      | None \<Rightarrow> d)"
| "agent_event nw (EvReset i) d = d\<lparr>cd_agent_conns := bt_remove i (cd_agent_conns d)\<rparr>"

definition pump_agent_one :: "('k, 'l) net_ops \<Rightarrow> u64 \<Rightarrow> ('s, 't, 'a, 'k) client_driver \<Rightarrow> ('s, 't, 'a, 'k) client_driver option" where
  "pump_agent_one nw i d =
     (case bt_get (cd_agent_conns d) i of
        None \<Rightarrow> Some d
      | Some c \<Rightarrow>
          do { (finished, c, core) \<leftarrow> pump_conn (ne_tcp nw) (client_streams i) c (cd_core d);
               Some (d\<lparr>cd_core := core, cd_agent_conns := (if finished then bt_remove i else bt_insert i c) (cd_agent_conns d)\<rparr>) })"

definition pump_agent :: "('k, 'l) net_ops \<Rightarrow> ('s, 't, 'a, 'k) client_driver \<Rightarrow> ('s, 't, 'a, 'k) client_driver option" where
  "pump_agent nw d =
     (case cc_take_events (cd_core d) of (evs, core) \<Rightarrow>
        (let d = fold (agent_event nw) evs (d\<lparr>cd_core := core\<rparr>)
         in opt_fold (pump_agent_one nw) (ne_iter nw (bt_keys (cd_agent_conns d))) d))"


section \<open>Forwarding only\<close>

text \<open>One iteration of \<^verbatim>\<open>run_forwards\<close> after the wait; \<open>None\<close> is a local peer that never stops.\<close>

definition forwards_iter :: "('s, 't) snow \<Rightarrow> ('k, 'l) net_ops \<Rightarrow> bytes list \<Rightarrow> bool \<Rightarrow> ('k, 'l) forwarder \<times> ('s, 't, 'a) client_core \<Rightarrow>
    ((runtime_error + unit) \<times> bytes list \<times> ('k, 'l) forwarder \<times> ('s, 't, 'a) client_core) option" where
  "forwards_iter sn nw rs due st =
     do { (f, core) \<leftarrow> forwarder_accept nw st;
          (case recv_all sn rs core of
             (Inl err, out, core) \<Rightarrow> Some (Inl err, out, f, core)
           | (Inr _, out, core) \<Rightarrow>
               (case cc_take_events core of (evs, core) \<Rightarrow>
                  do { (f, core) \<leftarrow> forwarder_pump nw (fold (\<lambda>ev st. snd (forwarder_event nw ev st)) evs (f, core));
                       (case client_flush sn core of (out1, core) \<Rightarrow>
                        case send_keepalive sn due core of (out2, core) \<Rightarrow>
                          Some (Inr (), out @ out1 @ out2, f, core)) })) }"


section \<open>File transfers\<close>

record 'h transfer =
  tr_id :: u64
  tr_source :: "'h file_source option"
  tr_sink :: "'h file_sink option"
  tr_sent_fin :: bool

text \<open>Opening: the stream first, then the local file.\<close>

definition transfer_start :: "('f, 'h) file_ops \<Rightarrow> nat \<Rightarrow> xfer_request \<Rightarrow> bytes \<Rightarrow> ('s, 't, 'a) client_core \<Rightarrow> 'f \<Rightarrow>
    (runtime_error + 'h transfer) \<times> ('s, 't, 'a) client_core \<times> 'f" where
  "transfer_start fs pid req loc core f =
     (case cc_open_xfer req core of (i, core) \<Rightarrow>
        (case req of
           Put _ _ \<Rightarrow>
             (case source_open fs loc f of
                None \<Rightarrow> (Inl RIo, core, f)
              | Some src \<Rightarrow> (Inr \<lparr>tr_id = i, tr_source = Some src, tr_sink = None, tr_sent_fin = False\<rparr>, core, f))
         | Get _ \<Rightarrow>
             (case sink_create fs pid loc f of
                (None, f) \<Rightarrow> (Inl RIo, core, f)
              | (Some sk, f) \<Rightarrow> (Inr \<lparr>tr_id = i, tr_source = None, tr_sink = Some sk, tr_sent_fin = False\<rparr>, core, f))))"

definition TRANSFER_REJECTED :: ustr where
  "TRANSFER_REJECTED = uni ''remote rejected the transfer (no such file or permission denied)''"

datatype 'h transfer_result = TContinue "'h transfer" | TDone | TFailed runtime_error

definition drop_sink :: "('f, 'h) file_ops \<Rightarrow> 'h transfer \<Rightarrow> 'f \<Rightarrow> 'f" where
  "drop_sink fs t f = (case tr_sink t of Some sk \<Rightarrow> sink_drop fs sk f | None \<Rightarrow> f)"

text \<open>Sending the next chunk of the local file.\<close>

definition upload_chunk :: "('f, 'h) file_ops \<Rightarrow> 'h transfer \<Rightarrow> 'h file_source \<Rightarrow> ('s, 't, 'a) client_core \<Rightarrow> 'f \<Rightarrow>
    (runtime_error + 'h transfer) \<times> ('s, 't, 'a) client_core" where
  "upload_chunk fs t src core f =
     (if \<not> tr_sent_fin t \<and> cc_stream_in_flight (tr_id t) core < FORWARD_SEND_CAP then
        (case read_chunk fs (64 * 1024) src f of
           (None, src') \<Rightarrow> (Inl RIo, core)
         | (Some d, src') \<Rightarrow>
             if d = [] then (Inr (t\<lparr>tr_source := Some src', tr_sent_fin := True\<rparr>), cc_stream_close (tr_id t) core)
             else (Inr (t\<lparr>tr_source := Some src'\<rparr>), cc_stream_write (tr_id t) d core))
      else (Inr t, core))"

text \<open>The work of one iteration between receiving and the final flush. \<open>rs\<close> are the datagrams that arrive during the
  goodbye.\<close>

definition transfer_upload :: "('s, 't) snow \<Rightarrow> ('f, 'h) file_ops \<Rightarrow> bytes option list \<Rightarrow> 'h transfer \<Rightarrow> 'h file_source \<Rightarrow>
    ('s, 't, 'a) client_core \<Rightarrow> 'f \<Rightarrow> 'h transfer_result \<times> bytes list \<times> ('s, 't, 'a) client_core" where
  "transfer_upload sn fs rs t src core f =
     (case upload_chunk fs t src core f of
        (Inl err, core) \<Rightarrow> (TFailed err, [], core)
      | (Inr t, core) \<Rightarrow>
          if tr_sent_fin t \<and> cc_stream_recv_finished (tr_id t) core then
            (case client_flush sn core of (out1, core) \<Rightarrow>
             case say_bye sn rs core of (out2, core) \<Rightarrow> (TDone, out1 @ out2, core))
          else (TContinue t, [], core))"

definition transfer_download :: "('s, 't) snow \<Rightarrow> ('f, 'h) file_ops \<Rightarrow> bytes option list \<Rightarrow> 'h transfer \<Rightarrow> 'h file_sink \<Rightarrow>
    ('s, 't, 'a) client_core \<Rightarrow> 'f \<Rightarrow> ('h transfer_result \<times> bytes list \<times> ('s, 't, 'a) client_core \<times> 'f) option" where
  "transfer_download sn fs rs t sk core f =
     do { (failed, sk, core, f) \<leftarrow> drain_put fs (client_streams (tr_id t)) sk core f;
          Some (if failed then (TFailed RIo, [], core, sink_drop fs sk f)
            else if cc_stream_recv_finished (tr_id t) core then
              (case client_flush sn (cc_stream_close (tr_id t) core) of (out1, core) \<Rightarrow>
               case say_bye sn rs core of (out2, core) \<Rightarrow>
               case sink_finalize fs sk f of (ok, f) \<Rightarrow> (if ok then TDone else TFailed RIo, out1 @ out2, core, f))
            else (TContinue (t\<lparr>tr_sink := Some sk\<rparr>), [], core, f)) }"

definition transfer_iter :: "('s, 't) snow \<Rightarrow> ('f, 'h) file_ops \<Rightarrow> bytes list \<Rightarrow> bytes option list \<Rightarrow> bool \<Rightarrow> 'h transfer \<Rightarrow>
    ('s, 't, 'a) client_core \<Rightarrow> 'f \<Rightarrow> ('h transfer_result \<times> bytes list \<times> ('s, 't, 'a) client_core \<times> 'f) option" where
  "transfer_iter sn fs rs bye due t core f =
     (case recv_all sn rs core of
        (Inl err, out, core) \<Rightarrow> Some (TFailed err, out, core, drop_sink fs t f)
      | (Inr _, out, core) \<Rightarrow>
          (case cc_take_events core of (evs, core) \<Rightarrow>
             if EvReset (tr_id t) \<in> set evs then Some (TFailed (RTransfer TRANSFER_REJECTED), out, core, drop_sink fs t f)
             else
               do { (r, out1, core, f) \<leftarrow>
                      (case tr_source t of
                         Some src \<Rightarrow> (case transfer_upload sn fs bye t src core f of (r, out1, core) \<Rightarrow> Some (r, out1, core, f))
                       | None \<Rightarrow>
                           (case tr_sink t of
                              Some sk \<Rightarrow> transfer_download sn fs bye t sk core f
                            | None \<Rightarrow> Some (TContinue t, [], core, f)));
                    (case r of
                       TContinue t' \<Rightarrow>
                         (case client_flush sn core of (out2, core) \<Rightarrow>
                          case send_keepalive sn due core of (out3, core) \<Rightarrow>
                            Some (TContinue t', out @ out1 @ out2 @ out3, core, f))
                     | _ \<Rightarrow> Some (r, out @ out1, core, f)) }))"


section \<open>Remote commands\<close>

text \<open>The standard streams of the client process \<open>'o\<close>; the boolean of a write is success.\<close>

text \<open>One read of our standard input. Unlike the calls of \<^verbatim>\<open>Tcp\<close> it is not repeated when a signal interrupts it.\<close>

datatype stdin_read = InData bytes | InEnd | InWouldBlock | InInterrupted | InError

record 'o std_ops =
  std_out :: "bytes \<Rightarrow> 'o \<Rightarrow> bool \<times> 'o"
  std_err :: "bytes \<Rightarrow> 'o \<Rightarrow> bool \<times> 'o"
  std_in :: "nat \<Rightarrow> 'o \<Rightarrow> stdin_read \<times> 'o"

record command =
  cm_id :: u64
  cm_err_id :: "u64 option"
  cm_exit_code :: "u32 option"
  cm_stdin_eof :: bool

definition EXEC_REFUSED :: ustr where
  "EXEC_REFUSED = uni ''remote refused or could not start the command''"

record exec_options =
  eo_local :: "(u16 \<times> bytes) list"
  eo_remote :: "(u16 \<times> bytes) list"
  eo_dynamic :: "(bytes \<times> u16) list"
  eo_null_stdin :: bool

text \<open>Opening: the forwards first, then the command; with \<open>null_stdin\<close> its input ends at once.\<close>

definition exec_start :: "('k, 'l) net_ops \<Rightarrow> exec_options \<Rightarrow> bytes \<Rightarrow>
    ('s, 't, 'a) client_core \<Rightarrow> (runtime_error + ('k, 'l) forwarder \<times> command) \<times> ('s, 't, 'a) client_core" where
  "exec_start nw opts cmd core =
     (case forwarder_bind nw (eo_local opts) (eo_remote opts) (eo_dynamic opts) core of
        (Inl err, core) \<Rightarrow> (Inl err, core)
      | (Inr f, core) \<Rightarrow>
          (case cc_open_exec cmd core of (i, core) \<Rightarrow>
             (Inr (f, \<lparr>cm_id = i, cm_err_id = None, cm_exit_code = None, cm_stdin_eof = eo_null_stdin opts\<rparr>),
              if eo_null_stdin opts then cc_stream_close i core else core)))"

text \<open>An event that is not the forwarder's.\<close>

fun command_event :: "stream_event \<Rightarrow> command \<Rightarrow> runtime_error + command" where
  "command_event (EvOpened i kind meta) x = (if kind = Exec then Inr (x\<lparr>cm_err_id := Some i\<rparr>) else Inr x)"
| "command_event (EvReset i) x = (if i = cm_id x then Inl (RExec EXEC_REFUSED) else Inr x)"
| "command_event (EvClosed i status) x = (if i = cm_id x then Inr (x\<lparr>cm_exit_code := Some status\<rparr>) else Inr x)"
| "command_event (EvReadable i) x = Inr x"

fun exec_events :: "('k, 'l) net_ops \<Rightarrow> stream_event list \<Rightarrow> command \<Rightarrow> ('k, 'l) forwarder \<times> ('s, 't, 'a) client_core \<Rightarrow>
    (runtime_error + command) \<times> ('k, 'l) forwarder \<times> ('s, 't, 'a) client_core" where
  "exec_events nw [] x st = (Inr x, st)"
| "exec_events nw (ev # evs) x st =
     (case forwarder_event nw ev st of
        (None, st) \<Rightarrow> exec_events nw evs x st
      | (Some ev, st) \<Rightarrow>
          (case command_event ev x of
             Inl err \<Rightarrow> (Inl err, st)
           | Inr x \<Rightarrow> exec_events nw evs x st))"

text \<open>What one stream has goes to one of our standard streams.\<close>

definition show_stream :: "(bytes \<Rightarrow> 'o \<Rightarrow> bool \<times> 'o) \<Rightarrow> u64 \<Rightarrow> ('s, 't, 'a) client_core \<Rightarrow> 'o \<Rightarrow> bool \<times> ('s, 't, 'a) client_core \<times> 'o" where
  "show_stream wr i core w =
     (case cc_stream_read i core of (d, core) \<Rightarrow>
        if d \<noteq> [] then (case wr d w of (ok, w) \<Rightarrow> (ok, core, w)) else (True, core, w))"

definition show_output :: "'o std_ops \<Rightarrow> command \<Rightarrow> ('s, 't, 'a) client_core \<Rightarrow> 'o \<Rightarrow> bool \<times> ('s, 't, 'a) client_core \<times> 'o" where
  "show_output std x core w =
     (case show_stream (std_out std) (cm_id x) core w of
        (False, core, w) \<Rightarrow> (False, core, w)
      | (True, core, w) \<Rightarrow>
          (case cm_err_id x of None \<Rightarrow> (True, core, w) | Some s \<Rightarrow> show_stream (std_err std) s core w))"

text \<open>Everything but data and \<^verbatim>\<open>WouldBlock\<close> ends the command's input, an interrupted read too.\<close>

definition send_stdin :: "'o std_ops \<Rightarrow> command \<Rightarrow> ('s, 't, 'a) client_core \<Rightarrow> 'o \<Rightarrow> command \<times> ('s, 't, 'a) client_core \<times> 'o" where
  "send_stdin std x core w =
     (if cm_stdin_eof x then (x, core, w)
      else case std_in std 16384 w of
        (InEnd, w) \<Rightarrow> (x\<lparr>cm_stdin_eof := True\<rparr>, cc_stream_close (cm_id x) core, w)
      | (InData d, w) \<Rightarrow> (x, cc_stream_write (cm_id x) d core, w)
      | (InWouldBlock, w) \<Rightarrow> (x, core, w)
      | (InInterrupted, w) \<Rightarrow> (x\<lparr>cm_stdin_eof := True\<rparr>, cc_stream_close (cm_id x) core, w)
      | (InError, w) \<Rightarrow> (x\<lparr>cm_stdin_eof := True\<rparr>, cc_stream_close (cm_id x) core, w))"

definition command_done :: "command \<Rightarrow> ('s, 't, 'a) client_core \<Rightarrow> u32 option" where
  "command_done x core =
     (case cm_exit_code x of
        None \<Rightarrow> None
      | Some code \<Rightarrow>
          if cc_stream_recv_finished (cm_id x) core \<and>
             (case cm_err_id x of Some s \<Rightarrow> cc_stream_recv_finished s core | None \<Rightarrow> True)
          then Some code else None)"

datatype 'f exec_result = XContinue 'f | XDone u32 | XFailed runtime_error

text \<open>The work of one iteration after the events: output, input, the forwards, sending, and the question whether the command is over.
  \<open>bye\<close> are the datagrams that arrive during the goodbye, \<open>due\<close> says that the keepalive is due; \<open>None\<close> is a local peer that
  never stops.\<close>

definition exec_work :: "('s, 't) snow \<Rightarrow> ('k, 'l) net_ops \<Rightarrow> 'o std_ops \<Rightarrow> bytes option list \<Rightarrow> bool \<Rightarrow>
    ('k, 'l) forwarder \<times> command \<Rightarrow> ('s, 't, 'a) client_core \<Rightarrow> 'o \<Rightarrow>
    ((('k, 'l) forwarder \<times> command) exec_result \<times> bytes list \<times> ('s, 't, 'a) client_core \<times> 'o) option" where
  "exec_work sn nw std bye due fx core w =
     (case fx of (f, x) \<Rightarrow>
      case show_output std x core w of
        (False, core, w) \<Rightarrow> Some (XFailed RIo, [], core, w)
      | (True, core, w) \<Rightarrow>
          (case send_stdin std x core w of (x, core, w) \<Rightarrow>
             do { (f, core) \<leftarrow> forwarder_pump nw (f, core);
                  (case client_flush sn core of (out1, core) \<Rightarrow>
                   case send_keepalive sn due core of (out2, core) \<Rightarrow>
                     Some (case command_done x core of
                             None \<Rightarrow> (XContinue (f, x), out1 @ out2, core, w)
                           | Some code \<Rightarrow>
                               (case say_bye sn bye core of (out3, core) \<Rightarrow> (XDone code, out1 @ out2 @ out3, core, w)))) }))"

text \<open>One iteration after the wait; \<open>rs\<close> are the datagrams that are ready.\<close>

definition exec_iter :: "('s, 't) snow \<Rightarrow> ('k, 'l) net_ops \<Rightarrow> 'o std_ops \<Rightarrow> bytes list \<Rightarrow> bytes option list \<Rightarrow> bool \<Rightarrow>
    ('k, 'l) forwarder \<times> command \<Rightarrow> ('s, 't, 'a) client_core \<Rightarrow> 'o \<Rightarrow>
    ((('k, 'l) forwarder \<times> command) exec_result \<times> bytes list \<times> ('s, 't, 'a) client_core \<times> 'o) option" where
  "exec_iter sn nw std rs bye due fx core w =
     do { (f, core) \<leftarrow> forwarder_accept nw (fst fx, core);
          (case recv_all sn rs core of
             (Inl err, out, core) \<Rightarrow> Some (XFailed err, out, core, w)
           | (Inr _, out, core) \<Rightarrow>
               (case cc_take_events core of (evs, core) \<Rightarrow>
                case exec_events nw evs (snd fx) (f, core) of
                  (Inl err, f, core) \<Rightarrow> Some (XFailed err, out, core, w)
                | (Inr x, f, core) \<Rightarrow>
                    do { (r, out', core, w) \<leftarrow> exec_work sn nw std bye due (f, x) core w;
                         Some (r, out @ out', core, w) })) }"

end
