(* ===== verification/Exec.thy ===== *)
theory Exec
  imports Forward
begin

text \<open>
  Remote commands on the server: the process and its three pipes, \<^verbatim>\<open>src/exec.rs\<close>, and one round of the
  server's pump for one command. Parameters are the pipes, read and written like sockets, and the
  child process. A command that never stops printing is the value \<open>None\<close>.
\<close>

section \<open>The process\<close>

datatype exit_status = Code u32 | Signal u32 | Unknown

fun status_code :: "exit_status \<Rightarrow> u32" where
  "status_code (Code c) = c"
| "status_code (Signal s) = 128 + s"
| "status_code Unknown = 128"

record ('k, 'x) proc_ops =
  pr_io :: "'k tcp_ops"
  pr_try_wait :: "'x \<Rightarrow> exit_status option \<times> 'x"

record ('k, 'x) exec_proc =
  ex_child :: 'x
  ex_stdin :: "'k option"
  ex_stdout :: "'k option"
  ex_stderr :: "'k option"
  ex_stdin_buf :: bytes
  ex_exit :: "u32 option"

definition exec_proc_new :: "'x \<Rightarrow> 'k option \<Rightarrow> 'k option \<Rightarrow> 'k option \<Rightarrow> ('k, 'x) exec_proc" where
  "exec_proc_new child i out err =
     \<lparr>ex_child = child, ex_stdin = i, ex_stdout = out, ex_stderr = err, ex_stdin_buf = [], ex_exit = None\<rparr>"

partial_function (option) pipe_loop :: "'k tcp_ops \<Rightarrow> bytes \<Rightarrow> 'k \<Rightarrow> (bytes \<times> 'k option) option" where
  "pipe_loop io acc k =
     (case tc_read io 16384 k of
        (Closed, k') \<Rightarrow> Some (acc, None)
      | (Data bs, k') \<Rightarrow> pipe_loop io (acc @ bs) k'
      | (Empty, k') \<Rightarrow> Some (acc, Some k')
      | (ReadError, k') \<Rightarrow> Some (acc, None))"

definition read_pipe :: "'k tcp_ops \<Rightarrow> 'k option \<Rightarrow> (bytes \<times> 'k option) option" where
  "read_pipe io slot = (case slot of None \<Rightarrow> Some ([], None) | Some k \<Rightarrow> pipe_loop io [] k)"

definition read_stdout :: "'k tcp_ops \<Rightarrow> ('k, 'x) exec_proc \<Rightarrow> (bytes \<times> ('k, 'x) exec_proc) option" where
  "read_stdout io e = do { (out, slot) \<leftarrow> read_pipe io (ex_stdout e); Some (out, e\<lparr>ex_stdout := slot\<rparr>) }"

definition read_stderr :: "'k tcp_ops \<Rightarrow> ('k, 'x) exec_proc \<Rightarrow> (bytes \<times> ('k, 'x) exec_proc) option" where
  "read_stderr io e = do { (out, slot) \<leftarrow> read_pipe io (ex_stderr e); Some (out, e\<lparr>ex_stderr := slot\<rparr>) }"

text \<open>Writing to the pipe: what is left of the buffer, and the pipe unless it failed.\<close>

function write_pipe :: "'k tcp_ops \<Rightarrow> bytes \<Rightarrow> 'k \<Rightarrow> bytes \<times> 'k option" where
  "write_pipe io buf k =
     (if buf = [] then (buf, Some k)
      else case tc_write io buf k of
        (Taken n, k') \<Rightarrow> if n = 0 then (buf, Some k') else write_pipe io (drop n buf) k'
      | (Full, k') \<Rightarrow> (buf, Some k')
      | (WriteError, k') \<Rightarrow> ([], None))"
  by pat_completeness auto
termination
  by (relation "measure (\<lambda>(io, buf, k). length buf)") auto

declare write_pipe.simps [simp del]

definition flush_stdin :: "'k tcp_ops \<Rightarrow> ('k, 'x) exec_proc \<Rightarrow> ('k, 'x) exec_proc" where
  "flush_stdin io e =
     (case ex_stdin e of
        None \<Rightarrow> e\<lparr>ex_stdin_buf := []\<rparr>
      | Some k \<Rightarrow> (case write_pipe io (ex_stdin_buf e) k of (buf, slot) \<Rightarrow> e\<lparr>ex_stdin := slot, ex_stdin_buf := buf\<rparr>))"

definition write_stdin :: "'k tcp_ops \<Rightarrow> bytes \<Rightarrow> ('k, 'x) exec_proc \<Rightarrow> ('k, 'x) exec_proc" where
  "write_stdin io data e =
     (if ex_stdin e = None then e else flush_stdin io (e\<lparr>ex_stdin_buf := ex_stdin_buf e @ data\<rparr>))"

definition stdin_buffered :: "('k, 'x) exec_proc \<Rightarrow> nat" where
  "stdin_buffered e = length (ex_stdin_buf e)"

definition close_stdin :: "'k tcp_ops \<Rightarrow> ('k, 'x) exec_proc \<Rightarrow> ('k, 'x) exec_proc" where
  "close_stdin io e = (flush_stdin io e)\<lparr>ex_stdin := None\<rparr>"

definition poll_exit :: "('k, 'x) proc_ops \<Rightarrow> ('k, 'x) exec_proc \<Rightarrow> ('k, 'x) exec_proc" where
  "poll_exit ps e =
     (if ex_exit e \<noteq> None then e
      else case pr_try_wait ps (ex_child e) of
        (Some status, x) \<Rightarrow> e\<lparr>ex_child := x, ex_exit := Some (status_code status)\<rparr>
      | (None, x) \<Rightarrow> e\<lparr>ex_child := x\<rparr>)"

definition exec_finished :: "('k, 'x) exec_proc \<Rightarrow> bool" where
  "exec_finished e \<longleftrightarrow> ex_exit e \<noteq> None \<and> ex_stdout e = None \<and> ex_stderr e = None"

definition exit_code :: "('k, 'x) exec_proc \<Rightarrow> u32" where
  "exit_code e = (case ex_exit e of Some c \<Rightarrow> c | None \<Rightarrow> 0)"

text \<open>Killing the child and waiting for it: \<open>kill\<close> is what the operating system does.\<close>

definition exec_kill :: "('x \<Rightarrow> 'w \<Rightarrow> 'w) \<Rightarrow> ('k, 'x) exec_proc \<Rightarrow> 'w \<Rightarrow> 'w" where
  "exec_kill kill e w = kill (ex_child e) w"


section \<open>The server's pump for one command\<close>

partial_function (option) feed_stdin ::
  "'k tcp_ops \<Rightarrow> ('c, 'z) stream_ops_scheme \<Rightarrow> ('k, 'x) exec_proc \<Rightarrow> 'c \<Rightarrow> (('k, 'x) exec_proc \<times> 'c) option" where
  "feed_stdin io st e core =
     (if stdin_buffered e < FORWARD_SEND_CAP then
        (case so_read st core of (d, core') \<Rightarrow>
           if d = [] then Some (e, core') else feed_stdin io st (write_stdin io d e) core')
      else Some (e, core))"

definition pump_stdout :: "'k tcp_ops \<Rightarrow> ('c, 'z) stream_ops_scheme \<Rightarrow> ('k, 'x) exec_proc \<Rightarrow> 'c \<Rightarrow> (('k, 'x) exec_proc \<times> 'c) option" where
  "pump_stdout io st e core =
     (if so_in_flight st core < FORWARD_SEND_CAP then
        do { (out, e') \<leftarrow> read_stdout io e; Some (e', if out \<noteq> [] then so_write st out core else core) }
      else Some (e, core))"

definition pump_stderr :: "'k tcp_ops \<Rightarrow> ('c, 'z) stream_ops_scheme \<Rightarrow> ('k, 'x) exec_proc \<Rightarrow> 'c \<Rightarrow> (('k, 'x) exec_proc \<times> 'c) option" where
  "pump_stderr io st e core =
     (if so_in_flight st core < FORWARD_SEND_CAP then
        do { (out, e') \<leftarrow> read_stderr io e; Some (e', if out \<noteq> [] then so_write st out core else core) }
      else Some (e, core))"

text \<open>\<open>st\<close> is the stream of stdin and stdout, \<open>st'\<close> that of stderr; \<open>close\<close> closes the first with a status.
  The boolean says that the command is over.\<close>

definition pump_exec :: "('k, 'x) proc_ops \<Rightarrow> ('c, 'z) stream_ops_scheme \<Rightarrow> ('c, 'y) stream_ops_scheme \<Rightarrow> (u32 \<Rightarrow> 'c \<Rightarrow> 'c) \<Rightarrow>
    ('k, 'x) exec_proc \<Rightarrow> 'c \<Rightarrow> (bool \<times> ('k, 'x) exec_proc \<times> 'c) option" where
  "pump_exec ps st st' close e core =
     do { (e, core) \<leftarrow> feed_stdin (pr_io ps) st e core;
          (e, core) \<leftarrow> pump_stdout (pr_io ps) st (flush_stdin (pr_io ps) e) core;
          (e, core) \<leftarrow> pump_stderr (pr_io ps) st' e core;
          (let e = poll_exit ps e in
           Some (if exec_finished e then (True, e, so_close st' (close (exit_code e) core)) else (False, e, core))) }"

section \<open>What reaches the command and what it prints\<close>

text \<open>
  \<open>stdin_inv\<close>: while its standard input is open, the command was given exactly what the stream has delivered of
  \<open>src\<close>, except what is buffered. \<open>out_inv\<close>: a stream holds what was read so far of \<open>sent\<close>, all that goes into the pipe.
\<close>

definition stdin_inv :: "('k \<Rightarrow> bytes) \<Rightarrow> bytes \<Rightarrow> ('k, 'x) exec_proc \<Rightarrow> stream_state \<Rightarrow> bool" where
  "stdin_inv given src e s \<longleftrightarrow> reasm_agrees (recv s) src \<and> rdelivered (recv s) \<le> length src \<and>
     (\<forall>k. ex_stdin e = Some k \<longrightarrow> given k @ ex_stdin_buf e = take (rdelivered (recv s)) src)"

definition out_inv :: "('k \<Rightarrow> bytes) \<Rightarrow> bytes \<Rightarrow> 'k option \<Rightarrow> stream_state \<Rightarrow> bool" where
  "out_inv incoming sent slot s \<longleftrightarrow> (\<exists>w. send_ok w s \<and> sent = w @ (case slot of Some k \<Rightarrow> incoming k | None \<Rightarrow> []))"

text \<open>A pipe that never fails to be read.\<close>

definition reliable_reads :: "'k tcp_ops \<Rightarrow> bool" where
  "reliable_reads io \<longleftrightarrow> (\<forall>n k. fst (tc_read io n k) \<noteq> ReadError)"

lemma write_pipe_moves:
  assumes "honest_socket io given incoming" "write_pipe io buf k = (buf', Some k')"
  shows "given k' @ buf' = given k @ buf"
  using assms
proof (induction io buf k arbitrary: buf' k' rule: write_pipe.induct)
  case (1 io buf k)
  note io = 1(2)
  show ?case
  proof (cases "buf = []")
    case False
    obtain r k1 where w: "tc_write io buf k = (r, k1)" by (cases "tc_write io buf k")
    note h = honest_socket_write [OF io w]
    show ?thesis
    proof (cases r)
      case (Taken n)
      then show ?thesis
        using 1(1) [OF False w [symmetric] Taken _ io] 1(3) h w False
        by (cases "n = 0") (auto simp: write_pipe.simps [of io buf])
    qed (use h 1(3) w False in \<open>simp_all add: write_pipe.simps [of io buf]\<close>)
  qed (use 1(3) in \<open>simp add: write_pipe.simps [of io "[]"]\<close>)
qed

text \<open>A pipe that takes what it is offered is never left with a rest and never lost.\<close>

lemma write_pipe_willing:
  assumes "willing io"
  shows "\<exists>k'. write_pipe io buf k = ([], Some k')"
  using assms
proof (induction io buf k rule: write_pipe.induct)
  case (1 io buf k)
  show ?case
  proof (cases "buf = []")
    case False
    obtain n k1 where w: "tc_write io buf k = (Taken n, k1)" "n \<noteq> 0" using 1(2) False unfolding willing_def by blast
    then show ?thesis using 1(1) [OF False w(1) [symmetric] refl w(2) 1(2)] False by (simp add: write_pipe.simps [of io buf])
  qed (simp add: write_pipe.simps [of io "[]"])
qed

lemma flush_stdin_willing:
  assumes "willing io" "ex_stdin e \<noteq> None"
  shows "ex_stdin (flush_stdin io e) \<noteq> None \<and> ex_stdin_buf (flush_stdin io e) = []"
proof -
  obtain k where k: "ex_stdin e = Some k" using assms(2) by blast
  obtain k' where "write_pipe io (ex_stdin_buf e) k = ([], Some k')" using write_pipe_willing [OF assms(1)] by blast
  then show ?thesis using k by (simp add: flush_stdin_def)
qed

lemma stdin_keeps [simp]:
  "ex_stdout (flush_stdin io e) = ex_stdout e" "ex_stderr (flush_stdin io e) = ex_stderr e"
  "ex_exit (flush_stdin io e) = ex_exit e" "ex_child (flush_stdin io e) = ex_child e"
  "ex_stdout (write_stdin io d e) = ex_stdout e" "ex_stderr (write_stdin io d e) = ex_stderr e"
  "ex_exit (write_stdin io d e) = ex_exit e" "ex_child (write_stdin io d e) = ex_child e"
  by (simp_all add: write_stdin_def flush_stdin_def split: option.split prod.split)

lemma stdin_inv_flush:
  assumes "honest_socket io given incoming" "stdin_inv given src e s"
  shows "stdin_inv given src (flush_stdin io e) s"
proof (cases "ex_stdin e")
  case (Some k)
  obtain buf slot where "write_pipe io (ex_stdin_buf e) k = (buf, slot)" by (cases "write_pipe io (ex_stdin_buf e) k")
  then show ?thesis
    using assms(2) write_pipe_moves [OF assms(1)] Some by (cases slot) (simp_all add: stdin_inv_def flush_stdin_def)
qed (use assms(2) in \<open>simp add: stdin_inv_def flush_stdin_def\<close>)

lemma stdin_inv_write:
  assumes "honest_socket io given incoming" "stdin_inv given src e s"
  shows "stdin_inv given src (write_stdin io (fst (stream_read s)) e) (snd (stream_read s))"
proof -
  have "reasm_agrees (recv s) src" "rdelivered (recv s) \<le> length src" using assms(2) by (simp_all add: stdin_inv_def)
  note r = stream_read_inv [OF this]
  show ?thesis
  proof (cases "ex_stdin e")
    case (Some k)
    have "stdin_inv given src (e\<lparr>ex_stdin_buf := ex_stdin_buf e @ fst (stream_read s)\<rparr>) (snd (stream_read s))"
      using assms(2) Some by (simp add: stdin_inv_def r flip: append_assoc)
    from stdin_inv_flush [OF assms(1) this] Some show ?thesis by (simp add: write_stdin_def)
  qed (simp add: write_stdin_def stdin_inv_def r)
qed

text \<open>A pipe was read until it was closed or had nothing more for now.\<close>

definition pipe_drained :: "'k tcp_ops \<Rightarrow> 'k option \<Rightarrow> bool" where
  "pipe_drained io slot \<longleftrightarrow> (\<forall>k'. slot = Some k' \<longrightarrow> (\<exists>n k. tc_read io n k = (Empty, k')))"

lemma pipe_loop_reads:
  assumes io: "honest_socket io given incoming" and rel: "reliable_reads io"
  shows "\<exists>d slot. pipe_loop io acc k = Some (acc @ d, slot) \<and> incoming k = d @ (case slot of Some k' \<Rightarrow> incoming k' | None \<Rightarrow> []) \<and> pipe_drained io slot"
proof (induction "length (incoming k)" arbitrary: acc k rule: less_induct)
  case less
  obtain r k1 where rd: "tc_read io 16384 k = (r, k1)" by (cases "tc_read io 16384 k")
  note h = honest_socket_read [OF io rd]
  show ?case
  proof (cases r)
    case (Data bs)
    have "length (incoming k1) < length (incoming k)" using h Data by auto
    from less [OF this, of "acc @ bs"] show ?thesis
      using h Data rd by (auto simp: pipe_loop.simps [of io acc])
  next
    case ReadError
    then show ?thesis using rel rd by (metis fst_conv reliable_reads_def)
  qed (use h rd in \<open>auto simp: pipe_loop.simps [of io acc] pipe_drained_def intro!: exI [of _ "[]"]\<close>)
qed

lemma read_pipe_inv:
  assumes io: "honest_socket io given incoming" and rel: "reliable_reads io" and inv: "out_inv incoming sent slot s"
  shows "\<exists>d slot'. read_pipe io slot = Some (d, slot') \<and> pipe_drained io slot' \<and> out_inv incoming sent slot' (if d \<noteq> [] then stream_write d s else s)"
proof (cases slot)
  case None
  then show ?thesis using inv by (simp add: read_pipe_def pipe_drained_def)
next
  case (Some k)
  obtain d slot' where d: "pipe_loop io [] k = Some (d, slot')" "incoming k = d @ (case slot' of Some k' \<Rightarrow> incoming k' | None \<Rightarrow> [])"
    "pipe_drained io slot'"
    using pipe_loop_reads [OF io rel, of "[]" k] by auto
  obtain w where "send_ok w s" "sent = w @ incoming k" using inv Some by (auto simp: out_inv_def)
  then have "send_ok (w @ d) (if d \<noteq> [] then stream_write d s else s)"
    "sent = (w @ d) @ (case slot' of Some k' \<Rightarrow> incoming k' | None \<Rightarrow> [])"
    using d(2) by (auto intro: send_ok_write)
  then show ?thesis using Some d(1,3) unfolding out_inv_def by (auto simp: read_pipe_def)
qed

text \<open>What one round achieves besides keeping the invariants: a command that takes its input was given all that the
  stream could deliver, and its output was read until there was no more, unless the send window is full.\<close>

definition exec_progress :: "('k, 'x) proc_ops \<Rightarrow> ('k \<Rightarrow> bytes) \<Rightarrow> bytes \<Rightarrow> ('k, 'x) exec_proc \<Rightarrow> ('k, 'x) exec_proc \<Rightarrow> stream_state \<Rightarrow> stream_state \<Rightarrow> bool" where
  "exec_progress ps given src e e' t t' \<longleftrightarrow>
     (willing (pr_io ps) \<and> ex_stdin e \<noteq> None \<longrightarrow>
        (\<exists>k. ex_stdin e' = Some k \<and> given k = take (rdelivered (recv t)) src) \<and>
        (stdin_buffered e < FORWARD_SEND_CAP \<longrightarrow> fst (stream_read t) = [])) \<and>
     (pipe_drained (pr_io ps) (ex_stdout e') \<or> FORWARD_SEND_CAP \<le> length (send_buf t)) \<and>
     (pipe_drained (pr_io ps) (ex_stderr e') \<or> FORWARD_SEND_CAP \<le> length (send_buf t')) \<and>
     (ex_exit e = None \<longrightarrow> ex_exit e' = map_option status_code (fst (pr_try_wait ps (ex_child e))))"

text \<open>Two streams of one core: what is done to one leaves the other alone if they are \<open>apart\<close>. \<open>close\<close> closes the first with a status.\<close>

locale stream_pair = session_stream st view + err: session_stream st' view'
  for st view st' view' +
  fixes close :: "u32 \<Rightarrow> 'c \<Rightarrow> 'c" and apart :: bool
  assumes read_other: "apart \<Longrightarrow> view' (snd (so_read st c)) = view' c"
    and write_other: "apart \<Longrightarrow> view' (so_write st d c) = view' c"
    and write_other': "apart \<Longrightarrow> view (so_write st' d c) = view c"
    and close_other': "apart \<Longrightarrow> view (so_close st' c) = view c"
    and close_status_view: "view (close code c) = map_option (stream_close code) (view c)"
    and close_status_other: "apart \<Longrightarrow> view' (close code c) = view' c"
begin

lemma feed_stdin_inv:
  assumes apart: apart and io: "honest_socket io given incoming"
  shows "view core = Some s \<Longrightarrow> view' core = v \<Longrightarrow> stdin_inv given src e s \<Longrightarrow>
     \<exists>e' core' s'. feed_stdin io st e core = Some (e', core') \<and> view core' = Some s' \<and> view' core' = v \<and>
       stdin_inv given src e' s' \<and> (\<forall>slot sent. out_inv incoming sent slot s' = out_inv incoming sent slot s) \<and>
       ex_stdout e' = ex_stdout e \<and> ex_stderr e' = ex_stderr e \<and> ex_exit e' = ex_exit e \<and> ex_child e' = ex_child e \<and>
       (willing io \<and> ex_stdin e \<noteq> None \<longrightarrow> ex_stdin e' \<noteq> None \<and> (stdin_buffered e < FORWARD_SEND_CAP \<longrightarrow> fst (stream_read s') = []))"
proof (induction "length (segs (recv s))" arbitrary: e core s rule: less_induct)
  case less
  obtain d core1 where rd: "so_read st core = (d, core1)" by (cases "so_read st core")
  note v = read_view [OF rd less(2)]
  have other: "view' core1 = v" using read_other [OF apart, of core] rd less(3) by simp
  have ra: "reasm_agrees (recv s) src" "rdelivered (recv s) \<le> length src" using less(4) by (simp_all add: stdin_inv_def)
  consider "\<not> stdin_buffered e < FORWARD_SEND_CAP" | "stdin_buffered e < FORWARD_SEND_CAP" "d = []"
    | "stdin_buffered e < FORWARD_SEND_CAP" "d \<noteq> []" by blast
  then show ?case
  proof cases
    case 1
    then show ?thesis using less by (simp add: feed_stdin.simps [of io st e])
  next
    case 2
    then show ?thesis
      using v stream_read_Nil [OF ra(1)] less rd other by (simp add: feed_stdin.simps [of io st e])
  next
    case 3
    have fewer: "length (segs (recv (snd (stream_read s)))) < length (segs (recv s))"
      using stream_read_shrinks [OF ra(1)] 3 v by simp
    have took: "ex_stdin (write_stdin io d e) \<noteq> None \<and> stdin_buffered (write_stdin io d e) < FORWARD_SEND_CAP"
      if "willing io \<and> ex_stdin e \<noteq> None"
      using that flush_stdin_willing [of io "e\<lparr>ex_stdin_buf := ex_stdin_buf e @ d\<rparr>"]
      by (simp add: write_stdin_def stdin_buffered_def FORWARD_SEND_CAP_def)
    have step: "feed_stdin io st e core = feed_stdin io st (write_stdin io d e) core1"
      using 3 rd by (simp add: feed_stdin.simps [of io st e])
    from less(1) [OF fewer conjunct2 [OF v] other stdin_inv_write [OF io less(4)]] obtain e' core' s' where
      IH: "feed_stdin io st (write_stdin io d e) core1 = Some (e', core')" "view core' = Some s'" "view' core' = v" "stdin_inv given src e' s'"
        "\<forall>slot sent. out_inv incoming sent slot s' = out_inv incoming sent slot (snd (stream_read s))"
        "ex_stdout e' = ex_stdout e" "ex_stderr e' = ex_stderr e" "ex_exit e' = ex_exit e" "ex_child e' = ex_child e"
        "willing io \<and> ex_stdin (write_stdin io d e) \<noteq> None \<longrightarrow>
           ex_stdin e' \<noteq> None \<and> (stdin_buffered (write_stdin io d e) < FORWARD_SEND_CAP \<longrightarrow> fst (stream_read s') = [])"
      using v by auto
    have "\<forall>slot sent. out_inv incoming sent slot s' = out_inv incoming sent slot s"
      using IH(5) by (simp add: out_inv_def stream_read_inv(4) [OF ra])
    then show ?thesis using IH took step by auto
  qed
qed

lemma pump_stdout_inv:
  assumes apart: apart and io: "honest_socket io given incoming" "reliable_reads io" and v: "view core = Some s" "out_inv incoming sent (ex_stdout e) s"
    and stdin: "stdin_inv given src e s"
  shows "\<exists>e' core' s'. pump_stdout io st e core = Some (e', core') \<and> view core' = Some s' \<and> view' core' = view' core \<and>
     out_inv incoming sent (ex_stdout e') s' \<and> stdin_inv given src e' s' \<and> recv s' = recv s \<and> e' = e\<lparr>ex_stdout := ex_stdout e'\<rparr> \<and>
     (pipe_drained io (ex_stdout e') \<or> FORWARD_SEND_CAP \<le> length (send_buf s'))"
proof (cases "so_in_flight st core < FORWARD_SEND_CAP")
  case True
  obtain d slot where d: "read_pipe io (ex_stdout e) = Some (d, slot)" "pipe_drained io slot" "out_inv incoming sent slot (if d \<noteq> [] then stream_write d s else s)"
    using read_pipe_inv [OF io v(2)] by auto
  then show ?thesis
    using True v(1) stdin by (cases "d = []") (auto simp: pump_stdout_def read_stdout_def write_view write_other [OF apart] stdin_inv_def stream_write_def)
qed (use v stdin flight_view [OF v(1)] in \<open>simp add: pump_stdout_def\<close>)

lemma pump_stderr_inv:
  assumes apart: apart and io: "honest_socket io given incoming" "reliable_reads io" and v: "view' core = Some s'" "out_inv incoming sent (ex_stderr e) s'"
  shows "\<exists>e' core' s''. pump_stderr io st' e core = Some (e', core') \<and> view' core' = Some s'' \<and> view core' = view core \<and>
     out_inv incoming sent (ex_stderr e') s'' \<and> e' = e\<lparr>ex_stderr := ex_stderr e'\<rparr> \<and>
     (pipe_drained io (ex_stderr e') \<or> FORWARD_SEND_CAP \<le> length (send_buf s''))"
proof (cases "so_in_flight st' core < FORWARD_SEND_CAP")
  case True
  obtain d slot where d: "read_pipe io (ex_stderr e) = Some (d, slot)" "pipe_drained io slot" "out_inv incoming sent slot (if d \<noteq> [] then stream_write d s' else s')"
    using read_pipe_inv [OF io v(2)] by auto
  then show ?thesis
    using True v(1) by (cases "d = []") (auto simp: pump_stderr_def read_stderr_def err.write_view write_other' [OF apart])
qed (use v err.flight_view [OF v(1)] in \<open>simp add: pump_stderr_def\<close>)

lemma pump_exec_inv:
  assumes apart: apart and io: "honest_socket (pr_io ps) given incoming" "reliable_reads (pr_io ps)"
    and v: "view core = Some s" "view' core = Some s'" and stdin: "stdin_inv given src e s"
    and outs: "out_inv incoming out (ex_stdout e) s" "out_inv incoming outerr (ex_stderr e) s'"
  shows "\<exists>e' core' t t'. pump_exec ps st st' close e core = Some (exec_finished e', e', core') \<and> view core' = Some t \<and> view' core' = Some t' \<and>
     stdin_inv given src e' t \<and> out_inv incoming out (ex_stdout e') t \<and> out_inv incoming outerr (ex_stderr e') t' \<and>
     exec_progress ps given src e e' t t' \<and>
     (exec_finished e' \<longrightarrow> send_ok out t \<and> send_ok outerr t' \<and> send_fin t \<and> send_fin t' \<and> close_status t = ex_exit e')"
proof -
  let ?io = "pr_io ps"
  obtain e1 c1 s1 where 1: "feed_stdin ?io st e core = Some (e1, c1)" "view c1 = Some s1" "view' c1 = Some s'"
    "stdin_inv given src e1 s1" "out_inv incoming out (ex_stdout e1) s1" "ex_stderr e1 = ex_stderr e"
    "ex_exit e1 = ex_exit e" "ex_child e1 = ex_child e"
    "willing ?io \<and> ex_stdin e \<noteq> None \<longrightarrow> ex_stdin e1 \<noteq> None \<and> (stdin_buffered e < FORWARD_SEND_CAP \<longrightarrow> fst (stream_read s1) = [])"
    using feed_stdin_inv [OF apart io(1) v stdin] outs(1) by metis
  let ?f = "flush_stdin ?io e1"
  obtain e2 c2 s2 where 2: "pump_stdout ?io st ?f c1 = Some (e2, c2)" "view c2 = Some s2" "view' c2 = Some s'"
    "out_inv incoming out (ex_stdout e2) s2" "stdin_inv given src e2 s2" "recv s2 = recv s1" "e2 = ?f\<lparr>ex_stdout := ex_stdout e2\<rparr>"
    "pipe_drained ?io (ex_stdout e2) \<or> FORWARD_SEND_CAP \<le> length (send_buf s2)"
    using pump_stdout_inv [OF apart io 1(2) _ stdin_inv_flush [OF io(1) 1(4)], of out] 1(3,5) by auto
  have e2: "ex_stderr e2 = ex_stderr e" "ex_exit e2 = ex_exit e" "ex_child e2 = ex_child e" "ex_stdin e2 = ex_stdin ?f" "ex_stdin_buf e2 = ex_stdin_buf ?f"
    by (subst 2(7), simp add: 1(6-8))+
  obtain e3 c3 t' where 3: "pump_stderr ?io st' e2 c2 = Some (e3, c3)" "view' c3 = Some t'" "view c3 = Some s2"
    "out_inv incoming outerr (ex_stderr e3) t'" "e3 = e2\<lparr>ex_stderr := ex_stderr e3\<rparr>"
    "pipe_drained ?io (ex_stderr e3) \<or> FORWARD_SEND_CAP \<le> length (send_buf t')"
    using pump_stderr_inv [OF apart io 2(3), of outerr e2] outs(2) 2(2) e2(1) by auto
  have e3: "ex_stdout e3 = ex_stdout e2" "ex_exit e3 = ex_exit e" "ex_child e3 = ex_child e" "ex_stdin e3 = ex_stdin ?f" "ex_stdin_buf e3 = ex_stdin_buf ?f"
    by (subst 3(5), simp add: e2)+
  let ?e = "poll_exit ps e3"
  have pe: "ex_stdout ?e = ex_stdout e3" "ex_stderr ?e = ex_stderr e3" "ex_stdin ?e = ex_stdin e3" "ex_stdin_buf ?e = ex_stdin_buf e3"
    "ex_exit e = None \<longrightarrow> ex_exit ?e = map_option status_code (fst (pr_try_wait ps (ex_child e)))"
    by (simp_all add: poll_exit_def e3(2,3) split: option.split prod.split)
  have si: "stdin_inv given src ?e s2" using 2(5) e2(4,5) by (simp add: stdin_inv_def pe e3)
  have given_all: "(\<exists>k. ex_stdin ?e = Some k \<and> given k = take (rdelivered (recv s2)) src) \<and> (stdin_buffered e < FORWARD_SEND_CAP \<longrightarrow> fst (stream_read s1) = [])"
    if "willing ?io \<and> ex_stdin e \<noteq> None"
    using that 1(9) flush_stdin_willing [of ?io e1] si by (auto simp: stdin_inv_def pe e3)
  let ?t = "if exec_finished ?e then stream_close (exit_code ?e) s2 else s2"
  let ?t' = "if exec_finished ?e then stream_close 0 t' else t'"
  let ?core = "if exec_finished ?e then so_close st' (close (exit_code ?e) c3) else c3"
  have closed: "recv ?t = recv s2" "send_buf ?t = send_buf s2" "send_buf ?t' = send_buf t'" "fst (stream_read ?t) = fst (stream_read s1)"
    using 2(6) by (simp_all add: stream_close_def stream_read_def split: prod.split)
  have run: "pump_exec ps st st' close e core = Some (exec_finished ?e, ?e, ?core)"
    using 1(1) 2(1) 3(1) by (simp add: pump_exec_def Let_def)
  have views: "view ?core = Some ?t" "view' ?core = Some ?t'"
    using 3(2,3) by (simp_all add: close_other' [OF apart] close_status_view close_status_other [OF apart] err.close_view)
  have "stdin_inv given src ?e ?t" using si by (simp add: stdin_inv_def closed)
  moreover have "out_inv incoming out (ex_stdout ?e) ?t" "out_inv incoming outerr (ex_stderr ?e) ?t'"
    using 2(4) 3(4) by (simp_all add: pe e3 out_inv_def send_ok_def stream_close_def)
  moreover have "exec_progress ps given src e ?e ?t ?t'"
    using given_all pe(5) 2(8) 3(6) unfolding exec_progress_def closed pe(1,2) e3(1) by blast
  moreover have "send_ok out ?t \<and> send_ok outerr ?t' \<and> send_fin ?t \<and> send_fin ?t' \<and> close_status ?t = ex_exit ?e" if fin: "exec_finished ?e"
  proof -
    have "ex_exit ?e = Some (exit_code ?e)" using fin by (auto simp: exec_finished_def exit_code_def)
    moreover have "send_ok out s2" "send_ok outerr t'" using fin 2(4) 3(4) pe e3 by (simp_all add: exec_finished_def out_inv_def)
    ultimately show ?thesis using fin by (simp add: stream_close_def send_ok_def)
  qed
  ultimately show ?thesis using run views by blast
qed

end

end
