(* ===== verification/ServerDriver.thy ===== *)
theory ServerDriver
  imports Control Server Exec Files "HOL-Library.Product_Lexorder"
begin

text \<open>
  The UDP driver of the server, \<^verbatim>\<open>Server\<close> of \<^verbatim>\<open>src/server.rs\<close>: it owns the resources behind the streams of
  all sessions (forwarded connections, listeners, agent sockets, file transfers, remote commands) and
  moves bytes between them and the server core. Parameters are what the operating system provides:
  sockets, listeners, dialling, files, processes; and the iteration order of the hash maps. The part
  of the system that the driver changes by these calls is the state \<open>'w\<close>.
\<close>

section \<open>State\<close>

record ('k, 'x) exec_state =
  es_proc :: "('k, 'x) exec_proc"
  es_err :: u64

record ('k, 'l, 'x, 'w, 'h) os_ops =
  os_io :: "'k tcp_ops"
  os_proc :: "('k, 'x) proc_ops"
  os_files :: "('w, 'h) file_ops"
  os_pid :: nat
  os_connect :: "bytes \<Rightarrow> 'w \<Rightarrow> 'k option \<times> 'w"
  os_nonblocking :: "'k \<Rightarrow> 'k option"
  os_listen :: "u16 \<Rightarrow> 'w \<Rightarrow> 'l option \<times> 'w"
  os_port :: "'l \<Rightarrow> u16 option"
  os_listen_agent :: "bytes \<Rightarrow> 'w \<Rightarrow> 'l option \<times> 'w"
  os_accept :: "'l \<Rightarrow> 'k option \<times> 'l"
  os_spawn :: "bytes \<Rightarrow> 'w \<Rightarrow> ('k, 'x) exec_proc option \<times> 'w"
  os_kill :: "'x \<Rightarrow> 'w \<Rightarrow> 'w"
  os_iter :: "(bytes \<times> u64) list \<Rightarrow> (bytes \<times> u64) list"

type_synonym stream_key = "bytes \<times> u64"

record ('s, 't, 'y, 'p, 'a, 'k, 'l, 'x, 'w, 'h) server_driver =
  sd_core :: "('s, 't, 'y, 'p, 'a) server_core"
  sd_forwards :: "(stream_key, 'k forward_conn) btree"
  sd_remote_listeners :: "('l \<times> bytes \<times> bytes) list"
  sd_xfers :: "(stream_key, 'h xfer_state) btree"
  sd_agent_listeners :: "('l \<times> bytes \<times> bytes) list"
  sd_agent_conns :: "(stream_key, 'k forward_conn) btree"
  sd_execs :: "(stream_key, ('k, 'x) exec_state) btree"
  sd_world :: 'w

definition server_driver_new :: "('s, 't, 'y, 'p, 'a) server_core \<Rightarrow> 'w \<Rightarrow> ('s, 't, 'y, 'p, 'a, 'k, 'l, 'x, 'w, 'h) server_driver" where
  "server_driver_new core w = \<lparr>sd_core = core, sd_forwards = [], sd_remote_listeners = [], sd_xfers = [],
     sd_agent_listeners = [], sd_agent_conns = [], sd_execs = [], sd_world = w\<rparr>"

text \<open>The streams of the core as the pumps use them.\<close>

definition server_streams :: "stream_key \<Rightarrow> ('s, 't, 'y, 'p, 'a) server_core xfer_stream_ops" where
  "server_streams k = \<lparr>so_read = sc_stream_read (fst k) (snd k), so_write = sc_stream_write (fst k) (snd k),
     so_close = sc_stream_close (fst k) (snd k), so_in_flight = stream_in_flight (fst k) (snd k),
     so_reset = sc_stream_reset (fst k) (snd k), so_recv_finished = stream_recv_finished (fst k) (snd k)\<rparr>"

text \<open>Removing a transfer drops its sink, which removes the temporary file; so does replacing it.\<close>

definition drop_xfer :: "('k, 'l, 'x, 'w, 'h) os_ops \<Rightarrow> 'h xfer_state option \<Rightarrow> 'w \<Rightarrow> 'w" where
  "drop_xfer os x w = (case x of Some (XferPut sk) \<Rightarrow> sink_drop (os_files os) sk w | _ \<Rightarrow> w)"

definition remove_xfer :: "('k, 'l, 'x, 'w, 'h) os_ops \<Rightarrow> stream_key \<Rightarrow>
    ('s, 't, 'y, 'p, 'a, 'k, 'l, 'x, 'w, 'h) server_driver \<Rightarrow> ('s, 't, 'y, 'p, 'a, 'k, 'l, 'x, 'w, 'h) server_driver" where
  "remove_xfer os k d = d\<lparr>sd_xfers := bt_remove k (sd_xfers d), sd_world := drop_xfer os (bt_get (sd_xfers d) k) (sd_world d)\<rparr>"

definition insert_xfer :: "('k, 'l, 'x, 'w, 'h) os_ops \<Rightarrow> stream_key \<Rightarrow> 'h xfer_state \<Rightarrow>
    ('s, 't, 'y, 'p, 'a, 'k, 'l, 'x, 'w, 'h) server_driver \<Rightarrow> ('s, 't, 'y, 'p, 'a, 'k, 'l, 'x, 'w, 'h) server_driver" where
  "insert_xfer os k x d = d\<lparr>sd_xfers := bt_insert k x (sd_xfers d), sd_world := drop_xfer os (bt_get (sd_xfers d) k) (sd_world d)\<rparr>"

definition driver_reset :: "stream_key \<Rightarrow>
    ('s, 't, 'y, 'p, 'a, 'k, 'l, 'x, 'w, 'h) server_driver \<Rightarrow> ('s, 't, 'y, 'p, 'a, 'k, 'l, 'x, 'w, 'h) server_driver" where
  "driver_reset k d = d\<lparr>sd_core := sc_stream_reset (fst k) (snd k) (sd_core d)\<rparr>"


section \<open>Listeners\<close>

text \<open>A request for a remote forward: one listener on the loopback interface per session and port.\<close>

definition listen_remote :: "('k, 'l, 'x, 'w, 'h) os_ops \<Rightarrow> bytes \<times> u16 \<times> bytes \<Rightarrow>
    ('s, 't, 'y, 'p, 'a, 'k, 'l, 'x, 'w, 'h) server_driver \<Rightarrow> ('s, 't, 'y, 'p, 'a, 'k, 'l, 'x, 'w, 'h) server_driver" where
  "listen_remote os req d =
     (case req of (sid, port, target) \<Rightarrow>
        if list_ex (\<lambda>(l, s, _). s = sid \<and> os_port os l = Some port) (sd_remote_listeners d) then d
        else case os_listen os port (sd_world d) of
          (Some l, w) \<Rightarrow> d\<lparr>sd_remote_listeners := sd_remote_listeners d @ [(l, sid, target)], sd_world := w\<rparr>
        | (None, w) \<Rightarrow> d\<lparr>sd_world := w\<rparr>)"

partial_function (option) accept_loop :: "('l \<Rightarrow> 'k option \<times> 'l) \<Rightarrow> 'k list \<Rightarrow> 'l \<Rightarrow> ('k list \<times> 'l) option" where
  "accept_loop accept acc l =
     (case accept l of
        (Some k, l') \<Rightarrow> accept_loop accept (acc @ [k]) l'
      | (None, l') \<Rightarrow> Some (acc, l'))"

text \<open>Accepting on all listeners, with the session and target (or path) of each connection.\<close>

fun accept_each :: "('l \<Rightarrow> 'k option \<times> 'l) \<Rightarrow> ('l \<times> bytes \<times> bytes) list \<Rightarrow>
    (('l \<times> bytes \<times> bytes) list \<times> (bytes \<times> bytes \<times> 'k) list) option" where
  "accept_each accept [] = Some ([], [])"
| "accept_each accept ((l, sid, t) # ls) =
     do { (ks, l') \<leftarrow> accept_loop accept [] l;
          (ls', rest) \<leftarrow> accept_each accept ls;
          Some ((l', sid, t) # ls', map (\<lambda>k. (sid, t, k)) ks @ rest) }"

text \<open>The stream is opened even when the accepted socket turns out to be unusable.\<close>

definition open_accepted :: "('k, 'l, 'x, 'w, 'h) os_ops \<Rightarrow> bytes \<times> bytes \<times> 'k \<Rightarrow>
    ('s, 't, 'y, 'p, 'a, 'k, 'l, 'x, 'w, 'h) server_driver \<Rightarrow> ('s, 't, 'y, 'p, 'a, 'k, 'l, 'x, 'w, 'h) server_driver" where
  "open_accepted os a d =
     (case a of (sid, target, k) \<Rightarrow>
        (case open_forward sid target (sd_core d) of (i, core) \<Rightarrow>
           (case (i, os_nonblocking os k) of
              (Some i, Some k') \<Rightarrow> d\<lparr>sd_core := core, sd_forwards := bt_insert (sid, i) (from_stream k') (sd_forwards d)\<rparr>
            | _ \<Rightarrow> d\<lparr>sd_core := core\<rparr>)))"

definition remote_forwards :: "('k, 'l, 'x, 'w, 'h) os_ops \<Rightarrow>
    ('s, 't, 'y, 'p, 'a, 'k, 'l, 'x, 'w, 'h) server_driver \<Rightarrow> ('s, 't, 'y, 'p, 'a, 'k, 'l, 'x, 'w, 'h) server_driver option" where
  "remote_forwards os d =
     (case take_remote_forward_requests (sd_core d) of (reqs, core) \<Rightarrow>
        (let d = fold (listen_remote os) reqs (d\<lparr>sd_core := core\<rparr>);
             d = d\<lparr>sd_remote_listeners := filter (\<lambda>(_, sid, _). has_session sid (sd_core d)) (sd_remote_listeners d)\<rparr>
         in do { (ls, accepted) \<leftarrow> accept_each (os_accept os) (sd_remote_listeners d);
                 Some (fold (open_accepted os) accepted (d\<lparr>sd_remote_listeners := ls\<rparr>)) }))"

definition listen_agent :: "('k, 'l, 'x, 'w, 'h) os_ops \<Rightarrow> bytes \<times> bytes \<Rightarrow>
    ('s, 't, 'y, 'p, 'a, 'k, 'l, 'x, 'w, 'h) server_driver \<Rightarrow> ('s, 't, 'y, 'p, 'a, 'k, 'l, 'x, 'w, 'h) server_driver" where
  "listen_agent os req d =
     (case req of (sid, p) \<Rightarrow>
        case os_listen_agent os p (sd_world d) of
          (Some l, w) \<Rightarrow> d\<lparr>sd_agent_listeners := sd_agent_listeners d @ [(l, sid, p)], sd_world := w\<rparr>
        | (None, w) \<Rightarrow> d\<lparr>sd_world := w\<rparr>)"

text \<open>Listeners of sessions that are gone are dropped and their socket files removed.\<close>

definition drop_agent_listeners :: "('k, 'l, 'x, 'w, 'h) os_ops \<Rightarrow>
    ('s, 't, 'y, 'p, 'a, 'k, 'l, 'x, 'w, 'h) server_driver \<Rightarrow> ('s, 't, 'y, 'p, 'a, 'k, 'l, 'x, 'w, 'h) server_driver" where
  "drop_agent_listeners os d =
     (let live = (\<lambda>(_, sid, _). has_session sid (sd_core d)) in
      d\<lparr>sd_agent_listeners := filter live (sd_agent_listeners d),
        sd_world := fold (\<lambda>(_, _, p) w. fi_remove (os_files os) (path_from p) w)
          (filter (\<lambda>x. \<not> live x) (sd_agent_listeners d)) (sd_world d)\<rparr>)"

definition open_agent_accepted :: "('k, 'l, 'x, 'w, 'h) os_ops \<Rightarrow> bytes \<times> bytes \<times> 'k \<Rightarrow>
    ('s, 't, 'y, 'p, 'a, 'k, 'l, 'x, 'w, 'h) server_driver \<Rightarrow> ('s, 't, 'y, 'p, 'a, 'k, 'l, 'x, 'w, 'h) server_driver" where
  "open_agent_accepted os a d =
     (case a of (sid, _, k) \<Rightarrow>
        (case open_agent sid (sd_core d) of
           (None, core) \<Rightarrow> d\<lparr>sd_core := core\<rparr>
         | (Some i, core) \<Rightarrow>
             (case os_nonblocking os k of
                Some k' \<Rightarrow> d\<lparr>sd_core := core, sd_agent_conns := bt_insert (sid, i) (from_stream k') (sd_agent_conns d)\<rparr>
              | None \<Rightarrow> driver_reset (sid, i) (d\<lparr>sd_core := core\<rparr>))))"

definition agent_forwards :: "('k, 'l, 'x, 'w, 'h) os_ops \<Rightarrow>
    ('s, 't, 'y, 'p, 'a, 'k, 'l, 'x, 'w, 'h) server_driver \<Rightarrow> ('s, 't, 'y, 'p, 'a, 'k, 'l, 'x, 'w, 'h) server_driver option" where
  "agent_forwards os d =
     (case take_agent_socket_requests (sd_core d) of (reqs, core) \<Rightarrow>
        (let d = drop_agent_listeners os (fold (listen_agent os) reqs (d\<lparr>sd_core := core\<rparr>))
         in do { (ls, accepted) \<leftarrow> accept_each (os_accept os) (sd_agent_listeners d);
                 Some (fold (open_agent_accepted os) accepted (d\<lparr>sd_agent_listeners := ls\<rparr>)) }))"


section \<open>Stream events\<close>

definition open_forward_stream :: "('k, 'l, 'x, 'w, 'h) os_ops \<Rightarrow> stream_key \<Rightarrow> bytes \<Rightarrow>
    ('s, 't, 'y, 'p, 'a, 'k, 'l, 'x, 'w, 'h) server_driver \<Rightarrow> ('s, 't, 'y, 'p, 'a, 'k, 'l, 'x, 'w, 'h) server_driver" where
  "open_forward_stream os k meta d =
     (case (if utf8_ok meta then os_connect os meta (sd_world d) else (None, sd_world d)) of (conn, w) \<Rightarrow>
        (let d = d\<lparr>sd_world := w\<rparr> in
         case Option.bind conn (os_nonblocking os) of
           Some c \<Rightarrow> d\<lparr>sd_forwards := bt_insert k (from_stream c) (sd_forwards d)\<rparr>
         | None \<Rightarrow> d\<lparr>sd_core := sc_stream_close (fst k) (snd k) (sd_core d)\<rparr>))"

definition open_xfer_stream :: "('k, 'l, 'x, 'w, 'h) os_ops \<Rightarrow> stream_key \<Rightarrow> bytes \<Rightarrow>
    ('s, 't, 'y, 'p, 'a, 'k, 'l, 'x, 'w, 'h) server_driver \<Rightarrow> ('s, 't, 'y, 'p, 'a, 'k, 'l, 'x, 'w, 'h) server_driver" where
  "open_xfer_stream os k meta d =
     (if privsep_active (sd_core d) then driver_reset k d
      else case xfer_parse meta of
        Some (Put p _) \<Rightarrow>
          (case sink_create (os_files os) (os_pid os) p (sd_world d) of
             (Some sk, w) \<Rightarrow> insert_xfer os k (XferPut sk) (d\<lparr>sd_world := w\<rparr>)
           | (None, w) \<Rightarrow> driver_reset k (d\<lparr>sd_world := w\<rparr>))
      | Some (Get p) \<Rightarrow>
          (case source_open (os_files os) p (sd_world d) of
             Some src \<Rightarrow> insert_xfer os k (XferGet src) d
           | None \<Rightarrow> driver_reset k d)
      | None \<Rightarrow> driver_reset k d)"

definition open_exec_stream :: "('k, 'l, 'x, 'w, 'h) os_ops \<Rightarrow> stream_key \<Rightarrow> bytes \<Rightarrow>
    ('s, 't, 'y, 'p, 'a, 'k, 'l, 'x, 'w, 'h) server_driver \<Rightarrow> ('s, 't, 'y, 'p, 'a, 'k, 'l, 'x, 'w, 'h) server_driver" where
  "open_exec_stream os k meta d =
     (if privsep_active (sd_core d) then driver_reset k d
      else case os_spawn os (from_utf8_lossy meta) (sd_world d) of
        (None, w) \<Rightarrow> driver_reset k (d\<lparr>sd_world := w\<rparr>)
      | (Some proc, w) \<Rightarrow>
          (case open_exec (fst k) (sd_core d) of
             (Some err, core) \<Rightarrow>
               d\<lparr>sd_core := core, sd_world := w, sd_execs := bt_insert k \<lparr>es_proc = proc, es_err = err\<rparr> (sd_execs d)\<rparr>
           | (None, core) \<Rightarrow> driver_reset k (d\<lparr>sd_core := core, sd_world := exec_kill (os_kill os) proc w\<rparr>)))"

text \<open>\<^verbatim>\<open>if let Some(c) = map.get_mut(&k)\<close> with a change of the value.\<close>

definition bt_adjust :: "'k :: linorder \<Rightarrow> ('v \<Rightarrow> 'v) \<Rightarrow> ('k, 'v) btree \<Rightarrow> ('k, 'v) btree" where
  "bt_adjust k f m = (case bt_get m k of Some v \<Rightarrow> bt_insert k (f v) m | None \<Rightarrow> m)"

definition peer_closed :: "('k, 'l, 'x, 'w, 'h) os_ops \<Rightarrow> stream_key \<Rightarrow>
    ('s, 't, 'y, 'p, 'a, 'k, 'l, 'x, 'w, 'h) server_driver \<Rightarrow> ('s, 't, 'y, 'p, 'a, 'k, 'l, 'x, 'w, 'h) server_driver" where
  "peer_closed os k d =
     d\<lparr>sd_forwards := bt_adjust k mark_peer_closed (sd_forwards d),
       sd_agent_conns := bt_adjust k mark_peer_closed (sd_agent_conns d),
       sd_execs := bt_adjust k (\<lambda>e. e\<lparr>es_proc := close_stdin (pr_io (os_proc os)) (es_proc e)\<rparr>) (sd_execs d)\<rparr>"

definition peer_reset :: "('k, 'l, 'x, 'w, 'h) os_ops \<Rightarrow> stream_key \<Rightarrow>
    ('s, 't, 'y, 'p, 'a, 'k, 'l, 'x, 'w, 'h) server_driver \<Rightarrow> ('s, 't, 'y, 'p, 'a, 'k, 'l, 'x, 'w, 'h) server_driver" where
  "peer_reset os k d =
     (let d = remove_xfer os k (d\<lparr>sd_forwards := bt_remove k (sd_forwards d)\<rparr>);
          d = d\<lparr>sd_agent_conns := bt_remove k (sd_agent_conns d)\<rparr>
      in case bt_get (sd_execs d) k of
           Some e \<Rightarrow>
             driver_reset (fst k, es_err e)
               (d\<lparr>sd_execs := bt_remove k (sd_execs d), sd_world := exec_kill (os_kill os) (es_proc e) (sd_world d)\<rparr>)
         | None \<Rightarrow> d)"

fun driver_event :: "('k, 'l, 'x, 'w, 'h) os_ops \<Rightarrow> bytes \<times> stream_event \<Rightarrow>
    ('s, 't, 'y, 'p, 'a, 'k, 'l, 'x, 'w, 'h) server_driver \<Rightarrow> ('s, 't, 'y, 'p, 'a, 'k, 'l, 'x, 'w, 'h) server_driver" where
  "driver_event os (sid, EvOpened i kind meta) d =
     (case kind of
        Forward \<Rightarrow> open_forward_stream os (sid, i) meta d
      | FileTransfer \<Rightarrow> open_xfer_stream os (sid, i) meta d
      | Exec \<Rightarrow> open_exec_stream os (sid, i) meta d
      | _ \<Rightarrow> d)"
| "driver_event os (sid, EvReadable i) d = d"
| "driver_event os (sid, EvClosed i status) d = peer_closed os (sid, i) d"
| "driver_event os (sid, EvReset i) d = peer_reset os (sid, i) d"

definition driver_events :: "('k, 'l, 'x, 'w, 'h) os_ops \<Rightarrow>
    ('s, 't, 'y, 'p, 'a, 'k, 'l, 'x, 'w, 'h) server_driver \<Rightarrow> ('s, 't, 'y, 'p, 'a, 'k, 'l, 'x, 'w, 'h) server_driver" where
  "driver_events os d =
     (case take_stream_events (sd_core d) of (evs, core) \<Rightarrow> fold (driver_event os) evs (d\<lparr>sd_core := core\<rparr>))"


section \<open>The pumps\<close>

definition drop_dead :: "('k, 'l, 'x, 'w, 'h) os_ops \<Rightarrow>
    ('s, 't, 'y, 'p, 'a, 'k, 'l, 'x, 'w, 'h) server_driver \<Rightarrow> ('s, 't, 'y, 'p, 'a, 'k, 'l, 'x, 'w, 'h) server_driver" where
  "drop_dead os d =
     (let dead = filter (\<lambda>k. \<not> has_session (fst k) (sd_core d)) (os_iter os (bt_keys (sd_forwards d)) @ os_iter os (bt_keys (sd_xfers d)))
      in fold (\<lambda>k d. remove_xfer os k (d\<lparr>sd_forwards := bt_remove k (sd_forwards d)\<rparr>)) dead d)"

definition pump_forward :: "('k, 'l, 'x, 'w, 'h) os_ops \<Rightarrow> stream_key \<Rightarrow>
    ('s, 't, 'y, 'p, 'a, 'k, 'l, 'x, 'w, 'h) server_driver \<Rightarrow> ('s, 't, 'y, 'p, 'a, 'k, 'l, 'x, 'w, 'h) server_driver option" where
  "pump_forward os k d =
     (case bt_get (sd_forwards d) k of
        None \<Rightarrow> Some d
      | Some c \<Rightarrow>
          do { (finished, c, core) \<leftarrow> pump_conn (os_io os) (server_streams k) c (sd_core d);
               Some (d\<lparr>sd_core := core, sd_forwards := (if finished then bt_remove k else bt_insert k c) (sd_forwards d)\<rparr>) })"

definition pump_one_xfer :: "('k, 'l, 'x, 'w, 'h) os_ops \<Rightarrow> stream_key \<Rightarrow>
    ('s, 't, 'y, 'p, 'a, 'k, 'l, 'x, 'w, 'h) server_driver \<Rightarrow> ('s, 't, 'y, 'p, 'a, 'k, 'l, 'x, 'w, 'h) server_driver option" where
  "pump_one_xfer os k d =
     (case bt_get (sd_xfers d) k of
        None \<Rightarrow> Some d
      | Some x \<Rightarrow>
          do { (r, core, w) \<leftarrow> pump_xfer (os_files os) (server_streams k) x (sd_core d) (sd_world d);
               Some (d\<lparr>sd_core := core, sd_world := w,
                       sd_xfers := (case r of Some x \<Rightarrow> bt_insert k x | None \<Rightarrow> bt_remove k) (sd_xfers d)\<rparr>) })"

definition drop_dead_agents :: "('k, 'l, 'x, 'w, 'h) os_ops \<Rightarrow>
    ('s, 't, 'y, 'p, 'a, 'k, 'l, 'x, 'w, 'h) server_driver \<Rightarrow> ('s, 't, 'y, 'p, 'a, 'k, 'l, 'x, 'w, 'h) server_driver" where
  "drop_dead_agents os d =
     (let dead = filter (\<lambda>k. \<not> has_session (fst k) (sd_core d)) (os_iter os (bt_keys (sd_agent_conns d)))
      in d\<lparr>sd_agent_conns := fold bt_remove dead (sd_agent_conns d)\<rparr>)"

definition pump_agent_conn :: "('k, 'l, 'x, 'w, 'h) os_ops \<Rightarrow> stream_key \<Rightarrow>
    ('s, 't, 'y, 'p, 'a, 'k, 'l, 'x, 'w, 'h) server_driver \<Rightarrow> ('s, 't, 'y, 'p, 'a, 'k, 'l, 'x, 'w, 'h) server_driver option" where
  "pump_agent_conn os k d =
     (case bt_get (sd_agent_conns d) k of
        None \<Rightarrow> Some d
      | Some c \<Rightarrow>
          do { (finished, c, core) \<leftarrow> pump_conn (os_io os) (server_streams k) c (sd_core d);
               Some (d\<lparr>sd_core := core, sd_agent_conns := (if finished then bt_remove k else bt_insert k c) (sd_agent_conns d)\<rparr>) })"

definition pump_one_exec :: "('k, 'l, 'x, 'w, 'h) os_ops \<Rightarrow> stream_key \<Rightarrow>
    ('s, 't, 'y, 'p, 'a, 'k, 'l, 'x, 'w, 'h) server_driver \<Rightarrow> ('s, 't, 'y, 'p, 'a, 'k, 'l, 'x, 'w, 'h) server_driver option" where
  "pump_one_exec os k d =
     (if \<not> has_session (fst k) (sd_core d) then
        Some (case bt_get (sd_execs d) k of
            Some e \<Rightarrow> d\<lparr>sd_execs := bt_remove k (sd_execs d), sd_world := exec_kill (os_kill os) (es_proc e) (sd_world d)\<rparr>
          | None \<Rightarrow> d)
      else case bt_get (sd_execs d) k of
        None \<Rightarrow> Some d
      | Some e \<Rightarrow>
          do { (finished, proc, core) \<leftarrow>
                 pump_exec (os_proc os) (server_streams k) (server_streams (fst k, es_err e))
                   (sc_stream_close_status (fst k) (snd k)) (es_proc e) (sd_core d);
               Some (d\<lparr>sd_core := core,
                       sd_execs := (if finished then bt_remove k else bt_insert k (e\<lparr>es_proc := proc\<rparr>)) (sd_execs d)\<rparr>) })"

definition pump_forwards :: "('k, 'l, 'x, 'w, 'h) os_ops \<Rightarrow>
    ('s, 't, 'y, 'p, 'a, 'k, 'l, 'x, 'w, 'h) server_driver \<Rightarrow> ('s, 't, 'y, 'p, 'a, 'k, 'l, 'x, 'w, 'h) server_driver option" where
  "pump_forwards os d =
     do { d \<leftarrow> remote_forwards os d;
          d \<leftarrow> agent_forwards os d;
          d \<leftarrow> Some (drop_dead os (driver_events os d));
          d \<leftarrow> opt_fold (pump_forward os) (os_iter os (bt_keys (sd_forwards d))) d;
          d \<leftarrow> opt_fold (pump_one_xfer os) (os_iter os (bt_keys (sd_xfers d))) d;
          d \<leftarrow> Some (drop_dead_agents os d);
          d \<leftarrow> opt_fold (pump_agent_conn os) (os_iter os (bt_keys (sd_agent_conns d))) d;
          opt_fold (pump_one_exec os) (os_iter os (bt_keys (sd_execs d))) d }"

text \<open>One service iteration on what the socket has: a datagram, nothing, or a fatal error. The datagrams to
  send, and \<open>False\<close> when the loop should stop.\<close>

datatype 'a udp_read = Datagram 'a bytes | NoDatagram | SocketError

definition poll_once :: "('s, 't, 'y, 'p) server_env \<Rightarrow> ('k, 'l, 'x, 'w, 'h) os_ops \<Rightarrow> 'a udp_read \<Rightarrow>
    ('s, 't, 'y, 'p, 'a, 'k, 'l, 'x, 'w, 'h) server_driver \<Rightarrow>
    (bool \<times> ('a \<times> bytes) list \<times> ('s, 't, 'y, 'p, 'a, 'k, 'l, 'x, 'w, 'h) server_driver) option" where
  "poll_once e os r d =
     (case r of
        SocketError \<Rightarrow> Some (False, [], d)
      | _ \<Rightarrow>
          do { (out1, core) \<leftarrow> (case r of Datagram src pkt \<Rightarrow> server_handle_packet e src pkt (sd_core d) | _ \<Rightarrow> Some ([], sd_core d));
               d \<leftarrow> pump_forwards os (d\<lparr>sd_core := core\<rparr>);
               (out2, core) \<leftarrow> server_tick e (sd_core d);
               Some (True, out1 @ out2, d\<lparr>sd_core := core\<rparr>) })"

end
