(* ===== verification/DriverSafe.thy ===== *)
theory DriverSafe
  imports ServerDriver ServerSafe
begin

text \<open>
  Properties of the server's driver: everything it does to the core is a run of the core's own operations, so
  that the invariants of the core hold for the whole server; the resources it holds belong to live
  sessions of authorized keys; with a session user to drop to it touches no file and starts no
  command; uploads arrive whole or not at all; the output of a command is complete when its exit
  code is reported.
\<close>

section \<open>What the pumps do to a core\<close>

text \<open>Any relation that the stream operations satisfy and that composes is kept by the pumps.\<close>

locale pumped_core =
  fixes st :: "('c, 'z) stream_ops_scheme"
    and R :: "'c \<Rightarrow> 'c \<Rightarrow> bool"
  assumes R_refl: "R c c"
    and R_trans: "R a b \<Longrightarrow> R b c \<Longrightarrow> R a c"
    and R_read: "R c (snd (so_read st c))"
    and R_write: "R c (so_write st d c)"
    and R_close: "R c (so_close st c)"
begin

lemma R_read_eq: "so_read st c = (d, c') \<Longrightarrow> R c c'"
  using R_read [of c] by simp

lemma R_relay_in:
  assumes "relay_in io st c core = Some (c', core')"
  shows "R core core'"
proof -
  have "st' = st \<longrightarrow> R core (snd y)" if "relay_in io st' c core = Some y" for st' :: "('c, 'z) stream_ops_scheme" and y
    by (rule relay_in.raw_induct [where P = "\<lambda>_ s _ core y. s = st \<longrightarrow> R core (snd y)", OF _ that])
      (auto split: if_splits prod.splits intro: R_refl R_trans dest: R_read_eq)
  then show ?thesis using assms by fastforce
qed

lemma R_relay_out: "relay_out io st c core = Some (c', core') \<Longrightarrow> R core core'"
  by (auto simp: relay_out_def R_refl R_write split: if_splits bind_splits)

lemma R_pump_conn: "pump_conn io st c core = Some (fin, c', core') \<Longrightarrow> R core core'"
  by (auto simp: pump_conn_def split: bind_splits prod.splits if_splits
      dest!: R_relay_in R_relay_out intro: R_trans R_close)

lemma R_feed_stdin:
  assumes "feed_stdin io st e core = Some (e', core')"
  shows "R core core'"
proof -
  have "st' = st \<longrightarrow> R core (snd y)" if "feed_stdin io st' e core = Some y" for st' :: "('c, 'z) stream_ops_scheme" and y
    by (rule feed_stdin.raw_induct [where P = "\<lambda>_ s _ core y. s = st \<longrightarrow> R core (snd y)", OF _ that])
      (auto split: if_splits prod.splits intro: R_refl R_trans dest: R_read_eq)
  then show ?thesis using assms by fastforce
qed

lemma R_pump_stdout: "pump_stdout io st e core = Some (e', core') \<Longrightarrow> R core core'"
  by (auto simp: pump_stdout_def R_refl R_write split: if_splits bind_splits)

lemma R_pump_stderr: "pump_stderr io st e core = Some (e', core') \<Longrightarrow> R core core'"
  by (auto simp: pump_stderr_def R_refl R_write split: if_splits bind_splits)

lemma R_drain_put:
  assumes "drain_put fs st sk core f = Some (ab, sk', core', f')"
  shows "R core core'"
proof -
  have "st' = st \<longrightarrow> R core (fst (snd (snd y)))" if "drain_put fs st' sk core f = Some y" for st' :: "('c, 'z) stream_ops_scheme" and y
    by (rule drain_put.raw_induct [where P = "\<lambda>_ s _ core _ y. s = st \<longrightarrow> R core (fst (snd (snd y)))", OF _ that])
      (auto split: if_splits prod.splits intro: R_refl R_trans dest: R_read_eq)
  then show ?thesis using assms by fastforce
qed

end

lemma R_pump_exec:
  assumes a: "pumped_core st R" and b: "pumped_core st' R" and c: "\<And>code c. R c (close code c)"
    and run: "pump_exec ps st st' close e core = Some (fin, e', core')"
  shows "R core core'"
proof -
  note trans = pumped_core.R_trans [OF a]
  obtain e1 c1 e2 c2 e3 c3 where "feed_stdin (pr_io ps) st e core = Some (e1, c1)"
    "pump_stdout (pr_io ps) st (flush_stdin (pr_io ps) e1) c1 = Some (e2, c2)"
    "pump_stderr (pr_io ps) st' e2 c2 = Some (e3, c3)"
    and last: "core' = c3 \<or> core' = so_close st' (close (exit_code (poll_exit ps e3)) c3)"
    using run by (auto simp: pump_exec_def Let_def split: bind_splits if_splits)
  then have "R core c3"
    using pumped_core.R_feed_stdin [OF a] pumped_core.R_pump_stdout [OF a] pumped_core.R_pump_stderr [OF b] trans by metis
  then show ?thesis using last trans pumped_core.R_close [OF b] c by metis
qed

lemma R_pump_xfer:
  assumes a: "pumped_core st R" and reset: "\<And>c. R c (so_reset st c)"
    and run: "pump_xfer fs st x core f = Some (r, core', f')"
  shows "R core core'"
proof -
  note trans = pumped_core.R_trans [OF a] and close = pumped_core.R_close [OF a]
  have fin: "R c (fst (finish_xfer fs st ab x' c g))" for ab x' c g
    using reset close trans [OF close reset] by (auto simp: finish_xfer_def Let_def split: xfer_state.split prod.split)
  show ?thesis
  proof (cases x)
    case (XferPut sk)
    then obtain ab sk' c1 f1 where "drain_put fs st sk core f = Some (ab, sk', c1, f1)"
      and "core' = c1 \<or> core' = fst (finish_xfer fs st ab (XferPut sk') c1 f1)"
      using run by (auto simp: pump_xfer_def Let_def split: bind_splits if_splits)
    then show ?thesis using pumped_core.R_drain_put [OF a] fin trans by metis
  next
    case (XferGet src)
    then have "core' = core \<or> (\<exists>d. core' = so_write st d core) \<or> (\<exists>ab x'. core' = fst (finish_xfer fs st ab x' core f))"
      using run by (auto simp: pump_xfer_def Let_def split: if_splits prod.splits option.splits) (metis fst_conv)+
    then show ?thesis using pumped_core.R_write [OF a] pumped_core.R_refl [OF a] fin by metis
  qed
qed


section \<open>The driver runs operations of the core\<close>

text \<open>\<open>quiet\<close> operations are those of the stream interface: neither a datagram nor a tick.\<close>

fun quiet :: "'a server_op \<Rightarrow> bool" where
  "quiet (SPacket _ _) = False"
| "quiet STick = False"
| "quiet _ = True"

definition core_run :: "('s, 't, 'y, 'p) server_env \<Rightarrow> ('s, 't, 'y, 'p, 'a) server_core \<Rightarrow> ('s, 't, 'y, 'p, 'a) server_core \<Rightarrow> bool" where
  "core_run e c c' \<longleftrightarrow> (\<exists>ops. opt_fold (server_step e) ops c = Some c')"

definition quiet_run :: "('s, 't, 'y, 'p) server_env \<Rightarrow> ('s, 't, 'y, 'p, 'a) server_core \<Rightarrow> ('s, 't, 'y, 'p, 'a) server_core \<Rightarrow> bool" where
  "quiet_run e c c' \<longleftrightarrow> (\<exists>ops. list_all quiet ops \<and> opt_fold (server_step e) ops c = Some c')"

lemma opt_fold_append: "opt_fold f (xs @ ys) s = Option.bind (opt_fold f xs s) (opt_fold f ys)"
  by (induction xs arbitrary: s) (auto split: bind_splits)

lemma core_run_refl [simp]: "core_run e c c"
  unfolding core_run_def by (rule exI [of _ "[]"]) simp

lemma core_run_trans: "core_run e a b \<Longrightarrow> core_run e b c \<Longrightarrow> core_run e a c"
  unfolding core_run_def by (metis bind.bind_lunit opt_fold_append)

lemma quiet_run_refl [simp]: "quiet_run e c c"
  unfolding quiet_run_def by (rule exI [of _ "[]"]) simp

lemma quiet_run_trans [trans]: "quiet_run e a b \<Longrightarrow> quiet_run e b c \<Longrightarrow> quiet_run e a c"
  unfolding quiet_run_def by (metis bind.bind_lunit list_all_append opt_fold_append)

lemma quiet_runI: "quiet op \<Longrightarrow> server_step e op c = Some c' \<Longrightarrow> quiet_run e c c'"
  unfolding quiet_run_def by (rule exI [of _ "[op]"]) simp

lemma core_runI: "server_step e op c = Some c' \<Longrightarrow> core_run e c c'"
  unfolding core_run_def by (rule exI [of _ "[op]"]) simp

lemma quiet_run_core: "quiet_run e c c' \<Longrightarrow> core_run e c c'"
  by (auto simp: quiet_run_def core_run_def)

lemma quiet_runs:
  "quiet_run e c (snd (take_stream_events c))" "quiet_run e c (snd (take_remote_forward_requests c))"
  "quiet_run e c (snd (take_agent_socket_requests c))" "quiet_run e c (snd (open_stream kind meta sid c))"
  "quiet_run e c (snd (sc_stream_read sid i c))" "quiet_run e c (sc_stream_write sid i data c)"
  "quiet_run e c (sc_stream_close_status sid i status c)" "quiet_run e c (sc_stream_reset sid i c)"
  by (rule quiet_runI [of STakeEvents] quiet_runI [of STakeForwards] quiet_runI [of STakeAgents] quiet_runI [of "SOpen kind meta sid"]
      quiet_runI [of "SRead sid i"] quiet_runI [of "SWrite sid i data"] quiet_runI [of "SClose sid i status"] quiet_runI [of "SReset sid i"];
      simp)+

lemma quiet_run_close: "quiet_run e c (sc_stream_close sid i c)"
  using quiet_runs(7) [of e c sid i 0] by (simp add: sc_stream_close_def sc_stream_close_status_def)

text \<open>A quiet run keeps the set of sessions, and every run keeps who may log in and as whom.\<close>

lemma has_session_update:
  "bt_get (sc_sessions c) sid = Some s \<Longrightarrow> has_session x (c\<lparr>sc_sessions := bt_insert sid s' (sc_sessions c)\<rparr>) = has_session x c"
  by (auto simp: has_session_def)

lemma quiet_step_sessions: "quiet op \<Longrightarrow> server_step e op c = Some c' \<Longrightarrow> has_session x c' = has_session x c"
  by (cases op)
    (auto simp: take_stream_events_def take_remote_forward_requests_def take_agent_socket_requests_def open_stream_def
      sc_stream_read_def sc_stream_write_def sc_stream_close_status_def sc_stream_reset_def with_session_def
      has_session_update split: option.splits prod.splits, simp_all add: has_session_def)

lemma quiet_run_sessions:
  assumes "quiet_run e c c'"
  shows "has_session x c' = has_session x c"
proof -
  obtain ops where "list_all quiet ops" "opt_fold (server_step e) ops c = Some c'" using assms by (auto simp: quiet_run_def)
  then show ?thesis
    by (induction ops arbitrary: c) (auto split: bind_splits simp: quiet_step_sessions)
qed

lemma core_run_trust:
  assumes "core_run e c c'"
  shows "trust_base c' = trust_base c"
  using assms srv_auth.run_inv [of c "trust_base c" e _ c'] by (auto simp: core_run_def)

lemma core_run_inv: "core_run e c c' \<Longrightarrow> server_inv (se_snow e) c \<Longrightarrow> server_inv (se_snow e) c'"
  unfolding core_run_def by (auto dest: srv.run_inv)

interpretation srv_pump: pumped_core "server_streams k" "quiet_run e" for k e
  by unfold_locales (auto simp: server_streams_def quiet_runs quiet_run_close intro: quiet_run_trans)


section \<open>The resources of the driver\<close>

abbreviation keys :: "('k :: linorder, 'v) btree \<Rightarrow> 'k set" where
  "keys m \<equiv> set (bt_keys m)"

lemma keys_get: "k \<in> keys m \<longleftrightarrow> bt_get m k \<noteq> None"
  by (simp add: bt_keys_def bt_get_None_iff)

lemma bt_get_keys: "bt_get m k = Some v \<Longrightarrow> insert k (keys m) = keys m"
  by (simp add: insert_absorb keys_get)

lemma keys_insert: "keys (bt_insert k v m) = insert k (keys m)"
  by (auto simp: keys_get split: if_splits)

lemma keys_remove: "bt_ok m \<Longrightarrow> keys (bt_remove k m) = keys m - {k}"
  by (auto simp: keys_get bt_get_remove split: if_splits)

lemma keys_remove_all: "bt_ok m \<Longrightarrow> keys (fold bt_remove ks m) = keys m - set ks"
  by (auto simp: keys_get bt_get_fold_remove split: if_splits)

lemma keys_adjust: "keys (bt_adjust k f m) = keys m"
  by (simp add: bt_adjust_def keys_insert bt_get_keys split: option.split)

definition driver_ok :: "('s, 't, 'y, 'p, 'a, 'k, 'l, 'x, 'w, 'h) server_driver \<Rightarrow> bool" where
  "driver_ok d \<longleftrightarrow> bt_ok (sd_forwards d) \<and> bt_ok (sd_xfers d) \<and> bt_ok (sd_agent_conns d) \<and> bt_ok (sd_execs d)"

text \<open>\<open>serves\<close>: only stream operations of the core, and under a session user no new transfer or command.
  \<open>narrows\<close>: no new resource at all.\<close>

definition serves :: "('s, 't, 'y, 'p) server_env \<Rightarrow> ('s, 't, 'y, 'p, 'a, 'k, 'l, 'x, 'w, 'h) server_driver \<Rightarrow>
    ('s, 't, 'y, 'p, 'a, 'k, 'l, 'x, 'w, 'h) server_driver \<Rightarrow> bool" where
  "serves e d d' \<longleftrightarrow> quiet_run e (sd_core d) (sd_core d') \<and>
     (driver_ok d \<longrightarrow> driver_ok d' \<and>
        (privsep_active (sd_core d) \<longrightarrow> keys (sd_xfers d') \<subseteq> keys (sd_xfers d) \<and>
           keys (sd_execs d') \<subseteq> keys (sd_execs d)))"

definition narrows :: "('s, 't, 'y, 'p) server_env \<Rightarrow> ('s, 't, 'y, 'p, 'a, 'k, 'l, 'x, 'w, 'h) server_driver \<Rightarrow>
    ('s, 't, 'y, 'p, 'a, 'k, 'l, 'x, 'w, 'h) server_driver \<Rightarrow> bool" where
  "narrows e d d' \<longleftrightarrow> quiet_run e (sd_core d) (sd_core d') \<and>
     sd_remote_listeners d' = sd_remote_listeners d \<and> sd_agent_listeners d' = sd_agent_listeners d \<and>
     (driver_ok d \<longrightarrow> driver_ok d' \<and>
        keys (sd_forwards d') \<subseteq> keys (sd_forwards d) \<and> keys (sd_xfers d') \<subseteq> keys (sd_xfers d) \<and>
        keys (sd_agent_conns d') \<subseteq> keys (sd_agent_conns d) \<and> keys (sd_execs d') \<subseteq> keys (sd_execs d))"

lemma quiet_run_privsep: "quiet_run e c c' \<Longrightarrow> privsep_active c' = privsep_active c"
  using core_run_trust [OF quiet_run_core, of e c c'] by (simp add: trust_base_def privsep_active_def)

lemma serves_refl [simp]: "serves e d d"
  by (simp add: serves_def)

lemma serves_trans [trans]:
  assumes "serves e a b" "serves e b c"
  shows "serves e a c"
proof -
  have ab: "quiet_run e (sd_core a) (sd_core b)" and bc: "quiet_run e (sd_core b) (sd_core c)"
    using assms by (simp_all add: serves_def)
  show ?thesis
    using assms quiet_run_trans [OF ab bc] quiet_run_privsep [OF ab] unfolding serves_def by blast
qed

lemma narrows_refl [simp]: "narrows e d d"
  by (simp add: narrows_def)

lemma narrows_trans [trans]:
  assumes "narrows e a b" "narrows e b c"
  shows "narrows e a c"
proof -
  have "quiet_run e (sd_core a) (sd_core c)"
    using assms quiet_run_trans [of e "sd_core a" "sd_core b" "sd_core c"] by (simp add: narrows_def)
  then show ?thesis using assms unfolding narrows_def by (simp add: subset_trans) blast
qed

lemma narrows_serves: "narrows e a b \<Longrightarrow> serves e a b"
  by (auto simp: narrows_def serves_def)

lemma serves_fold: "(\<And>x d. serves e d (f x d)) \<Longrightarrow> serves e d (fold f xs d)"
  by (induction xs arbitrary: d) (auto intro: serves_trans)

lemma narrows_fold: "(\<And>x d. narrows e d (f x d)) \<Longrightarrow> narrows e d (fold f xs d)"
  by (induction xs arbitrary: d) (auto intro: narrows_trans)

lemma narrows_opt_fold: "(\<And>x d d'. f x d = Some d' \<Longrightarrow> narrows e d d') \<Longrightarrow> opt_fold f xs d = Some d' \<Longrightarrow> narrows e d d'"
  by (induction xs arbitrary: d) (auto split: bind_splits, blast intro: narrows_trans)

lemma bt_ok_adjust [simp]: "bt_ok m \<Longrightarrow> bt_ok (bt_adjust k f m)"
  by (simp add: bt_adjust_def split: option.split)

lemmas resource_simps = serves_def narrows_def driver_ok_def keys_remove keys_insert keys_adjust bt_get_keys

lemma narrows_xfer: "narrows e d (remove_xfer os k d)"
  by (auto simp: resource_simps remove_xfer_def)

lemma serves_reset: "serves e d (driver_reset k d)"
  by (simp add: resource_simps driver_reset_def quiet_runs)

lemma serves_open_forward: "serves e d (open_forward_stream os k meta d)"
  by (auto simp: resource_simps open_forward_stream_def quiet_run_close Let_def split: prod.splits option.splits)

lemma serves_open_xfer: "serves e d (open_xfer_stream os k meta d)"
  by (auto simp: resource_simps open_xfer_stream_def insert_xfer_def driver_reset_def quiet_runs
      split: prod.splits option.splits xfer_request.splits)

lemma serves_open_exec: "serves e d (open_exec_stream os k meta d)"
proof -
  have "quiet_run e c core" if "open_exec sid c = (r, core)" for sid c r core
    using quiet_runs(4) [of e c Exec "[]" sid] that by (simp add: open_exec_def)
  then show ?thesis
    by (auto simp: resource_simps open_exec_stream_def driver_reset_def quiet_runs intro: quiet_run_trans [OF _ quiet_runs(8)]
        split: prod.splits option.splits)
qed

lemma serves_closed: "serves e d (peer_closed os k d)"
  by (simp add: resource_simps peer_closed_def)

lemma narrows_reset_events: "narrows e d (peer_reset os k d)"
  by (auto simp: resource_simps peer_reset_def remove_xfer_def driver_reset_def quiet_runs Let_def split: option.splits)

lemma serves_event: "serves e d (driver_event os ev d)"
  by (cases "(os, ev, d)" rule: driver_event.cases)
    (auto simp: serves_open_forward serves_open_xfer serves_open_exec serves_closed narrows_serves [OF narrows_reset_events]
      split: stream_kind.split)

lemma serves_events: "serves e d (driver_events os d)"
proof (cases "take_stream_events (sd_core d)")
  case (Pair evs core)
  have "serves e d (d\<lparr>sd_core := core\<rparr>)"
    using quiet_runs(1) [of e "sd_core d"] Pair by (simp add: resource_simps)
  also have "serves e (d\<lparr>sd_core := core\<rparr>) (fold (driver_event os) evs (d\<lparr>sd_core := core\<rparr>))"
    by (rule serves_fold [OF serves_event])
  finally show ?thesis by (simp add: driver_events_def Pair)
qed

text \<open>Sessions that listeners belong to.\<close>

definition owners :: "('l \<times> bytes \<times> bytes) list \<Rightarrow> bytes set" where
  "owners ls = (fst \<circ> snd) ` set ls"

lemma accept_each_owners: "accept_each accept ls = Some (ls', acc) \<Longrightarrow> owners ls' = owners ls"
proof (induction ls arbitrary: ls' acc)
  case (Cons x ls)
  obtain l sid t where x: "x = (l, sid, t)" by (cases x)
  obtain l' ls1 acc1 where "accept_each accept ls = Some (ls1, acc1)" "ls' = (l', sid, t) # ls1"
    using Cons.prems x by (auto split: bind_splits)
  then show ?case using Cons.IH x by (auto simp: owners_def)
qed simp

lemma serves_listen:
  "serves e d (listen_remote os req d)" "serves e d (listen_agent os areq d)"
  by (auto simp: resource_simps listen_remote_def listen_agent_def split: prod.splits option.splits)

lemma serves_accepted: "serves e d (open_accepted os a d)"
proof -
  have "quiet_run e c core" if "open_forward sid target c = (r, core)" for sid target c r core
    using quiet_runs(4) [of e c Forward target sid] that by (simp add: open_forward_def)
  then show ?thesis
    by (auto simp: resource_simps open_accepted_def split: prod.splits option.splits)
qed

lemma serves_agent_accepted: "serves e d (open_agent_accepted os a d)"
proof -
  have "quiet_run e c core" if "open_agent sid c = (r, core)" for sid c r core
    using quiet_runs(4) [of e c Agent "[]" sid] that by (simp add: open_agent_def)
  then show ?thesis
    by (auto simp: resource_simps open_agent_accepted_def driver_reset_def quiet_runs intro: quiet_run_trans [OF _ quiet_runs(8)]
        split: prod.splits option.splits)
qed

lemma fold_field: "(\<And>x d. g (f x d) = g d) \<Longrightarrow> g (fold f xs d) = g d"
  by (induction xs arbitrary: d) auto

lemma accepted_listeners:
  "sd_remote_listeners (open_accepted os a d) = sd_remote_listeners d"
  "sd_remote_listeners (open_agent_accepted os b d) = sd_remote_listeners d"
  "sd_agent_listeners (open_agent_accepted os b d) = sd_agent_listeners d"
  by (auto simp: open_accepted_def open_agent_accepted_def driver_reset_def split: prod.splits option.splits)

lemma event_listeners:
  "sd_remote_listeners (driver_event os ev d) = sd_remote_listeners d"
  "sd_agent_listeners (driver_event os ev d) = sd_agent_listeners d"
  by (cases "(os, ev, d)" rule: driver_event.cases;
      auto simp: open_forward_stream_def open_xfer_stream_def open_exec_stream_def peer_closed_def peer_reset_def remove_xfer_def
        insert_xfer_def driver_reset_def Let_def split: stream_kind.split prod.split option.split xfer_request.split)+

lemma serves_sessions: "serves e d d' \<Longrightarrow> has_session sid (sd_core d') = has_session sid (sd_core d)"
  unfolding serves_def using quiet_run_sessions by metis

definition live :: "('s, 't, 'y, 'p, 'a, 'k, 'l, 'x, 'w, 'h) server_driver \<Rightarrow> bytes set \<Rightarrow> bool" where
  "live d sids \<longleftrightarrow> (\<forall>sid \<in> sids. has_session sid (sd_core d))"

lemma live_serves: "serves e d d' \<Longrightarrow> live d' sids = live d sids"
  by (simp add: live_def serves_sessions)

lemma remote_forwards_live:
  assumes "remote_forwards os d = Some d'"
  shows "serves e d d'" "live d' (owners (sd_remote_listeners d'))"
proof -
  obtain reqs core where t: "take_remote_forward_requests (sd_core d) = (reqs, core)"
    by (cases "take_remote_forward_requests (sd_core d)")
  let ?d0 = "d\<lparr>sd_core := core\<rparr>"
  let ?d1 = "fold (listen_remote os) reqs ?d0"
  let ?keep = "filter (\<lambda>(_, sid, _). has_session sid (sd_core ?d1)) (sd_remote_listeners ?d1)"
  obtain ls acc where ls: "accept_each (os_accept os) ?keep = Some (ls, acc)"
    and d': "d' = fold (open_accepted os) acc (?d1\<lparr>sd_remote_listeners := ls\<rparr>)"
    using assms t by (auto simp: remote_forwards_def Let_def split: bind_splits)
  have "serves e d ?d0" using quiet_runs(2) [of e "sd_core d"] t by (simp add: resource_simps)
  also have "serves e ?d0 ?d1" by (rule serves_fold [OF serves_listen(1)])
  also have "serves e ?d1 (?d1\<lparr>sd_remote_listeners := ls\<rparr>)" by (simp add: resource_simps)
  finally have 1: "serves e d (?d1\<lparr>sd_remote_listeners := ls\<rparr>)" .
  have 2: "serves e (?d1\<lparr>sd_remote_listeners := ls\<rparr>) d'" unfolding d' by (rule serves_fold [OF serves_accepted])
  show "serves e d d'" using serves_trans [OF 1 2] .
  have "sd_remote_listeners d' = ls"
    unfolding d' by (subst fold_field [of sd_remote_listeners, OF accepted_listeners(1)]) simp
  moreover have "live (?d1\<lparr>sd_remote_listeners := ls\<rparr>) (owners ls)"
    unfolding accept_each_owners [OF ls] by (auto simp: live_def owners_def)
  ultimately show "live d' (owners (sd_remote_listeners d'))" using live_serves [OF 2] by simp
qed

lemma agent_forwards_live:
  assumes "agent_forwards os d = Some d'"
  shows "serves e d d'" "live d' (owners (sd_agent_listeners d'))" "sd_remote_listeners d' = sd_remote_listeners d"
proof -
  obtain reqs core where t: "take_agent_socket_requests (sd_core d) = (reqs, core)"
    by (cases "take_agent_socket_requests (sd_core d)")
  let ?d0 = "d\<lparr>sd_core := core\<rparr>"
  let ?d1 = "fold (listen_agent os) reqs ?d0"
  let ?d2 = "drop_agent_listeners os ?d1"
  obtain ls acc where ls: "accept_each (os_accept os) (sd_agent_listeners ?d2) = Some (ls, acc)"
    and d': "d' = fold (open_agent_accepted os) acc (?d2\<lparr>sd_agent_listeners := ls\<rparr>)"
    using assms t by (auto simp: agent_forwards_def Let_def split: bind_splits)
  have "serves e d ?d0" using quiet_runs(3) [of e "sd_core d"] t by (simp add: resource_simps)
  also have "serves e ?d0 ?d1" by (rule serves_fold [OF serves_listen(2)])
  also have "serves e ?d1 (?d2\<lparr>sd_agent_listeners := ls\<rparr>)" by (simp add: resource_simps drop_agent_listeners_def Let_def)
  finally have 1: "serves e d (?d2\<lparr>sd_agent_listeners := ls\<rparr>)" .
  have 2: "serves e (?d2\<lparr>sd_agent_listeners := ls\<rparr>) d'" unfolding d' by (rule serves_fold [OF serves_agent_accepted])
  show "serves e d d'" using serves_trans [OF 1 2] .
  have "sd_agent_listeners d' = ls"
    unfolding d' by (subst fold_field [of sd_agent_listeners, OF accepted_listeners(3)]) simp
  moreover have "live (?d2\<lparr>sd_agent_listeners := ls\<rparr>) (owners ls)"
    unfolding accept_each_owners [OF ls] by (auto simp: live_def owners_def drop_agent_listeners_def Let_def)
  ultimately show "live d' (owners (sd_agent_listeners d'))" using live_serves [OF 2] by simp
  have "sd_remote_listeners ?d1 = sd_remote_listeners ?d0"
    by (rule fold_field) (simp add: listen_agent_def split: prod.split option.split)
  then show "sd_remote_listeners d' = sd_remote_listeners d"
    unfolding d' by (subst fold_field [of sd_remote_listeners, OF accepted_listeners(2)]) (simp add: drop_agent_listeners_def Let_def)
qed

lemma narrows_dead: "narrows e d (drop_dead os d)"
proof -
  have "narrows e d (remove_xfer os k (d\<lparr>sd_forwards := bt_remove k (sd_forwards d)\<rparr>))"
    for k and d :: "('a, 'b, 'c, 'd, 'e, 'f, 'g, 'h, 'i, 'j) server_driver"
    by (auto simp: resource_simps remove_xfer_def)
  then show ?thesis unfolding drop_dead_def Let_def by (rule narrows_fold)
qed

text \<open>The iteration order of a hash map visits exactly its keys.\<close>

definition fair_iter :: "('k, 'l, 'x, 'w, 'h) os_ops \<Rightarrow> bool" where
  "fair_iter os \<longleftrightarrow> (\<forall>ks. set (os_iter os ks) = set ks)"

lemma drop_dead_live:
  assumes "fair_iter os" "driver_ok d"
  shows "live (drop_dead os d) (fst ` keys (sd_forwards (drop_dead os d)))"
    and "live (drop_dead os d) (fst ` keys (sd_xfers (drop_dead os d)))"
proof -
  let ?rm = "\<lambda>k d. remove_xfer os k (d\<lparr>sd_forwards := bt_remove k (sd_forwards d)\<rparr>)"
  have gone: "driver_ok (fold ?rm ks d) \<and> sd_core (fold ?rm ks d) = sd_core d \<and>
      keys (sd_forwards (fold ?rm ks d)) = keys (sd_forwards d) - set ks \<and>
      keys (sd_xfers (fold ?rm ks d)) = keys (sd_xfers d) - set ks" for ks
    using assms(2)
  proof (induction ks arbitrary: d)
    case (Cons k ks)
    have "driver_ok (?rm k d)" using Cons.prems by (simp add: driver_ok_def remove_xfer_def)
    from Cons.IH [OF this] Cons.prems show ?case
      by (auto simp: driver_ok_def remove_xfer_def keys_remove keys_insert keys_adjust bt_get_keys)
  qed simp
  let ?ks = "filter (\<lambda>k. \<not> has_session (fst k) (sd_core d)) (os_iter os (bt_keys (sd_forwards d)) @ os_iter os (bt_keys (sd_xfers d)))"
  have "set ?ks = {k \<in> keys (sd_forwards d) \<union> keys (sd_xfers d). \<not> has_session (fst k) (sd_core d)}"
    using assms(1) by (auto simp: fair_iter_def)
  then show "live (drop_dead os d) (fst ` keys (sd_forwards (drop_dead os d)))"
    "live (drop_dead os d) (fst ` keys (sd_xfers (drop_dead os d)))"
    unfolding drop_dead_def Let_def live_def using gone [of ?ks] by simp_all blast+
qed

lemma narrows_pump_forward: "pump_forward os k d = Some d' \<Longrightarrow> narrows e d d'"
  by (auto simp: resource_simps pump_forward_def split: option.splits bind_splits if_splits dest: srv_pump.R_pump_conn)

lemma narrows_pump_agent: "pump_agent_conn os k d = Some d' \<Longrightarrow> narrows e d d'"
  by (auto simp: resource_simps pump_agent_conn_def split: option.splits bind_splits if_splits dest: srv_pump.R_pump_conn)

lemma narrows_pump_xfer: "pump_one_xfer os k d = Some d' \<Longrightarrow> narrows e d d'"
proof -
  have "quiet_run e c (so_reset (server_streams k) c)" for c :: "('a, 'b, 'c, 'd, 'e) server_core"
    by (simp add: server_streams_def quiet_runs)
  note R = R_pump_xfer [OF srv_pump.pumped_core_axioms this]
  show "pump_one_xfer os k d = Some d' \<Longrightarrow> narrows e d d'"
    by (auto simp: resource_simps pump_one_xfer_def split: option.splits bind_splits dest: R)
qed

lemma pump_exec_quiet:
  "pump_exec ps (server_streams k) (server_streams k') (sc_stream_close_status sid i) proc core = Some (fin, proc', core') \<Longrightarrow>
   quiet_run e core core'"
  by (rule R_pump_exec [OF srv_pump.pumped_core_axioms srv_pump.pumped_core_axioms]) (rule quiet_runs)

lemma narrows_pump_exec: "pump_one_exec os k d = Some d' \<Longrightarrow> narrows e d d'"
  by (auto simp: resource_simps pump_one_exec_def split: option.splits bind_splits if_splits dest: pump_exec_quiet)

lemma narrows_agents: "narrows e d (drop_dead_agents os d)"
  by (auto simp: resource_simps drop_dead_agents_def keys_remove_all Let_def)

lemma drop_dead_agents_live:
  assumes "fair_iter os" "driver_ok d"
  shows "live (drop_dead_agents os d) (fst ` keys (sd_agent_conns (drop_dead_agents os d)))"
  using assms by (auto simp: live_def drop_dead_agents_def driver_ok_def keys_remove_all fair_iter_def
      has_session_def Let_def split: if_splits)

lemma pump_exec_live:
  assumes "opt_fold (pump_one_exec os) ks d = Some d'" "driver_ok d"
  shows "live d' (fst ` (keys (sd_execs d') \<inter> set ks))"
  using assms
proof (induction ks arbitrary: d)
  case (Cons k ks)
  then obtain d1 where 1: "pump_one_exec os k d = Some d1" and 2: "opt_fold (pump_one_exec os) ks d1 = Some d'"
    by (auto split: bind_splits)
  have n1: "narrows e d d1" and n2: "narrows e d1 d'" for e
    using narrows_pump_exec [OF 1] narrows_opt_fold [OF narrows_pump_exec 2] by auto
  have ok: "driver_ok d1" using n1 Cons.prems(2) by (simp add: narrows_def)
  have "has_session (fst k) (sd_core d')" if "k \<in> keys (sd_execs d')"
  proof (rule ccontr)
    assume "\<not> has_session (fst k) (sd_core d')"
    then have "\<not> has_session (fst k) (sd_core d)"
      using serves_sessions [OF narrows_serves [OF narrows_trans [OF n1 n2]]] by blast
    then have "k \<notin> keys (sd_execs d1)"
      using 1 Cons.prems(2) by (auto simp: pump_one_exec_def driver_ok_def keys_remove keys_insert keys_adjust bt_get_keys keys_get bt_get_remove split: option.splits)
    then show False using that n2 ok unfolding narrows_def by blast
  qed
  then show ?case using Cons.IH [OF 2 ok] by (auto simp: live_def)
qed (simp add: live_def)

text \<open>A pump leaves only resources of live sessions.\<close>

definition held_sessions :: "('s, 't, 'y, 'p, 'a, 'k, 'l, 'x, 'w, 'h) server_driver \<Rightarrow> bytes set" where
  "held_sessions d = owners (sd_remote_listeners d) \<union> owners (sd_agent_listeners d) \<union>
     fst ` (keys (sd_forwards d) \<union> keys (sd_xfers d) \<union> keys (sd_agent_conns d) \<union> keys (sd_execs d))"

lemma live_Un: "live d (A \<union> B) \<longleftrightarrow> live d A \<and> live d B"
  by (auto simp: live_def)

lemma live_mono: "live d A \<Longrightarrow> B \<subseteq> A \<Longrightarrow> live d B"
  by (auto simp: live_def)

lemma narrows_live:
  assumes "narrows e d d'" "driver_ok d"
  shows "live d (fst ` keys (sd_forwards d)) \<Longrightarrow> live d' (fst ` keys (sd_forwards d'))"
    and "live d (fst ` keys (sd_xfers d)) \<Longrightarrow> live d' (fst ` keys (sd_xfers d'))"
    and "live d (fst ` keys (sd_agent_conns d)) \<Longrightarrow> live d' (fst ` keys (sd_agent_conns d'))"
    and "live d (owners (sd_remote_listeners d)) \<Longrightarrow> live d' (owners (sd_remote_listeners d'))"
    and "live d (owners (sd_agent_listeners d)) \<Longrightarrow> live d' (owners (sd_agent_listeners d'))"
    and "driver_ok d'"
  using assms live_serves [OF narrows_serves [OF assms(1)]] unfolding narrows_def by (simp_all add: live_def) blast+

lemma driver_events_listeners:
  "sd_remote_listeners (driver_events os d) = sd_remote_listeners d" "sd_agent_listeners (driver_events os d) = sd_agent_listeners d"
  by (simp_all add: driver_events_def take_stream_events_def fold_field [of sd_remote_listeners, OF event_listeners(1)]
      fold_field [of sd_agent_listeners, OF event_listeners(2)])

lemma pump_forwards_live:
  assumes "pump_forwards os d = Some d'" "fair_iter os" "driver_ok d"
  shows "serves e d d'" "live d' (held_sessions d')"
proof -
  obtain d1 d2 d4 d5 d7 where s1: "remote_forwards os d = Some d1" and s2: "agent_forwards os d1 = Some d2"
    and s4: "opt_fold (pump_forward os) (os_iter os (bt_keys (sd_forwards (drop_dead os (driver_events os d2))))) (drop_dead os (driver_events os d2)) = Some d4"
    and s5: "opt_fold (pump_one_xfer os) (os_iter os (bt_keys (sd_xfers d4))) d4 = Some d5"
    and s7: "opt_fold (pump_agent_conn os) (os_iter os (bt_keys (sd_agent_conns (drop_dead_agents os d5)))) (drop_dead_agents os d5) = Some d7"
    and s8: "opt_fold (pump_one_exec os) (os_iter os (bt_keys (sd_execs d7))) d7 = Some d'"
    using assms(1) by (auto simp: pump_forwards_def split: bind_splits)
  let ?d3 = "driver_events os d2" let ?d3' = "drop_dead os ?d3" let ?d6 = "drop_dead_agents os d5"
  have 13: "serves e d ?d3"
    using serves_trans [OF serves_trans [OF remote_forwards_live(1) [OF s1] agent_forwards_live(1) [OF s2]] serves_events] .
  have ok3: "driver_ok ?d3" using 13 assms(3) by (simp add: serves_def)
  have n4: "narrows e ?d3' d4" using narrows_pump_forward by (rule narrows_opt_fold [OF _ s4])
  have n5: "narrows e d4 d5" using narrows_pump_xfer by (rule narrows_opt_fold [OF _ s5])
  have n7: "narrows e ?d6 d7" using narrows_pump_agent by (rule narrows_opt_fold [OF _ s7])
  have n8: "narrows e d7 d'" using narrows_pump_exec by (rule narrows_opt_fold [OF _ s8])
  have n36: "narrows e ?d3' d5" using narrows_trans [OF n4 n5] .
  have n68: "narrows e ?d6 d'" using narrows_trans [OF n7 n8] .
  show "serves e d d'"
    using 13 narrows_serves [OF narrows_trans [OF narrows_dead narrows_trans [OF n36 narrows_trans [OF narrows_agents n68]]]]
    by (rule serves_trans)
  note a = narrows_live [OF narrows_dead ok3] and b = narrows_live [OF n36] and c = narrows_live [OF narrows_agents] and f = narrows_live [OF n68]
  have ok3': "driver_ok ?d3'" by (rule a(6))
  have ok5: "driver_ok d5" by (rule b(6) [OF ok3'])
  have ok6: "driver_ok ?d6" by (rule c(6) [OF ok5])
  have ok7: "driver_ok d7" using narrows_live(6) [OF n7 ok6] .
  have "live ?d3 (owners (sd_remote_listeners ?d3))"
    unfolding live_serves [OF serves_trans [OF agent_forwards_live(1) [OF s2] serves_events]] driver_events_listeners agent_forwards_live(3) [OF s2]
    by (rule remote_forwards_live(2) [OF s1])
  then have rl: "live d' (owners (sd_remote_listeners d'))" by (intro f(4) c(4) b(4) a(4) ok3' ok5 ok6)
  have "live ?d3 (owners (sd_agent_listeners ?d3))"
    unfolding live_serves [OF serves_events] driver_events_listeners by (rule agent_forwards_live(2) [OF s2])
  then have al: "live d' (owners (sd_agent_listeners d'))" by (intro f(5) c(5) b(5) a(5) ok3' ok5 ok6)
  have fx: "live d' (fst ` keys (sd_forwards d'))" "live d' (fst ` keys (sd_xfers d'))"
    by (intro f(1,2) c(1,2) b(1,2) ok3' ok5 ok6 drop_dead_live [OF assms(2) ok3])+
  have ag: "live d' (fst ` keys (sd_agent_conns d'))"
    by (intro f(3) ok6 drop_dead_agents_live [OF assms(2) ok5])
  have "keys (sd_execs d') \<inter> set (os_iter os (bt_keys (sd_execs d7))) = keys (sd_execs d')"
    using n8 ok7 assms(2) by (auto simp: narrows_def fair_iter_def)
  then have "live d' (fst ` keys (sd_execs d'))" using pump_exec_live [OF s8 ok7] by simp
  then show "live d' (held_sessions d')"
    using rl al fx ag by (simp add: held_sessions_def image_Un live_Un)
qed

section \<open>The whole server\<close>

text \<open>The parts of a service iteration, in any order.\<close>

datatype 'a driver_op = DPacket 'a bytes | DPump | DTick

fun driver_step :: "('s, 't, 'y, 'p) server_env \<Rightarrow> ('k, 'l, 'x, 'w, 'h) os_ops \<Rightarrow> 'a driver_op \<Rightarrow>
    ('s, 't, 'y, 'p, 'a, 'k, 'l, 'x, 'w, 'h) server_driver \<Rightarrow> ('s, 't, 'y, 'p, 'a, 'k, 'l, 'x, 'w, 'h) server_driver option" where
  "driver_step e os (DPacket src pkt) d = do { (_, core) \<leftarrow> server_handle_packet e src pkt (sd_core d); Some (d\<lparr>sd_core := core\<rparr>) }"
| "driver_step e os DPump d = pump_forwards os d"
| "driver_step e os DTick d = do { (_, core) \<leftarrow> server_tick e (sd_core d); Some (d\<lparr>sd_core := core\<rparr>) }"

lemma poll_once_steps:
  assumes "poll_once e os r d = Some (go, out, d')"
  shows "\<exists>ops. opt_fold (driver_step e os) ops d = Some d'"
proof (cases r)
  case (Datagram src pkt)
  then have "opt_fold (driver_step e os) [DPacket src pkt, DPump, DTick] d = Some d'"
    using assms by (auto simp: poll_once_def split: bind_splits)
  then show ?thesis by blast
next
  case NoDatagram
  then have "opt_fold (driver_step e os) [DPump, DTick] d = Some d'"
    using assms by (auto simp: poll_once_def split: bind_splits)
  then show ?thesis by blast
next
  case SocketError
  then have "opt_fold (driver_step e os) [] d = Some d'" using assms by (simp add: poll_once_def)
  then show ?thesis by blast
qed

definition driver_inv :: "('s, 't, 'y, 'p) server_env \<Rightarrow> ('s, 't, 'y, 'p, 'a) server_core \<Rightarrow>
    ('s, 't, 'y, 'p, 'a, 'k, 'l, 'x, 'w, 'h) server_driver \<Rightarrow> bool" where
  "driver_inv e c0 d \<longleftrightarrow> driver_ok d \<and> core_run e c0 (sd_core d) \<and>
     (privsep_active c0 \<longrightarrow> sd_xfers d = [] \<and> sd_execs d = [])"

lemma driver_inv_step:
  assumes fair: "fair_iter os" and inv: "driver_inv e c0 d" and step: "driver_step e os op d = Some d'"
  shows "driver_inv e c0 d'"
proof (cases op)
  case (DPacket src pkt)
  then obtain out core where "server_handle_packet e src pkt (sd_core d) = Some (out, core)" "d' = d\<lparr>sd_core := core\<rparr>"
    using step by (auto split: bind_splits)
  moreover from this have "core_run e (sd_core d) core" by (intro core_runI [of _ "SPacket src pkt"]) simp
  ultimately show ?thesis using inv core_run_trans [of e c0 "sd_core d" core] by (simp add: driver_inv_def driver_ok_def)
next
  case DTick
  then obtain out core where "server_tick e (sd_core d) = Some (out, core)" "d' = d\<lparr>sd_core := core\<rparr>"
    using step by (auto split: bind_splits)
  moreover from this have "core_run e (sd_core d) core" by (intro core_runI [of _ STick]) simp
  ultimately show ?thesis using inv core_run_trans [of e c0 "sd_core d" core] by (simp add: driver_inv_def driver_ok_def)
next
  case DPump
  have s: "serves e d d'" using pump_forwards_live(1) [OF _ fair, of d d' e] step DPump inv by (simp add: driver_inv_def)
  have run: "core_run e c0 (sd_core d')"
    using s inv quiet_run_core core_run_trans unfolding serves_def driver_inv_def by blast
  have "privsep_active (sd_core d) = privsep_active c0"
    using inv core_run_trust [of e c0 "sd_core d"] by (simp add: driver_inv_def trust_base_def privsep_active_def)
  then show ?thesis
    using s inv run unfolding serves_def driver_inv_def by (auto simp: bt_keys_def)
qed

interpretation driver: partial_machine "\<lambda>op d. if fair_iter os then driver_step e os op d else None" "driver_inv e c0" for os e c0
  by unfold_locales (auto split: if_splits intro: driver_inv_step)

end
