(* ===== verification/ClientProps.thy ===== *)
theory ClientProps
  imports ClientDriver DriverProps
begin

text \<open>
  What the client's driver promises: a download arrives whole or not at all, and the exit code of a remote command is
  reported only when all of its output has been written.
\<close>

section \<open>What sending does to a stream\<close>

lemma transmit_data_recv [simp]: "recv (snd (transmit_data nw out s)) = recv s"
  by (simp add: transmit_data_def Let_def emit_range_eq on_rto_def)

lemma transmit_recv [simp]: "recv (snd (transmit nw [] s)) = recv s"
proof (cases "st_reset s")
  case False
  then show ?thesis
    unfolding transmit_steps [OF False] by (simp add: Let_def transmit_close_def transmit_ack_def transmit_open_state)
qed (simp add: transmit_def)

lemma flush_streams:
  "streams (cc_mux (snd (client_flush sn core))) = streams (cc_mux core) \<or>
   streams (cc_mux (snd (client_flush sn core))) = streams (snd (poll_transmit (cc_mux core)))"
  by (auto simp: client_flush_def client_tick_def outgoing_def open_shell_frames_def remote_forward_frames_def stream_frames_def Let_def
      take_events_def split: option.splits prod.splits sum.splits if_splits)

lemma keepalive_mux [simp]: "cc_mux (snd (send_keepalive sn due core)) = cc_mux core"
  by (auto simp: send_keepalive_def keepalive_def split: option.splits prod.splits)

text \<open>A stream leaves the table by sending only when it is done, or the grace period is over.\<close>

lemma flush_view:
  assumes v: "client_view i core = Some s" "\<not> st_reset s" and ok: "bt_ok (streams (cc_mux core))"
    and grace: "Suc (close_ticks s) < CLOSE_GRACE_TICKS \<or> \<not> send_fin s"
  shows "case client_view i (snd (client_flush sn core)) of
      Some s' \<Rightarrow> recv s' = recv s \<and> peer_fin s' = peer_fin s \<and> st_reset s' = st_reset s \<and> send_fin s' = send_fin s
    | None \<Rightarrow> send_fin s \<and> recv_finished s"
proof -
  let ?nw = "wrap64 (mux_now (cc_mux core) + 1)"
  let ?t = "snd (transmit ?nw [] s)"
  note keeps = transmit_keeps [OF v(2), of ?nw]
  have same: "recv_finished ?t = recv_finished s" using keeps(4) by (simp add: recv_finished_def split: half_state.split)
  have ticks: "close_ticks ?t \<le> Suc (close_ticks s)" using keeps by (simp add: saturating_add32_def)
  have over: "send_fin s \<and> recv_finished s" if "fully_done ?t"
    using that keeps(2) same ticks grace by (auto simp: fully_done_def split: if_splits)
  have poll: "poll_stream ?nw s = (if fully_done ?t then None else Some ?t)" using v(2) by (simp add: poll_stream_def Let_def)
  show ?thesis
    using flush_streams [of sn core]
  proof
    assume "streams (cc_mux (snd (client_flush sn core))) = streams (snd (poll_transmit (cc_mux core)))"
    then have "client_view i (snd (client_flush sn core)) = poll_stream ?nw s"
      using poll_transmit_stream(1) [OF ok] v(1) by (simp add: client_view_def)
    then show ?thesis using over poll transmit_keeps [OF v(2), of ?nw] by simp
  qed (use v in \<open>simp add: client_view_def\<close>)
qed


section \<open>Downloads\<close>

lemma read_table: "bt_ok (streams (cc_mux c)) \<Longrightarrow> bt_ok (streams (cc_mux (snd (cc_stream_read i c))))"
  by (auto simp: cc_stream_read_def mux_read_def split: option.splits prod.splits)

text \<open>What the client's stream operations keep of the table and of the other streams.\<close>

definition same_table :: "u64 \<Rightarrow> ('s, 't, 'a) client_core \<Rightarrow> ('s, 't, 'a) client_core \<Rightarrow> bool" where
  "same_table i c c' \<longleftrightarrow> (bt_ok (streams (cc_mux c)) \<longrightarrow> bt_ok (streams (cc_mux c'))) \<and> (\<forall>j. j \<noteq> i \<longrightarrow> client_view j c' = client_view j c)"

interpretation client_pumped: pumped_core "client_streams i" "same_table i" for i
  by unfold_locales
    (auto simp: same_table_def client_streams_def client_view_def cc_stream_read_def cc_stream_write_def cc_stream_close_def
       mux_read_def mux_write_def mux_close_def with_stream_def split: prod.splits option.splits)

lemmas client_drain_put = session_stream.drain_put_inv [OF client_stream.session_stream_axioms]

lemma take_events_same [simp]: "cc_mux (snd (cc_take_events core)) = cc_mux core"
  by (simp add: cc_take_events_def)

text \<open>The work of one iteration of a download.\<close>

lemma transfer_download_inv:
  assumes fs: "honest_files fs content appends" and v: "client_view (tr_id t) core = Some s" "\<not> st_reset s" "\<not> send_fin s"
    and inv: "upload_inv content appends src sk s f"
  shows "\<exists>r out core' f'. transfer_download sn fs bye t sk core f = Some (r, out, core', f') \<and>
     (\<forall>q. q \<noteq> sk_tmp sk \<longrightarrow> q \<noteq> sk_dest sk \<longrightarrow> content f' q = content f q) \<and>
     (case r of
        TContinue t' \<Rightarrow> same_table (tr_id t) core core' \<and> content f' (sk_dest sk) = content f (sk_dest sk) \<and>
          (\<exists>sk' s'. t' = t\<lparr>tr_sink := Some sk'\<rparr> \<and> sk_tmp sk' = sk_tmp sk \<and> sk_dest sk' = sk_dest sk \<and>
             client_view (tr_id t) core' = Some s' \<and> \<not> st_reset s' \<and> \<not> send_fin s' \<and> upload_inv content appends src sk' s' f')
      | TDone \<Rightarrow> content f' (sk_dest sk) = Some src \<and> content f' (sk_tmp sk) = None
      | TFailed _ \<Rightarrow> content f' (sk_dest sk) = content f (sk_dest sk))"
proof -
  obtain failed sk1 core1 f1 s1 where d: "drain_put fs (client_streams (tr_id t)) sk core f = Some (failed, sk1, core1, f1)"
    "client_view (tr_id t) core1 = Some s1" "st_reset s1 = st_reset s" "send_fin s1 = send_fin s"
    "sk_tmp sk1 = sk_tmp sk" "sk_dest sk1 = sk_dest sk" "sk_finalized sk1 = sk_finalized sk"
    "\<And>q. q \<noteq> sk_tmp sk \<Longrightarrow> content f1 q = content f q" "\<not> failed \<Longrightarrow> upload_inv content appends src sk1 s1 f1"
    using client_drain_put [OF fs v(1) inv] by blast
  have other: "sk_tmp sk \<noteq> sk_dest sk" using inv by (simp add: upload_inv_def)
  have fin: "cc_stream_recv_finished (tr_id t) core1 = recv_finished s1"
    using d(2) by (simp add: cc_stream_recv_finished_def is_recv_finished_def client_view_def)
  consider "failed" | "\<not> failed" "\<not> recv_finished s1" | "\<not> failed" "recv_finished s1" by blast
  then show ?thesis
  proof cases
    case 1
    then show ?thesis using d(1,5,8) other sink_drop_others [OF fs] by (auto simp: transfer_download_def)
  next
    case 2
    then show ?thesis
      using d v(2,3) other fin client_pumped.R_drain_put [OF d(1)] by (auto simp: transfer_download_def)
  next
    case 3
    note full = upload_inv_full [OF d(9) [OF 3(1)] 3(2)]
    obtain out1 core2 where fl: "client_flush sn (cc_stream_close (tr_id t) core1) = (out1, core2)" by fastforce
    obtain out2 core3 where bye: "say_bye sn bye core2 = (out2, core3)" by fastforce
    obtain ok f2 where fz: "sink_finalize fs sk1 f1 = (ok, f2)" by fastforce
    have run: "transfer_download sn fs bye t sk core f = Some (if ok then TDone else TFailed RIo, out1 @ out2, core3, f2)"
      using d(1) 3 fin fl bye fz by (simp add: transfer_download_def)
    show ?thesis
    proof (cases ok)
      case True
      then show ?thesis using run full sink_finalize_done(2) [OF fs, of sk1 f1 f2] fz d(5,6,8) other by simp
    next
      case False
      then show ?thesis using run sink_finalize_failed [OF fs, of sk1 f1 f2] fz d(5,8) other by simp
    qed
  qed
qed

text \<open>C26: a download arrives whole or not at all. One iteration of a download of \<open>src\<close> always returns. As long as
  the download goes on, the destination is untouched and the temporary file beside it holds exactly
  what the stream delivered; what the iteration sends does not change that. It ends in one of two
  ways: it succeeds and the destination holds all of \<open>src\<close>, or it reports an error and the destination
  is as it was. No other file is touched.\<close>

theorem download_whole_or_not:
  assumes fs: "honest_files fs content appends" and t: "tr_source t = None" "tr_sink t = Some sk"
    and rcv: "recv_all sn rs core = (Inr (), out, core1)"
    and v: "client_view (tr_id t) core1 = Some s" "\<not> st_reset s" "\<not> send_fin s" and ok: "bt_ok (streams (cc_mux core1))"
    and inv: "upload_inv content appends src sk s f"
  shows "\<exists>r out' core' f'. transfer_iter sn fs rs bye due t core f = Some (r, out', core', f') \<and>
     (\<forall>q. q \<noteq> sk_tmp sk \<longrightarrow> q \<noteq> sk_dest sk \<longrightarrow> content f' q = content f q) \<and>
     (case r of
        TContinue t' \<Rightarrow> content f' (sk_dest sk) = content f (sk_dest sk) \<and>
          (\<exists>sk' s'. t' = t\<lparr>tr_sink := Some sk'\<rparr> \<and> sk_tmp sk' = sk_tmp sk \<and> sk_dest sk' = sk_dest sk \<and>
             client_view (tr_id t) core' = Some s' \<and> \<not> st_reset s' \<and> \<not> send_fin s' \<and> upload_inv content appends src sk' s' f')
      | TDone \<Rightarrow> content f' (sk_dest sk) = Some src \<and> content f' (sk_tmp sk) = None
      | TFailed _ \<Rightarrow> content f' (sk_dest sk) = content f (sk_dest sk))"
proof -
  obtain evs core2 where evs: "cc_take_events core1 = (evs, core2)" by fastforce
  have mux: "cc_mux core2 = cc_mux core1" using evs take_events_same [of core1] by simp
  have other: "sk_tmp sk \<noteq> sk_dest sk" using inv by (simp add: upload_inv_def)
  show ?thesis
  proof (cases "EvReset (tr_id t) \<in> set evs")
    case True
    then show ?thesis using rcv evs t other sink_drop_others [OF fs] by (simp add: transfer_iter_def drop_sink_def)
  next
    case False
    have v2: "client_view (tr_id t) core2 = Some s" using v(1) mux by (simp add: client_view_def)
    obtain r out1 core3 f1 where d: "transfer_download sn fs bye t sk core2 f = Some (r, out1, core3, f1)"
      "\<forall>q. q \<noteq> sk_tmp sk \<longrightarrow> q \<noteq> sk_dest sk \<longrightarrow> content f1 q = content f q"
      "case r of
        TContinue t' \<Rightarrow> same_table (tr_id t) core2 core3 \<and> content f1 (sk_dest sk) = content f (sk_dest sk) \<and>
          (\<exists>sk' s'. t' = t\<lparr>tr_sink := Some sk'\<rparr> \<and> sk_tmp sk' = sk_tmp sk \<and> sk_dest sk' = sk_dest sk \<and>
             client_view (tr_id t) core3 = Some s' \<and> \<not> st_reset s' \<and> \<not> send_fin s' \<and> upload_inv content appends src sk' s' f1)
      | TDone \<Rightarrow> content f1 (sk_dest sk) = Some src \<and> content f1 (sk_tmp sk) = None
      | TFailed _ \<Rightarrow> content f1 (sk_dest sk) = content f (sk_dest sk)"
      using transfer_download_inv [OF fs v2 v(2,3) inv, of sn bye] by blast
    show ?thesis
    proof (cases r)
      case (TContinue t')
      obtain out2 core4 where fl: "client_flush sn core3 = (out2, core4)" by fastforce
      obtain out3 core5 where ka: "send_keepalive sn due core4 = (out3, core5)" by fastforce
      have run: "transfer_iter sn fs rs bye due t core f = Some (TContinue t', out @ out1 @ out2 @ out3, core5, f1)"
        using rcv evs False t d(1) TContinue fl ka by (simp add: transfer_iter_def)
      obtain sk' s' where st: "t' = t\<lparr>tr_sink := Some sk'\<rparr>" "sk_tmp sk' = sk_tmp sk" "sk_dest sk' = sk_dest sk"
        "client_view (tr_id t) core3 = Some s'" "\<not> st_reset s'" "\<not> send_fin s'" "upload_inv content appends src sk' s' f1"
        and same: "same_table (tr_id t) core2 core3" "content f1 (sk_dest sk) = content f (sk_dest sk)"
        using d(3) TContinue by auto
      have "bt_ok (streams (cc_mux core3))" using same(1) ok mux by (simp add: same_table_def)
      from flush_view [OF st(4,5) this, of sn] st(5,6) fl
      obtain s'' where s'': "client_view (tr_id t) core4 = Some s''" "recv s'' = recv s'" "peer_fin s'' = peer_fin s'"
        "\<not> st_reset s''" "\<not> send_fin s''"
        by (auto split: option.splits)
      have "client_view (tr_id t) core5 = Some s''"
        using s''(1) ka keepalive_mux [of sn due core4] by (simp add: client_view_def)
      moreover have "upload_inv content appends src sk' s'' f1" using st(7) s''(2,3) by (simp add: upload_inv_def)
      ultimately show ?thesis using run st(1-3) s''(4,5) same(2) d(2) by auto
    qed (use rcv evs False t d in \<open>simp_all add: transfer_iter_def\<close>)
  qed
qed

text \<open>A demonstration: the last bytes of a download have arrived.\<close>

definition demo_download :: "(path \<times> nat) transfer" where
  "demo_download = \<lparr>tr_id = 0, tr_source = None, tr_sink = Some demo_sink, tr_sent_fin = False\<rparr>"

theorem download_whole_or_not_witness:
  "\<exists>r out' core' f'. transfer_iter toy_snow map_fs [] [] False demo_download (demo_core (demo_received FileTransfer))
      [temp_path 7 demo_dest \<mapsto> []] = Some (r, out', core', f') \<and>
     (\<forall>q. q \<noteq> sk_tmp demo_sink \<longrightarrow> q \<noteq> sk_dest demo_sink \<longrightarrow> id f' q = id [temp_path 7 demo_dest \<mapsto> []] q) \<and>
     (case r of
        TContinue t' \<Rightarrow> id f' (sk_dest demo_sink) = id [temp_path 7 demo_dest \<mapsto> []] (sk_dest demo_sink) \<and>
          (\<exists>sk' s'. t' = demo_download\<lparr>tr_sink := Some sk'\<rparr> \<and> sk_tmp sk' = sk_tmp demo_sink \<and> sk_dest sk' = sk_dest demo_sink \<and>
             client_view (tr_id demo_download) core' = Some s' \<and> \<not> st_reset s' \<and> \<not> send_fin s' \<and> upload_inv id map_fs_appends [7, 8] sk' s' f')
      | TDone \<Rightarrow> id f' (sk_dest demo_sink) = Some [7, 8] \<and> id f' (sk_tmp demo_sink) = None
      | TFailed _ \<Rightarrow> id f' (sk_dest demo_sink) = id [temp_path 7 demo_dest \<mapsto> []] (sk_dest demo_sink))"
proof (rule download_whole_or_not [OF map_fs_honest])
  show "tr_source demo_download = None" "tr_sink demo_download = Some demo_sink" by (simp_all add: demo_download_def)
  show "recv_all toy_snow [] (demo_core (demo_received FileTransfer)) = (Inr (), [], demo_core (demo_received FileTransfer))" by simp
  show "client_view (tr_id demo_download) (demo_core (demo_received FileTransfer)) = Some (demo_received FileTransfer)"
    "bt_ok (streams (cc_mux (demo_core (demo_received FileTransfer))))"
    by (simp_all add: client_view_def demo_core_def demo_download_def bt_ok_def)
  show "\<not> st_reset (demo_received FileTransfer)" "\<not> send_fin (demo_received FileTransfer)"
    by (simp_all add: demo_received_def stream_state_new_def)
  show "upload_inv id map_fs_appends [7, 8] demo_sink (demo_received FileTransfer) [temp_path 7 demo_dest \<mapsto> []]" by (rule demo_upload_inv)
qed


section \<open>Remote commands\<close>

text \<open>Both output streams of a command: what the process was shown is what the stream delivered of \<open>src\<close>.\<close>

definition shown_inv :: "bytes \<Rightarrow> bytes \<Rightarrow> stream_state \<Rightarrow> bool" where
  "shown_inv acc src s \<longleftrightarrow> reasm_agrees (recv s) src \<and> rdelivered (recv s) \<le> length src \<and>
     (\<forall>n. peer_fin s = Finished n \<longrightarrow> n = length src) \<and> acc = take (rdelivered (recv s)) src"

lemma shown_inv_full: "shown_inv acc src s \<Longrightarrow> recv_finished s \<Longrightarrow> acc = src"
  by (auto simp: shown_inv_def recv_finished_def split: half_state.splits)

lemma shown_inv_cong: "recv s' = recv s \<Longrightarrow> peer_fin s' = peer_fin s \<Longrightarrow> shown_inv acc src s' = shown_inv acc src s"
  by (simp add: shown_inv_def)

lemma shown_inv_read:
  assumes "shown_inv acc src s"
  shows "shown_inv (acc @ fst (stream_read s)) src (snd (stream_read s))"
proof -
  have "peer_fin (snd (stream_read s)) = peer_fin s" by (simp add: stream_read_def split: prod.split)
  then show ?thesis using assms stream_read_inv [of s src] by (simp add: shown_inv_def)
qed

text \<open>A standard stream that shows all of what a successful write is given, and nothing else.\<close>

definition honest_out :: "(bytes \<Rightarrow> 'o \<Rightarrow> bool \<times> 'o) \<Rightarrow> ('o \<Rightarrow> bytes) \<Rightarrow> bool" where
  "honest_out wr shown \<longleftrightarrow> (\<forall>d w w'. wr d w = (True, w') \<longrightarrow> shown w' = shown w @ d)"

definition live_stream :: "bytes \<Rightarrow> bytes \<Rightarrow> stream_state \<Rightarrow> bool" where
  "live_stream acc src s \<longleftrightarrow> shown_inv acc src s \<and> \<not> st_reset s \<and> Suc (close_ticks s) < CLOSE_GRACE_TICKS"

lemma client_read_view:
  assumes "cc_stream_read i core = (d, core')" "client_view i core = Some s"
  shows "d = fst (stream_read s) \<and> client_view i core' = Some (snd (stream_read s))"
  using client_stream.read_view [of i core d core' s] assms by (simp add: client_streams_def)

lemma show_stream_inv:
  assumes run: "show_stream wr i core w = (True, core', w')" and out: "honest_out wr shown"
    and v: "client_view i core = Some s" "live_stream (shown w) src s"
  shows "\<exists>s'. client_view i core' = Some s' \<and> live_stream (shown w') src s'" and "same_table i core core'"
proof -
  obtain d core1 where rd: "cc_stream_read i core = (d, core1)" by fastforce
  note r = client_read_view [OF rd v(1)]
  have core: "core' = core1" and sh: "shown w' = shown w @ d"
    using run rd out by (auto simp: show_stream_def honest_out_def split: if_splits prod.splits)
  have "close_ticks (snd (stream_read s)) = close_ticks s" "st_reset (snd (stream_read s)) = st_reset s"
    by (simp_all add: stream_read_def split: prod.split)
  then show "\<exists>s'. client_view i core' = Some s' \<and> live_stream (shown w') src s'"
    using r v(2) shown_inv_read [of "shown w" src s] core sh by (simp add: live_stream_def)
  show "same_table i core core'"
    using client_pumped.R_read [of i core] rd core by (simp add: client_streams_def)
qed

text \<open>The forwards leave the command's streams alone.\<close>

lemma forwarder_pump_one_view:
  assumes "forwarder_pump_one nw i (f, core) = Some (f', core')" and "bt_get (fw_conns f) j = None" "bt_ok (fw_conns f)"
  shows "client_view j core' = client_view j core \<and> bt_get (fw_conns f') j = None \<and> bt_ok (fw_conns f') \<and>
    (bt_ok (streams (cc_mux core)) \<longrightarrow> bt_ok (streams (cc_mux core')))"
proof (cases "bt_get (fw_conns f) i")
  case (Some c)
  then obtain fin c' where p: "pump_conn (ne_tcp nw) (client_streams i) c core = Some (fin, c', core')"
    "f' = f\<lparr>fw_conns := (if fin then bt_remove i else bt_insert i c') (fw_conns f)\<rparr>"
    using assms(1) by (auto simp: forwarder_pump_one_def split: bind_splits)
  have "i \<noteq> j" using Some assms(2) by auto
  then show ?thesis
    using client_pumped.R_pump_conn [OF p(1)] p(2) assms(2,3) by (auto simp: same_table_def bt_get_remove bt_get_insert)
qed (use assms in \<open>simp add: forwarder_pump_one_def\<close>)

lemma forwarder_pump_view:
  assumes "forwarder_pump nw (f, core) = Some (f', core')" and "bt_get (fw_conns f) j = None" "bt_ok (fw_conns f)"
  shows "client_view j core' = client_view j core" and "bt_ok (streams (cc_mux core)) \<longrightarrow> bt_ok (streams (cc_mux core'))"
proof -
  have "client_view j (snd st') = client_view j (snd st) \<and> (bt_ok (streams (cc_mux (snd st))) \<longrightarrow> bt_ok (streams (cc_mux (snd st'))))"
    if "opt_fold (forwarder_pump_one nw) ks st = Some st'" "bt_get (fw_conns (fst st)) j = None" "bt_ok (fw_conns (fst st))"
    for ks and st st' :: "('a, 'b) forwarder \<times> ('c, 'd, 'e) client_core"
    using that
  proof (induction ks arbitrary: st)
    case (Cons k ks)
    obtain st1 where st1: "forwarder_pump_one nw k st = Some st1" "opt_fold (forwarder_pump_one nw) ks st1 = Some st'"
      using Cons.prems(1) by (auto split: bind_splits)
    then show ?case
      using forwarder_pump_one_view [of nw k "fst st" "snd st" "fst st1" "snd st1" j] Cons.prems(2,3) Cons.IH [OF st1(2)] by simp
  qed simp
  from this [OF assms(1) [unfolded forwarder_pump_def]] assms(2,3)
  show "client_view j core' = client_view j core" "bt_ok (streams (cc_mux core)) \<longrightarrow> bt_ok (streams (cc_mux core'))" by simp_all
qed

text \<open>Sending our input changes nothing of what the command's streams deliver.\<close>

lemma send_stdin_view:
  assumes run: "send_stdin std x core w = (x', core', w')"
  shows "same_table (cm_id x) core core'" and "cm_id x' = cm_id x \<and> cm_err_id x' = cm_err_id x \<and> cm_exit_code x' = cm_exit_code x"
    and "client_view (cm_id x) core = Some s \<Longrightarrow> live_stream acc src s \<Longrightarrow>
      \<exists>s'. client_view (cm_id x) core' = Some s' \<and> live_stream acc src s'"
    and "w' = w \<or> w' = snd (std_in std 16384 w)"
proof -
  let ?i = "cm_id x"
  have cases: "core' = core \<or> core' = cc_stream_close ?i core \<or> (\<exists>d. core' = cc_stream_write ?i d core)"
    using run by (auto simp: send_stdin_def split: if_splits prod.splits stdin_read.splits)
  then show "same_table ?i core core'"
    using client_pumped.R_refl [of ?i core] client_pumped.R_write [of ?i core] client_pumped.R_close [of ?i core]
    by (auto simp: client_streams_def)
  show "cm_id x' = ?i \<and> cm_err_id x' = cm_err_id x \<and> cm_exit_code x' = cm_exit_code x" "w' = w \<or> w' = snd (std_in std 16384 w)"
    using run by (auto simp: send_stdin_def split: if_splits prod.splits stdin_read.splits)
  show "\<exists>s'. client_view ?i core' = Some s' \<and> live_stream acc src s'" if v: "client_view ?i core = Some s" "live_stream acc src s"
  proof -
    have "client_view ?i (cc_stream_close ?i core) = Some (stream_close 0 s)" "client_view ?i (cc_stream_write ?i d core) = Some (stream_write d s)" for d
      using client_stream.close_view [of ?i core] client_stream.write_view [of ?i d core] v(1) by (simp_all add: client_streams_def)
    moreover have "live_stream acc src (stream_close 0 s)" "live_stream acc src (stream_write d s)" for d
      using v(2) by (simp_all add: live_stream_def stream_close_def stream_write_def shown_inv_def)
    ultimately show ?thesis using cases v by auto
  qed
qed

text \<open>After sending, a stream that counts as read to its end was shown whole.\<close>

lemma flushed_shown:
  assumes v: "client_view i core = Some s" "live_stream acc src s" and ok: "bt_ok (streams (cc_mux core))"
    and fin: "cc_stream_recv_finished i core'" and same: "cc_mux core' = cc_mux (snd (client_flush sn core))"
  shows "acc = src"
proof -
  have live: "shown_inv acc src s" "\<not> st_reset s" "Suc (close_ticks s) < CLOSE_GRACE_TICKS" using v(2) by (simp_all add: live_stream_def)
  have "recv_finished s"
    using flush_view [OF v(1) live(2) ok disjI1 [OF live(3)], of sn] fin
    by (auto simp: same cc_stream_recv_finished_def is_recv_finished_def client_view_def recv_finished_def split: option.splits half_state.splits)
  then show ?thesis using shown_inv_full [OF live(1)] by simp
qed

text \<open>
  What is relied on of the standard streams: \<open>outs\<close> and \<open>errs\<close> are what standard output and standard error were
  given. A successful write gives all of its data to its own stream, reading the input gives neither anything.
\<close>

definition honest_std :: "'o std_ops \<Rightarrow> ('o \<Rightarrow> bytes) \<Rightarrow> ('o \<Rightarrow> bytes) \<Rightarrow> bool" where
  "honest_std std outs errs \<longleftrightarrow> honest_out (std_out std) outs \<and> honest_out (std_err std) errs \<and>
     (\<forall>d w. errs (snd (std_out std d w)) = errs w \<and> outs (snd (std_err std d w)) = outs w) \<and>
     (\<forall>n w. outs (snd (std_in std n w)) = outs w \<and> errs (snd (std_in std n w)) = errs w)"

lemma show_output_inv:
  assumes std: "honest_std std outs errs" and run: "show_output std x core w = (True, core', w')"
    and v: "client_view (cm_id x) core = Some s" "live_stream (outs w) src s"
    and e: "cm_err_id x = Some j" "j \<noteq> cm_id x" "client_view j core = Some se" "live_stream (errs w) srcerr se"
    and ok: "bt_ok (streams (cc_mux core))"
  shows "\<exists>s' se'. client_view (cm_id x) core' = Some s' \<and> live_stream (outs w') src s' \<and>
    client_view j core' = Some se' \<and> live_stream (errs w') srcerr se' \<and> bt_ok (streams (cc_mux core'))"
proof -
  obtain core1 w1 where a: "show_stream (std_out std) (cm_id x) core w = (True, core1, w1)"
    and b: "show_stream (std_err std) j core1 w1 = (True, core', w')"
    using run e(1) by (auto simp: show_output_def split: prod.splits bool.splits)
  have out: "honest_out (std_out std) outs" and err: "honest_out (std_err std) errs" using std by (simp_all add: honest_std_def)
  note sa = show_stream_inv [OF a out v]
  have keep: "errs w1 = errs w" "outs w' = outs w1"
    using a b std by (auto simp: show_stream_def honest_std_def split: prod.splits if_splits) (metis snd_conv)+
  have ve: "client_view j core1 = Some se" "live_stream (errs w1) srcerr se"
    using sa(2) e keep(1) by (simp_all add: same_table_def)
  note sb = show_stream_inv [OF b err ve]
  show ?thesis using sa sb keep(2) e(2) ok by (auto simp: same_table_def)
qed

text \<open>C28: the exit code of a remote command is reported only after all of its output. If before the work of an
  iteration our standard output and standard error had been given exactly what the two streams of the command
  delivered, then they still have been given beginnings of what the command printed, and when the exit code is
  reported, it is the one the server sent, and both have been given everything. This is for a command whose standard error
  stream the client has seen, before the grace period for a missing end of a stream is over: otherwise standard error is not
  waited for, and after it a stream counts as read to its end although data is missing.\<close>

theorem exit_code_after_output:
  assumes std: "honest_std std outs errs"
    and v: "client_view (cm_id x) core = Some s" "live_stream (outs w) src s"
    and e: "cm_err_id x = Some j" "j \<noteq> cm_id x" "client_view j core = Some se" "live_stream (errs w) srcerr se"
    and ok: "bt_ok (streams (cc_mux core))" "bt_ok (fw_conns f)"
    and own: "bt_get (fw_conns f) (cm_id x) = None" "bt_get (fw_conns f) j = None"
    and run: "exec_work sn nw std bye due (f, x) core w = Some (r, out, core', w')"
  shows "case r of
      XDone code \<Rightarrow> cm_exit_code x = Some code \<and> outs w' = src \<and> errs w' = srcerr
    | XContinue _ \<Rightarrow> (\<exists>n. outs w' = take n src) \<and> (\<exists>n. errs w' = take n srcerr)
    | XFailed err \<Rightarrow> err = RIo"
proof -
  obtain shown core1 w1 where sh: "show_output std x core w = (shown, core1, w1)" by (cases "show_output std x core w")
  obtain x2 core2 w2 where si: "send_stdin std x core1 w1 = (x2, core2, w2)" by (cases "send_stdin std x core1 w1")
  show ?thesis
  proof (cases shown)
    case True
    then obtain f3 core3 where fp: "forwarder_pump nw (f, core2) = Some (f3, core3)"
      using run sh si by (auto simp: exec_work_def split: bind_splits)
    obtain out1 core4 where fl: "client_flush sn core3 = (out1, core4)" by fastforce
    obtain out2 core5 where ka: "send_keepalive sn due core4 = (out2, core5)" by fastforce
    have res: "w' = w2 \<and> (case command_done x2 core5 of None \<Rightarrow> r = XContinue (f3, x2) | Some code \<Rightarrow> r = XDone code)"
      using run sh True si fp fl ka by (auto simp: exec_work_def split: option.splits prod.splits)
    obtain s1 se1 where 1: "client_view (cm_id x) core1 = Some s1" "live_stream (outs w1) src s1"
      "client_view j core1 = Some se1" "live_stream (errs w1) srcerr se1" "bt_ok (streams (cc_mux core1))"
      using show_output_inv [OF std _ v e ok(1), of core1 w1] sh True by auto
    have w2: "outs w2 = outs w1" "errs w2 = errs w1" using send_stdin_view(4) [OF si] std by (auto simp: honest_std_def)
    obtain s2 where 2: "client_view (cm_id x) core2 = Some s2" "live_stream (outs w2) src s2"
      using send_stdin_view(3) [OF si 1(1,2)] w2 by auto
    have two: "client_view j core2 = Some se1" "bt_ok (streams (cc_mux core2))"
      using send_stdin_view(1) [OF si] 1(3,5) e(2) by (simp_all add: same_table_def)
    note views = forwarder_pump_view(1) [OF fp own(1) ok(2)] forwarder_pump_view(1) [OF fp own(2) ok(2)]
    have ok3: "bt_ok (streams (cc_mux core3))" using forwarder_pump_view(2) [OF fp own(1) ok(2)] two(2) by simp
    have mux: "cc_mux core5 = cc_mux (snd (client_flush sn core3))" using ka fl keepalive_mux [of sn due core4] by simp
    note whole = flushed_shown [OF _ _ ok3 _ mux]
    have beginnings: "(\<exists>n. outs w2 = take n src) \<and> (\<exists>n. errs w2 = take n srcerr)"
      using 2(2) 1(4) w2 by (auto simp: live_stream_def shown_inv_def)
    have "cm_exit_code x = Some code \<and> outs w2 = src \<and> errs w2 = srcerr" if "command_done x2 core5 = Some code" for code
      using that send_stdin_view(2) [OF si] e(1) whole [of "cm_id x" s2 "outs w2" src] whole [of j se1 "errs w2" srcerr]
        2 two 1(4) w2 views
      by (auto simp: command_done_def split: option.splits if_splits)
    then show ?thesis using res beginnings by (auto split: option.splits)
  next
    case False
    then show ?thesis using run sh by (auto simp: exec_work_def)
  qed
qed

text \<open>A demonstration: a command that printed two bytes on each of its streams and ended with status 3.\<close>

definition demo_std :: "(bytes \<times> bytes) std_ops" where
  "demo_std = \<lparr>std_out = (\<lambda>d (o1, o2). (True, o1 @ d, o2)), std_err = (\<lambda>d (o1, o2). (True, o1, o2 @ d)), std_in = (\<lambda>n w. (InEnd, w))\<rparr>"

definition demo_ended :: command where
  "demo_ended = \<lparr>cm_id = 0, cm_err_id = Some 1, cm_exit_code = Some 3, cm_stdin_eof = True\<rparr>"

definition demo_idle :: "(buffer_socket, unit) forwarder" where
  "demo_idle = \<lparr>fw_listeners = [], fw_socks = [], fw_pending = [], fw_conns = []\<rparr>"

definition demo_printed :: "(nat \<times> bytes \<times> bytes option, unit, nat) client_core" where
  "demo_printed = demo_client\<lparr>cc_mux := (mux_new True)\<lparr>streams := [(0, demo_received Exec), (1, demo_received Exec)]\<rparr>\<rparr>"

lemma demo_client_session: "cc_session demo_client = None"
  by (simp add: demo_client_def client_core_new_def handshaker_client_def handshake_new_def write_message_def toy_snow_def rbind_def map_err_def)

lemma demo_read:
  "stream_read (demo_received Exec) = ([7, 8], (demo_received Exec)\<lparr>recv := \<lparr>rdelivered = 2, segs = []\<rparr>\<rparr>)"
  by (simp add: demo_received_def stream_read_def reasm_read_def reasm_insert_def reassembler_new_def reasm_merge_def seg_hits_def copy_slice_def bt_empty_def Let_def)

lemma demo_shown:
  "show_output demo_std demo_ended demo_printed ([], []) =
     (True, demo_printed\<lparr>cc_mux := (cc_mux demo_printed)\<lparr>streams :=
        [(0, (demo_received Exec)\<lparr>recv := \<lparr>rdelivered = 2, segs = []\<rparr>\<rparr>), (1, (demo_received Exec)\<lparr>recv := \<lparr>rdelivered = 2, segs = []\<rparr>\<rparr>)]\<rparr>\<rparr>,
      [7, 8], [7, 8])"
  by (simp add: show_output_def show_stream_def cc_stream_read_def demo_ended_def demo_printed_def mux_read_def demo_read demo_std_def)

lemma demo_printed_run:
  "\<exists>core'. exec_work toy_snow demo_net demo_std [] False (demo_idle, demo_ended) demo_printed ([], []) =
     Some (XDone 3, [], core', [7, 8], [7, 8])"
  by (simp add: exec_work_def demo_shown)
    (simp add: send_stdin_def demo_ended_def forwarder_pump_def demo_idle_def demo_net_def bt_keys_def demo_printed_def client_flush_def
      client_tick_def outgoing_def demo_client_session send_keepalive_def command_done_def cc_stream_recv_finished_def
      is_recv_finished_def recv_finished_def demo_received_def unread_def ack_point_def say_bye_def bye_round_def upt_conv_Cons recv_and_handle_def
      send_bye_def)

theorem exit_code_after_output_witness:
  "\<exists>core'. exec_work toy_snow demo_net demo_std [] False (demo_idle, demo_ended) demo_printed ([], []) =
     Some (XDone 3, [], core', [7, 8], [7, 8]) \<and> cm_exit_code demo_ended = Some 3 \<and> fst ([7, 8], [7, 8]) = [7, 8 :: u8] \<and> snd ([7, 8], [7, 8]) = [7, 8 :: u8]"
proof -
  obtain core' where run: "exec_work toy_snow demo_net demo_std [] False (demo_idle, demo_ended) demo_printed ([], []) =
     Some (XDone 3, [], core', [7, 8], [7, 8])" using demo_printed_run by blast
  have std: "honest_std demo_std fst snd" by (simp add: honest_std_def honest_out_def demo_std_def case_prod_unfold)
  have live: "live_stream [] [7, 8] (demo_received Exec)"
    using demo_received_agrees [of Exec] by (simp add: live_stream_def shown_inv_def) (simp add: demo_received_def stream_state_new_def CLOSE_GRACE_TICKS_def)
  have views: "client_view (cm_id demo_ended) demo_printed = Some (demo_received Exec)" "client_view 1 demo_printed = Some (demo_received Exec)"
    "cm_err_id demo_ended = Some 1" "1 \<noteq> cm_id demo_ended" "bt_ok (streams (cc_mux demo_printed))"
    by (simp_all add: demo_ended_def demo_printed_def client_view_def bt_ok_def)
  have own: "bt_ok (fw_conns demo_idle)" "bt_get (fw_conns demo_idle) (cm_id demo_ended) = None" "bt_get (fw_conns demo_idle) 1 = None"
    by (simp_all add: demo_idle_def bt_ok_def)
  show ?thesis
    using exit_code_after_output [OF std views(1) _ views(3,4,2) _ views(5) own run, of "[7, 8]" "[7, 8]"] live run by auto
qed

end
