(* ===== verification/RustFmt.thy ===== *)
theory RustFmt
  imports RustText
begin

text \<open>
  Formatting and splitting of texts as the command-line programs use them: \<^verbatim>\<open>{n}\<close> of an unsigned number,
  \<^verbatim>\<open>split\<close> at a character, \<^verbatim>\<open>rsplit_once\<close>, \<^verbatim>\<open>join\<close>, \<^verbatim>\<open>contains\<close>, \<^verbatim>\<open>to_lowercase\<close> on ASCII, UTF-8.
\<close>

definition udec :: "nat \<Rightarrow> ustr" where
  "udec n = map unat (dec_digits n)"

definition is_ascii_digit :: "nat \<Rightarrow> bool" where
  "is_ascii_digit c \<longleftrightarrow> 48 \<le> c \<and> c \<le> 57"

fun split_at :: "nat \<Rightarrow> ustr \<Rightarrow> ustr list" where
  "split_at x [] = [[]]"
| "split_at x (c # s) = (if c = x then [] # split_at x s else case split_at x s of p # ps \<Rightarrow> (c # p) # ps | [] \<Rightarrow> [[c]])"

fun join_with :: "nat \<Rightarrow> ustr list \<Rightarrow> ustr" where
  "join_with x [] = []"
| "join_with x [s] = s"
| "join_with x (s # ss) = s @ x # join_with x ss"

definition rsplit_once :: "nat \<Rightarrow> ustr \<Rightarrow> (ustr \<times> ustr) option" where
  "rsplit_once x s = map_option (\<lambda>(l, r). (rev r, rev l)) (split_once_at (\<lambda>c. c = x) (rev s))"

text \<open>The UTF-8 bytes of a text.\<close>

definition utf8_char :: "nat \<Rightarrow> bytes" where
  "utf8_char c =
     (if c < 0x80 then [of_nat c]
      else if c < 0x800 then [of_nat (0xC0 + c div 64), of_nat (0x80 + c mod 64)]
      else if c < 0x10000 then [of_nat (0xE0 + c div 4096), of_nat (0x80 + c div 64 mod 64), of_nat (0x80 + c mod 64)]
      else [of_nat (0xF0 + c div 262144), of_nat (0x80 + c div 4096 mod 64), of_nat (0x80 + c div 64 mod 64), of_nat (0x80 + c mod 64)])"

definition utf8_encode :: "ustr \<Rightarrow> bytes" where
  "utf8_encode s = concat (map utf8_char s)"

fun str_contains :: "ustr \<Rightarrow> ustr \<Rightarrow> bool" where
  "str_contains pat [] \<longleftrightarrow> pat = []"
| "str_contains pat (c # s) \<longleftrightarrow> starts_with pat (c # s) \<or> str_contains pat s"


section \<open>Laws\<close>

lemma unat_digit_range: "is_digit b \<Longrightarrow> is_ascii_digit (unat b)"
  by (simp add: is_digit_def is_ascii_digit_def word_le_nat_alt)

lemma udec_digits: "c \<in> set (udec n) \<Longrightarrow> is_ascii_digit c"
  using dec_digits_digits [of n] unat_digit_range by (auto simp: udec_def)

lemma udec_nonempty [simp]: "udec n \<noteq> []"
  by (simp add: udec_def dec_digits_nonempty)

lemma udec_no_ws: "\<forall>c \<in> set (udec n). \<not> is_ws c"
  using udec_digits by (fastforce simp: is_ascii_digit_def is_ws_def)

lemma parse_u16_udec: "n < 65536 \<Longrightarrow> parse_u16 (udec n) = Some n"
proof -
  assume n: "n < 65536"
  have "c < 128" if "c \<in> set (udec n)" for c using udec_digits [OF that] by (simp add: is_ascii_digit_def)
  moreover have "map of_nat (udec n) = dec_digits n" by (simp add: udec_def comp_def)
  ultimately show ?thesis using parse_uint_dec [OF n] by (simp add: parse_u16_def)
qed

lemma split_at_nonempty [simp]: "split_at x s \<noteq> []"
  by (cases "split_at x s"; cases s) (auto split: if_splits list.splits)

lemma split_at_none: "x \<notin> set s \<Longrightarrow> split_at x s = [s]"
  by (induction s) auto

lemma split_at_append: "x \<notin> set s \<Longrightarrow> split_at x (s @ x # t) = s # split_at x t"
  by (induction s) auto

lemma split_join: "ss \<noteq> [] \<Longrightarrow> \<forall>s \<in> set ss. x \<notin> set s \<Longrightarrow> split_at x (join_with x ss) = ss"
  by (induction x ss rule: join_with.induct) (simp_all add: split_at_none split_at_append)

lemma rsplit_once_Some: "rsplit_once x s = Some (l, r) \<Longrightarrow> s = l @ x # r \<and> x \<notin> set r"
  by (auto simp: rsplit_once_def dest!: split_once_at_Some) (metis append.assoc append_Cons append_Nil rev_append rev_rev_ident rev_singleton_conv rev.simps(2))

lemma rsplit_once_append: "x \<notin> set r \<Longrightarrow> rsplit_once x (l @ x # r) = Some (l, r)"
proof -
  assume "x \<notin> set r"
  then have "split_once_at (\<lambda>c. c = x) (rev r @ x # rev l) = Some (rev r, rev l)" by (intro split_once_at_append) auto
  then show ?thesis by (simp add: rsplit_once_def)
qed

lemma rsplit_once_None: "rsplit_once x s = None \<longleftrightarrow> x \<notin> set s"
  by (auto simp: rsplit_once_def split_once_at_None)

end
