(* ===== verification/Cli.thy ===== *)
theory Cli
  imports Control RustFmt "HOL-Library.Sublist"
begin

text \<open>
  The command line of the client, \<^verbatim>\<open>parse_args\<close> of \<^verbatim>\<open>src/bin/noissh.rs\<close>. The arguments are a list of texts; taking the next one
  from the iterator is passing on the rest of the list. Where the program exits, the result says how; what it
  prints then is not modelled. The size of a local file is a parameter.
\<close>

datatype cli_exit = ExitHelp | ExitVersion | ExitUsage

fun cli_exit_code :: "cli_exit \<Rightarrow> nat" where
  "cli_exit_code ExitHelp = 0"
| "cli_exit_code ExitVersion = 0"
| "cli_exit_code ExitUsage = 2"

record args =
  ag_ssh :: bool
  ag_port :: nat
  ag_target :: "ustr option"
  ag_server_cmd :: ustr
  ag_ssh_args :: "ustr list"
  ag_local_forwards :: "(nat \<times> ustr) list"
  ag_remote_forwards :: "(nat \<times> ustr) list"
  ag_dynamic_forwards :: "(ustr \<times> nat) list"
  ag_transfer :: "(xfer_request \<times> ustr) option"
  ag_forward_agent :: bool
  ag_no_install :: bool
  ag_command :: "ustr list"
  ag_direct :: bool
  ag_server_port :: "nat option"
  ag_verbose :: bool
  ag_forget_host :: "ustr option"
  ag_copy_id :: bool
  ag_no_command :: bool
  ag_null_stdin :: bool
  ag_ssh_config :: "ustr option"


section \<open>Values\<close>

definition parse_forward :: "ustr \<Rightarrow> (nat \<times> ustr) option" where
  "parse_forward s =
     (case split_once_at (\<lambda>c. c = 58) s of
        None \<Rightarrow> None
      | Some (lport, target) \<Rightarrow>
          (case parse_u16 lport of None \<Rightarrow> None | Some port \<Rightarrow> if target = [] then None else Some (port, target)))"

definition parse_dynamic :: "ustr \<Rightarrow> (ustr \<times> nat) option" where
  "parse_dynamic s =
     (case rsplit_once 58 s of
        Some (bind, port) \<Rightarrow> map_option (Pair (if bind \<noteq> [] then bind else uni ''127.0.0.1'')) (parse_u16 port)
      | None \<Rightarrow> map_option (Pair (uni ''127.0.0.1'')) (parse_u16 s))"

text \<open>The value of an option is the next argument, if there is one.\<close>

definition port_value :: "ustr list \<Rightarrow> cli_exit + nat \<times> ustr list" where
  "port_value it =
     (case it of
        s # it' \<Rightarrow> (case parse_u16 s of Some p \<Rightarrow> if p > 0 then Inr (p, it') else Inl ExitUsage | None \<Rightarrow> Inl ExitUsage)
      | [] \<Rightarrow> Inl ExitUsage)"

definition string_value :: "ustr list \<Rightarrow> cli_exit + ustr \<times> ustr list" where
  "string_value it = (case it of s # it' \<Rightarrow> Inr (s, it') | [] \<Rightarrow> Inl ExitUsage)"

text \<open>Two non-empty parts around the first colon of the next argument.\<close>

definition pair_value :: "ustr list \<Rightarrow> cli_exit + (ustr \<times> ustr) \<times> ustr list" where
  "pair_value it =
     (case it of
        s # it' \<Rightarrow>
          (case split_once_at (\<lambda>c. c = 58) s of
             Some (l, r) \<Rightarrow> if l \<noteq> [] \<and> r \<noteq> [] then Inr ((l, r), it') else Inl ExitUsage
           | None \<Rightarrow> Inl ExitUsage)
      | [] \<Rightarrow> Inl ExitUsage)"


section \<open>Single-letter options\<close>

definition SSH_OPTIONS_NOT_PASSED :: "ustr list" where
  "SSH_OPTIONS_NOT_PASSED =
     map uni [''remotecommand'', ''requesttty'', ''sessiontype'', ''localforward'', ''remoteforward'', ''dynamicforward'', ''forwardagent'',
       ''stdinnull'', ''forkafterauthentication'', ''controlmaster'', ''controlpath'', ''controlpersist'']"

definition ssh_option_name :: "ustr \<Rightarrow> ustr" where
  "ssh_option_name opt = to_ascii_lowercase (takeWhile (\<lambda>c. \<not> (c = 61 \<or> is_ws c)) opt)"

definition takes_value :: "nat \<Rightarrow> bool" where
  "takes_value c \<longleftrightarrow> c \<in> set (uni ''LRDbBcEFiJlmope'')"

definition short_flag :: "nat \<Rightarrow> (args \<Rightarrow> args) option" where
  "short_flag c =
     (if [c] = uni ''v'' then Some (\<lambda>a. a\<lparr>ag_verbose := True\<rparr>)
      else if [c] = uni ''A'' then Some (\<lambda>a. a\<lparr>ag_forward_agent := True\<rparr>)
      else if [c] = uni ''N'' then Some (\<lambda>a. a\<lparr>ag_no_command := True\<rparr>)
      else if [c] = uni ''n'' then Some (\<lambda>a. a\<lparr>ag_null_stdin := True\<rparr>)
      else if c \<in> set (uni ''46aCgkKqsTtxXYy'') then Some (\<lambda>a. a)
      else None)"

definition apply_valued_option :: "nat \<Rightarrow> ustr \<Rightarrow> args \<Rightarrow> cli_exit + args" where
  "apply_valued_option c v a =
     (if [c] = uni ''L'' then
        (case parse_forward v of Some spec \<Rightarrow> Inr (a\<lparr>ag_local_forwards := ag_local_forwards a @ [spec]\<rparr>) | None \<Rightarrow> Inl ExitUsage)
      else if [c] = uni ''R'' then
        (case parse_forward v of Some spec \<Rightarrow> Inr (a\<lparr>ag_remote_forwards := ag_remote_forwards a @ [spec]\<rparr>) | None \<Rightarrow> Inl ExitUsage)
      else if [c] = uni ''D'' then
        (case parse_dynamic v of Some spec \<Rightarrow> Inr (a\<lparr>ag_dynamic_forwards := ag_dynamic_forwards a @ [spec]\<rparr>) | None \<Rightarrow> Inl ExitUsage)
      else if [c] = uni ''e'' then Inr a
      else if [c] = uni ''o'' then
        Inr (if ssh_option_name v \<in> set SSH_OPTIONS_NOT_PASSED then a else a\<lparr>ag_ssh_args := ag_ssh_args a @ [uni ''-o'', v]\<rparr>)
      else
        (let a = (if [c] = uni ''F'' then a\<lparr>ag_ssh_config := Some v\<rparr> else a)
         in Inr (a\<lparr>ag_ssh_args := ag_ssh_args a @ [uni ''-'' @ [c], v]\<rparr>)))"

text \<open>The loop over the letters of one argument; a letter that takes a value ends it.\<close>

fun parse_short_options :: "ustr \<Rightarrow> ustr list \<Rightarrow> args \<Rightarrow> cli_exit + args \<times> ustr list" where
  "parse_short_options [] it a = Inr (a, it)"
| "parse_short_options (c # rest) it a =
     (if takes_value c then
        (if rest = [] then
           (case it of
              [] \<Rightarrow> Inl ExitUsage
            | v # it' \<Rightarrow> (case apply_valued_option c v a of Inl x \<Rightarrow> Inl x | Inr a \<Rightarrow> Inr (a, it')))
         else (case apply_valued_option c rest a of Inl x \<Rightarrow> Inl x | Inr a \<Rightarrow> Inr (a, it)))
      else if [c] = uni ''h'' then Inl ExitHelp
      else if [c] = uni ''V'' then Inl ExitVersion
      else case short_flag c of
        Some flag \<Rightarrow> parse_short_options rest it (flag a)
      | None \<Rightarrow> Inl ExitUsage)"


section \<open>The arguments\<close>

text \<open>The options without a value.\<close>

definition long_flag :: "ustr \<Rightarrow> (args \<Rightarrow> args) option" where
  "long_flag arg =
     (if arg = uni ''--ssh'' then Some (\<lambda>a. a\<lparr>ag_ssh := True\<rparr>)
      else if arg = uni ''--direct'' then Some (\<lambda>a. a\<lparr>ag_direct := True\<rparr>)
      else if arg = uni ''--verbose'' then Some (\<lambda>a. a\<lparr>ag_verbose := True\<rparr>)
      else if arg = uni ''--copy-id'' then Some (\<lambda>a. a\<lparr>ag_copy_id := True\<rparr>)
      else if arg = uni ''--no-install'' then Some (\<lambda>a. a\<lparr>ag_no_install := True\<rparr>)
      else if arg = uni ''--forward-agent'' then Some (\<lambda>a. a\<lparr>ag_forward_agent := True\<rparr>)
      else None)"

text \<open>The options with a value, which is the next argument of \<open>it\<close>.\<close>

definition long_valued :: "(ustr \<Rightarrow> nat option) \<Rightarrow> ustr \<Rightarrow> (ustr list \<Rightarrow> args \<Rightarrow> cli_exit + args \<times> ustr list) option" where
  "long_valued file_len arg =
     (if arg = uni ''--forget-host'' then Some (\<lambda>it a. case string_value it of Inl x \<Rightarrow> Inl x | Inr (s, it) \<Rightarrow> Inr (a\<lparr>ag_forget_host := Some s\<rparr>, it))
      else if arg = uni ''--port'' then Some (\<lambda>it a. case port_value it of Inl x \<Rightarrow> Inl x | Inr (p, it) \<Rightarrow> Inr (a\<lparr>ag_port := p\<rparr>, it))
      else if arg = uni ''--server-cmd'' then Some (\<lambda>it a. case string_value it of Inl x \<Rightarrow> Inl x | Inr (s, it) \<Rightarrow> Inr (a\<lparr>ag_server_cmd := s\<rparr>, it))
      else if arg = uni ''--server-port'' then Some (\<lambda>it a. case port_value it of Inl x \<Rightarrow> Inl x | Inr (p, it) \<Rightarrow> Inr (a\<lparr>ag_server_port := Some p\<rparr>, it))
      else if arg = uni ''--put'' then
        Some (\<lambda>it a. case pair_value it of
           Inl x \<Rightarrow> Inl x
         | Inr (v, it) \<Rightarrow>
             Inr (a\<lparr>ag_transfer := Some (case v of (loc, remote) \<Rightarrow> (Put (utf8_encode remote) (case file_len loc of Some n \<Rightarrow> n | None \<Rightarrow> 0), loc))\<rparr>, it))
      else if arg = uni ''--get'' then
        Some (\<lambda>it a. case pair_value it of
           Inl x \<Rightarrow> Inl x
         | Inr (v, it) \<Rightarrow> Inr (a\<lparr>ag_transfer := Some (case v of (remote, loc) \<Rightarrow> (Get (utf8_encode remote), loc))\<rparr>, it))
      else None)"

text \<open>One argument that is not the beginning of the command; \<open>it\<close> are those after it.\<close>

definition parse_option :: "(ustr \<Rightarrow> nat option) \<Rightarrow> ustr \<Rightarrow> ustr list \<Rightarrow> args \<Rightarrow> cli_exit + args \<times> ustr list" where
  "parse_option file_len arg it a =
     (if arg = uni ''--help'' then Inl ExitHelp
      else if arg = uni ''--version'' then Inl ExitVersion
      else case long_flag arg of
        Some flag \<Rightarrow> Inr (flag a, it)
      | None \<Rightarrow>
          (case long_valued file_len arg of
             Some option \<Rightarrow> option it a
           | None \<Rightarrow>
               if arg = uni ''--'' then Inr (a\<lparr>ag_ssh_args := ag_ssh_args a @ it\<rparr>, [])
               else if length arg > 1 \<and> starts_with (uni ''-'') arg \<and> \<not> starts_with (uni ''--'') arg then parse_short_options (tl arg) it a
               else if ag_target a = None \<and> \<not> starts_with (uni ''-'') arg then Inr (a\<lparr>ag_target := Some arg\<rparr>, it)
               else Inl ExitUsage))"

lemma uni_inject [simp]: "uni s = uni t \<longleftrightarrow> s = t"
  by (simp add: uni_def inj_map_eq_map [OF inj_of_char])

lemma starts_with_uni [simp]: "starts_with (uni s) (uni t) \<longleftrightarrow> take (length s) t = s"
proof -
  have "take n (uni t) = uni (take n t)" for n by (simp add: uni_def take_map)
  then show ?thesis by (simp add: starts_with_def) (simp add: uni_def)
qed

text \<open>An option leaves the command and a known host as they are, takes arguments only from the front of those behind it,
  and does not see the rest.\<close>

definition keeps_host :: "args \<Rightarrow> args \<Rightarrow> bool" where
  "keeps_host a a' \<longleftrightarrow> ag_command a' = ag_command a \<and> (ag_target a \<noteq> None \<longrightarrow> ag_target a' \<noteq> None)"

definition well_behaved :: "(ustr list \<Rightarrow> args \<Rightarrow> cli_exit + args \<times> ustr list) \<Rightarrow> bool" where
  "well_behaved p \<longleftrightarrow> (\<forall>it a a' it'. p it a = Inr (a', it') \<longrightarrow>
     keeps_host a a' \<and> suffix it' it \<and> (\<forall>ys. p (it @ ys) a = Inr (a', it' @ ys)))"

lemma valued_keeps: "apply_valued_option c v a = Inr a' \<Longrightarrow> keeps_host a a'"
  by (auto simp: apply_valued_option_def keeps_host_def Let_def split: if_splits option.splits)

lemma short_flag_keeps: "short_flag c = Some flag \<Longrightarrow> keeps_host a (flag a)"
  by (auto simp: short_flag_def keeps_host_def split: if_split_asm)

lemma short_options_behave: "well_behaved (parse_short_options fs)"
proof -
  have "parse_short_options fs it a = Inr (a', it') \<Longrightarrow>
      keeps_host a a' \<and> suffix it' it \<and> (\<forall>ys. parse_short_options fs (it @ ys) a = Inr (a', it' @ ys))" for it a a' it'
  proof (induction fs it a rule: parse_short_options.induct)
    case (2 c rest it a)
    show ?case
    proof (cases "takes_value c")
      case True
      then show ?thesis using "2.prems"
        by (cases "rest = []") (auto split: list.splits sum.splits dest: valued_keeps simp: suffix_Cons)
    next
      case False
      then obtain flag where f: "short_flag c = Some flag" and r: "parse_short_options rest it (flag a) = Inr (a', it')" "[c] \<noteq> uni ''h''" "[c] \<noteq> uni ''V''"
        using "2.prems" by (auto split: if_split_asm option.splits)
      then show ?thesis using False "2.IH" [OF False r(2,3) f r(1)] short_flag_keeps [OF f, of a] by (simp add: keeps_host_def)
    qed
  qed (simp add: keeps_host_def)
  then show ?thesis by (simp add: well_behaved_def)
qed

definition takes_from_front :: "(ustr list \<Rightarrow> cli_exit + 'v \<times> ustr list) \<Rightarrow> bool" where
  "takes_from_front rd \<longleftrightarrow> (\<forall>it v it'. rd it = Inr (v, it') \<longrightarrow> suffix it' it \<and> (\<forall>ys. rd (it @ ys) = Inr (v, it' @ ys)))"

lemma values_from_front: "takes_from_front string_value" "takes_from_front port_value" "takes_from_front pair_value"
  by (auto simp: takes_from_front_def string_value_def port_value_def pair_value_def suffix_Cons split: list.splits option.splits if_splits)

lemma valued_behaves:
  assumes "takes_from_front rd" "\<And>v a. keeps_host a (f v a)"
  shows "well_behaved (\<lambda>it a. case rd it of Inl x \<Rightarrow> Inl x | Inr (v, it) \<Rightarrow> Inr (f v a, it))"
  using assms by (auto simp: well_behaved_def takes_from_front_def split: sum.splits)

lemma long_valued_behaves: "long_valued len arg = Some p \<Longrightarrow> well_behaved p"
  unfolding long_valued_def
  by (simp only: option.inject option.distinct split: if_split_asm)
    (hypsubst, rule valued_behaves [OF values_from_front(1)] valued_behaves [OF values_from_front(2)]
      valued_behaves [OF values_from_front(3)], simp add: keeps_host_def)+

lemma long_flag_keeps: "long_flag arg = Some flag \<Longrightarrow> keeps_host a (flag a)"
  by (auto simp: long_flag_def keeps_host_def split: if_split_asm)

lemma parse_option_behaves:
  assumes "arg \<noteq> uni ''--''"
  shows "well_behaved (parse_option len arg)"
proof (cases "long_flag arg")
  case (Some flag)
  then show ?thesis using long_flag_keeps [OF Some] by (simp add: parse_option_def well_behaved_def)
next
  case flag: None
  show ?thesis
  proof (cases "long_valued len arg")
    case (Some p)
    then show ?thesis using flag long_valued_behaves [OF Some] by (simp add: parse_option_def well_behaved_def)
  next
    case None
    then show ?thesis
      using flag assms short_options_behave [of "tl arg"] by (auto simp: parse_option_def well_behaved_def keeps_host_def)
  qed
qed

lemma dashes_option: "parse_option len (uni ''--'') it a = Inr (a\<lparr>ag_ssh_args := ag_ssh_args a @ it\<rparr>, [])"
  by (simp add: parse_option_def long_flag_def long_valued_def)

lemma option_keeps: "parse_option len arg it a = Inr (a', it') \<Longrightarrow> keeps_host a a' \<and> suffix it' it"
  using parse_option_behaves [of arg len] by (cases "arg = uni ''--''")
    (auto simp: dashes_option well_behaved_def keeps_host_def)

function parse_loop :: "(ustr \<Rightarrow> nat option) \<Rightarrow> ustr list \<Rightarrow> args \<Rightarrow> cli_exit + args" where
  "parse_loop len [] a = Inr a"
| "parse_loop len (arg # it) a =
     (if ag_target a \<noteq> None \<and> arg \<noteq> uni ''--'' then Inr (a\<lparr>ag_command := ag_command a @ arg # it\<rparr>)
      else case parse_option len arg it a of
        Inl x \<Rightarrow> Inl x
      | Inr (a', it') \<Rightarrow> parse_loop len it' a')"
  by pat_completeness auto
termination by (relation "measure (\<lambda>(len, it, a). length it)") (auto dest!: option_keeps suffix_length_le)

declare parse_loop.simps(2) [simp del]

definition args_default :: "nat option \<Rightarrow> args" where
  "args_default port =
     \<lparr>ag_ssh = False, ag_port = (case port of Some p \<Rightarrow> p | None \<Rightarrow> 51820), ag_target = None, ag_server_cmd = uni ''noisshd'', ag_ssh_args = [],
      ag_local_forwards = [], ag_remote_forwards = [], ag_dynamic_forwards = [], ag_transfer = None, ag_forward_agent = False,
      ag_no_install = False, ag_command = [], ag_direct = False, ag_server_port = None, ag_verbose = False, ag_forget_host = None,
      ag_copy_id = False, ag_no_command = False, ag_null_stdin = False, ag_ssh_config = None\<rparr>"

definition parse_args :: "(ustr \<Rightarrow> nat option) \<Rightarrow> nat option \<Rightarrow> ustr list \<Rightarrow> cli_exit + args" where
  "parse_args len cfg_port argv = parse_loop len argv (args_default cfg_port)"


section \<open>Options, host and command\<close>

lemma parse_loop_target: "parse_loop len it a = Inr a' \<Longrightarrow> ag_target a \<noteq> None \<Longrightarrow> ag_target a' \<noteq> None"
  by (induction len it a rule: parse_loop.induct)
    (auto simp: parse_loop.simps(2) keeps_host_def dest!: option_keeps split: if_splits sum.splits)

lemma parse_loop_append:
  assumes "parse_loop len xs a0 = Inr a" "ag_target a = None" "uni ''--'' \<notin> set xs"
  shows "parse_loop len (xs @ ys) a0 = parse_loop len ys a \<and> ag_command a = ag_command a0"
  using assms
proof (induction len xs a0 rule: parse_loop.induct)
  case (2 len arg it a0)
  have none: "ag_target a0 = None" using parse_loop_target [OF "2.prems"(1)] "2.prems"(2) by blast
  then obtain a1 it1 where o: "parse_option len arg it a0 = Inr (a1, it1)" and l: "parse_loop len it1 a1 = Inr a"
    using "2.prems"(1) by (auto simp: parse_loop.simps(2) split: sum.splits)
  have k: "keeps_host a0 a1" "set it1 \<subseteq> set it" using option_keeps [OF o] set_mono_suffix by blast+
  have "parse_loop len (it1 @ ys) a1 = parse_loop len ys a \<and> ag_command a = ag_command a1"
    using "2.IH" [OF _ o refl l "2.prems"(2)] none k(2) "2.prems"(3) by auto
  moreover have "parse_option len arg (it @ ys) a0 = Inr (a1, it1 @ ys)" using parse_option_behaves [of arg len] o "2.prems"(3) by (auto simp: well_behaved_def)
  ultimately show ?case using none k(1) by (simp add: parse_loop.simps(2) keeps_host_def)
qed simp

lemma parse_host:
  assumes "ag_target a = None" "\<not> starts_with (uni ''-'') target"
  shows "parse_loop len (target # rest) a = parse_loop len rest (a\<lparr>ag_target := Some target\<rparr>)"
proof -
  have w: "target \<noteq> uni w" if "take 1 w = ''-''" for w using that assms(2) starts_with_uni [of "''-''" w] by auto
  have "parse_option len target rest a = Inr (a\<lparr>ag_target := Some target\<rparr>, rest)"
    by (simp add: parse_option_def long_flag_def long_valued_def w assms)
  then show ?thesis using assms(1) by (simp add: parse_loop.simps(2))
qed

text \<open>C36: everything behind the host is the command, word for word. When a line of options is understood on its own, then
  followed by a host and a command it is understood as these options, this host and exactly this command,
  whatever options the words of the command look like; and followed by a host, \<^verbatim>\<open>--\<close> and further words, exactly
  these words are added to the arguments of \<^verbatim>\<open>ssh\<close> and there is no command.\<close>

theorem command_passed_verbatim:
  assumes "parse_args len cfg opts = Inr a" "ag_target a = None" "uni ''--'' \<notin> set opts"
    and "\<not> starts_with (uni ''-'') target"
  shows "(take 1 cmd \<noteq> [uni ''--''] \<longrightarrow> parse_args len cfg (opts @ target # cmd) = Inr (a\<lparr>ag_target := Some target, ag_command := cmd\<rparr>)) \<and>
    parse_args len cfg (opts @ target # uni ''--'' # words) = Inr (a\<lparr>ag_target := Some target, ag_ssh_args := ag_ssh_args a @ words\<rparr>)"
proof -
  have p: "parse_args len cfg (opts @ target # ys) = parse_loop len ys (a\<lparr>ag_target := Some target\<rparr>)" for ys
    using parse_loop_append [OF assms(1) [unfolded parse_args_def] assms(2,3)] parse_host [OF assms(2,4)] by (simp add: parse_args_def)
  have c: "ag_command a = []"
    using parse_loop_append [OF assms(1) [unfolded parse_args_def] assms(2,3), of "[]"] by (simp add: args_default_def)
  have "parse_loop len cmd (a\<lparr>ag_target := Some target\<rparr>) = Inr (a\<lparr>ag_target := Some target, ag_command := cmd\<rparr>)" if "take 1 cmd \<noteq> [uni ''--'']"
    using that c by (cases cmd; cases a) (simp_all add: parse_loop.simps(2))
  moreover have "parse_loop len (uni ''--'' # words) (a\<lparr>ag_target := Some target\<rparr>) = Inr (a\<lparr>ag_target := Some target, ag_ssh_args := ag_ssh_args a @ words\<rparr>)"
    by (simp add: parse_loop.simps(2) dashes_option)
  ultimately show ?thesis using p by simp
qed

theorem command_passed_verbatim_witness:
  "parse_args (\<lambda>_. None) None (map uni [''--ssh'', ''-N'', ''u@h'', ''ls'', ''-l'', ''--'', ''--ssh'']) =
     Inr ((args_default None)\<lparr>ag_ssh := True, ag_no_command := True, ag_target := Some (uni ''u@h''), ag_command := map uni [''ls'', ''-l'', ''--'', ''--ssh'']\<rparr>)"
proof -
  have n: "tl (uni ''-N'') = uni ''N''" "length (uni ''-N'') = 2" by (simp_all add: uni_def)
  have N: "parse_short_options (uni ''N'') it a = Inr (a\<lparr>ag_no_command := True\<rparr>, it)" for it a
    by (simp add: uni_def takes_value_def short_flag_def)
  have "parse_args (\<lambda>_. None) None (map uni [''--ssh'', ''-N'']) = Inr ((args_default None)\<lparr>ag_ssh := True, ag_no_command := True\<rparr>)"
    by (simp add: parse_args_def parse_loop.simps(2) parse_option_def long_flag_def long_valued_def n N) (simp add: args_default_def)
  then show ?thesis
    using command_passed_verbatim [of "\<lambda>_. None" None "map uni [''--ssh'', ''-N'']" _ "uni ''u@h''" "map uni [''ls'', ''-l'', ''--'', ''--ssh'']"]
    by (auto simp: args_default_def)
qed


section \<open>What is passed on to ssh\<close>

definition passed_option :: "nat \<times> ustr \<Rightarrow> bool" where
  "passed_option = (\<lambda>(c, v). c \<in> set (uni ''bBcEFiJlmop'') \<and> ([c] = uni ''o'' \<longrightarrow> ssh_option_name v \<notin> set SSH_OPTIONS_NOT_PASSED))"

definition option_words :: "(nat \<times> ustr) list \<Rightarrow> ustr list" where
  "option_words ps = concat (map (\<lambda>(c, v). [uni ''-'' @ [c], v]) ps)"

definition harmless_ssh_args :: "args \<Rightarrow> bool" where
  "harmless_ssh_args a \<longleftrightarrow> (\<exists>ps. ag_ssh_args a = option_words ps \<and> list_all passed_option ps)"

lemma harmless_add:
  assumes "harmless_ssh_args a" "passed_option (c, v)" "ag_ssh_args a' = ag_ssh_args a @ [uni ''-'' @ [c], v]"
  shows "harmless_ssh_args a'"
proof -
  obtain ps where "ag_ssh_args a = option_words ps" "list_all passed_option ps" using assms(1) by (auto simp: harmless_ssh_args_def)
  then show ?thesis using assms(2,3)
    by (auto simp: harmless_ssh_args_def option_words_def intro!: exI [of _ "ps @ [(c, v)]"])
qed

lemma harmless_same: "harmless_ssh_args a \<Longrightarrow> ag_ssh_args a' = ag_ssh_args a \<Longrightarrow> harmless_ssh_args a'"
  by (simp add: harmless_ssh_args_def)

lemma harmless_valued:
  assumes "apply_valued_option c v a = Inr a'" "takes_value c" "harmless_ssh_args a"
  shows "harmless_ssh_args a'"
proof (cases "[c] \<in> {uni ''L'', uni ''R'', uni ''D'', uni ''e''} \<or> [c] = uni ''o'' \<and> ssh_option_name v \<in> set SSH_OPTIONS_NOT_PASSED")
  case True
  then show ?thesis
    using assms(1,3) by (auto simp: apply_valued_option_def split: option.splits if_split_asm intro: harmless_same)
next
  case False
  then have "ag_ssh_args a' = ag_ssh_args a @ [uni ''-'' @ [c], v]"
    using assms(1) by (auto simp: apply_valued_option_def Let_def uni_def split: if_split_asm)
  moreover have "passed_option (c, v)" using False assms(2) by (auto simp: passed_option_def takes_value_def uni_def)
  ultimately show ?thesis using harmless_add [OF assms(3)] by blast
qed

lemma flags_keep_ssh: "short_flag c = Some flag \<Longrightarrow> ag_ssh_args (flag a) = ag_ssh_args a" "long_flag arg = Some flag \<Longrightarrow> ag_ssh_args (flag a) = ag_ssh_args a"
  by (auto simp: short_flag_def long_flag_def split: if_split_asm)

lemma harmless_short:
  "parse_short_options fs it a = Inr (a', it') \<Longrightarrow> harmless_ssh_args a \<Longrightarrow> harmless_ssh_args a'"
proof (induction fs it a rule: parse_short_options.induct)
  case (2 c rest it a)
  show ?case
  proof (cases "takes_value c")
    case True
    then show ?thesis using "2.prems" harmless_valued [OF _ True "2.prems"(2)]
      by (cases "rest = []") (auto split: list.splits sum.splits)
  next
    case False
    then obtain flag where f: "short_flag c = Some flag" and r: "parse_short_options rest it (flag a) = Inr (a', it')" "[c] \<noteq> uni ''h''" "[c] \<noteq> uni ''V''"
      using "2.prems"(1) by (auto split: if_split_asm option.splits)
    then show ?thesis using "2.IH" [OF False r(2,3) f r(1)] harmless_same [OF "2.prems"(2) flags_keep_ssh(1) [OF f]] by blast
  qed
qed simp

lemma valued_keeps_ssh:
  assumes "(\<lambda>it a. case rd it of Inl x \<Rightarrow> Inl x | Inr (v, it) \<Rightarrow> Inr (f v a, it)) = p" "p it a = Inr (a', it')"
    and "\<And>v a. ag_ssh_args (f v a) = ag_ssh_args a"
  shows "ag_ssh_args a' = ag_ssh_args a"
  using assms by (auto split: sum.splits prod.splits)

lemma long_valued_keeps_ssh: "long_valued len arg = Some p \<Longrightarrow> p it a = Inr (a', it') \<Longrightarrow> ag_ssh_args a' = ag_ssh_args a"
  unfolding long_valued_def
  by (simp only: option.inject option.distinct split: if_split_asm) (erule (1) valued_keeps_ssh, simp)+

lemma harmless_option:
  assumes "parse_option len arg it a = Inr (a', it')" "arg \<noteq> uni ''--''" "harmless_ssh_args a"
  shows "harmless_ssh_args a'"
proof (cases "long_flag arg")
  case (Some flag)
  then show ?thesis using assms(1) harmless_same [OF assms(3) flags_keep_ssh(2) [OF Some]] by (auto simp: parse_option_def split: if_split_asm)
next
  case flag: None
  show ?thesis
  proof (cases "long_valued len arg")
    case (Some p)
    then show ?thesis using assms(1) flag harmless_same [OF assms(3) long_valued_keeps_ssh [OF Some]]
      by (auto simp: parse_option_def split: if_split_asm)
  next
    case None
    then show ?thesis using assms flag harmless_short [of "tl arg" it a a' it']
      by (auto simp: parse_option_def intro: harmless_same split: if_split_asm)
  qed
qed

lemma harmless_loop:
  "parse_loop len it a = Inr a' \<Longrightarrow> uni ''--'' \<notin> set it \<Longrightarrow> harmless_ssh_args a \<Longrightarrow> harmless_ssh_args a'"
proof (induction len it a rule: parse_loop.induct)
  case (2 len arg it a)
  show ?case
  proof (cases "ag_target a = None")
    case False
    then show ?thesis using "2.prems" by (auto simp: parse_loop.simps(2) intro: harmless_same split: if_split_asm)
  next
    case True
    then obtain a1 it1 where o: "parse_option len arg it a = Inr (a1, it1)" and l: "parse_loop len it1 a1 = Inr a'"
      using "2.prems"(1) by (auto simp: parse_loop.simps(2) split: sum.splits)
    have "harmless_ssh_args a1" using harmless_option [OF o _ "2.prems"(3)] "2.prems"(2) by auto
    moreover have "uni ''--'' \<notin> set it1" using "2.prems"(2) option_keeps [OF o] set_mono_suffix by fastforce
    ultimately show ?thesis using "2.IH" [OF _ o refl l] True by auto
  qed
qed simp

text \<open>Options for the session do not leak into the bootstrap. Unless the user passes arguments to \<^verbatim>\<open>ssh\<close> behind \<^verbatim>\<open>--\<close>, what \<^verbatim>\<open>ssh\<close> is
  given consists of options from a fixed list of letters, each with its value, and no \<^verbatim>\<open>-o\<close> among them sets what
  the client provides itself, in whatever case it is written.\<close>

theorem ssh_args_are_options:
  assumes "parse_args len cfg argv = Inr a" "uni ''--'' \<notin> set argv"
  shows "\<exists>ps. ag_ssh_args a = option_words ps \<and> list_all passed_option ps"
proof -
  have "harmless_ssh_args (args_default cfg)" by (auto simp: harmless_ssh_args_def args_default_def option_words_def intro!: exI [of _ "[]"])
  then show ?thesis using harmless_loop [OF assms(1) [unfolded parse_args_def] assms(2)] by (simp add: harmless_ssh_args_def)
qed

theorem ssh_args_are_options_witness:
  "\<exists>a ps. parse_args (\<lambda>_. None) None (map uni [''-p'', ''22'', ''h'']) = Inr a \<and> ag_ssh_args a = option_words ps \<and> list_all passed_option ps"
proof -
  have n: "tl (uni ''-p'') = uni ''p''" "length (uni ''-p'') = 2" by (simp_all add: uni_def)
  have p: "parse_short_options (uni ''p'') (v # it) a = Inr (a\<lparr>ag_ssh_args := ag_ssh_args a @ [uni ''-p'', v]\<rparr>, it)" for v it a
    by (simp add: uni_def takes_value_def apply_valued_option_def)
  have o: "parse_option len (uni ''-p'') (v # it) a = Inr (a\<lparr>ag_ssh_args := ag_ssh_args a @ [uni ''-p'', v]\<rparr>, it)" for len v it a
    by (simp add: parse_option_def long_flag_def long_valued_def n p)
  have "\<exists>a. parse_args (\<lambda>_. None) None (map uni [''-p'', ''22'', ''h'']) = Inr a"
    by (simp add: parse_args_def parse_loop.simps(2) [of _ "uni ''-p''"] o parse_host args_default_def)
  then obtain a where "parse_args (\<lambda>_. None) None (map uni [''-p'', ''22'', ''h'']) = Inr a" by blast
  then show ?thesis using ssh_args_are_options [of "\<lambda>_. None" None "map uni [''-p'', ''22'', ''h'']" a] by auto
qed

end
