(* ===== verification/Config.thy ===== *)
theory Config
  imports Files Runtime RustFmt
begin

text \<open>
  The configuration directory, \<^verbatim>\<open>src/config.rs\<close>: the key files, the pinned hosts, the authorized keys and the settings.
  Parameters are the file system \<open>'f\<close> as far as it is used here, the environment, base64 and the key library. The
  warnings on standard error are not modelled.
\<close>

section \<open>The file system\<close>

datatype read_text = Text ustr | Missing | Unreadable

text \<open>Reading gives the text of a file (\<^verbatim>\<open>fs::read_to_string\<close>); writing goes to the file that was created before. The
  boolean is success.\<close>

record 'f text_store =
  ts_exists :: "path \<Rightarrow> 'f \<Rightarrow> bool"
  ts_read :: "path \<Rightarrow> 'f \<Rightarrow> read_text"
  ts_mode :: "path \<Rightarrow> 'f \<Rightarrow> nat option"
  ts_chmod :: "path \<Rightarrow> nat \<Rightarrow> 'f \<Rightarrow> 'f"
  ts_create_new :: "nat \<Rightarrow> path \<Rightarrow> 'f \<Rightarrow> bool \<times> 'f"
  ts_create :: "path \<Rightarrow> 'f \<Rightarrow> bool \<times> 'f"
  ts_write_all :: "path \<Rightarrow> ustr \<Rightarrow> 'f \<Rightarrow> bool \<times> 'f"
  ts_sync :: "path \<Rightarrow> 'f \<Rightarrow> bool \<times> 'f"
  ts_rename :: "path \<Rightarrow> path \<Rightarrow> 'f \<Rightarrow> bool \<times> 'f"
  ts_remove :: "path \<Rightarrow> 'f \<Rightarrow> 'f"
  ts_mkdirs :: "path \<Rightarrow> 'f \<Rightarrow> bool \<times> 'f"

text \<open>A chain of calls with \<^verbatim>\<open>?\<close> after each: the first failure ends it.\<close>

fun run_all :: "('f \<Rightarrow> bool \<times> 'f) list \<Rightarrow> 'f \<Rightarrow> bool \<times> 'f" where
  "run_all [] f = (True, f)"
| "run_all (op # ops) f = (case op f of (True, f') \<Rightarrow> run_all ops f' | (False, f') \<Rightarrow> (False, f'))"

definition path_join :: "bytes \<Rightarrow> bytes \<Rightarrow> bytes" where
  "path_join a b = (if take 1 b = [47] then b else if a = [] \<or> last a = 47 then a @ b else a @ 47 # b)"

definition path_parent :: "path \<Rightarrow> path option" where
  "path_parent p = (if path_comps p = [] then None else Some (Path (path_root p) (butlast (path_comps p))))"

definition config_dir :: "bytes option \<Rightarrow> bytes option \<Rightarrow> bytes" where
  "config_dir xdg home =
     (case xdg of
        Some x \<Rightarrow> if x \<noteq> [] then path_join x (asc ''noissh'') else path_join (path_join (case home of Some h \<Rightarrow> h | None \<Rightarrow> asc ''.'') (asc ''.config'')) (asc ''noissh'')
      | None \<Rightarrow> path_join (path_join (case home of Some h \<Rightarrow> h | None \<Rightarrow> asc ''.'') (asc ''.config'')) (asc ''noissh''))"

definition public_key_path :: "bytes \<Rightarrow> bytes" where
  "public_key_path p = p @ asc ''.pub''"

definition temp_name :: "nat \<Rightarrow> bytes \<Rightarrow> bytes" where
  "temp_name pid p = p @ asc ''.tmp-'' @ dec_digits pid"


section \<open>Private files\<close>

text \<open>\<^verbatim>\<open>0o600\<close> and \<^verbatim>\<open>0o077\<close>.\<close>

definition PRIVATE_MODE :: nat where
  "PRIVATE_MODE = 384"

definition write_private :: "'f text_store \<Rightarrow> bytes \<Rightarrow> ustr \<Rightarrow> 'f \<Rightarrow> bool \<times> 'f" where
  "write_private st p body =
     run_all [ts_create_new st PRIVATE_MODE (path_from p), ts_write_all st (path_from p) body, ts_sync st (path_from p)]"

definition rewrite_private :: "'f text_store \<Rightarrow> nat \<Rightarrow> bytes \<Rightarrow> ustr \<Rightarrow> 'f \<Rightarrow> bool \<times> 'f" where
  "rewrite_private st pid p body f =
     (let tmp = temp_name pid p;
          f = ts_remove st (path_from tmp) f
      in case run_all [write_private st tmp body, ts_rename st (path_from tmp) (path_from p)] f of
           (True, f) \<Rightarrow> (True, f)
         | (False, f) \<Rightarrow> (False, ts_remove st (path_from tmp) f))"

definition tighten_if_loose :: "'f text_store \<Rightarrow> bytes \<Rightarrow> 'f \<Rightarrow> 'f" where
  "tighten_if_loose st p f =
     (case ts_mode st (path_from p) f of
        Some m \<Rightarrow> if m AND 63 \<noteq> 0 then ts_chmod st (path_from p) PRIVATE_MODE f else f
      | None \<Rightarrow> f)"


section \<open>Key files\<close>

record keypair =
  kp_private :: bytes
  kp_public :: bytes

text \<open>The key library and what the programs take from their environment.\<close>

record key_env =
  ke_b64e :: "bytes \<Rightarrow> ustr"
  ke_b64d :: "ustr \<Rightarrow> bytes option"
  ke_public :: "bytes \<Rightarrow> bytes option"
  ke_generate :: "noise_error + keypair"
  ke_pid :: nat
  ke_user :: "ustr option"
  ke_logname :: "ustr option"
  ke_host :: "ustr option"

definition private_key_text :: "key_env \<Rightarrow> keypair \<Rightarrow> ustr" where
  "private_key_text e kp = uni ''private '' @ ke_b64e e (kp_private kp) @ [10]"

definition key_comment :: "key_env \<Rightarrow> ustr" where
  "key_comment e =
     (let user = (case ke_user e of Some u \<Rightarrow> u | None \<Rightarrow> (case ke_logname e of Some u \<Rightarrow> u | None \<Rightarrow> []));
          host = (case ke_host e of Some h \<Rightarrow> h | None \<Rightarrow> [])
      in if user \<noteq> [] \<and> host \<noteq> [] then user @ uni ''@'' @ host
         else if user \<noteq> [] then user else if host \<noteq> [] then host else [])"

text \<open>The public half of the identity, written beside it when there is none. A file that exists is left alone, whatever it holds:
  \<^verbatim>\<open>ensure_public_key_file\<close> compares it with the key only to print a warning on standard error, which is not modelled.\<close>

definition ensure_public_key_file :: "'f text_store \<Rightarrow> key_env \<Rightarrow> bytes \<Rightarrow> keypair \<Rightarrow> 'f \<Rightarrow> 'f" where
  "ensure_public_key_file st e p kp f =
     (case key_from_bytes (kp_public kp) of
        Inl _ \<Rightarrow> f
      | Inr public \<Rightarrow>
          (let pub_path = path_from (public_key_path p)
           in case ts_read st pub_path f of
                Text existing \<Rightarrow> f
              | Missing \<Rightarrow>
                  (let comment = key_comment e;
                       line = (if comment = [] then key_to_text (ke_b64e e) public @ [10]
                               else key_to_text (ke_b64e e) public @ 32 # comment @ [10])
                   in snd (run_all [ts_create st pub_path, ts_write_all st pub_path line] f))
              | Unreadable \<Rightarrow> f))"

text \<open>The lines of a key file: \<open>private\<close> and, in a file of an older version, \<open>public\<close>.\<close>

fun key_lines :: "(ustr \<Rightarrow> bytes option) \<Rightarrow> ustr list \<Rightarrow> bytes option \<times> bytes option \<Rightarrow> runtime_error + (bytes option \<times> bytes option)" where
  "key_lines b64d [] acc = Inr acc"
| "key_lines b64d (line # ls) acc =
     (case split_whitespace line of
        w # b64 # _ \<Rightarrow>
          if w = uni ''private'' then
            (case b64d b64 of None \<Rightarrow> Inl RBadKeyFile | Some k \<Rightarrow> key_lines b64d ls (Some k, snd acc))
          else if w = uni ''public'' then
            (case b64d b64 of None \<Rightarrow> Inl RBadKeyFile | Some k \<Rightarrow> key_lines b64d ls (fst acc, Some k))
          else key_lines b64d ls acc
      | _ \<Rightarrow> key_lines b64d ls acc)"

text \<open>The key pair of a key file; the boolean says that the file is of an older version.\<close>

definition parse_key_file :: "key_env \<Rightarrow> ustr \<Rightarrow> runtime_error + keypair \<times> bool" where
  "parse_key_file e contents =
     (case key_lines (ke_b64d e) (str_lines contents) (None, None) of
        Inl err \<Rightarrow> Inl err
      | Inr (None, _) \<Rightarrow> Inl RBadKeyFile
      | Inr (Some private, legacy_public) \<Rightarrow>
          (case ke_public e private of
             None \<Rightarrow> Inl RBadKeyFile
           | Some public \<Rightarrow>
               if legacy_public \<noteq> None \<and> legacy_public \<noteq> Some public then Inl RBadKeyFile
               else Inr (\<lparr>kp_private = private, kp_public = public\<rparr>, legacy_public \<noteq> None)))"

definition load_or_generate_keypair :: "'f text_store \<Rightarrow> key_env \<Rightarrow> bytes \<Rightarrow> 'f \<Rightarrow> (runtime_error + keypair) \<times> 'f" where
  "load_or_generate_keypair st e p f =
     (if ts_exists st (path_from p) f then
        (let f = tighten_if_loose st p f
         in case ts_read st (path_from p) f of
              Text contents \<Rightarrow>
                (case parse_key_file e contents of
                   Inl err \<Rightarrow> (Inl err, f)
                 | Inr (kp, legacy) \<Rightarrow>
                     (let f = (if legacy then snd (rewrite_private st (ke_pid e) p (private_key_text e kp) f) else f)
                      in (Inr kp, ensure_public_key_file st e p kp f)))
            | _ \<Rightarrow> (Inl RIo, f))
      else
        (case ke_generate e of
           Inl err \<Rightarrow> (Inl (RNoise err), f)
         | Inr kp \<Rightarrow>
             (case run_all ((case path_parent (path_from p) of Some parent \<Rightarrow> [ts_mkdirs st parent] | None \<Rightarrow> []) @
                   [write_private st p (private_key_text e kp)]) f of
                (True, f) \<Rightarrow> (Inr kp, ensure_public_key_file st e p kp f)
              | (False, f) \<Rightarrow> (Inl RIo, f))))"


section \<open>Pinned hosts and authorized keys\<close>

definition load_known_hosts :: "'f text_store \<Rightarrow> (ustr \<Rightarrow> bytes option) \<Rightarrow> bytes \<Rightarrow> 'f \<Rightarrow> runtime_error + known_hosts" where
  "load_known_hosts st b64d p f =
     (if ts_exists st (path_from p) f then
        (case ts_read st (path_from p) f of Text t \<Rightarrow> Inr (kh_parse b64d t) | _ \<Rightarrow> Inl RIo)
      else Inr kh_new)"

definition save_steps :: "'f text_store \<Rightarrow> (bytes \<Rightarrow> ustr) \<Rightarrow> nat \<Rightarrow> bytes \<Rightarrow> known_hosts \<Rightarrow> ('f \<Rightarrow> bool \<times> 'f) list" where
  "save_steps st b64e pid p kh =
     (let tmp = path_from (temp_name pid p)
      in (case path_parent (path_from p) of Some parent \<Rightarrow> [ts_mkdirs st parent] | None \<Rightarrow> []) @
         [ts_create st tmp, ts_write_all st tmp (kh_to_text b64e kh), ts_sync st tmp, ts_rename st tmp (path_from p)])"

definition save_known_hosts :: "'f text_store \<Rightarrow> (bytes \<Rightarrow> ustr) \<Rightarrow> nat \<Rightarrow> bytes \<Rightarrow> known_hosts \<Rightarrow> 'f \<Rightarrow> (runtime_error + unit) \<times> 'f" where
  "save_known_hosts st b64e pid p kh f =
     (case run_all (save_steps st b64e pid p kh) f of (ok, f') \<Rightarrow> (if ok then Inr () else Inl RIo, f'))"

definition load_authorized_keys :: "'f text_store \<Rightarrow> (ustr \<Rightarrow> bytes option) \<Rightarrow> bytes \<Rightarrow> 'f \<Rightarrow> runtime_error + authorized_keys" where
  "load_authorized_keys st b64d p f =
     (if ts_exists st (path_from p) f then
        (case ts_read st (path_from p) f of Text t \<Rightarrow> Inr (ak_parse b64d t) | _ \<Rightarrow> Inl RIo)
      else Inr \<lparr>ak_keys = []\<rparr>)"


section \<open>Settings\<close>

definition config_file_path :: "bytes \<Rightarrow> bytes" where
  "config_file_path dir = path_join dir (asc ''config'')"

record config =
  cfg_port :: "nat option"

definition config_line :: "ustr \<Rightarrow> config \<Rightarrow> config" where
  "config_line raw cfg =
     (let line = trim raw
      in if line = [] \<or> starts_with (uni ''#'') line then cfg
         else case (case split_once_at (\<lambda>c. c = 61) line of
                      Some (k, v) \<Rightarrow> Some (trim k, trim v)
                    | None \<Rightarrow> (case split_once_at is_ws line of Some (k, v) \<Rightarrow> Some (trim k, trim v) | None \<Rightarrow> None)) of
           None \<Rightarrow> cfg
         | Some (key, val) \<Rightarrow>
             if val = [] then cfg
             else if key = uni ''port'' then (case parse_u16 val of Some p \<Rightarrow> cfg\<lparr>cfg_port := Some p\<rparr> | None \<Rightarrow> cfg)
             else cfg)"

definition load_config :: "'f text_store \<Rightarrow> bytes \<Rightarrow> 'f \<Rightarrow> config" where
  "load_config st p f =
     (case ts_read st (path_from p) f of
        Text contents \<Rightarrow> fold config_line (str_lines contents) \<lparr>cfg_port = None\<rparr>
      | _ \<Rightarrow> \<lparr>cfg_port = None\<rparr>)"


section \<open>Names beside a file\<close>

lemma split_slash_nonempty: "split_slash acc bs \<noteq> []"
  by (induction acc bs rule: split_slash.induct) simp_all

lemma split_slash_suffix:
  "47 \<notin> set s \<Longrightarrow> split_slash acc (bs @ s) = butlast (split_slash acc bs) @ [last (split_slash acc bs) @ s]"
proof (induction acc bs rule: split_slash.induct)
  case (1 acc)
  have "split_slash acc s = [acc @ s]" using 1 by (induction s arbitrary: acc) auto
  then show ?case by simp
qed (auto simp: split_slash_nonempty)

text \<open>A name with a suffix that is no component of its own names another file.\<close>

lemma suffix_names_other:
  assumes "47 \<notin> set s" "3 \<le> length s"
  shows "path_from (p @ s) \<noteq> path_from p"
proof -
  define l where "l = last (split_slash [] p)"
  define A where "A = map path_component (filter (\<lambda>c. c \<noteq> []) (butlast (split_slash [] p)))"
  have segs: "split_slash [] p = butlast (split_slash [] p) @ [l]" by (simp add: l_def split_slash_nonempty)
  have other: "path_component (l @ s) = Normal (l @ s)" using assms(2) by (auto simp: path_component_def asc_def dest: arg_cong [where f = length])
  have ls: "l @ s \<noteq> []" using assms(2) by auto
  let ?Y = "if l = [] then [] else [path_component l]"
  have cs: "map path_component (filter (\<lambda>c. c \<noteq> []) (split_slash [] p)) = A @ ?Y"
    by (subst segs) (simp add: A_def)
  have cs': "map path_component (filter (\<lambda>c. c \<noteq> []) (split_slash [] (p @ s))) = A @ [Normal (l @ s)]"
    using ls other by (simp add: split_slash_suffix [OF assms(1)] A_def l_def)
  have root: "take 1 (p @ s) = [47] \<longleftrightarrow> take 1 p = [47]" using assms by (cases p; cases s) auto
  have "path_component l \<noteq> Normal (l @ s)" using assms(2) by (auto simp: path_component_def)
  then show ?thesis
    unfolding path_from_def Let_def cs cs' root
    by (cases A) (auto dest: arg_cong [where f = length])
qed

lemma temp_name_other: "path_from (temp_name pid p) \<noteq> path_from p"
proof -
  have "47 \<notin> set (dec_digits pid)" using dec_digits_digits [of pid] by (auto simp: is_digit_def)
  then show ?thesis unfolding temp_name_def by (intro suffix_names_other) (auto simp: asc_def)
qed

lemma public_key_path_other: "path_from (public_key_path p) \<noteq> path_from p"
  unfolding public_key_path_def by (intro suffix_names_other) (auto simp: asc_def)


section \<open>What is relied on of the file system\<close>

definition honest_store :: "'f text_store \<Rightarrow> ('f \<Rightarrow> path \<Rightarrow> ustr option) \<Rightarrow> ('f \<Rightarrow> path \<Rightarrow> nat) \<Rightarrow> bool" where
  "honest_store st content mode \<longleftrightarrow>
     (\<forall>p f. ts_exists st p f = (content f p \<noteq> None)) \<and>
     (\<forall>p f. case content f p of None \<Rightarrow> ts_read st p f = Missing | Some t \<Rightarrow> ts_read st p f \<in> {Text t, Unreadable}) \<and>
     (\<forall>m p f f'. ts_create_new st m p f = (True, f') \<longrightarrow>
        content f p = None \<and> content f' = (content f)(p \<mapsto> []) \<and> mode f' = (mode f)(p := m)) \<and>
     (\<forall>m p f f'. ts_create_new st m p f = (False, f') \<longrightarrow> content f' = content f) \<and>
     (\<forall>p f f'. ts_create st p f = (True, f') \<longrightarrow> content f' = (content f)(p \<mapsto> []) \<and> (\<forall>q. q \<noteq> p \<longrightarrow> mode f' q = mode f q)) \<and>
     (\<forall>p f f'. ts_create st p f = (False, f') \<longrightarrow> content f' = content f \<and> mode f' = mode f) \<and>
     (\<forall>p t f ok f'. ts_write_all st p t f = (ok, f') \<longrightarrow> mode f' = mode f \<and> (\<forall>q. q \<noteq> p \<longrightarrow> content f' q = content f q) \<and>
        (ok \<longrightarrow> content f' p = map_option (\<lambda>c. c @ t) (content f p))) \<and>
     (\<forall>p f. content (snd (ts_sync st p f)) = content f \<and> mode (snd (ts_sync st p f)) = mode f) \<and>
     (\<forall>p q f f'. ts_rename st p q f = (True, f') \<longrightarrow> content f p \<noteq> None \<and> content f' = (content f)(p := None, q := content f p)) \<and>
     (\<forall>p q f f'. ts_rename st p q f = (False, f') \<longrightarrow> content f' = content f) \<and>
     (\<forall>p f. content (snd (ts_mkdirs st p f)) = content f) \<and>
     (\<forall>p m f. content (ts_chmod st p m f) = content f)"

lemma honest_store_read:
  assumes "honest_store st content mode"
  shows "ts_exists st p f = (content f p \<noteq> None)" and "content f p = None \<Longrightarrow> ts_read st p f = Missing"
    and "content f p = Some t \<Longrightarrow> ts_read st p f = Text t \<or> ts_read st p f = Unreadable"
proof -
  have "\<forall>p f. case content f p of None \<Rightarrow> ts_read st p f = Missing | Some t \<Rightarrow> ts_read st p f \<in> {Text t, Unreadable}"
    using assms unfolding honest_store_def by (elim conjE)
  from spec [OF spec [OF this, of p], of f]
  show "content f p = None \<Longrightarrow> ts_read st p f = Missing" "content f p = Some t \<Longrightarrow> ts_read st p f = Text t \<or> ts_read st p f = Unreadable"
    by simp_all
  have "\<forall>p f. ts_exists st p f = (content f p \<noteq> None)" using assms unfolding honest_store_def by (elim conjE)
  then show "ts_exists st p f = (content f p \<noteq> None)" by simp
qed

lemma honest_store_create:
  assumes "honest_store st content mode"
  shows "ts_create_new st m p f = (True, f') \<Longrightarrow> content f p = None \<and> content f' = (content f)(p \<mapsto> []) \<and> mode f' = (mode f)(p := m)"
    and "ts_create st p f = (True, f') \<Longrightarrow> content f' = (content f)(p \<mapsto> []) \<and> (\<forall>q. q \<noteq> p \<longrightarrow> mode f' q = mode f q)"
    and "ts_create st p f = (False, f') \<Longrightarrow> content f' = content f \<and> mode f' = mode f"
  using assms unfolding honest_store_def by metis+

lemma honest_store_write:
  assumes "honest_store st content mode"
  shows "ts_write_all st p t f = (ok, f') \<Longrightarrow> mode f' = mode f \<and> (\<forall>q. q \<noteq> p \<longrightarrow> content f' q = content f q) \<and>
        (ok \<longrightarrow> content f' p = map_option (\<lambda>c. c @ t) (content f p))"
    and "content (snd (ts_sync st p f)) = content f \<and> mode (snd (ts_sync st p f)) = mode f"
    and "ts_rename st p q f = (True, f') \<Longrightarrow> content f p \<noteq> None \<and> content f' = (content f)(p := None, q := content f p)"
    and "ts_rename st p q f = (False, f') \<Longrightarrow> content f' = content f"
    and "content (snd (ts_mkdirs st p f)) = content f"
    and "content (ts_chmod st p m f) = content f"
  using assms unfolding honest_store_def by metis+


section \<open>Pinned hosts are never torn\<close>

lemma run_all_inv:
  "(\<And>op f. op \<in> set ops \<Longrightarrow> P f \<Longrightarrow> P (snd (op f))) \<Longrightarrow> P f \<Longrightarrow> P (snd (run_all ops f))"
proof (induction ops arbitrary: f)
  case (Cons op ops)
  obtain ok f1 where op: "op f = (ok, f1)" by fastforce
  have "P f1" using Cons.prems(1) [of op f] Cons.prems(2) op by simp
  then show ?case using Cons.IH [of f1] Cons.prems(1) op by (cases ok) auto
qed simp

lemma run_all_append:
  "run_all (xs @ ys) f = (case run_all xs f of (True, f') \<Rightarrow> run_all ys f' | (False, f') \<Rightarrow> (False, f'))"
  by (induction xs arbitrary: f) (auto split: prod.splits bool.splits)

text \<open>Everything before the final rename.\<close>

definition save_prefix :: "'f text_store \<Rightarrow> (bytes \<Rightarrow> ustr) \<Rightarrow> nat \<Rightarrow> bytes \<Rightarrow> known_hosts \<Rightarrow> ('f \<Rightarrow> bool \<times> 'f) list" where
  "save_prefix st b64e pid p kh =
     (case path_parent (path_from p) of Some parent \<Rightarrow> [ts_mkdirs st parent] | None \<Rightarrow> []) @
     [ts_create st (path_from (temp_name pid p)), ts_write_all st (path_from (temp_name pid p)) (kh_to_text b64e kh),
      ts_sync st (path_from (temp_name pid p))]"

lemma save_steps_prefix: "save_steps st b64e pid p kh = save_prefix st b64e pid p kh @ [ts_rename st (path_from (temp_name pid p)) (path_from p)]"
  by (simp add: save_steps_def save_prefix_def Let_def)

lemma save_prefix_local:
  assumes st: "honest_store st content mode" and q: "q \<noteq> path_from (temp_name pid p)"
    and op: "op \<in> set (save_prefix st b64e pid p kh)"
  shows "content (snd (op f)) q = content f q"
proof -
  let ?tmp = "path_from (temp_name pid p)"
  obtain ok1 f1 ok2 f2 where c: "ts_create st ?tmp f = (ok1, f1)" and w: "ts_write_all st ?tmp (kh_to_text b64e kh) f = (ok2, f2)" by fastforce
  have "content f1 q = content f q" using honest_store_create(2,3) [OF st] c q by (cases ok1) auto
  moreover have "content f2 q = content f q" using honest_store_write(1) [OF st w] q by simp
  ultimately show ?thesis
    using op c w honest_store_write(2,5) [OF st] by (auto simp: save_prefix_def split: option.splits)
qed

lemma save_prefix_done:
  assumes st: "honest_store st content mode" and run: "run_all (save_prefix st b64e pid p kh) f = (True, f')"
  shows "content f' (path_from (temp_name pid p)) = Some (kh_to_text b64e kh)"
proof -
  let ?tmp = "path_from (temp_name pid p)"
  obtain f0 where rest: "run_all [ts_create st ?tmp, ts_write_all st ?tmp (kh_to_text b64e kh), ts_sync st ?tmp] f0 = (True, f')"
    using run by (auto simp: save_prefix_def run_all_append split: option.splits prod.splits bool.splits)
  then obtain f1 f2 where f: "ts_create st ?tmp f0 = (True, f1)" "ts_write_all st ?tmp (kh_to_text b64e kh) f1 = (True, f2)" "f' = snd (ts_sync st ?tmp f2)"
    by (auto split: prod.splits bool.splits)
  show ?thesis using honest_store_create(2) [OF st f(1)] honest_store_write(1) [OF st f(2)] honest_store_write(2) [OF st, of ?tmp f2] f(3) by simp
qed

text \<open>C5: saving the pinned hosts cannot lose them. At whatever call it is interrupted or fails, the file holds
  either all of the old text or all of the new one, and no other file but the temporary one has changed.
  When it succeeds the file holds the new text, from which exactly the saved hosts are loaded again.\<close>

theorem known_hosts_never_torn:
  assumes st: "honest_store st content mode"
  shows "(let f1 = snd (run_all (take n (save_steps st b64e pid p kh)) f) in
       content f1 (path_from p) \<in> {content f (path_from p), Some (kh_to_text b64e kh)} \<and>
       (\<forall>q. q \<noteq> path_from p \<longrightarrow> q \<noteq> path_from (temp_name pid p) \<longrightarrow> content f1 q = content f q)) \<and>
    (\<forall>f'. save_known_hosts st b64e pid p kh f = (Inr (), f') \<longrightarrow> content f' (path_from p) = Some (kh_to_text b64e kh) \<and>
      (\<forall>b64d. base64_ok b64e b64d \<longrightarrow> kh_ok kh \<longrightarrow> load_known_hosts st b64d p f' \<in> {Inr kh, Inl RIo}))"
proof -
  let ?pre = "save_prefix st b64e pid p kh" and ?tmp = "path_from (temp_name pid p)"
  have local: "content (snd (run_all ops f)) q = content f q" if "set ops \<subseteq> set ?pre" "q \<noteq> ?tmp" for ops q
  proof (rule run_all_inv [where P = "\<lambda>f1. content f1 q = content f q"])
    show "content (snd (op f1)) q = content f q" if "op \<in> set ops" "content f1 q = content f q" for op f1
      using save_prefix_local [OF st \<open>q \<noteq> ?tmp\<close>, of op b64e kh f1] that \<open>set ops \<subseteq> set ?pre\<close> by auto
  qed simp
  obtain ok f1 where pre: "run_all ?pre f = (ok, f1)" by fastforce
  have kept: "content f1 q = content f q" if "q \<noteq> ?tmp" for q using local [of ?pre q] that pre by simp
  obtain ok2 f2 where ren: "ts_rename st ?tmp (path_from p) f1 = (ok2, f2)" by fastforce
  have all: "run_all (save_steps st b64e pid p kh) f = (if ok then (ok2, f2) else (False, f1))"
    unfolding save_steps_prefix run_all_append using pre ren by (simp split: bool.splits)
  have renamed: "content f2 = (content f1)(?tmp := None, path_from p := Some (kh_to_text b64e kh))" if "ok" "ok2"
    using honest_store_write(3) [OF st] ren save_prefix_done [OF st] pre that by auto
  have failed: "content f2 = content f1" if "\<not> ok2" using honest_store_write(4) [OF st] ren that by auto
  have "take n (save_steps st b64e pid p kh) = save_steps st b64e pid p kh \<or> set (take n (save_steps st b64e pid p kh)) \<subseteq> set ?pre"
    unfolding save_steps_prefix by (cases "n \<le> length ?pre") (auto dest: in_set_takeD)
  moreover have "content (snd (run_all (save_steps st b64e pid p kh) f)) (path_from p) \<in> {content f (path_from p), Some (kh_to_text b64e kh)}"
    "\<forall>q. q \<noteq> path_from p \<longrightarrow> q \<noteq> ?tmp \<longrightarrow> content (snd (run_all (save_steps st b64e pid p kh) f)) q = content f q"
    using all kept renamed failed temp_name_other [of pid p] by (cases ok; cases ok2; simp)+
  moreover have "content f' (path_from p) = Some (kh_to_text b64e kh)" if "save_known_hosts st b64e pid p kh f = (Inr (), f')" for f'
    using that all renamed by (cases ok; cases ok2) (auto simp: save_known_hosts_def)
  moreover have "load_known_hosts st b64d p f' \<in> {Inr kh, Inl RIo}"
    if "content f' (path_from p) = Some (kh_to_text b64e kh)" "base64_ok b64e b64d" "kh_ok kh" for f' b64d
    using honest_store_read(1) [OF st] honest_store_read(3) [OF st that(1)] known_hosts_roundtrip [OF that(2,3)] that(1)
    by (auto simp: load_known_hosts_def)
  ultimately show ?thesis using local temp_name_other [of pid p] unfolding Let_def by (metis insertCI)
qed

text \<open>An instance of the file system: each file is a text with a mode.\<close>

definition toy_store :: "(path \<Rightarrow> (ustr \<times> nat) option) text_store" where
  "toy_store = \<lparr>ts_exists = (\<lambda>p f. f p \<noteq> None), ts_read = (\<lambda>p f. case f p of None \<Rightarrow> Missing | Some (t, m) \<Rightarrow> Text t),
     ts_mode = (\<lambda>p f. map_option snd (f p)), ts_chmod = (\<lambda>p m f. f(p := map_option (\<lambda>x. (fst x, m)) (f p))),
     ts_create_new = (\<lambda>m p f. if f p = None then (True, f(p \<mapsto> ([], m))) else (False, f)),
     ts_create = (\<lambda>p f. (True, f(p \<mapsto> ([], 420)))),
     ts_write_all = (\<lambda>p t f. case f p of Some (c, m) \<Rightarrow> (True, f(p \<mapsto> (c @ t, m))) | None \<Rightarrow> (False, f)),
     ts_sync = (\<lambda>p f. (True, f)),
     ts_rename = (\<lambda>p q f. if f p = None then (False, f) else (True, f(p := None, q := f p))),
     ts_remove = (\<lambda>p f. f(p := None)), ts_mkdirs = (\<lambda>p f. (True, f))\<rparr>"

definition toy_content :: "(path \<Rightarrow> (ustr \<times> nat) option) \<Rightarrow> path \<Rightarrow> ustr option" where
  "toy_content f p = map_option fst (f p)"

definition toy_mode :: "(path \<Rightarrow> (ustr \<times> nat) option) \<Rightarrow> path \<Rightarrow> nat" where
  "toy_mode f p = (case f p of Some (t, m) \<Rightarrow> m | None \<Rightarrow> 0)"

lemma toy_store_honest: "honest_store toy_store toy_content toy_mode"
  unfolding honest_store_def toy_store_def
  by (auto simp: toy_content_def [abs_def] toy_mode_def [abs_def] option.map_comp comp_def intro!: ext split: option.splits if_splits)

theorem known_hosts_never_torn_witness:
  "let kh = \<lparr>kh_hosts = [([105], replicate 32 9)]\<rparr>; f = (\<lambda>_. None);
       f1 = snd (run_all (take 3 (save_steps toy_store toy_b64e 7 [97] kh)) f) in
    (toy_content f1 (path_from [97]) \<in> {toy_content f (path_from [97]), Some (kh_to_text toy_b64e kh)} \<and>
       (\<forall>q. q \<noteq> path_from [97] \<longrightarrow> q \<noteq> path_from (temp_name 7 [97]) \<longrightarrow> toy_content f1 q = toy_content f q)) \<and>
    (\<forall>f'. save_known_hosts toy_store toy_b64e 7 [97] kh f = (Inr (), f') \<longrightarrow> load_known_hosts toy_store toy_b64d [97] f' \<in> {Inr kh, Inl RIo})"
  using known_hosts_never_torn [OF toy_store_honest, of 3 toy_b64e 7 "[97]" "\<lparr>kh_hosts = [([105], replicate 32 9)]\<rparr>" "\<lambda>_. None"] toy_b64_ok
  by (simp add: Let_def kh_ok_def label_ok_def KEY_LEN_def is_ws_def)


section \<open>A key is kept\<close>

lemma ensure_public_local:
  assumes st: "honest_store st content mode" and q: "q \<noteq> path_from (public_key_path p)"
  shows "content (ensure_public_key_file st e p kp f) q = content f q" and "mode (ensure_public_key_file st e p kp f) q = mode f q"
proof -
  have "content (snd (run_all [ts_create st (path_from (public_key_path p)), ts_write_all st (path_from (public_key_path p)) t] f)) q = content f q \<and>
      mode (snd (run_all [ts_create st (path_from (public_key_path p)), ts_write_all st (path_from (public_key_path p)) t] f)) q = mode f q" for t
  proof -
    obtain ok1 f1 where c: "ts_create st (path_from (public_key_path p)) f = (ok1, f1)" by fastforce
    obtain ok2 f2 where w: "ts_write_all st (path_from (public_key_path p)) t f1 = (ok2, f2)" by fastforce
    have "content f1 q = content f q \<and> mode f1 q = mode f q" using honest_store_create(2,3) [OF st] c q by (cases ok1) auto
    then show ?thesis using c w honest_store_write(1) [OF st w] q by (auto split: bool.splits)
  qed
  then show "content (ensure_public_key_file st e p kp f) q = content f q" "mode (ensure_public_key_file st e p kp f) q = mode f q"
    by (simp_all add: ensure_public_key_file_def Let_def split: sum.splits read_text.splits)
qed

lemma private_key_text_back:
  assumes b64: "base64_ok (ke_b64e e) (ke_b64d e)" and len: "length (kp_private kp) = KEY_LEN"
    and pub: "ke_public e (kp_private kp) = Some (kp_public kp)"
  shows "parse_key_file e (private_key_text e kp) = Inr (kp, False)"
proof -
  let ?b = "ke_b64e e (kp_private kp)" and ?w = "uni ''private''"
  have b: "ke_b64d e ?b = Some (kp_private kp)" "?b \<noteq> []" "\<forall>c \<in> set ?b. \<not> is_ws c" using b64 len by (auto simp: base64_ok_def)
  have w: "?w \<noteq> []" "\<forall>c \<in> set ?w. \<not> is_ws c" "is_ws 32" by (simp_all add: uni_def is_ws_def)
  have eq: "private_key_text e kp = (?w @ 32 # ?b) @ 10 # []" by (simp add: private_key_text_def uni_def)
  have ws: "is_ws 10" "is_ws 13" by (simp_all add: is_ws_def)
  have nl: "10 \<notin> set (?w @ 32 # ?b)" using b(3) w(2) ws(1) by auto
  have "last ?b \<noteq> 13" using b(2,3) ws(2) last_in_set by metis
  then have "last (?w @ 32 # ?b) \<noteq> 13" using b(2) by simp
  then have lines: "str_lines (private_key_text e kp) = [?w @ 32 # ?b]"
    unfolding eq by (simp only: str_lines_line [OF nl]) (simp add: strip_cr_same)
  have "split_whitespace (?w @ 32 # ?b) = [?w, ?b]"
    using split_whitespace_word [OF w, of ?b] split_whitespace_skip [OF w(3), of ?b] split_whitespace_last [OF b(2,3)] by simp
  then show ?thesis unfolding parse_key_file_def lines using b(1) pub by simp
qed

text \<open>C34: a new identity key is kept, and kept private. When no key file exists, the key that is generated is written
  to a file that only the owner can read, created with that mode; and loading the file again gives the same
  key pair, or fails because the file cannot be read, without changing the file.\<close>

theorem key_file_roundtrip:
  assumes st: "honest_store st content mode" and b64: "base64_ok (ke_b64e e) (ke_b64d e)"
    and gen: "ke_generate e = Inr kp" "length (kp_private kp) = KEY_LEN" "ke_public e (kp_private kp) = Some (kp_public kp)"
    and fresh: "content f (path_from p) = None" and run: "load_or_generate_keypair st e p f = (Inr kp', f1)"
  shows "kp' = kp \<and> mode f1 (path_from p) = PRIVATE_MODE \<and> content f1 (path_from p) = Some (private_key_text e kp) \<and>
    fst (load_or_generate_keypair st e p f1) \<in> {Inr kp, Inl RIo} \<and>
    content (snd (load_or_generate_keypair st e p f1)) (path_from p) = content f1 (path_from p)"
proof -
  let ?p = "path_from p"
  have nex: "\<not> ts_exists st ?p f" using honest_store_read(1) [OF st] fresh by simp
  let ?dirs = "case path_parent ?p of Some parent \<Rightarrow> [ts_mkdirs st parent] | None \<Rightarrow> []"
  obtain ok f2 where ops: "run_all (?dirs @ [write_private st p (private_key_text e kp)]) f = (ok, f2)" by fastforce
  then have f1: "f1 = ensure_public_key_file st e p kp f2" "kp' = kp" and ok: "ok"
    using run nex gen(1) by (cases ok; simp add: load_or_generate_keypair_def)+
  obtain f0 where w: "write_private st p (private_key_text e kp) f0 = (True, f2)"
    using ops ok unfolding run_all_append by (auto split: prod.splits bool.splits)
  obtain g1 g2 where g: "ts_create_new st PRIVATE_MODE ?p f0 = (True, g1)" "ts_write_all st ?p (private_key_text e kp) g1 = (True, g2)" "f2 = snd (ts_sync st ?p g2)"
    using w by (auto simp: write_private_def split: prod.splits bool.splits)
  have c2: "content f2 ?p = Some (private_key_text e kp)" "mode f2 ?p = PRIVATE_MODE"
    using honest_store_create(1) [OF st g(1)] honest_store_write(1) [OF st g(2)] honest_store_write(2) [OF st, of ?p g2] g(3) by simp_all
  have c1: "content f1 ?p = Some (private_key_text e kp)" "mode f1 ?p = PRIVATE_MODE"
    using c2 f1(1) ensure_public_local [OF st public_key_path_other [of p, symmetric]] by simp_all
  let ?t = "tighten_if_loose st p f1"
  have t: "content ?t = content f1" using honest_store_write(6) [OF st] by (simp add: tighten_if_loose_def split: option.splits)
  have ex: "ts_exists st ?p f1" using honest_store_read(1) [OF st] c1(1) by simp
  have "ts_read st ?p ?t = Text (private_key_text e kp) \<or> ts_read st ?p ?t = Unreadable" using honest_store_read(3) [OF st] t c1(1) by simp
  then have "fst (load_or_generate_keypair st e p f1) \<in> {Inr kp, Inl RIo} \<and> content (snd (load_or_generate_keypair st e p f1)) ?p = content f1 ?p"
    using ex private_key_text_back [OF b64 gen(2,3)] t ensure_public_local(1) [OF st public_key_path_other [of p, symmetric]]
    by (auto simp: load_or_generate_keypair_def Let_def)
  then show ?thesis using f1(2) c1 by simp
qed

definition demo_keypair :: keypair where
  "demo_keypair = \<lparr>kp_private = replicate 32 2, kp_public = replicate 32 3\<rparr>"

definition demo_keys :: key_env where
  "demo_keys = \<lparr>ke_b64e = toy_b64e, ke_b64d = toy_b64d, ke_public = (\<lambda>k. Some (replicate 32 3)), ke_generate = Inr demo_keypair,
     ke_pid = 7, ke_user = None, ke_logname = None, ke_host = None\<rparr>"

lemma demo_generated: "\<exists>f1. load_or_generate_keypair toy_store demo_keys [97] (\<lambda>_. None) = (Inr demo_keypair, f1)"
  by (simp add: load_or_generate_keypair_def toy_store_def demo_keys_def run_all_append write_private_def split: option.split)

theorem key_file_roundtrip_witness:
  "\<exists>f1. load_or_generate_keypair toy_store demo_keys [97] (\<lambda>_. None) = (Inr demo_keypair, f1) \<and>
    toy_mode f1 (path_from [97]) = PRIVATE_MODE \<and> toy_content f1 (path_from [97]) = Some (private_key_text demo_keys demo_keypair) \<and>
    fst (load_or_generate_keypair toy_store demo_keys [97] f1) \<in> {Inr demo_keypair, Inl RIo}"
proof -
  obtain f1 where f1: "load_or_generate_keypair toy_store demo_keys [97] (\<lambda>_. None) = (Inr demo_keypair, f1)" using demo_generated by blast
  then show ?thesis
    using key_file_roundtrip [OF toy_store_honest _ _ _ _ _ f1, of demo_keypair] toy_b64_ok
    by (simp add: demo_keys_def demo_keypair_def KEY_LEN_def toy_content_def)
qed

end
