(* ===== verification/Bootstrap.thy ===== *)
theory Bootstrap
  imports Auth Runtime RustFmt
begin

text \<open>
  The SSH bootstrap, \<^verbatim>\<open>src/ssh.rs\<close>: launching the server over \<^verbatim>\<open>ssh\<close>, reading back where it listens and its key,
  installing it if it is missing, offering an upgrade, and copying a key. Parameters are the \<^verbatim>\<open>ssh\<close> program (a function of
  its arguments on a world \<open>'w\<close>), name resolution, the terminal and base64. Messages on standard error are not
  modelled, detaching from the terminal is a system call.
\<close>

section \<open>The lines the server prints\<close>

definition connect_line :: "(bytes \<Rightarrow> ustr) \<Rightarrow> nat \<Rightarrow> bytes \<Rightarrow> ustr" where
  "connect_line b64e port key = uni ''NOISSH CONNECT'' @ 32 # udec port @ 32 # b64e key"

definition parse_connect_line :: "(ustr \<Rightarrow> bytes option) \<Rightarrow> ustr \<Rightarrow> (nat \<times> bytes) option" where
  "parse_connect_line b64d line =
     (case split_whitespace line of
        a # b # p # k # _ \<Rightarrow>
          if a \<noteq> uni ''NOISSH'' \<or> b \<noteq> uni ''CONNECT'' then None
          else (case parse_u16 p of
                  None \<Rightarrow> None
                | Some port \<Rightarrow> (case b64d k of Some key \<Rightarrow> if length key \<noteq> 32 then None else Some (port, key) | None \<Rightarrow> None))
      | _ \<Rightarrow> None)"

definition version_line :: "ustr \<Rightarrow> ustr" where
  "version_line v = uni ''NOISSH VERSION'' @ 32 # v"

definition version_letter :: "nat \<Rightarrow> bool" where
  "version_letter c \<longleftrightarrow> is_ascii_digit c \<or> (65 \<le> c \<and> c \<le> 90) \<or> (97 \<le> c \<and> c \<le> 122) \<or> c = 46 \<or> c = 45 \<or> c = 43"

definition parse_version_line :: "ustr \<Rightarrow> ustr option" where
  "parse_version_line line =
     (case split_whitespace line of
        a # b # v # _ \<Rightarrow>
          if a \<noteq> uni ''NOISSH'' \<or> b \<noteq> uni ''VERSION'' then None
          else if v = [] \<or> \<not> is_ascii_digit (hd v) then None
          else if length v > 32 \<or> \<not> list_all version_letter v then None
          else Some v
      | _ \<Rightarrow> None)"

definition version_component :: "ustr \<Rightarrow> nat" where
  "version_component part =
     (case parse_uint two32 (map of_nat (takeWhile is_ascii_digit part)) of Some n \<Rightarrow> n | None \<Rightarrow> 0)"

definition version_triple :: "ustr \<Rightarrow> nat \<times> nat \<times> nat" where
  "version_triple v =
     (let ps = split_at 46 v;
          part = (\<lambda>i. if i < length ps then ps ! i else uni ''0'')
      in (version_component (part 0), version_component (part 1), version_component (part 2)))"

definition version_is_older :: "ustr \<Rightarrow> ustr \<Rightarrow> bool" where
  "version_is_older remote ours =
     (case (version_triple remote, version_triple ours) of
        ((a, b, c), (a', b', c')) \<Rightarrow> a < a' \<or> (a = a' \<and> (b < b' \<or> (b = b' \<and> c < c'))))"

definition host_of :: "ustr \<Rightarrow> ustr" where
  "host_of target = (case rsplit_once 64 target of Some (user, host) \<Rightarrow> host | None \<Rightarrow> target)"


section \<open>One attempt\<close>

text \<open>The outcome of a program; its output decoded with replacement of what is no UTF-8.\<close>

record ssh_output =
  ou_code :: "nat option"
  ou_stdout :: ustr
  ou_stderr :: ustr

record 'a bootstrapped =
  bo_addr :: 'a
  bo_port :: nat
  bo_pubkey :: bytes
  bo_version :: "ustr option"

datatype 'a attempt = AConnected "'a bootstrapped" | ANotFound | AFailed ustr

definition failure_reason :: "ssh_output \<Rightarrow> ustr" where
  "failure_reason out =
     (case filter (\<lambda>l. l \<noteq> []) (map trim (str_lines (ou_stderr out))) of
        [] \<Rightarrow> uni ''the SSH bootstrap failed (ssh produced no output '' @ [0x2014] @ uni '' check your SSH access to the host)''
      | l # ls \<Rightarrow> uni ''the SSH bootstrap failed: '' @ last (l # ls))"

text \<open>\<^verbatim>\<open>to_lowercase\<close> as far as a search for ASCII text can see: two characters outside ASCII have ASCII letters in their
  lower case.\<close>

definition lowercase :: "ustr \<Rightarrow> ustr" where
  "lowercase s = concat (map (\<lambda>c. if c = 0x212A then [107] else if c = 0x130 then [105, 0x307] else [ascii_lower c]) s)"

definition looks_like_missing_command :: "ssh_output \<Rightarrow> bool" where
  "looks_like_missing_command out \<longleftrightarrow>
     ou_code out = Some 127 \<or>
     (let s = lowercase (ou_stderr out) @ lowercase (ou_stdout out)
      in str_contains (uni ''command not found'') s \<or> str_contains (uni '': not found'') s \<or>
         str_contains (uni ''no such file or directory'') s)"

definition is_default_server_cmd :: "ustr list \<Rightarrow> bool" where
  "is_default_server_cmd cmd \<longleftrightarrow> cmd = [uni ''noisshd'']"

text \<open>The first element for which \<open>f\<close> gives a value.\<close>

fun find_map :: "('x \<Rightarrow> 'y option) \<Rightarrow> 'x list \<Rightarrow> 'y option" where
  "find_map f [] = None"
| "find_map f (x # xs) = (case f x of Some y \<Rightarrow> Some y | None \<Rightarrow> find_map f xs)"

text \<open>Running \<^verbatim>\<open>ssh\<close> fails with \<open>None\<close>; resolving a name fails with \<open>None\<close> or gives addresses.\<close>

record ('a, 'w) ssh_env =
  sh_run :: "ustr list \<Rightarrow> 'w \<Rightarrow> ssh_output option \<times> 'w"
  sh_resolve :: "ustr \<Rightarrow> nat \<Rightarrow> 'a list option"
  sh_b64e :: "bytes \<Rightarrow> ustr"
  sh_b64d :: "ustr \<Rightarrow> bytes option"
  sh_ours :: ustr
  sh_remote_noisshd :: "ustr option"
  sh_prompt :: "ustr \<Rightarrow> 'w \<Rightarrow> ustr option \<times> 'w"

definition attempt_args :: "('a, 'w) ssh_env \<Rightarrow> ustr \<Rightarrow> ustr list \<Rightarrow> bytes \<Rightarrow> ustr list \<Rightarrow> nat option \<Rightarrow> ustr list" where
  "attempt_args e target cmd client_key extra bind_port =
     extra @ [uni ''--'', target] @ cmd @ [uni ''--one-shot'', uni ''--authorize'', sh_b64e e client_key] @
     (case bind_port of Some p \<Rightarrow> [uni ''--bind'', uni ''0.0.0.0:'' @ udec p] | None \<Rightarrow> [])"

definition read_attempt :: "('a, 'w) ssh_env \<Rightarrow> ustr \<Rightarrow> ssh_output \<Rightarrow> runtime_error + 'a attempt" where
  "read_attempt e udp_host out =
     (case find_map (parse_connect_line (sh_b64d e)) (rev (str_lines (ou_stdout out))) of
        Some (port, key) \<Rightarrow>
          (case sh_resolve e udp_host port of
             None \<Rightarrow> Inl RIo
           | Some [] \<Rightarrow> Inl (RBadAddress (uni ''connected over SSH but could not resolve '' @ udp_host @ 58 # udec port @ uni '' for the UDP session''))
           | Some (addr # _) \<Rightarrow>
               Inr (AConnected \<lparr>bo_addr = addr, bo_port = port, bo_pubkey = key,
                      bo_version = find_map parse_version_line (rev (str_lines (ou_stdout out)))\<rparr>))
      | None \<Rightarrow> if looks_like_missing_command out then Inr ANotFound else Inr (AFailed (failure_reason out)))"

definition attempt :: "('a, 'w) ssh_env \<Rightarrow> ustr \<Rightarrow> ustr \<Rightarrow> ustr list \<Rightarrow> bytes \<Rightarrow> ustr list \<Rightarrow> nat option \<Rightarrow> 'w \<Rightarrow>
    (runtime_error + 'a attempt) \<times> 'w" where
  "attempt e target udp_host cmd client_key extra bind_port w =
     (case sh_run e (attempt_args e target cmd client_key extra bind_port) w of
        (None, w) \<Rightarrow> (Inl RIo, w)
      | (Some out, w) \<Rightarrow> (read_attempt e udp_host out, w))"


section \<open>Installing\<close>

definition dq :: ustr where "dq = [34]"
definition sq :: ustr where "sq = [39]"

definition installer_url :: "ustr \<Rightarrow> ustr" where
  "installer_url ours = uni ''https://raw.githubusercontent.com/gedigi/noissh/v'' @ ours @ uni ''/install.sh''"

definition install_script :: "ustr \<Rightarrow> ustr" where
  "install_script ours =
     uni ''set -e; tmp=$(mktemp); trap '' @ sq @ uni ''rm -f '' @ dq @ uni ''$tmp'' @ dq @ sq @ uni '' EXIT; '' @
     uni ''if command -v curl >/dev/null 2>&1; then curl -fsSL '' @ sq @ installer_url ours @ sq @ uni '' -o '' @ dq @ uni ''$tmp'' @ dq @ uni ''; '' @
     uni ''elif command -v wget >/dev/null 2>&1; then wget -qO '' @ dq @ uni ''$tmp'' @ dq @ uni '' '' @ sq @ installer_url ours @ sq @ uni ''; '' @
     uni ''else echo '' @ sq @ uni ''noissh: remote has neither curl nor wget to install noisshd'' @ sq @ uni '' >&2; exit 3; fi; '' @
     uni ''NOISSH_VERSION='' @ sq @ uni ''v'' @ ours @ sq @ uni '' NOISSH_BIN_DIR='' @ dq @ uni ''$HOME/.local/bin'' @ dq @ uni '' sh '' @
     dq @ uni ''$tmp'' @ dq @ uni '' --yes''"

definition install_remote :: "('a, 'w) ssh_env \<Rightarrow> ustr \<Rightarrow> ustr list \<Rightarrow> 'w \<Rightarrow> (runtime_error + unit) \<times> 'w" where
  "install_remote e target extra w =
     (case sh_run e (extra @ [uni ''--'', target, install_script (sh_ours e)]) w of
        (None, w) \<Rightarrow> (Inl RIo, w)
      | (Some out, w) \<Rightarrow>
          (if ou_code out = Some 0 then Inr ()
           else Inl (RSshFailed (uni ''failed to install noisshd on the remote (see the installer output above)'')), w))"

definition installed_noisshd_cmd :: "('a, 'w) ssh_env \<Rightarrow> ustr list" where
  "installed_noisshd_cmd e = [case sh_remote_noisshd e of Some c \<Rightarrow> c | None \<Rightarrow> uni ''$HOME/.local/bin/noisshd'']"

definition prompt_yes_no :: "('a, 'w) ssh_env \<Rightarrow> ustr \<Rightarrow> 'w \<Rightarrow> bool \<times> 'w" where
  "prompt_yes_no e question w =
     (case sh_prompt e question w of
        (None, w) \<Rightarrow> (False, w)
      | (Some line, w) \<Rightarrow> (trim line \<in> {uni ''y'', uni ''Y'', uni ''yes'', uni ''Yes'', uni ''YES''}, w))"

definition upgrade_question :: "ustr \<Rightarrow> ustr \<Rightarrow> ustr \<Rightarrow> ustr" where
  "upgrade_question target remote_v ours =
     uni ''noissh: noisshd on '' @ host_of target @ uni '' is v'' @ remote_v @ uni '', but this client is v'' @ ours @ uni ''. Upgrade it now?''"

definition maybe_offer_upgrade :: "('a, 'w) ssh_env \<Rightarrow> ustr \<Rightarrow> ustr list \<Rightarrow> bool \<Rightarrow> 'a bootstrapped \<Rightarrow> 'w \<Rightarrow> 'a bootstrapped \<times> 'w" where
  "maybe_offer_upgrade e target extra offer b w =
     (let older = (case bo_version b of Some v \<Rightarrow> version_is_older v (sh_ours e) | None \<Rightarrow> False)
      in if \<not> (offer \<and> older) then (b, w)
         else
           (let remote_v = (case bo_version b of Some v \<Rightarrow> v | None \<Rightarrow> uni ''?'')
            in case prompt_yes_no e (upgrade_question target remote_v (sh_ours e)) w of
                 (False, w) \<Rightarrow> (b, w)
               | (True, w) \<Rightarrow> (b, snd (install_remote e target extra w))))"

definition maybe_offer_direct_upgrade :: "('a, 'w) ssh_env \<Rightarrow> ustr \<Rightarrow> ustr list \<Rightarrow> ustr \<Rightarrow> 'w \<Rightarrow> 'w" where
  "maybe_offer_direct_upgrade e target extra server_version w =
     (if \<not> version_is_older server_version (sh_ours e) then w
      else case prompt_yes_no e (upgrade_question target server_version (sh_ours e)) w of
        (False, w) \<Rightarrow> w
      | (True, w) \<Rightarrow> snd (install_remote e target extra w))"


section \<open>The bootstrap\<close>

definition not_found_message :: "ustr \<Rightarrow> ustr" where
  "not_found_message target =
     uni ''noisshd was not found on '' @ host_of target @ uni ''. Install it there, or omit --no-install / --server-cmd to let noissh install it over SSH.''"

text \<open>The last try, after the installation.\<close>

definition after_install :: "('a, 'w) ssh_env \<Rightarrow> ustr \<Rightarrow> ustr \<Rightarrow> bytes \<Rightarrow> ustr list \<Rightarrow> nat option \<Rightarrow> 'w \<Rightarrow>
    (runtime_error + 'a bootstrapped) \<times> 'w" where
  "after_install e target udp_host client_key extra bind_port w =
     (case install_remote e target extra w of
        (Inl err, w) \<Rightarrow> (Inl err, w)
      | (Inr _, w) \<Rightarrow>
          (case attempt e target udp_host (installed_noisshd_cmd e) client_key extra bind_port w of
             (Inl err, w) \<Rightarrow> (Inl err, w)
           | (Inr (AConnected b), w) \<Rightarrow> (Inr b, w)
           | (Inr (AFailed reason), w) \<Rightarrow> (Inl (RSshFailed reason), w)
           | (Inr ANotFound, w) \<Rightarrow> (Inl (RSshFailed (uni ''installed noisshd but it still could not be launched on the remote'')), w)))"

definition bootstrap :: "('a, 'w) ssh_env \<Rightarrow> ustr \<Rightarrow> ustr \<Rightarrow> ustr list \<Rightarrow> bytes \<Rightarrow> ustr list \<Rightarrow> bool \<Rightarrow> nat option \<Rightarrow> 'w \<Rightarrow>
    (runtime_error + 'a bootstrapped) \<times> 'w" where
  "bootstrap e target udp_host cmd client_key extra auto_install bind_port w =
     (let offer = (auto_install \<and> is_default_server_cmd cmd)
      in case attempt e target udp_host cmd client_key extra bind_port w of
           (Inl err, w) \<Rightarrow> (Inl err, w)
         | (Inr (AConnected b), w) \<Rightarrow> (case maybe_offer_upgrade e target extra offer b w of (b, w) \<Rightarrow> (Inr b, w))
         | (Inr ANotFound, w) \<Rightarrow>
             if offer then
               (case attempt e target udp_host (installed_noisshd_cmd e) client_key extra bind_port w of
                  (Inl err, w) \<Rightarrow> (Inl err, w)
                | (Inr (AConnected b), w) \<Rightarrow> (case maybe_offer_upgrade e target extra offer b w of (b, w) \<Rightarrow> (Inr b, w))
                | (Inr _, w) \<Rightarrow> after_install e target udp_host client_key extra bind_port w)
             else (Inl (RSshFailed (not_found_message target)), w)
         | (Inr (AFailed reason), w) \<Rightarrow> (Inl (RSshFailed reason), w))"


section \<open>Copying a key\<close>

definition is_control :: "nat \<Rightarrow> bool" where
  "is_control c \<longleftrightarrow> c < 32 \<or> (127 \<le> c \<and> c < 160)"

definition copy_script :: "ustr \<Rightarrow> ustr" where
  "copy_script key =
     uni ''set -e; dir='' @ dq @ uni ''${XDG_CONFIG_HOME:-$HOME/.config}/noissh'' @ dq @ uni ''; '' @
     uni ''mkdir -p '' @ dq @ uni ''$dir'' @ dq @ uni ''; chmod 700 '' @ dq @ uni ''$dir'' @ dq @ uni '' 2>/dev/null || true; '' @
     uni ''ak='' @ dq @ uni ''$dir/authorized_keys'' @ dq @ uni ''; touch '' @ dq @ uni ''$ak'' @ dq @ uni ''; chmod 600 '' @ dq @ uni ''$ak'' @ dq @ uni '' 2>/dev/null || true; '' @
     uni ''if grep -qxF '' @ sq @ key @ sq @ uni '' '' @ dq @ uni ''$ak'' @ dq @ uni ''; then echo '' @ sq @ uni ''noissh: key already authorized'' @ sq @ uni ''; '' @
     uni ''else echo '' @ sq @ key @ sq @ uni '' >> '' @ dq @ uni ''$ak'' @ dq @ uni ''; echo '' @ sq @ uni ''noissh: key added'' @ sq @ uni ''; fi''"

definition copy_id :: "('a, 'w) ssh_env \<Rightarrow> ustr \<Rightarrow> ustr \<Rightarrow> ustr list \<Rightarrow> 'w \<Rightarrow> (runtime_error + unit) \<times> 'w" where
  "copy_id e target key extra w =
     (if 39 \<in> set key \<or> list_ex is_control key then
        (Inl (RSshFailed (uni ''refusing to copy a key line containing quotes or control characters'')), w)
      else case sh_run e (extra @ [uni ''--'', target, copy_script key]) w of
        (None, w) \<Rightarrow> (Inl RIo, w)
      | (Some out, w) \<Rightarrow> (if ou_code out = Some 0 then Inr () else Inl (RSshFailed (failure_reason out)), w))"


section \<open>The address and key come from the server\<close>

lemma noissh_words: "uni ''NOISSH'' \<noteq> []" "\<forall>c \<in> set (uni ''NOISSH''). \<not> is_ws c" "uni ''CONNECT'' \<noteq> []" "\<forall>c \<in> set (uni ''CONNECT''). \<not> is_ws c"
  "uni ''VERSION'' \<noteq> []" "\<forall>c \<in> set (uni ''VERSION''). \<not> is_ws c" "is_ws 32" "uni ''CONNECT'' \<noteq> uni ''VERSION''"
  by (simp_all add: uni_def is_ws_def)

lemma split_words3:
  assumes "a \<noteq> []" "\<forall>c \<in> set a. \<not> is_ws c" "b \<noteq> []" "\<forall>c \<in> set b. \<not> is_ws c" "v \<noteq> []" "\<forall>c \<in> set v. \<not> is_ws c"
  shows "split_whitespace (a @ 32 # b @ 32 # v) = [a, b, v]"
  using assms split_whitespace_word [of a 32 "b @ 32 # v"] split_whitespace_word [of b 32 v] split_whitespace_last [of v] noissh_words(7)
  by (simp add: split_whitespace_skip)

lemma split_words4:
  assumes "a \<noteq> []" "\<forall>c \<in> set a. \<not> is_ws c" "b \<noteq> []" "\<forall>c \<in> set b. \<not> is_ws c" "u \<noteq> []" "\<forall>c \<in> set u. \<not> is_ws c"
    and "v \<noteq> []" "\<forall>c \<in> set v. \<not> is_ws c"
  shows "split_whitespace (a @ 32 # b @ 32 # u @ 32 # v) = [a, b, u, v]"
  using assms split_whitespace_word [of a 32 "b @ 32 # u @ 32 # v"] split_words3 [of b u v] noissh_words(7)
  by (simp add: split_whitespace_skip)

lemma connect_line_words:
  assumes "base64_ok b64e b64d" "length key = 32"
  shows "split_whitespace (connect_line b64e port key) = [uni ''NOISSH'', uni ''CONNECT'', udec port, b64e key]"
proof -
  have b: "b64e key \<noteq> []" "\<forall>c \<in> set (b64e key). \<not> is_ws c" using assms by (auto simp: base64_ok_def KEY_LEN_def)
  have "connect_line b64e port key = uni ''NOISSH'' @ 32 # uni ''CONNECT'' @ 32 # udec port @ 32 # b64e key"
    by (simp add: connect_line_def uni_def)
  then show ?thesis using split_words4 [OF noissh_words(1-4) udec_nonempty udec_no_ws b] by simp
qed

lemma connect_line_back:
  assumes "base64_ok b64e b64d" "length key = 32" "port < 65536"
  shows "parse_connect_line b64d (connect_line b64e port key) = Some (port, key)"
  using assms connect_line_words [OF assms(1,2), of port] by (simp add: parse_connect_line_def parse_u16_udec base64_ok_def KEY_LEN_def)

lemma connect_line_no_version:
  "base64_ok b64e b64d \<Longrightarrow> length key = 32 \<Longrightarrow> parse_version_line (connect_line b64e port key) = None"
  using connect_line_words [of b64e b64d key port] noissh_words(8) by (simp add: parse_version_line_def)

text \<open>What the client calls a version.\<close>

definition announced :: "ustr \<Rightarrow> bool" where
  "announced v \<longleftrightarrow> v \<noteq> [] \<and> is_ascii_digit (hd v) \<and> length v \<le> 32 \<and> list_all version_letter v"

lemma announced_word: "announced v \<Longrightarrow> v \<noteq> [] \<and> (\<forall>c \<in> set v. \<not> is_ws c)"
  by (auto simp: announced_def list_all_iff version_letter_def is_ascii_digit_def is_ws_def)

lemma version_line_back:
  assumes "announced v"
  shows "parse_version_line (version_line v) = Some v"
proof -
  have "version_line v = uni ''NOISSH'' @ 32 # uni ''VERSION'' @ 32 # v" by (simp add: version_line_def uni_def)
  then have "split_whitespace (version_line v) = [uni ''NOISSH'', uni ''VERSION'', v]"
    using split_words3 [OF noissh_words(1,2,5,6)] announced_word [OF assms] by simp
  then show ?thesis using assms by (auto simp: parse_version_line_def announced_def)
qed

lemma parse_version_announced: "parse_version_line line = Some v \<Longrightarrow> announced v"
  by (auto simp: parse_version_line_def announced_def split: list.splits if_splits)

lemma str_lines_append: "str_lines (a @ 10 # b) = str_lines (a @ [10]) @ str_lines b"
proof (induction a rule: length_induct)
  case (1 a)
  show ?case
  proof (cases "10 \<in> set a")
    case True
    then obtain l r where a: "a = l @ 10 # r" "10 \<notin> set l" by (metis split_list_first)
    then have "str_lines (r @ 10 # b) = str_lines (r @ [10]) @ str_lines b" using 1 by simp
    then show ?thesis using str_lines_line [OF a(2), of "r @ 10 # b"] str_lines_line [OF a(2), of "r @ [10]"] by (simp add: a(1))
  next
    case False
    then show ?thesis using str_lines_line [OF False, of b] str_lines_line [OF False, of "[]"] by simp
  qed
qed

lemma str_lines_complete:
  assumes "a = [] \<or> last a = 10" "10 \<notin> set l" "l \<noteq> []" "last l \<noteq> 13"
  shows "str_lines (a @ l @ 10 # b) = str_lines a @ l # str_lines b"
proof (cases "a = []")
  case True
  then show ?thesis using str_lines_line [OF assms(2)] strip_cr_same [OF assms(3,4)] by simp
next
  case False
  then obtain a' where "a = a' @ [10]" using assms(1) by (metis append_butlast_last_id)
  then show ?thesis using str_lines_append [of a' "l @ 10 # b"] str_lines_line [OF assms(2), of b] strip_cr_same [OF assms(3,4)] by simp
qed

lemma word_end: "v \<noteq> [] \<Longrightarrow> \<forall>c \<in> set v. \<not> is_ws c \<Longrightarrow> last v \<noteq> 13 \<and> 10 \<notin> set v"
proof -
  assume v: "v \<noteq> []" "\<forall>c \<in> set v. \<not> is_ws c"
  have ws: "is_ws 13" "is_ws 10" by (simp_all add: is_ws_def)
  show "last v \<noteq> 13 \<and> 10 \<notin> set v" using v(2) ws last_in_set [OF v(1)] by metis
qed

lemma version_line_ok: "announced v \<Longrightarrow> 10 \<notin> set (version_line v) \<and> version_line v \<noteq> [] \<and> last (version_line v) \<noteq> 13"
  using word_end [of v] announced_word [of v] by (auto simp: version_line_def uni_def)

lemma connect_line_ok:
  assumes "base64_ok b64e b64d" "length key = 32"
  shows "10 \<notin> set (connect_line b64e port key) \<and> connect_line b64e port key \<noteq> [] \<and> last (connect_line b64e port key) \<noteq> 13"
  using assms word_end [of "b64e key"] word_end [OF udec_nonempty udec_no_ws, of port] by (auto simp: connect_line_def uni_def base64_ok_def KEY_LEN_def)

lemma last_lines_read:
  assumes b64: "base64_ok b64e (sh_b64d e)" and key: "length key = 32" "port < 65536" "announced v"
    and out: "ou_stdout out = banner @ version_line v @ 10 # connect_line b64e port key @ [10]" "banner = [] \<or> last banner = 10"
    and addr: "sh_resolve e udp_host port = Some (addr # rest)"
  shows "read_attempt e udp_host out = Inr (AConnected \<lparr>bo_addr = addr, bo_port = port, bo_pubkey = key, bo_version = Some v\<rparr>)"
proof -
  have lines: "str_lines (ou_stdout out) = str_lines banner @ [version_line v, connect_line b64e port key]"
    unfolding out(1)
    using str_lines_complete [OF out(2), of "version_line v" "connect_line b64e port key @ [10]"] version_line_ok [OF key(3)]
      str_lines_complete [of "[]" "connect_line b64e port key" "[]"] connect_line_ok [OF b64 key(1), of port] by simp
  show ?thesis
    unfolding read_attempt_def lines
    using connect_line_back [OF b64 key(1,2)] version_line_back [OF key(3)] connect_line_no_version [OF b64 key(1)] addr by simp
qed

text \<open>The client believes the server's own lines. Whatever complete lines come before them, forged connect and version
  lines included, the client takes the port, the key and the version from the two lines that the server prints
  last.\<close>

theorem bootstrap_reads_last_lines:
  assumes b64: "base64_ok b64e (sh_b64d e)" and key: "length key = 32" "port < 65536" "announced v"
    and out: "ou_stdout out = banner @ version_line v @ 10 # connect_line b64e port key @ [10]" "banner = [] \<or> last banner = 10"
    and addr: "sh_resolve e udp_host port = Some (addr # rest)"
  shows "read_attempt e udp_host out = Inr (AConnected \<lparr>bo_addr = addr, bo_port = port, bo_pubkey = key, bo_version = Some v\<rparr>)"
  by (rule last_lines_read [OF assms])


section \<open>How ssh is called\<close>

text \<open>The same environment with a record of the calls.\<close>

definition log_env :: "('a, 'w) ssh_env \<Rightarrow> ('a, 'w \<times> ustr list list) ssh_env" where
  "log_env e =
     \<lparr>sh_run = (\<lambda>argv (w, log). case sh_run e argv w of (r, w') \<Rightarrow> (r, w', log @ [argv])),
      sh_resolve = sh_resolve e, sh_b64e = sh_b64e e, sh_b64d = sh_b64d e, sh_ours = sh_ours e, sh_remote_noisshd = sh_remote_noisshd e,
      sh_prompt = (\<lambda>q (w, log). case sh_prompt e q w of (r, w') \<Rightarrow> (r, w', log))\<rparr>"

text \<open>Calls that were added, all of them with the target right behind the end of the options.\<close>

definition calls_ok :: "ustr list \<Rightarrow> ustr \<Rightarrow> ustr list list \<Rightarrow> ustr list list \<Rightarrow> bool" where
  "calls_ok extra target log log' \<longleftrightarrow>
     (\<exists>calls. log' = log @ calls \<and> (\<forall>argv \<in> set calls. \<exists>rest. argv = extra @ uni ''--'' # target # rest))"

lemma calls_ok_refl: "calls_ok extra target log log"
  by (simp add: calls_ok_def)

lemma calls_ok_trans: "calls_ok extra target a b \<Longrightarrow> calls_ok extra target b c \<Longrightarrow> calls_ok extra target a c"
  by (fastforce simp: calls_ok_def)

lemma attempt_calls:
  assumes "attempt (log_env e) target udp_host cmd key extra bp (w, log) = (r, w', log')"
  shows "log' = log @ [attempt_args (log_env e) target cmd key extra bp]" and "calls_ok extra target log log'"
  using assms by (auto simp: attempt_def log_env_def attempt_args_def calls_ok_def split: prod.splits option.splits)

lemma install_calls:
  "install_remote (log_env e) target extra (w, log) = (r, w', log') \<Longrightarrow> calls_ok extra target log log'"
  by (auto simp: install_remote_def log_env_def calls_ok_def split: prod.splits option.splits)

lemma prompt_calls: "prompt_yes_no (log_env e) q (w, log) = (r, w', log') \<Longrightarrow> log' = log"
  by (auto simp: prompt_yes_no_def log_env_def split: prod.splits option.splits)

lemma offer_calls:
  "maybe_offer_upgrade (log_env e) target extra offer b (w, log) = (b', w', log') \<Longrightarrow> calls_ok extra target log log'"
  "maybe_offer_upgrade (log_env e) target extra False b (w, log) = (b', w', log') \<Longrightarrow> log' = log"
  "maybe_offer_upgrade (log_env e) target extra offer b (w, log) = (b', w', log') \<Longrightarrow> b' = b"
  by (auto simp: maybe_offer_upgrade_def Let_def calls_ok_refl split: if_splits prod.splits bool.splits dest!: prompt_calls)
    (metis install_calls prod.collapse)

lemma after_install_calls:
  assumes "after_install (log_env e) target udp_host key extra bp (w, log) = (r, w', log')"
  shows "calls_ok extra target log log'"
proof -
  obtain i w1 log1 where i: "install_remote (log_env e) target extra (w, log) = (i, w1, log1)" by (metis prod_cases3)
  obtain a w2 log2 where a: "attempt (log_env e) target udp_host (installed_noisshd_cmd (log_env e)) key extra bp (w1, log1) = (a, w2, log2)"
    by (metis prod_cases3)
  have "log' = log1 \<or> log' = log2" using assms i a by (auto simp: after_install_def split: sum.splits attempt.splits)
  then show ?thesis using install_calls [OF i] calls_ok_trans [OF install_calls [OF i] attempt_calls(2) [OF a]] by auto
qed

text \<open>C35: \<^verbatim>\<open>ssh\<close> is never misled about its options, and nothing is installed without leave. In every call of \<^verbatim>\<open>ssh\<close>
  the target comes right behind the end of the options, so that a target that looks like an option is not one.
  When the client may not install, or a server command was given, the bootstrap makes exactly one call, the
  one that starts the server.\<close>

theorem ssh_calls_safe:
  assumes run: "bootstrap (log_env e) target udp_host cmd key extra auto_install bp (w, log) = (r, w', log')"
  shows "(\<exists>calls. log' = log @ calls \<and> (\<forall>argv \<in> set calls. \<exists>rest. argv = extra @ uni ''--'' # target # rest)) \<and>
    (\<not> (auto_install \<and> is_default_server_cmd cmd) \<longrightarrow> log' = log @ [attempt_args (log_env e) target cmd key extra bp])"
proof -
  obtain a w1 log1 where a: "attempt (log_env e) target udp_host cmd key extra bp (w, log) = (a, w1, log1)" by (metis prod_cases3)
  obtain b w2 log2 where b: "attempt (log_env e) target udp_host (installed_noisshd_cmd (log_env e)) key extra bp (w1, log1) = (b, w2, log2)"
    by (metis prod_cases3)
  let ?offer = "auto_install \<and> is_default_server_cmd cmd"
  note ca = attempt_calls(2) [OF a] and cb = calls_ok_trans [OF attempt_calls(2) [OF a] attempt_calls(2) [OF b]]
  have "calls_ok extra target log log'"
    using run a b ca cb
    by (auto simp: bootstrap_def Let_def split: sum.splits attempt.splits if_splits prod.splits
        intro: calls_ok_trans [OF ca offer_calls(1)] calls_ok_trans [OF cb offer_calls(1)] calls_ok_trans [OF cb after_install_calls])
  moreover have "log' = log1" if "\<not> ?offer"
    using run a that offer_calls(2) [of e target extra] by (auto simp: bootstrap_def Let_def split: sum.splits attempt.splits if_splits prod.splits)
  ultimately show ?thesis using attempt_calls(1) [OF a] by (auto simp: calls_ok_def)
qed

text \<open>Copying a key: the key stands between single quotes and holds none.\<close>

lemma copy_id_calls:
  assumes "copy_id (log_env e) target key extra (w, log) = (r, w', log')"
  shows "log' = log \<or> log' = log @ [extra @ [uni ''--'', target, copy_script key]] \<and> 39 \<notin> set key \<and> \<not> list_ex is_control key"
  using assms by (auto simp: copy_id_def log_env_def split: if_splits prod.splits option.splits)

text \<open>A demonstration: a host whose greeting forges a connect line.\<close>

definition demo_banner :: ustr where
  "demo_banner = connect_line toy_b64e 1 (replicate 32 6) @ [10]"

definition demo_output :: ssh_output where
  "demo_output = \<lparr>ou_code = Some 0, ou_stdout = demo_banner @ version_line (uni ''0.6.1'') @ 10 # connect_line toy_b64e 51820 (replicate 32 3) @ [10],
     ou_stderr = []\<rparr>"

definition demo_ssh :: "(nat, unit) ssh_env" where
  "demo_ssh = \<lparr>sh_run = (\<lambda>argv w. (Some demo_output, w)), sh_resolve = (\<lambda>h p. Some [9]), sh_b64e = toy_b64e, sh_b64d = toy_b64d,
     sh_ours = uni ''0.6.1'', sh_remote_noisshd = None, sh_prompt = (\<lambda>q w. (None, w))\<rparr>"

theorem bootstrap_reads_last_lines_witness:
  "read_attempt demo_ssh (uni ''h'') demo_output = Inr (AConnected \<lparr>bo_addr = 9, bo_port = 51820, bo_pubkey = replicate 32 3, bo_version = Some (uni ''0.6.1'')\<rparr>)"
  by (rule bootstrap_reads_last_lines [where b64e = toy_b64e and banner = demo_banner and rest = "[]"])
    (simp_all add: demo_ssh_def toy_b64_ok demo_output_def demo_banner_def announced_def uni_def version_letter_def is_ascii_digit_def)

theorem ssh_calls_safe_witness:
  "\<exists>r w' log'. bootstrap (log_env demo_ssh) (uni ''-oProxyCommand=x'') (uni ''h'') [uni ''noisshd''] [] [uni ''-v''] False None ((), []) = (r, w', log') \<and>
     log' = [attempt_args (log_env demo_ssh) (uni ''-oProxyCommand=x'') [uni ''noisshd''] [] [uni ''-v''] None] \<and>
     (\<forall>argv \<in> set log'. \<exists>rest. argv = [uni ''-v''] @ uni ''--'' # uni ''-oProxyCommand=x'' # rest)"
proof -
  obtain r w' log' where run: "bootstrap (log_env demo_ssh) (uni ''-oProxyCommand=x'') (uni ''h'') [uni ''noisshd''] [] [uni ''-v''] False None ((), []) = (r, w', log')"
    by (metis prod_cases3)
  show ?thesis using run ssh_calls_safe [OF run] by auto
qed

end
