(* ===== verification/SshConfig.thy ===== *)
theory SshConfig
  imports RustText
begin

text \<open>
  The reader of the user's \<^verbatim>\<open>ssh_config\<close>, \<^verbatim>\<open>src/sshconfig.rs\<close>: host patterns with wildcards and
  negation, and the resolution of an alias. The wildcard matcher is a loop over two indices with
  one remembered star; it is shown to decide the declarative meaning of patterns, and resolution
  to take the first applicable value of each key.
\<close>

section \<open>Model\<close>

record host_config =
  hc_hostname :: "ustr option"
  hc_user :: "ustr option"
  hc_port :: "nat option"

definition host_config_default :: host_config where
  "host_config_default = \<lparr>hc_hostname = None, hc_user = None, hc_port = None\<rparr>"

text \<open>The matching loop, with the indices of the source: \<open>None\<close> is \<^verbatim>\<open>return false\<close>, \<open>Some pi\<close> the end of
  the text with the pattern read up to \<open>pi\<close>.\<close>

function glob_loop :: "ustr \<Rightarrow> ustr \<Rightarrow> nat \<Rightarrow> nat \<Rightarrow> nat option \<Rightarrow> nat \<Rightarrow> nat option" where
  "glob_loop p t pi ti star mark =
     (if ti < length t then
        if pi < length p \<and> (p ! pi = 63 \<or> p ! pi = t ! ti) then glob_loop p t (pi + 1) (ti + 1) star mark
        else if pi < length p \<and> p ! pi = 42 then glob_loop p t (pi + 1) ti (Some pi) ti
        else (case star of
                Some s \<Rightarrow> glob_loop p t (s + 1) (mark + 1) star (mark + 1)
              | None \<Rightarrow> None)
      else Some pi)"
  by pat_completeness auto
termination
  by (relation "measures [\<lambda>(p, t, pi, ti, star, mark). max (length p - pi) (case star of Some s \<Rightarrow> length p - (s + 1) | None \<Rightarrow> 0),
        \<lambda>(p, t, pi, ti, star, mark). length t - mark, \<lambda>(p, t, pi, ti, star, mark). length t - ti]")
    (auto split: option.splits)

declare glob_loop.simps [simp del]

fun skip_stars :: "ustr \<Rightarrow> ustr" where
  "skip_stars (c # p) = (if c = 42 then skip_stars p else c # p)"
| "skip_stars [] = []"

definition glob_match :: "ustr \<Rightarrow> ustr \<Rightarrow> bool" where
  "glob_match pattern text =
     (case glob_loop pattern text 0 0 None 0 of
        None \<Rightarrow> False
      | Some pi \<Rightarrow> skip_stars (drop pi pattern) = [])"

fun patterns_loop :: "ustr list \<Rightarrow> ustr \<Rightarrow> bool \<Rightarrow> bool" where
  "patterns_loop [] alias matched = matched"
| "patterns_loop (pat # pats) alias matched =
     (if starts_with [33] pat then
        (if glob_match (drop 1 pat) alias then False else patterns_loop pats alias matched)
      else patterns_loop pats alias (matched \<or> glob_match pat alias))"

definition host_patterns_match :: "ustr \<Rightarrow> ustr \<Rightarrow> bool" where
  "host_patterns_match patterns alias = patterns_loop (split_whitespace patterns) alias False"

text \<open>A line without its comment, and its keyword and value.\<close>

definition config_line :: "ustr \<Rightarrow> ustr" where
  "config_line raw = trim (takeWhile (\<lambda>c. c \<noteq> 35) raw)"

definition config_pair :: "ustr \<Rightarrow> (ustr \<times> ustr) option" where
  "config_pair line =
     (if line = [] then None
      else case split_once_at (\<lambda>c. is_ws c \<or> c = 61) line of
        None \<Rightarrow> None
      | Some (k, v) \<Rightarrow>
          (let value = trim (dropWhile (\<lambda>c. c = 61 \<or> c = 32 \<or> c = 9) v)
           in if value = [] then None else Some (trim k, value)))"

definition config_set :: "ustr \<Rightarrow> ustr \<Rightarrow> host_config \<Rightarrow> host_config" where
  "config_set key value out =
     (let k = to_ascii_lowercase key in
      if k = uni ''hostname'' \<and> hc_hostname out = None then out\<lparr>hc_hostname := Some value\<rparr>
      else if k = uni ''user'' \<and> hc_user out = None then out\<lparr>hc_user := Some value\<rparr>
      else if k = uni ''port'' \<and> hc_port out = None then
        (case parse_u16 value of Some p \<Rightarrow> out\<lparr>hc_port := Some p\<rparr> | None \<Rightarrow> out)
      else out)"

definition resolve_line :: "ustr \<Rightarrow> ustr \<Rightarrow> host_config \<times> bool \<Rightarrow> host_config \<times> bool" where
  "resolve_line alias raw st =
     (case config_pair (config_line raw) of
        None \<Rightarrow> st
      | Some (key, value) \<Rightarrow>
          (case st of (out, active) \<Rightarrow>
             if eq_ignore_ascii_case key (uni ''Host'') then (out, host_patterns_match value alias)
             else if \<not> active then st
             else (config_set key value out, active)))"

definition resolve :: "ustr \<Rightarrow> ustr \<Rightarrow> host_config" where
  "resolve config_text alias = fst (fold (resolve_line alias) (str_lines config_text) (host_config_default, False))"

text \<open>Resolution against a file that may be missing.\<close>

definition resolve_default :: "ustr option \<Rightarrow> ustr \<Rightarrow> host_config" where
  "resolve_default file alias = (case file of Some text \<Rightarrow> resolve text alias | None \<Rightarrow> host_config_default)"


section \<open>What a pattern means\<close>

fun glob :: "ustr \<Rightarrow> ustr \<Rightarrow> bool" where
  "glob [] t \<longleftrightarrow> t = []"
| "glob (c # p) [] \<longleftrightarrow> c = 42 \<and> glob p []"
| "glob (c # p) (x # t) \<longleftrightarrow>
     (if c = 42 then glob p (x # t) \<or> glob (c # p) t else (c = 63 \<or> c = x) \<and> glob p t)"

lemma glob_star: "glob (42 # p) t \<longleftrightarrow> (\<exists>k \<le> length t. glob p (drop k t))"
proof (induction t)
  case (Cons x t)
  show ?case
  proof
    assume "glob (42 # p) (x # t)"
    then consider "glob p (x # t)" | k where "k \<le> length t" "glob p (drop k t)" using Cons.IH by auto
    then show "\<exists>k \<le> length (x # t). glob p (drop k (x # t))"
    proof cases
      case 1
      then show ?thesis by (intro exI [of _ 0]) simp
    next
      case 2
      then show ?thesis by (intro exI [of _ "Suc k"]) simp
    qed
  next
    assume "\<exists>k \<le> length (x # t). glob p (drop k (x # t))"
    then obtain k where "k \<le> Suc (length t)" "glob p (drop k (x # t))" by auto
    then show "glob (42 # p) (x # t)" using Cons.IH by (cases k) auto
  qed
qed simp

lemma glob_plain: "c \<noteq> 42 \<Longrightarrow> glob (c # p) t \<longleftrightarrow> (\<exists>x u. t = x # u \<and> (c = 63 \<or> c = x) \<and> glob p u)"
  by (cases t) auto

text \<open>A stretch without star takes exactly its length.\<close>

lemma glob_stretch: "42 \<notin> set seg \<Longrightarrow> glob (seg @ q) t \<Longrightarrow> length seg \<le> length t \<and> glob q (drop (length seg) t)"
proof (induction seg arbitrary: t)
  case (Cons c seg)
  then obtain x u where "t = x # u" "glob (seg @ q) u" by (auto simp: glob_plain)
  then show ?case using Cons by auto
qed simp

lemma glob_star_earlier:
  assumes "glob (42 # q) (drop j t)" "i \<le> j" "j \<le> length t"
  shows "glob (42 # q) (drop i t)"
proof -
  obtain k where k: "k \<le> length t - j" "glob q (drop (k + j) t)" using assms(1) by (auto simp: glob_star)
  then have "glob q (drop (j - i + k) (drop i t))" using assms(2) by (simp add: add.commute)
  moreover have "j - i + k \<le> length (drop i t)" using assms(2,3) k(1) by simp
  ultimately show ?thesis unfolding glob_star by blast
qed

lemma skip_stars_Nil: "skip_stars p = [] \<longleftrightarrow> glob p []"
  by (induction p) auto


section \<open>The loop decides the meaning\<close>

text \<open>What holds at the head of the loop: since the remembered star, the pattern was read without
  another star and in step with the text.\<close>

definition glob_inv :: "ustr \<Rightarrow> ustr \<Rightarrow> nat \<Rightarrow> nat \<Rightarrow> nat option \<Rightarrow> nat \<Rightarrow> bool" where
  "glob_inv p t pi ti star mark \<longleftrightarrow> pi \<le> length p \<and> ti \<le> length t \<and>
     (\<forall>s. star = Some s \<longrightarrow> s < pi \<and> mark \<le> ti \<and>
        (\<exists>seg. drop (s + 1) p = seg @ drop pi p \<and> length seg = ti - mark \<and> 42 \<notin> set seg))"

text \<open>What is left to try at the remembered star.\<close>

definition glob_later :: "ustr \<Rightarrow> ustr \<Rightarrow> nat option \<Rightarrow> nat \<Rightarrow> bool" where
  "glob_later p t star mark \<longleftrightarrow> (\<exists>s k. star = Some s \<and> mark < k \<and> k \<le> length t \<and> glob (drop (s + 1) p) (drop k t))"

text \<open>With the text used up, or at the next star, nothing is gained by going back to the earlier one.\<close>

lemma later_at_end:
  assumes "glob_inv p t pi (length t) star mark"
  shows "\<not> glob_later p t star mark"
proof
  assume "glob_later p t star mark"
  then obtain s k where k: "star = Some s" "mark < k" "k \<le> length t" "glob (drop (s + 1) p) (drop k t)"
    by (auto simp: glob_later_def)
  then obtain seg where "drop (s + 1) p = seg @ drop pi p" "length seg = length t - mark" "42 \<notin> set seg"
    using assms by (auto simp: glob_inv_def)
  then have "length seg \<le> length t - k" using k(4) glob_stretch [of seg "drop pi p" "drop k t"] by simp
  then show False using k(2,3) \<open>length seg = length t - mark\<close> by simp
qed

lemma later_at_star:
  assumes "glob_inv p t pi ti star mark" "pi < length p" "p ! pi = 42" "glob_later p t star mark"
  shows "glob (drop pi p) (drop ti t)"
proof -
  obtain s k where k: "star = Some s" "mark < k" "k \<le> length t" "glob (drop (s + 1) p) (drop k t)"
    using assms(4) by (auto simp: glob_later_def)
  then obtain seg where seg: "drop (s + 1) p = seg @ drop pi p" "length seg = ti - mark" "42 \<notin> set seg" "mark \<le> ti"
    using assms(1) by (auto simp: glob_inv_def)
  have pi: "drop pi p = 42 # drop (pi + 1) p" using assms(2,3) by (simp add: Cons_nth_drop_Suc [symmetric])
  have "length seg \<le> length t - k" "glob (drop pi p) (drop (length seg) (drop k t))"
    using glob_stretch [OF seg(3), of "drop pi p" "drop k t"] k(4) seg(1) by simp_all
  then have "glob (42 # drop (pi + 1) p) (drop (k + length seg) t)" "k + length seg \<le> length t"
    using k(3) by (simp_all add: pi add.commute)
  then show ?thesis
    using glob_star_earlier [of "drop (pi + 1) p" "k + length seg" t ti] seg(2,4) k(2) by (simp add: pi)
qed

lemma glob_loop_correct:
  assumes "glob_inv p t pi ti star mark" "42 \<notin> set t"
  shows "(\<exists>pi'. glob_loop p t pi ti star mark = Some pi' \<and> skip_stars (drop pi' p) = []) \<longleftrightarrow>
    glob (drop pi p) (drop ti t) \<or> glob_later p t star mark"
  using assms
proof (induction p t pi ti star mark rule: glob_loop.induct)
  case (1 p t pi ti star mark)
  note inv = "1.prems"(1) and plain = "1.prems"(2)
  show ?case
  proof (cases "ti < length t")
    case False
    then have "ti = length t" using inv by (simp add: glob_inv_def)
    then show ?thesis using later_at_end inv by (subst glob_loop.simps) (simp add: skip_stars_Nil)
  next
    case ti: True
    have t: "drop ti t = t ! ti # drop (ti + 1) t" using ti by (simp add: Cons_nth_drop_Suc [symmetric])
    have no_star: "t ! ti \<noteq> 42" using plain ti nth_mem by metis
    consider (same) "pi < length p" "p ! pi = 63 \<or> p ! pi = t ! ti"
      | (star) "pi < length p" "\<not> (p ! pi = 63 \<or> p ! pi = t ! ti)" "p ! pi = 42"
      | (other) "\<not> (pi < length p \<and> (p ! pi = 63 \<or> p ! pi = t ! ti))" "\<not> (pi < length p \<and> p ! pi = 42)"
      by blast
    then show ?thesis
    proof cases
      case same
      have p: "drop pi p = p ! pi # drop (pi + 1) p" "p ! pi \<noteq> 42"
        using same no_star by (auto simp: Cons_nth_drop_Suc [symmetric])
      have "glob_inv p t (pi + 1) (ti + 1) star mark"
        unfolding glob_inv_def
      proof (intro conjI allI impI)
        fix s assume "star = Some s"
        then obtain seg where "s < pi" "mark \<le> ti" "drop (s + 1) p = seg @ drop pi p" "length seg = ti - mark" "42 \<notin> set seg"
          using inv by (auto simp: glob_inv_def)
        then show "s < pi + 1" "mark \<le> ti + 1"
          "\<exists>seg. drop (s + 1) p = seg @ drop (pi + 1) p \<and> length seg = ti + 1 - mark \<and> 42 \<notin> set seg"
          using p by (auto intro!: exI [of _ "seg @ [p ! pi]"])
      qed (use same ti in auto)
      then show ?thesis
        using "1.IH"(1) [OF ti _ _ plain] same ti p t by (subst glob_loop.simps) (auto simp: glob_plain)
    next
      case star
      have p: "drop pi p = 42 # drop (pi + 1) p" using star by (simp add: Cons_nth_drop_Suc [symmetric])
      have "glob_inv p t (pi + 1) ti (Some pi) ti"
        using star ti by (auto simp: glob_inv_def)
      then have "(\<exists>pi'. glob_loop p t (pi + 1) ti (Some pi) ti = Some pi' \<and> skip_stars (drop pi' p) = []) \<longleftrightarrow>
          glob (drop (pi + 1) p) (drop ti t) \<or> glob_later p t (Some pi) ti"
        using "1.IH"(2) [OF ti] star plain by blast
      also have "\<dots> \<longleftrightarrow> glob (drop pi p) (drop ti t)"
        unfolding p glob_star glob_later_def
      proof safe
        fix k assume "ti < k" "k \<le> length t" "glob (drop (pi + 1) p) (drop k t)"
        then show "\<exists>k \<le> length (drop ti t). glob (drop (pi + 1) p) (drop k (drop ti t))"
          by (intro exI [of _ "k - ti"]) simp
      next
        fix k assume "k \<le> length (drop ti t)" "glob (drop (pi + 1) p) (drop k (drop ti t))"
          "\<nexists>s k. Some pi = Some s \<and> ti < k \<and> k \<le> length t \<and> glob (drop (s + 1) p) (drop k t)"
        then show "glob (drop (pi + 1) p) (drop ti t)" using ti by (cases k) (auto simp: add.commute)
      qed (auto intro: exI [of _ 0])
      also have "\<dots> \<longleftrightarrow> glob (drop pi p) (drop ti t) \<or> glob_later p t star mark"
        using later_at_star [OF inv] star by blast
      finally show ?thesis using star ti by (subst glob_loop.simps) simp
    next
      case other
      have no: "\<not> glob (drop pi p) (drop ti t)"
      proof (cases "pi < length p")
        case True
        then have "drop pi p = p ! pi # drop (pi + 1) p" by (simp add: Cons_nth_drop_Suc [symmetric])
        then show ?thesis using other True t by simp
      qed (simp add: t)
      show ?thesis
      proof (cases star)
        case None
        then show ?thesis using other ti no by (subst glob_loop.simps) (auto simp: glob_later_def)
      next
        case (Some s)
        then have "s < pi" "mark \<le> ti" "pi \<le> length p" using inv by (auto simp: glob_inv_def)
        then have "glob_inv p t (s + 1) (mark + 1) star (mark + 1)" using Some ti by (auto simp: glob_inv_def)
        then have "(\<exists>pi'. glob_loop p t (s + 1) (mark + 1) star (mark + 1) = Some pi' \<and> skip_stars (drop pi' p) = []) \<longleftrightarrow>
            glob (drop (s + 1) p) (drop (mark + 1) t) \<or> glob_later p t star (mark + 1)"
          using "1.IH"(3) [OF ti other Some] plain by blast
        also have "\<dots> \<longleftrightarrow> glob_later p t star mark"
          using Some ti \<open>mark \<le> ti\<close> unfolding glob_later_def by (auto simp: Suc_le_eq) (metis Suc_lessD, metis Suc_lessI)
        finally show ?thesis using Some other ti no by (subst glob_loop.simps) auto
      qed
    qed
  qed
qed


text \<open>C31: the wildcard loop decides what patterns mean. For every pattern and every text without a
  literal star, the two-index loop with one remembered star answers exactly whether the text can be
  cut so that each star takes some run of characters, each question mark one character, and every other
  character itself.\<close>

theorem glob_match_decides:
  assumes "42 \<notin> set text"
  shows "glob_match pattern text \<longleftrightarrow> glob pattern text"
  using glob_loop_correct [of pattern "text" 0 0 None 0] assms
  by (auto simp: glob_match_def glob_inv_def glob_later_def split: option.splits)

theorem glob_match_decides_witness:
  "glob_match (uni ''*.ex?mple*m'') (uni ''a.b.example.com'') \<longleftrightarrow> glob (uni ''*.ex?mple*m'') (uni ''a.b.example.com'')"
  by (rule glob_match_decides) (simp add: uni_def)

text \<open>A star in the text is taken for the star of the pattern.\<close>

theorem literal_star_misread: "\<not> glob_match (uni ''*a'') (uni ''*ba'') \<and> glob (uni ''*a'') (uni ''*ba'')"
  by (simp add: glob_match_def uni_def glob_loop.simps)


section \<open>First value wins\<close>

text \<open>The settings that apply to an alias: the keyword and value lines of the blocks whose \<^verbatim>\<open>Host\<close> line
  matches it, in the order of the file.\<close>

fun settings :: "ustr \<Rightarrow> bool \<Rightarrow> (ustr \<times> ustr) list \<Rightarrow> (ustr \<times> ustr) list" where
  "settings alias active [] = []"
| "settings alias active ((key, value) # ps) =
     (if to_ascii_lowercase key = uni ''host'' then settings alias (host_patterns_match value alias) ps
      else (if active then [(to_ascii_lowercase key, value)] else []) @ settings alias active ps)"

definition first_value :: "ustr \<Rightarrow> (ustr \<Rightarrow> 'v option) \<Rightarrow> (ustr \<times> ustr) list \<Rightarrow> 'v option" where
  "first_value key read ps =
     (case List.map_filter (\<lambda>(k, v). if k = key then read v else None) ps of [] \<Rightarrow> None | v # _ \<Rightarrow> Some v)"

lemma first_value_simps [simp]:
  "first_value key read [] = None"
  "first_value key read ((k, v) # ps) = (if k = key \<and> read v \<noteq> None then read v else first_value key read ps)"
  by (auto simp: first_value_def map_filter_simps split: option.splits)

definition or_else :: "'v option \<Rightarrow> 'v option \<Rightarrow> 'v option" where
  "or_else a b = (case a of Some v \<Rightarrow> Some v | None \<Rightarrow> b)"

definition config_pairs :: "ustr \<Rightarrow> (ustr \<times> ustr) list" where
  "config_pairs config_text = List.map_filter (\<lambda>raw. config_pair (config_line raw)) (str_lines config_text)"

lemma config_keys: "uni ''hostname'' \<noteq> uni ''user''" "uni ''hostname'' \<noteq> uni ''port''" "uni ''user'' \<noteq> uni ''port''"
  "to_ascii_lowercase (uni ''Host'') = uni ''host''"
  by (simp_all add: uni_def to_ascii_lowercase_def ascii_lower_def)

lemma config_set_first:
  "or_else (hc_hostname (config_set key v out)) x =
    or_else (hc_hostname out) (if to_ascii_lowercase key = uni ''hostname'' then Some v else x)"
  "or_else (hc_user (config_set key v out)) x = or_else (hc_user out) (if to_ascii_lowercase key = uni ''user'' then Some v else x)"
  "or_else (hc_port (config_set key v out)) y =
    or_else (hc_port out) (if to_ascii_lowercase key = uni ''port'' \<and> parse_u16 v \<noteq> None then parse_u16 v else y)"
  using config_keys by (auto simp: config_set_def or_else_def Let_def split: option.splits)

lemma resolve_fold:
  "fst (fold (resolve_line alias) ls (out, active)) =
    (let ps = settings alias active (List.map_filter (\<lambda>raw. config_pair (config_line raw)) ls) in
     \<lparr>hc_hostname = or_else (hc_hostname out) (first_value (uni ''hostname'') Some ps),
      hc_user = or_else (hc_user out) (first_value (uni ''user'') Some ps),
      hc_port = or_else (hc_port out) (first_value (uni ''port'') parse_u16 ps)\<rparr>)"
proof (induction ls arbitrary: out active)
  case Nil
  show ?case by (cases out) (simp add: or_else_def map_filter_simps split: option.splits)
next
  case (Cons l ls)
  show ?case
  proof (cases "config_pair (config_line l)")
    case None
    then show ?thesis using Cons.IH by (simp add: resolve_line_def map_filter_simps)
  next
    case (Some kv)
    obtain key v where kv: "kv = (key, v)" by (cases kv)
    consider (host) "to_ascii_lowercase key = uni ''host''" | (inactive) "to_ascii_lowercase key \<noteq> uni ''host''" "\<not> active"
      | (setting) "to_ascii_lowercase key \<noteq> uni ''host''" "active" by blast
    then show ?thesis
    proof cases
      case setting
      then have "fst (fold (resolve_line alias) (l # ls) (out, active)) = fst (fold (resolve_line alias) ls (config_set key v out, active))"
        using Some kv by (simp add: resolve_line_def eq_ignore_ascii_case_def config_keys)
      then show ?thesis
        unfolding Cons.IH using setting Some kv by (simp add: map_filter_simps config_set_first Let_def)
    qed (use Some kv Cons.IH in \<open>simp_all add: resolve_line_def eq_ignore_ascii_case_def config_keys map_filter_simps\<close>)
  qed
qed

text \<open>C32: resolution takes the first applicable value. For every configuration text and alias, host name
  and user are the first values given in a block that matches the alias, and the port is the first
  value there that is a number below 65536, whatever comes later in the file.\<close>

theorem resolve_first_wins:
  "resolve config_text alias =
    (let ps = settings alias False (config_pairs config_text) in
     \<lparr>hc_hostname = first_value (uni ''hostname'') Some ps, hc_user = first_value (uni ''user'') Some ps,
      hc_port = first_value (uni ''port'') parse_u16 ps\<rparr>)"
  by (simp add: resolve_def resolve_fold config_pairs_def host_config_default_def or_else_def Let_def)

end
