(* ===== verification/Status.thy ===== *)
theory Status
  imports RustFmt Grid
begin

text \<open>
  The connection-status overlay and the detach key, \<^verbatim>\<open>src/status.rs\<close>. A \<^verbatim>\<open>Duration\<close> is its number of nanoseconds.
\<close>

definition ESCAPE_KEY :: u8 where
  "ESCAPE_KEY = 0x1e"

definition SHOW_AFTER :: nat where
  "SHOW_AFTER = 4 * 1000000000"

definition status_banner :: "nat \<Rightarrow> ustr option" where
  "status_banner since =
     (if since < SHOW_AFTER then None
      else Some (uni ''[noissh] last contact '' @ udec (since div 1000000000) @ uni ''s ago '' @ [0x2014] @ uni '' reconnecting'' @
                 [0x2026] @ uni ''  (Ctrl-^ . to quit)''))"

definition banner_cell :: "nat \<Rightarrow> cell" where
  "banner_cell c = \<lparr>ch = c, fg = DefaultColor, bg = DefaultColor, cflags = REVERSE OR BOLD\<rparr>"

definition stamp_status :: "ustr \<Rightarrow> grid \<Rightarrow> grid option" where
  "stamp_status txt g =
     (if g_rows g = 0 \<or> g_cols g = 0 then Some g
      else
        (let chars = take (g_cols g) txt;
             start_col = g_cols g - length chars
         in do { cells \<leftarrow> opt_fold (\<lambda>(i, c). put_at (start_col + i) (banner_cell c)) (enumerate 0 chars) (g_cells g);
                 Some (g\<lparr>g_cells := cells\<rparr>) }))"

record input_outcome =
  io_forward :: bytes
  io_quit :: bool

text \<open>The loop of \<^verbatim>\<open>process_input\<close>; the boolean is \<^verbatim>\<open>pending\<close>.\<close>

fun process_input_loop :: "bool \<Rightarrow> bytes \<Rightarrow> input_outcome \<Rightarrow> bool \<times> input_outcome" where
  "process_input_loop pending [] out = (pending, out)"
| "process_input_loop pending (b # bs) out =
     (if pending then
        process_input_loop False bs
          (if b = 46 \<or> b = 113 then out\<lparr>io_quit := True\<rparr>
           else if b = ESCAPE_KEY then out\<lparr>io_forward := io_forward out @ [ESCAPE_KEY]\<rparr>
           else out)
      else if b = ESCAPE_KEY then process_input_loop True bs out
      else process_input_loop pending bs (out\<lparr>io_forward := io_forward out @ [b]\<rparr>))"

definition process_input :: "bool \<Rightarrow> bytes \<Rightarrow> bool \<times> input_outcome" where
  "process_input pending bs = process_input_loop pending bs \<lparr>io_forward = [], io_quit = False\<rparr>"


section \<open>The banner\<close>

lemma stamp_loop:
  "start + n + length cs \<le> length cells \<Longrightarrow>
   opt_fold (\<lambda>(i, c). put_at (start + i) (banner_cell c)) (enumerate n cs) cells =
     Some (take (start + n) cells @ map banner_cell cs @ drop (start + n + length cs) cells)"
proof (induction cs arbitrary: n cells)
  case (Cons c cs)
  then have "start + n < length cells" by simp
  then show ?case
    using Cons.IH [of "Suc n" "cells[start + n := banner_cell c]"] Cons.prems
    by (simp add: put_at_def take_Suc_conv_app_nth)
qed simp

text \<open>The banner occupies the right end of the top row and nothing else changes.\<close>

lemma stamp_status_cells:
  assumes "length (g_cells g) = g_rows g * g_cols g" "0 < g_rows g"
  shows "stamp_status txt g = Some (g\<lparr>g_cells := take (g_cols g - length txt) (g_cells g) @ map banner_cell (take (g_cols g) txt) @ drop (g_cols g) (g_cells g)\<rparr>)"
proof (cases "g_cols g = 0")
  case False
  have len: "g_cols g \<le> length (g_cells g)" using assms by (cases "g_rows g") auto
  then show ?thesis
    using assms False stamp_loop [of "g_cols g - length (take (g_cols g) txt)" 0 "take (g_cols g) txt" "g_cells g"]
    by (simp add: stamp_status_def Let_def min_def split: if_splits)
qed (use assms in \<open>simp add: stamp_status_def\<close>)


section \<open>The detach key\<close>

text \<open>What is forwarded and whether to quit accumulate, so a batch may be cut anywhere.\<close>

definition add_outcome :: "input_outcome \<Rightarrow> input_outcome \<Rightarrow> input_outcome" where
  "add_outcome a b = \<lparr>io_forward = io_forward a @ io_forward b, io_quit = io_quit a \<or> io_quit b\<rparr>"

lemma add_outcome_update [simp]:
  "(add_outcome a b)\<lparr>io_quit := True\<rparr> = add_outcome a (b\<lparr>io_quit := True\<rparr>)"
  "(add_outcome a b)\<lparr>io_forward := io_forward (add_outcome a b) @ bs\<rparr> = add_outcome a (b\<lparr>io_forward := io_forward b @ bs\<rparr>)"
  by (simp_all add: add_outcome_def)

lemma process_input_loop_add:
  "process_input_loop p bs (add_outcome a b) = map_prod id (add_outcome a) (process_input_loop p bs b)"
  by (induction bs arbitrary: p b) simp_all

lemma add_outcome_empty [simp]: "add_outcome a \<lparr>io_forward = [], io_quit = False\<rparr> = a"
  by (simp add: add_outcome_def)

lemma process_input_loop_acc: "process_input_loop p bs a = map_prod id (add_outcome a) (process_input p bs)"
  using process_input_loop_add [of p bs a "\<lparr>io_forward = [], io_quit = False\<rparr>"] by (simp add: process_input_def)

lemma process_input_loop_append:
  "process_input_loop p (xs @ ys) a = (case process_input_loop p xs a of (p', a') \<Rightarrow> process_input_loop p' ys a')"
  by (induction xs arbitrary: p a) simp_all

lemma process_input_append:
  "process_input p (xs @ ys) =
     (case process_input p xs of (p', a) \<Rightarrow> map_prod id (add_outcome a) (process_input p' ys))"
  unfolding process_input_def [of p "xs @ ys"] process_input_loop_append process_input_def [of p xs, symmetric]
  by (simp add: process_input_loop_acc split: prod.split)

text \<open>The reads of a session, one after the other.\<close>

fun process_reads :: "bool \<Rightarrow> bytes list \<Rightarrow> bool \<times> input_outcome" where
  "process_reads p [] = (p, \<lparr>io_forward = [], io_quit = False\<rparr>)"
| "process_reads p (r # rs) =
     (case process_input p r of (p', a) \<Rightarrow> map_prod id (add_outcome a) (process_reads p' rs))"

lemma process_reads_concat: "process_reads p rs = process_input p (concat rs)"
  by (induction rs arbitrary: p) (simp_all add: process_input_append process_input_def [of _ "[]"] split: prod.split)

text \<open>What the user means: a plain byte, or the detach key followed by a command byte. Every input is a sequence of these,
  possibly cut right behind a detach key.\<close>

datatype keystroke = Plain u8 | Command u8

primrec key_bytes :: "keystroke \<Rightarrow> bytes" where
  "key_bytes (Plain b) = [b]"
| "key_bytes (Command b) = [0x1e, b]"

primrec key_sends :: "keystroke \<Rightarrow> bytes" where
  "key_sends (Plain b) = [b]"
| "key_sends (Command b) = (if b = 0x1e then [0x1e] else [])"

definition typed :: "keystroke list \<Rightarrow> bool \<Rightarrow> bytes \<Rightarrow> bool" where
  "typed ks half bs \<longleftrightarrow> bs = concat (map key_bytes ks) @ (if half then [0x1e] else []) \<and> Plain 0x1e \<notin> set ks"

lemma typed_exists: "\<exists>ks half. typed ks half bs"
proof (induction bs rule: induct_list012)
  case 1
  have "typed [] False []" by (simp add: typed_def)
  then show ?case by blast
next
  case (2 b)
  have "typed (if b = 0x1e then [] else [Plain b]) (b = 0x1e) [b]" by (simp add: typed_def)
  then show ?case by blast
next
  case (3 b c bs)
  obtain ks half where short: "typed ks half bs" using "3.IH"(1) by blast
  obtain ks' half' where long: "typed ks' half' (c # bs)" using "3.IH"(2) by blast
  have "typed (Command c # ks) half (b # c # bs)" if "b = 0x1e" using short that by (simp add: typed_def)
  moreover have "typed (Plain b # ks') half' (b # c # bs)" if "b \<noteq> 0x1e" using long that by (simp add: typed_def)
  ultimately show ?case by blast
qed

lemma process_typed:
  "Plain 0x1e \<notin> set ks \<Longrightarrow>
   process_input_loop False (concat (map key_bytes ks) @ rest) a =
     process_input_loop False rest
       \<lparr>io_forward = io_forward a @ concat (map key_sends ks), io_quit = (io_quit a \<or> Command 46 \<in> set ks \<or> Command 113 \<in> set ks)\<rparr>"
proof (induction ks arbitrary: a)
  case Nil
  show ?case by (cases a) simp
next
  case (Cons k ks)
  then show ?case by (cases k) (auto simp: ESCAPE_KEY_def)
qed

lemma process_reads_typed:
  assumes "typed ks half ((if p then [0x1e] else []) @ concat rs)"
  shows "process_reads p rs = (half, \<lparr>io_forward = concat (map key_sends ks), io_quit = (Command 46 \<in> set ks \<or> Command 113 \<in> set ks)\<rparr>)"
proof -
  have "process_reads p rs = process_input False ((if p then [0x1e] else []) @ concat rs)"
    by (simp add: process_reads_concat process_input_def ESCAPE_KEY_def)
  then show ?thesis using assms by (simp add: typed_def process_input_def process_typed ESCAPE_KEY_def)
qed

text \<open>C37: the detach key hides no byte and quits only when asked. Every input is, however the terminal cuts it into
  reads, a sequence of plain bytes and of detach keys (the byte 30) followed by a command byte, perhaps with a last
  detach key whose command is still to come. Exactly the plain bytes, and one detach key for every detach key typed
  twice, go to the remote shell, in order; the client quits exactly when some command byte is a dot or a \<open>q\<close>; and the
  next read is taken as a command exactly when the input was cut behind a detach key.\<close>

theorem detach_key_transparent:
  "(\<exists>ks half. typed ks half (concat rs)) \<and>
   (\<forall>ks half. typed ks half (concat rs) \<longrightarrow>
      process_reads False rs = (half, \<lparr>io_forward = concat (map key_sends ks), io_quit = (Command 46 \<in> set ks \<or> Command 113 \<in> set ks)\<rparr>))"
  using typed_exists [of "concat rs"] process_reads_typed [of _ _ False rs] by simp

theorem detach_key_transparent_witness:
  "typed [Plain 65, Command 0x1e, Command 97, Command 46] False (concat [[65, 0x1e], [0x1e, 0x1e], [97, 0x1e], [46]]) \<and>
   process_reads False [[65, 0x1e], [0x1e, 0x1e], [97, 0x1e], [46]] = (False, \<lparr>io_forward = [65, 0x1e], io_quit = True\<rparr>)"
proof -
  have t: "typed [Plain 65, Command 0x1e, Command 97, Command 46] False (concat [[65, 0x1e], [0x1e, 0x1e], [97, 0x1e], [46]])"
    by (simp add: typed_def)
  show ?thesis
    using t detach_key_transparent [of "[[65, 0x1e], [0x1e, 0x1e], [97, 0x1e], [46]]", THEN conjunct2, rule_format, OF t] by simp
qed

end
