(* ===== verification/Tty.thy ===== *)
theory Tty
  imports Status Tcp
begin

text \<open>
  The client's terminal, \<^verbatim>\<open>src/tty.rs\<close>: writing to a descriptor that may be non-blocking, and the renderer that paints
  what changed since the last frame as ANSI control sequences. What is painted is a text; the renderer writes its UTF-8
  bytes in one call. Raw mode and its restoration are system calls and not modelled.
\<close>

section \<open>Writing everything\<close>

text \<open>\<open>wr\<close> is the system call (an interrupted one is repeated and not seen), \<open>wait\<close> is \<^verbatim>\<open>poll\<close> for writability; the
  boolean is success. \<open>None\<close> is a descriptor that is never ready.\<close>

partial_function (option) write_all_fd :: "(bytes \<Rightarrow> 'o \<Rightarrow> tcp_write \<times> 'o) \<Rightarrow> ('o \<Rightarrow> bool \<times> 'o) \<Rightarrow> bytes \<Rightarrow> 'o \<Rightarrow> (bool \<times> 'o) option" where
  "write_all_fd wr wait buf w =
     (if buf = [] then Some (True, w)
      else case wr buf w of
        (Taken n, w) \<Rightarrow> if n = 0 then Some (False, w) else write_all_fd wr wait (drop n buf) w
      | (Full, w) \<Rightarrow> (case wait w of (ok, w) \<Rightarrow> if ok then write_all_fd wr wait buf w else Some (False, w))
      | (WriteError, w) \<Rightarrow> Some (False, w))"

text \<open>The writer of the renderer: one write that waits until it is possible. \<^verbatim>\<open>write_all\<close> of the standard library repeats it.\<close>

partial_function (option) tty_write :: "(bytes \<Rightarrow> 'o \<Rightarrow> tcp_write \<times> 'o) \<Rightarrow> ('o \<Rightarrow> bool \<times> 'o) \<Rightarrow> bytes \<Rightarrow> 'o \<Rightarrow> (nat option \<times> 'o) option" where
  "tty_write wr wait buf w =
     (case wr buf w of
        (Taken n, w) \<Rightarrow> Some (Some n, w)
      | (Full, w) \<Rightarrow> (case wait w of (ok, w) \<Rightarrow> if ok then tty_write wr wait buf w else Some (None, w))
      | (WriteError, w) \<Rightarrow> Some (None, w))"


section \<open>The size of the terminal\<close>

definition terminal_size :: "(u16 \<times> u16) option \<Rightarrow> u16 \<times> u16" where
  "terminal_size sz = (case sz of Some (w, h) \<Rightarrow> if w > 0 \<and> h > 0 then (w, h) else (80, 24) | None \<Rightarrow> (80, 24))"


section \<open>Control sequences\<close>

definition csi :: ustr where
  "csi = [27, 91]"

definition color_params :: "string \<Rightarrow> color \<Rightarrow> ustr" where
  "color_params kind c =
     (case c of
        DefaultColor \<Rightarrow> []
      | Indexed n \<Rightarrow> uni '';'' @ uni kind @ uni '';5;'' @ udec (unat n)
      | Rgb r g b \<Rightarrow> uni '';'' @ uni kind @ uni '';2;'' @ udec (unat r) @ uni '';'' @ udec (unat g) @ uni '';'' @ udec (unat b))"

definition sgr_for :: "u8 \<Rightarrow> color \<Rightarrow> color \<Rightarrow> ustr" where
  "sgr_for fl fgc bgc =
     csi @ uni ''0'' @
     (if fl AND BOLD \<noteq> 0 then uni '';1'' else []) @
     (if fl AND DIM \<noteq> 0 then uni '';2'' else []) @
     (if fl AND ITALIC \<noteq> 0 then uni '';3'' else []) @
     (if fl AND (UNDERLINE OR PREDICTED) \<noteq> 0 then uni '';4'' else []) @
     (if fl AND REVERSE \<noteq> 0 then uni '';7'' else []) @
     color_params ''38'' fgc @ color_params ''48'' bgc @ uni ''m''"


section \<open>The renderer\<close>

record renderer =
  rd_last :: "grid option"

definition renderer_new :: renderer where
  "renderer_new = \<lparr>rd_last = None\<rparr>"

definition invalidate :: "renderer \<Rightarrow> renderer" where
  "invalidate r = r\<lparr>rd_last := None\<rparr>"

text \<open>The cells of one row; \<open>cur\<close> are the attributes in effect once \<open>started\<close>.\<close>

fun row_cells :: "bool \<Rightarrow> u8 \<times> color \<times> color \<Rightarrow> cell list \<Rightarrow> ustr" where
  "row_cells started cur [] = []"
| "row_cells started cur (c # cs) =
     (let key = (cflags c, fg c, bg c)
      in if \<not> started \<or> key \<noteq> cur then sgr_for (cflags c) (fg c) (bg c) @ [ch c] @ row_cells True key cs
         else [ch c] @ row_cells started cur cs)"

definition paint_row :: "grid \<Rightarrow> nat \<Rightarrow> ustr" where
  "paint_row g row =
     csi @ udec (row + 1) @ uni '';1H'' @ csi @ uni ''2K'' @
     row_cells False (0, DefaultColor, DefaultColor) (map (grid_cell g row) [0..<g_cols g]) @ csi @ uni ''0m''"

definition changed_rows :: "grid \<Rightarrow> renderer \<Rightarrow> nat list" where
  "changed_rows g r =
     (let full = (case rd_last r of Some p \<Rightarrow> g_rows p \<noteq> g_rows g \<or> g_cols p \<noteq> g_cols g | None \<Rightarrow> True)
      in filter (\<lambda>row. full \<or>
           (case rd_last r of Some p \<Rightarrow> list_ex (\<lambda>c. grid_cell p row c \<noteq> grid_cell g row c) [0..<g_cols g] | None \<Rightarrow> True))
         [0..<g_rows g])"

definition cursor_moved :: "grid \<Rightarrow> renderer \<Rightarrow> bool" where
  "cursor_moved g r = (case rd_last r of Some p \<Rightarrow> cursor_row p \<noteq> cursor_row g \<or> cursor_col p \<noteq> cursor_col g | None \<Rightarrow> True)"

definition vis_changed :: "grid \<Rightarrow> renderer \<Rightarrow> bool" where
  "vis_changed g r = (case rd_last r of Some p \<Rightarrow> cursor_visible p \<noteq> cursor_visible g | None \<Rightarrow> True)"

text \<open>The text to write, or nothing when the screen is unchanged.\<close>

definition paint_text :: "grid \<Rightarrow> renderer \<Rightarrow> ustr option" where
  "paint_text g r =
     (let rows = changed_rows g r; repainting = (rows \<noteq> [])
      in if rows = [] \<and> \<not> cursor_moved g r \<and> \<not> vis_changed g r then None
         else Some
           ((if repainting then csi @ uni ''?25l'' else []) @
            concat (map (paint_row g) rows) @
            (if repainting \<or> cursor_moved g r then csi @ udec (cursor_row g + 1) @ uni '';'' @ udec (cursor_col g + 1) @ uni ''H'' else []) @
            (if repainting then (if cursor_visible g then csi @ uni ''?25h'' else [])
             else if vis_changed g r then (if cursor_visible g then csi @ uni ''?25h'' else csi @ uni ''?25l'')
             else [])))"

text \<open>\<open>wr\<close> writes a text and succeeds or fails; the frame counts as painted only when it was written.\<close>

definition render_paint :: "(ustr \<Rightarrow> 'o \<Rightarrow> bool \<times> 'o) \<Rightarrow> grid \<Rightarrow> renderer \<Rightarrow> 'o \<Rightarrow> bool \<times> renderer \<times> 'o" where
  "render_paint wr g r w =
     (case paint_text g r of
        None \<Rightarrow> (True, r, w)
      | Some buf \<Rightarrow> (case wr buf w of (ok, w) \<Rightarrow> (ok, if ok then r\<lparr>rd_last := Some g\<rparr> else r, w)))"


section \<open>Everything that is written\<close>

text \<open>When writing reports success, the descriptor was given all of the buffer.\<close>

lemma write_all_fd_shown:
  assumes io: "\<And>bs w r w'. wr bs w = (r, w') \<Longrightarrow> shown w' = shown w @ (case r of Taken n \<Rightarrow> take n bs | _ \<Rightarrow> [])"
    and wait: "\<And>w. shown (snd (wait w)) = shown w"
    and run: "write_all_fd wr wait buf w = Some (True, w')"
  shows "shown w' = shown w @ buf"
proof -
  have "fst y \<longrightarrow> wr1 = wr \<longrightarrow> wt = wait \<longrightarrow> shown (snd y) = shown v @ b" if "write_all_fd wr1 wt b v = Some y" for wr1 wt b v y
  proof (rule write_all_fd.raw_induct [where P = "\<lambda>wr1 wt b v y. fst y \<longrightarrow> wr1 = wr \<longrightarrow> wt = wait \<longrightarrow> shown (snd y) = shown v @ b", OF _ that])
    fix rec wr1 wt b v y
    assume IH: "\<And>wr1 wt b v y. rec wr1 wt b v = Some y \<Longrightarrow> fst y \<longrightarrow> wr1 = wr \<longrightarrow> wt = wait \<longrightarrow> shown (snd y) = shown v @ b"
      and step: "(if b = [] then Some (True, v)
        else case wr1 b v of
          (Taken n, w) \<Rightarrow> if n = 0 then Some (False, w) else rec wr1 wt (drop n b) w
        | (Full, w) \<Rightarrow> (case wt w of (ok, w) \<Rightarrow> if ok then rec wr1 wt b w else Some (False, w))
        | (WriteError, w) \<Rightarrow> Some (False, w)) = Some y"
    show "fst y \<longrightarrow> wr1 = wr \<longrightarrow> wt = wait \<longrightarrow> shown (snd y) = shown v @ b"
    proof (intro impI)
      assume ok: "fst y" and same: "wr1 = wr" "wt = wait"
      obtain r v1 where w: "wr b v = (r, v1)" by fastforce
      show "shown (snd y) = shown v @ b"
      proof (cases "b = []")
        case False
        show ?thesis
        proof (cases r)
          case (Taken n)
          then have "n \<noteq> 0" "rec wr wait (drop n b) v1 = Some y"
            using step ok w False by (auto simp: same split: if_splits)
          then show ?thesis using IH ok io [OF w] Taken by fastforce
        next
          case Full
          obtain k v2 where k: "wait v1 = (k, v2)" by fastforce
          have "k" "rec wr wait b v2 = Some y" using step ok w False Full by (auto simp: same k split: if_splits)
          then show ?thesis using IH ok io [OF w] wait [of v1] Full k by fastforce
        next
          case WriteError
          then show ?thesis using step ok w False by (auto simp: same)
        qed
      qed (use step in auto)
    qed
  qed
  from this [OF run] show ?thesis by simp
qed

end
