(* ===== verification/Program.thy ===== *)
theory Program
  imports Cli Config Bootstrap SshConfig Tty ClientDriver ClientSafe
begin

text \<open>
  The client program up to the session, \<^verbatim>\<open>run\<close> of \<^verbatim>\<open>src/bin/noissh.rs\<close>: forgetting a host, the identity key, copying it, the decision
  between a direct connection and the SSH bootstrap, the trust in the server's key, saving a new pin, the upgrade offer,
  and what the session is for. Parameters are the files, the \<^verbatim>\<open>ssh\<close> program, the name resolution, the datagrams that arrive, the
  environment and the terminal. What is printed is not modelled; a message that the code quotes with its
  debug format is written here in plain quotes, and the text of an operating-system error is left out of it.
\<close>

section \<open>What the program lives in\<close>

text \<open>One try to connect: the random session id, whether a socket could be bound, and what is received in each round.\<close>

record net_try =
  nt_sid :: bytes
  nt_bound :: bool
  nt_rounds :: "bytes option list"

record ('s, 't, 'a, 'f, 'w) program_env =
  pg_snow :: "('s, 't) snow"
  pg_store :: "'f text_store"
  pg_keys :: key_env
  pg_ssh :: "('a, 'w) ssh_env"
  pg_xdg :: "bytes option"
  pg_home :: "bytes option"
  pg_window :: "(u16 \<times> u16) option"
  pg_term :: "bytes option"
  pg_auth_sock :: "bytes option"
  pg_stdin_tty :: bool
  pg_direct :: net_try
  pg_boot :: net_try
  pg_version_rounds :: "bytes option list"

text \<open>The files, the world that \<^verbatim>\<open>ssh\<close> and the prompt act on, and the datagrams sent so far.\<close>

record ('f, 'w) program_state =
  ps_files :: 'f
  ps_world :: 'w
  ps_sent :: "bytes list"

definition pg_dir :: "('s, 't, 'a, 'f, 'w) program_env \<Rightarrow> bytes" where
  "pg_dir e = config_dir (pg_xdg e) (pg_home e)"

definition id_path :: "('s, 't, 'a, 'f, 'w) program_env \<Rightarrow> bytes" where
  "id_path e = path_join (pg_dir e) (asc ''id'')"

definition kh_path :: "('s, 't, 'a, 'f, 'w) program_env \<Rightarrow> bytes" where
  "kh_path e = path_join (pg_dir e) (asc ''known_hosts'')"

definition host_label :: "ustr \<Rightarrow> nat \<Rightarrow> ustr" where
  "host_label host port = host @ 58 # udec port"


section \<open>Forgetting a host\<close>

definition forget_host :: "('s, 't, 'a, 'f, 'w) program_env \<Rightarrow> ustr \<Rightarrow> ('f, 'w) program_state \<Rightarrow> (runtime_error + unit) \<times> ('f, 'w) program_state" where
  "forget_host e host s =
     (case load_known_hosts (pg_store e) (ke_b64d (pg_keys e)) (kh_path e) (ps_files s) of
        Inl err \<Rightarrow> (Inl err, s)
      | Inr known \<Rightarrow>
          (case kh_remove_matching host known of (removed, known) \<Rightarrow>
             if removed = [] then (Inr (), s)
             else
               (case save_known_hosts (pg_store e) (ke_b64e (pg_keys e)) (ke_pid (pg_keys e)) (kh_path e) known (ps_files s) of
                  (r, f) \<Rightarrow> (r, s\<lparr>ps_files := f\<rparr>))))"


section \<open>What the session is for\<close>

definition has_forwards :: "args \<Rightarrow> bool" where
  "has_forwards a \<longleftrightarrow> ag_local_forwards a \<noteq> [] \<or> ag_remote_forwards a \<noteq> [] \<or> ag_dynamic_forwards a \<noteq> []"

definition run_command :: "args \<Rightarrow> ustr list" where
  "run_command a = (if ag_no_command a then [] else ag_command a)"

definition forward_only :: "args \<Rightarrow> bool" where
  "forward_only a \<longleftrightarrow> ag_no_command a \<or> (has_forwards a \<and> run_command a = [])"

definition want_shell :: "args \<Rightarrow> bool" where
  "want_shell a \<longleftrightarrow> \<not> forward_only a \<and> \<not> has_forwards a \<and> ag_transfer a = None \<and> run_command a = []"

definition agent_sock :: "('s, 't, 'a, 'f, 'w) program_env \<Rightarrow> args \<Rightarrow> bytes option" where
  "agent_sock e a =
     (if ag_forward_agent a \<and> want_shell a then (case pg_auth_sock e of Some p \<Rightarrow> if p \<noteq> [] then Some p else None | None \<Rightarrow> None)
      else None)"

text \<open>Where the session is: the host behind the alias.\<close>

definition read_file :: "('s, 't, 'a, 'f, 'w) program_env \<Rightarrow> bytes \<Rightarrow> 'f \<Rightarrow> ustr option" where
  "read_file e p f = (case ts_read (pg_store e) (path_from p) f of Text t \<Rightarrow> Some t | _ \<Rightarrow> None)"

definition config_unreadable :: "ustr \<Rightarrow> ustr" where
  "config_unreadable p = uni ''can'' @ sq @ uni ''t read the ssh config file '' @ dq @ p @ dq @ uni '' given with -F: ''"

definition session_host :: "('s, 't, 'a, 'f, 'w) program_env \<Rightarrow> args \<Rightarrow> ustr \<Rightarrow> 'f \<Rightarrow> runtime_error + ustr" where
  "session_host e a target f =
     (let alias = host_of target;
          cfg = (case ag_ssh_config a of
                   Some p \<Rightarrow>
                     (case read_file e (utf8_encode p) f of
                        Some txt \<Rightarrow> Inr (resolve txt alias)
                      | None \<Rightarrow> Inl (RUsage (config_unreadable p)))
                 | None \<Rightarrow>
                     Inr (resolve_default
                       (Option.bind (pg_home e) (\<lambda>h. read_file e (path_join (path_join h (asc ''.ssh'')) (asc ''config'')) f)) alias))
      in case cfg of Inl err \<Rightarrow> Inl err | Inr c \<Rightarrow> Inr (case hc_hostname c of Some h \<Rightarrow> h | None \<Rightarrow> alias))"


section \<open>Connecting\<close>

text \<open>One call of \<^verbatim>\<open>Client::connect_with\<close> with what both calls share.\<close>

definition connect_once :: "('s, 't, 'a, 'f, 'w) program_env \<Rightarrow> args \<Rightarrow> keypair \<Rightarrow> net_try \<Rightarrow> known_hosts \<Rightarrow> ustr \<Rightarrow> 'a \<Rightarrow>
    (runtime_error + ('s, 't, 'a, 'k) client_driver) \<times> bytes list" where
  "connect_once e a kp n known label addr =
     (case terminal_size (pg_window e) of (cols, rows) \<Rightarrow>
        connect_with (pg_snow e) (nt_sid n) (pg_term e) (nt_bound n) (nt_rounds n) (kp_private kp) known label addr rows cols Adaptive
          (want_shell a) (agent_sock e a))"

definition try_direct :: "args \<Rightarrow> known_hosts \<Rightarrow> ustr \<Rightarrow> bool" where
  "try_direct a known label \<longleftrightarrow> ag_direct a \<or> (\<not> ag_ssh a \<and> kh_get label known \<noteq> None)"

definition no_response :: "ustr \<Rightarrow> nat \<Rightarrow> ustr" where
  "no_response host port =
     uni ''no response from '' @ host_label host port @
     uni '' on UDP. Is noisshd running there with that port reachable? (drop --direct to bootstrap it over SSH.)''"

text \<open>The direct connection; \<open>None\<close> is the way on to the bootstrap.\<close>

definition direct_session :: "('s, 't, 'a, 'f, 'w) program_env \<Rightarrow> args \<Rightarrow> keypair \<Rightarrow> ustr \<Rightarrow> known_hosts \<Rightarrow> ('f, 'w) program_state \<Rightarrow>
    (runtime_error + ('s, 't, 'a, 'k) client_driver option) \<times> ('f, 'w) program_state" where
  "direct_session e a kp host known s =
     (let label = host_label host (ag_port a)
      in if \<not> try_direct a known label then (Inr None, s)
         else case sh_resolve (pg_ssh e) host (ag_port a) of
           Some (addr # _) \<Rightarrow>
             (case connect_once e a kp (pg_direct e) known label addr of (r, out) \<Rightarrow>
                (case r of
                   Inr d \<Rightarrow> Inr (Some d)
                 | Inl RTimeout \<Rightarrow> if ag_direct a then Inl (RBadAddress (no_response host (ag_port a))) else Inr None
                 | Inl err \<Rightarrow> Inl err, s\<lparr>ps_sent := ps_sent s @ out\<rparr>))
         | _ \<Rightarrow>
             (if ag_direct a then Inl (RBadAddress (uni ''could not resolve host '' @ dq @ host @ dq)) else Inr None, s))"

definition udp_blocked :: "ustr \<Rightarrow> nat \<Rightarrow> ustr" where
  "udp_blocked host port =
     uni ''connected over SSH but the UDP session to '' @ host_label host port @ uni '' timed out '' @ [0x2014] @
     uni '' that UDP port is likely blocked by a firewall/NAT. Open it (or pick an open one with --server-port N) and retry.''"

text \<open>The bootstrap: the key that came over \<^verbatim>\<open>ssh\<close> is the only one the new session trusts.\<close>

definition boot_session :: "('s, 't, 'a, 'f, 'w) program_env \<Rightarrow> args \<Rightarrow> keypair \<Rightarrow> ustr \<Rightarrow> ustr \<Rightarrow> ('f, 'w) program_state \<Rightarrow>
    (runtime_error + ('s, 't, 'a, 'k) client_driver) \<times> ('f, 'w) program_state" where
  "boot_session e a kp target host s =
     (case bootstrap (pg_ssh e) target host [ag_server_cmd a] (kp_public kp) (ag_ssh_args a) (\<not> ag_no_install a)
             (Some (case ag_server_port a of Some p \<Rightarrow> p | None \<Rightarrow> ag_port a)) (ps_world s) of (r, w) \<Rightarrow>
        (let s = s\<lparr>ps_world := w\<rparr>
         in case r of
              Inl err \<Rightarrow> (Inl err, s)
            | Inr boot \<Rightarrow>
                (case key_from_bytes (bo_pubkey boot) of
                   Inl err \<Rightarrow> (Inl (RAuth err), s)
                 | Inr key \<Rightarrow>
                     (let label = host_label host (bo_port boot);
                          boot_known = snd (check_or_add label key kh_new)
                      in case connect_once e a kp (pg_boot e) boot_known label (bo_addr boot) of (r, out) \<Rightarrow>
                           (case r of
                              Inr d \<Rightarrow> Inr d
                            | Inl RTimeout \<Rightarrow> Inl (RBadAddress (udp_blocked host (bo_port boot)))
                            | Inl err \<Rightarrow> Inl err, s\<lparr>ps_sent := ps_sent s @ out\<rparr>)))))"

text \<open>The session, and whether it is a direct one.\<close>

definition open_session :: "('s, 't, 'a, 'f, 'w) program_env \<Rightarrow> args \<Rightarrow> keypair \<Rightarrow> ustr \<Rightarrow> ustr \<Rightarrow> known_hosts \<Rightarrow> ('f, 'w) program_state \<Rightarrow>
    (runtime_error + ('s, 't, 'a, 'k) client_driver \<times> bool) \<times> ('f, 'w) program_state" where
  "open_session e a kp target host known s =
     (case direct_session e a kp host known s of
        (Inl err, s) \<Rightarrow> (Inl err, s)
      | (Inr (Some d), s) \<Rightarrow> (Inr (d, True), s)
      | (Inr None, s) \<Rightarrow>
          (case boot_session e a kp target host s of
             (Inl err, s) \<Rightarrow> (Inl err, s)
           | (Inr d, s) \<Rightarrow> (Inr (d, False), s)))"


section \<open>The whole program\<close>

definition save_new_pin :: "('s, 't, 'a, 'f, 'w) program_env \<Rightarrow> ('s, 't, 'a, 'k) client_driver \<Rightarrow> ('f, 'w) program_state \<Rightarrow>
    (runtime_error + unit) \<times> ('f, 'w) program_state" where
  "save_new_pin e d s =
     (if cc_known_dirty (cd_core d) then
        (case save_known_hosts (pg_store e) (ke_b64e (pg_keys e)) (ke_pid (pg_keys e)) (kh_path e) (cc_known (cd_core d)) (ps_files s) of
           (r, f) \<Rightarrow> (r, s\<lparr>ps_files := f\<rparr>))
      else (Inr (), s))"

definition check_version :: "('s, 't, 'a, 'f, 'w) program_env \<Rightarrow> args \<Rightarrow> ustr \<Rightarrow> bool \<Rightarrow> ('s, 't, 'a, 'k) client_driver \<Rightarrow> ('f, 'w) program_state \<Rightarrow>
    ('s, 't, 'a, 'k) client_driver \<times> ('f, 'w) program_state" where
  "check_version e a target direct d s =
     (if direct \<and> want_shell a \<and> \<not> ag_no_install a \<and> pg_stdin_tty e then
        (case wait_for_server_version (pg_snow e) (pg_version_rounds e) (cd_core d) of (v, out, core) \<Rightarrow>
           (let s = s\<lparr>ps_sent := ps_sent s @ out\<rparr>
            in (d\<lparr>cd_core := core\<rparr>,
                case v of
                  Some version \<Rightarrow> s\<lparr>ps_world := maybe_offer_direct_upgrade (pg_ssh e) target (ag_ssh_args a) (map unat version) (ps_world s)\<rparr>
                | None \<Rightarrow> s)))
      else (d, s))"

text \<open>What the program goes on with.\<close>

datatype ('s, 't, 'a, 'k) launch =
    Finished
  | RunExec "('s, 't, 'a, 'k) client_driver" bytes exec_options
  | RunTransfer "('s, 't, 'a, 'k) client_driver" xfer_request bytes
  | RunForwards "('s, 't, 'a, 'k) client_driver" exec_options
  | RunInteractive "('s, 't, 'a, 'k) client_driver"

definition forward_options :: "args \<Rightarrow> exec_options" where
  "forward_options a =
     \<lparr>eo_local = map (\<lambda>(p, t). (of_nat p, utf8_encode t)) (ag_local_forwards a),
      eo_remote = map (\<lambda>(p, t). (of_nat p, utf8_encode t)) (ag_remote_forwards a),
      eo_dynamic = map (\<lambda>(b, p). (utf8_encode b, of_nat p)) (ag_dynamic_forwards a),
      eo_null_stdin = ag_null_stdin a\<rparr>"

definition launch_mode :: "args \<Rightarrow> ('s, 't, 'a, 'k) client_driver \<Rightarrow> ('s, 't, 'a, 'k) launch" where
  "launch_mode a d =
     (if run_command a \<noteq> [] then RunExec d (utf8_encode (join_with 32 (run_command a))) (forward_options a)
      else case ag_transfer a of
        Some (req, loc) \<Rightarrow> RunTransfer d req (utf8_encode loc)
      | None \<Rightarrow> if forward_only a then RunForwards d (forward_options a) else RunInteractive d)"

definition no_host_given :: ustr where
  "no_host_given =
     uni ''no host given. Specify the host to connect to, for example:'' @ 10 # uni ''  noissh user@example.com            # interactive shell'' @
     10 # uni ''  noissh user@example.com uname -a   # run one command''"

text \<open>A first run shows the new public key, which fails if it has a wrong length.\<close>

definition load_identity :: "('s, 't, 'a, 'f, 'w) program_env \<Rightarrow> 'f \<Rightarrow> (runtime_error + keypair) \<times> 'f" where
  "load_identity e f =
     (let first_run = (\<not> ts_exists (pg_store e) (path_from (id_path e)) f)
      in case load_or_generate_keypair (pg_store e) (pg_keys e) (id_path e) f of
           (Inl err, f) \<Rightarrow> (Inl err, f)
         | (Inr kp, f) \<Rightarrow>
             (case key_from_bytes (kp_public kp) of
                Inl err \<Rightarrow> (if first_run then Inl (RAuth err) else Inr kp, f)
              | Inr _ \<Rightarrow> (Inr kp, f)))"

text \<open>From the loaded identity on.\<close>

definition run_session :: "('s, 't, 'a, 'f, 'w) program_env \<Rightarrow> args \<Rightarrow> ustr \<Rightarrow> keypair \<Rightarrow> ('f, 'w) program_state \<Rightarrow>
    (runtime_error + ('s, 't, 'a, 'k) launch) \<times> ('f, 'w) program_state" where
  "run_session e a target kp s =
     (case session_host e a target (ps_files s) of
        Inl err \<Rightarrow> (Inl err, s)
      | Inr host \<Rightarrow>
          (case load_known_hosts (pg_store e) (ke_b64d (pg_keys e)) (kh_path e) (ps_files s) of
             Inl err \<Rightarrow> (Inl err, s)
           | Inr known \<Rightarrow>
               (case open_session e a kp target host known s of
                  (Inl err, s) \<Rightarrow> (Inl err, s)
                | (Inr (d, direct), s) \<Rightarrow>
                    (case save_new_pin e d s of
                       (Inl err, s) \<Rightarrow> (Inl err, s)
                     | (Inr _, s) \<Rightarrow> (case check_version e a target direct d s of (d, s) \<Rightarrow> (Inr (launch_mode a d), s))))))"

definition run :: "('s, 't, 'a, 'f, 'w) program_env \<Rightarrow> args \<Rightarrow> ('f, 'w) program_state \<Rightarrow>
    (runtime_error + ('s, 't, 'a, 'k) launch) \<times> ('f, 'w) program_state" where
  "run e a s =
     (case ag_forget_host a of
        Some host \<Rightarrow> (case forget_host e host s of (r, s) \<Rightarrow> (case r of Inl err \<Rightarrow> Inl err | Inr _ \<Rightarrow> Inr Finished, s))
      | None \<Rightarrow>
          (case ag_target a of
             None \<Rightarrow> (Inl (RUsage no_host_given), s)
           | Some target \<Rightarrow>
               (case load_identity e (ps_files s) of (r, f) \<Rightarrow>
                  (let s = s\<lparr>ps_files := f\<rparr>
                   in case r of
                        Inl err \<Rightarrow> (Inl err, s)
                      | Inr kp \<Rightarrow>
                          if ag_copy_id a then
                            (case key_from_bytes (kp_public kp) of
                               Inl err \<Rightarrow> (Inl (RAuth err), s)
                             | Inr key \<Rightarrow>
                                 (case copy_id (pg_ssh e) target (key_to_text (ke_b64e (pg_keys e)) key) (ag_ssh_args a) (ps_world s) of
                                    (r, w) \<Rightarrow> (case r of Inl err \<Rightarrow> Inl err | Inr _ \<Rightarrow> Inr Finished, s\<lparr>ps_world := w\<rparr>)))
                          else run_session e a target kp s))))"

text \<open>The whole program: the settings, the arguments, then the run. It exits with the code of the result.\<close>

definition noissh_main :: "('s, 't, 'a, 'f, 'w) program_env \<Rightarrow> (ustr \<Rightarrow> nat option) \<Rightarrow> ustr list \<Rightarrow> ('f, 'w) program_state \<Rightarrow>
    (nat + ('s, 't, 'a, 'k) launch) \<times> ('f, 'w) program_state" where
  "noissh_main e file_len argv s =
     (case parse_args file_len (cfg_port (load_config (pg_store e) (config_file_path (pg_dir e)) (ps_files s))) argv of
        Inl x \<Rightarrow> (Inl (cli_exit_code x), s)
      | Inr a \<Rightarrow>
          (case run e a s of (r, s) \<Rightarrow>
             (case r of
                Inr l \<Rightarrow> Inr l
              | Inl (RUsage _) \<Rightarrow> Inl 2
              | Inl _ \<Rightarrow> Inl 1, s)))"


section \<open>What holds through the driver's loops\<close>

text \<open>What datagrams and ticks keep, the loops keep.\<close>

locale kept_by_driver =
  fixes sn :: "('s, 't) snow" and P :: "('s, 't, 'a) client_core \<Rightarrow> bool"
  assumes packet: "P c \<Longrightarrow> P (snd (client_handle_packet sn buf c))" and tick: "P c \<Longrightarrow> P (snd (client_tick sn c))"
begin

lemma receive: "P c \<Longrightarrow> P (snd (snd (recv_and_handle sn r c)))"
  using packet by (cases r) (auto simp: recv_and_handle_def split: prod.splits sum.splits, (metis snd_conv)+)

lemma pump: "P c \<Longrightarrow> P (snd (snd (pump_once sn r c)))"
  using receive [of c r] tick by (auto simp: pump_once_def client_flush_def split: prod.splits sum.splits, (metis snd_conv)+)

lemma connecting: "P c \<Longrightarrow> P (snd (snd (connect_loop sn rs c)))"
proof (induction rs arbitrary: c)
  case (Cons r rs)
  obtain res out c1 where p: "pump_once sn r c = (res, out, c1)" by (cases "pump_once sn r c")
  have "P c1" using pump [OF Cons.prems, of r] p by simp
  then show ?case using Cons.IH [of c1] Cons.prems p by (subst connect_loop.simps) (auto split: sum.splits prod.splits)
qed (simp add: connect_loop.simps)

lemma waiting: "P c \<Longrightarrow> P (snd (snd (wait_for_server_version sn rs c)))"
proof (induction rs arbitrary: c)
  case (Cons r rs)
  obtain res out c1 where p: "pump_once sn r c = (res, out, c1)" by (cases "pump_once sn r c")
  have "P c1" using pump [OF Cons.prems, of r] p by simp
  then show ?case using Cons.IH [of c1] Cons.prems p by (subst wait_for_server_version.simps) (auto split: sum.splits prod.splits)
qed (simp add: wait_for_server_version.simps)

end

interpretation pins: kept_by_driver sn "pin_inv k0 host" for sn k0 host
  by unfold_locales (rule pin_packet pin_tick, assumption)+

interpretation trusting: kept_by_driver sn "client_inv k0 host" for sn k0 host
proof unfold_locales
  show "client_inv k0 host c \<Longrightarrow> client_inv k0 host (snd (client_handle_packet sn buf c))" for c buf
    using step_inv_client [of k0 host c sn "CPacket buf"] by simp
  show "client_inv k0 host c \<Longrightarrow> client_inv k0 host (snd (client_tick sn c))" for c
    using step_inv_client [of k0 host c sn CTick] by simp
qed

text \<open>Once the handshake is over, the trust does not change any more.\<close>

interpretation settled: kept_by_driver sn "\<lambda>c. same_trust c0 c \<and> cc_hs c = None" for sn c0
proof unfold_locales
  fix c buf
  assume c: "same_trust c0 c \<and> cc_hs c = None"
  have "same_trust c (snd (client_handle_packet sn buf c))"
    using c trust_transport [of c sn buf] by (auto simp: client_handle_packet_def client_handle_handshake_def split: sum.splits packet.splits)
  then show "same_trust c0 (snd (client_handle_packet sn buf c)) \<and> cc_hs (snd (client_handle_packet sn buf c)) = None"
    using c same_trust_trans by (auto simp: same_trust_def trust_view_def)
next
  fix c
  assume c: "same_trust c0 c \<and> cc_hs c = None"
  then show "same_trust c0 (snd (client_tick sn c)) \<and> cc_hs (snd (client_tick sn c)) = None"
    using trust_tick [of c sn] same_trust_trans by (auto simp: same_trust_def trust_view_def)
qed


section \<open>Who the session is with\<close>

lemma connect_loop_established: "connect_loop sn rs c = (Inr (), out, c') \<Longrightarrow> cc_established c'"
proof (induction rs arbitrary: c out)
  case (Cons r rs)
  obtain res out1 c1 where p: "pump_once sn r c = (res, out1, c1)" by (cases "pump_once sn r c")
  obtain res2 out2 c2 where l: "connect_loop sn rs c1 = (res2, out2, c2)" by (cases "connect_loop sn rs c1")
  show ?case
  proof (cases "cc_established c")
    case False
    then have "res2 = Inr ()" "c2 = c'" using Cons.prems p l by (simp_all add: connect_loop.simps [of sn "r # rs"] split: sum.splits)
    then show ?thesis using Cons.IH [OF l [unfolded \<open>res2 = Inr ()\<close> \<open>c2 = c'\<close>]] by simp
  qed (use Cons.prems in \<open>simp add: connect_loop.simps [of sn "r # rs"]\<close>)
qed (simp add: connect_loop.simps [of sn "[]"] split: if_splits)

text \<open>A connected client has the server's key pinned: the one that was pinned before, or a new one, which it then reports.\<close>

definition trusts :: "known_hosts \<Rightarrow> ustr \<Rightarrow> bytes \<Rightarrow> ('s, 't, 'a) client_core \<Rightarrow> bool" where
  "trusts known label key c \<longleftrightarrow> cc_hs c = None \<and> (\<exists>session noise. cc_session c = Some (session, noise) \<and> ns_remote noise = key) \<and>
     (if cc_known_dirty c then kh_get label known = None \<and> cc_known c = snd (check_or_add label key known)
      else kh_get label known = Some key)"

lemma trusted_when_connected:
  assumes inv: "client_inv known label c" "pin_inv known label c" and est: "cc_established c"
  shows "\<exists>key. trusts known label key c"
proof -
  obtain session noise where s: "cc_session c = Some (session, noise)" using inv(1) est by (cases "cc_session c") (auto simp: client_inv_def)
  then have n: "kh_get label (cc_known c) = Some (ns_remote noise)" "cc_hs c = None" using inv(1) by (auto simp: client_inv_def)
  have "kh_get label (snd (check_or_add label key known)) = Some key" if "kh_get label known = None" for key
    using that by (simp add: check_or_add_def kh_get_def)
  then have "trusts known label (ns_remote noise) c" using n s inv(2) by (auto simp: trusts_def pin_inv_def split: if_splits)
  then show ?thesis by blast
qed

lemma connect_with_trusts:
  assumes "connect_with sn sid tv bound rs priv known label addr rows cols mode ws agent = (Inr d, out)"
  shows "\<exists>key. trusts known label key (cd_core d)"
proof -
  obtain core first out1 core1 where new: "client_core_new sn sid tv priv known label addr rows cols mode = Inr (core, first)"
    and loop: "connect_loop sn rs (set_want_agent (agent \<noteq> None) (set_want_shell ws core)) = (Inr (), out1, core1)" and d: "cd_core d = core1"
    using assms by (auto simp: connect_with_def split: if_splits sum.splits prod.splits)
  let ?c = "set_want_agent (agent \<noteq> None) (set_want_shell ws core)"
  have "client_inv known label ?c" using inv_client_new [OF new] by (simp add: client_inv_def version_ok_def set_want_shell_def set_want_agent_def)
  moreover have "pin_inv known label ?c"
    using new by (auto simp: client_core_new_def rbind_def map_err_def pin_inv_def set_want_shell_def set_want_agent_def split: sum.splits)
  ultimately have "client_inv known label core1" "pin_inv known label core1"
    using trusting.connecting [of known label ?c sn rs] pins.connecting [of known label ?c sn rs] loop by simp_all
  then show ?thesis using trusted_when_connected connect_loop_established [OF loop] d by blast
qed

lemma connect_once_trusts: "connect_once e a kp n known label addr = (Inr d, out) \<Longrightarrow> \<exists>key. trusts known label key (cd_core d)"
  by (auto simp: connect_once_def split: prod.splits intro: connect_with_trusts)

lemma direct_session_trusts:
  assumes "direct_session e a kp host known s = (Inr (Some d), s')"
  shows "\<exists>key. trusts known (host_label host (ag_port a)) key (cd_core d) \<and> try_direct a known (host_label host (ag_port a)) \<and>
    ps_files s' = ps_files s \<and> ps_world s' = ps_world s"
proof -
  obtain addr rest out where t: "try_direct a known (host_label host (ag_port a))"
    and c: "connect_once e a kp (pg_direct e) known (host_label host (ag_port a)) addr = (Inr d, out)"
    and s': "s' = s\<lparr>ps_sent := ps_sent s @ out\<rparr>"
    using assms by (auto simp: direct_session_def Let_def split: if_splits option.splits list.splits prod.splits sum.splits runtime_error.splits)
  then show ?thesis using connect_once_trusts [OF c] by auto
qed

lemma direct_session_skipped:
  assumes "direct_session e a kp host known s = (Inr None, s')"
  shows "\<not> ag_direct a \<and> ps_files s' = ps_files s \<and> ps_world s' = ps_world s"
  using assms by (auto simp: direct_session_def try_direct_def Let_def
      split: if_splits option.splits list.splits prod.splits sum.splits runtime_error.splits)

text \<open>A bootstrapped session trusts exactly the key that came over \<^verbatim>\<open>ssh\<close>, and has nothing to save.\<close>

lemma boot_session_trusts:
  assumes "boot_session e a kp target host s = (Inr d, s')"
  shows "\<exists>boot. bootstrap (pg_ssh e) target host [ag_server_cmd a] (kp_public kp) (ag_ssh_args a) (\<not> ag_no_install a)
        (Some (case ag_server_port a of Some p \<Rightarrow> p | None \<Rightarrow> ag_port a)) (ps_world s) = (Inr boot, ps_world s') \<and>
      ps_files s' = ps_files s \<and> \<not> cc_known_dirty (cd_core d) \<and> (\<exists>known label. trusts known label (bo_pubkey boot) (cd_core d))"
proof -
  obtain boot w key out where b: "bootstrap (pg_ssh e) target host [ag_server_cmd a] (kp_public kp) (ag_ssh_args a) (\<not> ag_no_install a)
        (Some (case ag_server_port a of Some p \<Rightarrow> p | None \<Rightarrow> ag_port a)) (ps_world s) = (Inr boot, w)"
    and k: "key_from_bytes (bo_pubkey boot) = Inr key"
    and c: "connect_once e a kp (pg_boot e) (snd (check_or_add (host_label host (bo_port boot)) key kh_new)) (host_label host (bo_port boot)) (bo_addr boot) = (Inr d, out)"
    and s': "ps_files s' = ps_files s" "ps_world s' = w"
    using assms by (auto simp: boot_session_def Let_def split: prod.splits sum.splits runtime_error.splits)
  have key: "key = bo_pubkey boot" using k by (simp add: key_from_bytes_def split: if_splits)
  have pinned: "kh_get label (snd (check_or_add label key kh_new)) = Some key" for label
    by (simp add: check_or_add_def kh_get_def kh_new_def bt_empty_def)
  obtain key' where t: "trusts (snd (check_or_add (host_label host (bo_port boot)) key kh_new)) (host_label host (bo_port boot)) key' (cd_core d)"
    using connect_once_trusts [OF c] by blast
  then have "\<not> cc_known_dirty (cd_core d)" "key' = key" using pinned by (auto simp: trusts_def split: if_splits)
  then show ?thesis using b s' t key by blast
qed

fun launch_driver :: "('s, 't, 'a, 'k) launch \<Rightarrow> ('s, 't, 'a, 'k) client_driver option" where
  "launch_driver Finished = None"
| "launch_driver (RunExec d _ _) = Some d"
| "launch_driver (RunTransfer d _ _) = Some d"
| "launch_driver (RunForwards d _) = Some d"
| "launch_driver (RunInteractive d) = Some d"

lemma launch_mode_driver [simp]: "launch_driver (launch_mode a d) = Some d"
  by (simp add: launch_mode_def split: option.splits)


lemma check_version_keeps:
  assumes "check_version e a target direct d s = (d', s')" "cc_hs (cd_core d) = None"
  shows "same_trust (cd_core d) (cd_core d') \<and> ps_files s' = ps_files s \<and> (\<not> direct \<longrightarrow> ps_world s' = ps_world s)"
  using assms settled.waiting [of "cd_core d" "cd_core d" "pg_snow e" "pg_version_rounds e"]
  by (auto simp: check_version_def Let_def split: if_splits prod.splits option.splits)

lemma same_trust_session:
  "same_trust c c' \<Longrightarrow> cc_session c = Some (session, noise) \<Longrightarrow> \<exists>session'. cc_session c' = Some (session', noise)"
  by (cases "cc_session c'") (auto simp: same_trust_def trust_view_def)

lemma save_new_pin_ok:
  assumes "save_new_pin e d s = (Inr (), s')"
  shows "ps_world s' = ps_world s \<and>
    (if cc_known_dirty (cd_core d)
     then save_known_hosts (pg_store e) (ke_b64e (pg_keys e)) (ke_pid (pg_keys e)) (kh_path e) (cc_known (cd_core d)) (ps_files s) = (Inr (), ps_files s')
     else ps_files s' = ps_files s)"
  using assms by (auto simp: save_new_pin_def split: if_splits prod.splits)

text \<open>The three ways in which a session may be trusted: the pinned key, a new key that the user asked for and that is saved,
  the key from \<^verbatim>\<open>ssh\<close>.\<close>

definition trust_ways :: "('s, 't, 'a, 'f, 'w) program_env \<Rightarrow> args \<Rightarrow> ustr \<Rightarrow> keypair \<Rightarrow> ustr \<Rightarrow> known_hosts \<Rightarrow> bytes \<Rightarrow> 'f \<Rightarrow> 'w \<Rightarrow>
    ('f, 'w) program_state \<Rightarrow> bool" where
  "trust_ways e a target kp host known key f w s' \<longleftrightarrow>
     kh_get (host_label host (ag_port a)) known = Some key \<and> (ag_direct a \<or> \<not> ag_ssh a) \<and> ps_files s' = f \<or>
     kh_get (host_label host (ag_port a)) known = None \<and> ag_direct a \<and>
       save_known_hosts (pg_store e) (ke_b64e (pg_keys e)) (ke_pid (pg_keys e)) (kh_path e)
         (snd (check_or_add (host_label host (ag_port a)) key known)) f = (Inr (), ps_files s') \<or>
     \<not> ag_direct a \<and> ps_files s' = f \<and>
       (\<exists>boot. bo_pubkey boot = key \<and>
          bootstrap (pg_ssh e) target host [ag_server_cmd a] (kp_public kp) (ag_ssh_args a) (\<not> ag_no_install a)
            (Some (case ag_server_port a of Some p \<Rightarrow> p | None \<Rightarrow> ag_port a)) w = (Inr boot, ps_world s'))"

lemma run_session_trusts:
  fixes l :: "('s, 't, 'a, 'k) launch"
  assumes "run_session e a target kp s = (Inr l, s')"
  shows "\<exists>host known d session noise. session_host e a target (ps_files s) = Inr host \<and>
    load_known_hosts (pg_store e) (ke_b64d (pg_keys e)) (kh_path e) (ps_files s) = Inr known \<and>
    launch_driver l = Some d \<and> cc_session (cd_core d) = Some (session, noise) \<and>
    trust_ways e a target kp host known (ns_remote noise) (ps_files s) (ps_world s) s'"
proof -
  obtain host known d0 direct s1 s2 d where h: "session_host e a target (ps_files s) = Inr host"
    and k: "load_known_hosts (pg_store e) (ke_b64d (pg_keys e)) (kh_path e) (ps_files s) = Inr known"
    and o: "open_session e a kp target host known s = (Inr (d0, direct), s1)" and p: "save_new_pin e d0 s1 = (Inr (), s2)"
    and v: "check_version e a target direct d0 s2 = (d, s')" and l: "l = launch_mode a d"
    using assms by (auto simp: run_session_def split: sum.splits prod.splits)
  note saved = save_new_pin_ok [OF p]
  have ways: "\<exists>key known' label. trusts known' label key (cd_core d0) \<and>
      (\<forall>s3. ps_files s3 = ps_files s2 \<longrightarrow> (\<not> direct \<longrightarrow> ps_world s3 = ps_world s2) \<longrightarrow>
        trust_ways e a target kp host known key (ps_files s) (ps_world s) s3)"
  proof (cases direct)
    case True
    then have ds: "direct_session e a kp host known s = (Inr (Some d0), s1)"
      using o by (auto simp: open_session_def split: sum.splits prod.splits option.splits)
    show ?thesis
      using direct_session_trusts [OF ds] saved True by (fastforce simp: trusts_def trust_ways_def try_direct_def split: if_splits)
  next
    case False
    then obtain s0 where ds: "direct_session e a kp host known s = (Inr (None :: ('s, 't, 'a, 'k) client_driver option), s0)" and b: "boot_session e a kp target host s0 = (Inr d0, s1)"
      using o by (auto simp: open_session_def split: sum.splits prod.splits option.splits)
    show ?thesis
      using direct_session_skipped [OF ds] boot_session_trusts [OF b] saved False by (fastforce simp: trust_ways_def)
  qed
  then obtain key known' label where t: "trusts known' label key (cd_core d0)"
    and w: "\<And>s3. ps_files s3 = ps_files s2 \<Longrightarrow> (\<not> direct \<Longrightarrow> ps_world s3 = ps_world s2) \<Longrightarrow>
      trust_ways e a target kp host known key (ps_files s) (ps_world s) s3" by blast
  have c: "same_trust (cd_core d0) (cd_core d)" "ps_files s' = ps_files s2" "\<not> direct \<Longrightarrow> ps_world s' = ps_world s2"
    using check_version_keeps [OF v] t by (auto simp: trusts_def)
  obtain session noise where s: "cc_session (cd_core d0) = Some (session, noise)" "ns_remote noise = key" using t by (auto simp: trusts_def)
  then show ?thesis using same_trust_session [OF c(1) s(1)] w [OF c(2,3)] h k l by auto
qed

text \<open>C3: a session is opened only with a server that is trusted. Whenever the program goes on with a session, the key that the
  server proved in the handshake is, for the host behind the alias, the key that is pinned for it, in which case no file
  changes after the identity was loaded; or, only when the user asked for a direct connection to a host
  without a pin, a new key, which has then been saved; or exactly the key that the bootstrap got over \<^verbatim>\<open>ssh\<close>,
  and then the pinned hosts are as they were, and the user did not forbid \<^verbatim>\<open>ssh\<close>.\<close>

theorem session_is_trusted:
  assumes "run e a s = (Inr l, s')" and "launch_driver l = Some d"
  shows "\<exists>target kp f host known session noise. ag_target a = Some target \<and> load_identity e (ps_files s) = (Inr kp, f) \<and>
    session_host e a target f = Inr host \<and> load_known_hosts (pg_store e) (ke_b64d (pg_keys e)) (kh_path e) f = Inr known \<and>
    cc_session (cd_core d) = Some (session, noise) \<and> trust_ways e a target kp host known (ns_remote noise) f (ps_world s) s'"
proof -
  obtain target kp f where "ag_target a = Some target" "load_identity e (ps_files s) = (Inr kp, f)"
    and r: "run_session e a target kp (s\<lparr>ps_files := f\<rparr>) = (Inr l, s')"
    using assms by (auto simp: run_def Let_def split: option.splits prod.splits sum.splits if_splits)
  then show ?thesis using run_session_trusts [OF r] assms(2) by auto
qed


text \<open>A demonstration: a first direct connection from an empty configuration directory.\<close>

definition offline_ssh :: "(nat, unit) ssh_env" where
  "offline_ssh = \<lparr>sh_run = (\<lambda>argv w. (None, w)), sh_resolve = (\<lambda>h p. Some [9]), sh_b64e = toy_b64e, sh_b64d = toy_b64d, sh_ours = uni ''1'',
     sh_remote_noisshd = None, sh_prompt = (\<lambda>q w. (None, w))\<rparr>"

definition demo_env :: "(nat \<times> bytes \<times> bytes option, unit, nat, path \<Rightarrow> (ustr \<times> nat) option, unit) program_env" where
  "demo_env = \<lparr>pg_snow = toy_snow, pg_store = toy_store, pg_keys = demo_keys, pg_ssh = offline_ssh, pg_xdg = Some [97], pg_home = None,
     pg_window = None, pg_term = None, pg_auth_sock = None, pg_stdin_tty = False,
     pg_direct = \<lparr>nt_sid = replicate 8 5, nt_bound = True, nt_rounds = [Some demo_answer]\<rparr>,
     pg_boot = \<lparr>nt_sid = [], nt_bound = False, nt_rounds = []\<rparr>, pg_version_rounds = []\<rparr>"

definition demo_args :: args where
  "demo_args = (args_default None)\<lparr>ag_direct := True, ag_target := Some (uni ''h'')\<rparr>"

lemma outgoing_total:
  fixes c :: "('s, 't, 'x) client_core"
  assumes "\<And>t n p. \<not> isl (noise_encrypt sn t n p)"
  shows "\<not> isl (case fst (outgoing sn c) of Inl err \<Rightarrow> Inl err | Inr pkts \<Rightarrow> Inr (g pkts))"
proof -
  have "\<exists>pkts s'. seal_many (noise_encrypt sn t) fs mx s = (Inr pkts, s')" for t fs mx and s :: "'x session"
    unfolding seal_many_groups by (intro seal_all_total) (simp add: assms)
  then have "seal_many (noise_encrypt sn t) fs mx s \<noteq> (Inl err, s')" for t fs mx err and s s' :: "'x session"
    by (metis Inl_Inr_False Pair_inject)
  then show ?thesis
    by (cases "cc_session c") (auto simp: outgoing_def Let_def split: prod.splits sum.splits)
qed

definition demo_first :: "ustr \<Rightarrow> (nat \<times> bytes \<times> bytes option, unit, nat) client_core" where
  "demo_first label = fst (projr (client_core_new toy_snow (replicate 8 5) None (replicate 32 2) kh_new label 9 24 80 Adaptive))"

lemma demo_first_new:
  "client_core_new toy_snow (replicate 8 5) None (replicate 32 2) kh_new label 9 24 80 Adaptive =
    Inr (demo_first label, build_handshake_packet (replicate 8 5) (replicate 32 2 @ replicate MIN_HANDSHAKE_INIT 0))"
  by (simp add: demo_first_def client_core_new_def handshaker_client_def handshake_new_def write_message_def toy_snow_def
      rbind_def map_err_def)

text \<open>Without a pin, the server's answer establishes the session.\<close>

lemmas demo_first_steps = client_handle_packet_def demo_answer_def parse_handshake demo_first_def client_core_new_def
  handshaker_client_def handshake_new_def write_message_def toy_snow_def rbind_def map_err_def client_handle_handshake_def
  handshaker_read_def read_message_def note_payload_def hs_answer_def hk_remote_static_def verify_server_def
  key_from_bytes_def KEY_LEN_def check_or_add_def kh_new_def bt_empty_def client_establish_def learn_version_def demo_digit
  into_session_def into_transport_def Let_def case_prod_unfold outgoing_established set_want_shell_def set_want_agent_def

lemma demo_hello: "cc_established (snd (client_handle_packet toy_snow demo_answer (set_want_agent x (set_want_shell y (demo_first label)))))"
  by (simp add: demo_first_steps)

lemma demo_hello_ok: "\<not> isl (fst (client_handle_packet toy_snow demo_answer (set_want_agent x (set_want_shell y (demo_first label)))))"
  by (simp add: demo_first_steps outgoing_total noise_encrypt_def)

lemma demo_connects:
  "\<exists>d out. connect_with toy_snow (replicate 8 5) None True [Some demo_answer] (replicate 32 2) kh_new label (9 :: nat) 24 80 Adaptive ws None = (Inr d, out)"
proof -
  let ?c = "set_want_agent False (set_want_shell ws (demo_first label))"
  obtain pkts c1 where p: "client_handle_packet toy_snow demo_answer ?c = (Inr pkts, c1)"
    using demo_hello_ok [of False ws label] by (metis prod.collapse sum.collapse(2))
  have "cc_established c1" using demo_hello [of False ws label] p by simp
  then have "cc_established (snd (client_tick toy_snow c1))"
    using trust_tick [of c1 toy_snow] by (simp add: same_trust_def trust_view_def)
  moreover have "\<not> cc_established ?c"
    by (simp add: demo_first_steps)
  ultimately have "\<exists>out c2. connect_loop toy_snow [Some demo_answer] ?c = (Inr (), out, c2)"
    using p by (simp add: connect_loop.simps pump_once_def recv_and_handle_def client_flush_def case_prod_unfold)
  then show ?thesis by (auto simp: connect_with_def demo_first_new)
qed

lemma demo_paths: "path_from (kh_path demo_env) \<noteq> path_from (id_path demo_env)" "path_from (kh_path demo_env) \<noteq> path_from (public_key_path (id_path demo_env))"
  unfolding kh_path_def id_path_def pg_dir_def demo_env_def program_env.simps by code_simp+

lemma demo_identity:
  "\<exists>f. load_identity demo_env (\<lambda>_. None) = (Inr demo_keypair, f) \<and> f (path_from (kh_path demo_env)) = None"
  using demo_paths
  by (auto simp: load_identity_def load_or_generate_keypair_def ensure_public_key_file_def key_comment_def write_private_def run_all_append
      demo_env_def toy_store_def demo_keys_def demo_keypair_def key_from_bytes_def KEY_LEN_def Let_def split: option.split)

lemma demo_env_fields: "pg_store demo_env = toy_store" "pg_keys demo_env = demo_keys"
  by (simp_all add: demo_env_def)

lemma demo_saves: "\<exists>f'. save_known_hosts toy_store b64e pid p kh f = (Inr (), f')"
  by (simp add: save_known_hosts_def save_steps_def toy_store_def Let_def split: option.split)

theorem session_is_trusted_witness:
  "\<exists>l s' d session noise. run demo_env demo_args \<lparr>ps_files = (\<lambda>_. None), ps_world = (), ps_sent = []\<rparr> = (Inr l, s') \<and>
     launch_driver l = Some (d :: (nat \<times> bytes \<times> bytes option, unit, nat, unit) client_driver) \<and> cc_session (cd_core d) = Some (session, noise)"
proof -
  let ?s = "\<lparr>ps_files = (\<lambda>_. None), ps_world = (), ps_sent = []\<rparr>" and ?e = "demo_env"
  obtain f where f: "load_identity ?e (\<lambda>_. None) = (Inr demo_keypair, f)" "f (path_from (kh_path ?e)) = None" using demo_identity by blast
  have k: "load_known_hosts (pg_store ?e) (ke_b64d (pg_keys ?e)) (kh_path ?e) f = Inr kh_new"
    using f(2) by (simp add: load_known_hosts_def demo_env_def toy_store_def)
  let ?host = "host_of (uni ''h'')"
  have h: "session_host ?e demo_args (uni ''h'') f = Inr ?host"
    by (simp add: session_host_def demo_args_def args_default_def demo_env_def resolve_default_def host_config_default_def)
  obtain d :: "(nat \<times> bytes \<times> bytes option, unit, nat, unit) client_driver" and out where
    d: "connect_once ?e demo_args demo_keypair (pg_direct ?e) kh_new (host_label ?host 51820) 9 = (Inr d, out)"
    using demo_connects [of "host_label ?host 51820" "want_shell demo_args"]
    by (auto simp: connect_once_def terminal_size_def agent_sock_def demo_env_def demo_keypair_def demo_args_def args_default_def)
  have o: "open_session ?e demo_args demo_keypair (uni ''h'') ?host kh_new (?s\<lparr>ps_files := f\<rparr>) = (Inr (d, True), ?s\<lparr>ps_files := f, ps_sent := out\<rparr>)"
    using d by (simp add: open_session_def direct_session_def try_direct_def demo_args_def args_default_def demo_env_def offline_ssh_def Let_def)
  obtain s2 where p: "save_new_pin ?e d (?s\<lparr>ps_files := f, ps_sent := out\<rparr>) = (Inr (), s2)"
    using demo_saves [of "ke_b64e demo_keys" "ke_pid demo_keys" "kh_path ?e" "cc_known (cd_core d)" f]
    by (cases "cc_known_dirty (cd_core d)") (auto simp: save_new_pin_def demo_env_fields)
  have v: "check_version ?e demo_args (uni ''h'') True d s2 = (d, s2)" by (simp add: check_version_def demo_env_def)
  have "run_session ?e demo_args (uni ''h'') demo_keypair (?s\<lparr>ps_files := f\<rparr>) = (Inr (launch_mode demo_args d), s2)"
    using k h o p v by (simp add: run_session_def)
  moreover have "ag_forget_host demo_args = None" "ag_target demo_args = Some (uni ''h'')" "\<not> ag_copy_id demo_args"
    by (simp_all add: demo_args_def args_default_def)
  ultimately have r: "run ?e demo_args ?s = (Inr (launch_mode demo_args d), s2)"
    using f(1) by (simp add: run_def)
  show ?thesis using session_is_trusted [OF r launch_mode_driver] r launch_mode_driver by blast
qed

end
