(* ===== verification/Screen.thy ===== *)
theory Screen
  imports Tty
begin

text \<open>
  What the user sees. The terminal of the user is specified as a machine that reads the control sequences of ECMA-48
  which the renderer emits; the renderer is correct if this machine, fed with what it writes, shows the grid. The
  width of characters is that of the emulator.
\<close>

section \<open>A reference terminal\<close>

record attr =
  at_bold :: bool
  at_dim :: bool
  at_italic :: bool
  at_underline :: bool
  at_reverse :: bool
  at_hidden :: bool
  at_strike :: bool
  at_fg :: color
  at_bg :: color

definition plain :: attr where
  "plain = \<lparr>at_bold = False, at_dim = False, at_italic = False, at_underline = False, at_reverse = False,
     at_hidden = False, at_strike = False, at_fg = DefaultColor, at_bg = DefaultColor\<rparr>"

text \<open>A screen of glyphs with attributes; the second half of a wide glyph has the code 0. A column equal to the width is
  the position behind the last column, from where the next glyph wraps.\<close>

record display =
  d_rows :: nat
  d_cols :: nat
  d_cells :: "nat \<Rightarrow> nat \<Rightarrow> nat \<times> attr"
  d_row :: nat
  d_col :: nat
  d_attr :: attr
  d_visible :: bool

definition d_set :: "nat \<Rightarrow> nat \<Rightarrow> nat \<times> attr \<Rightarrow> display \<Rightarrow> display" where
  "d_set r c x d = d\<lparr>d_cells := (d_cells d)(r := (d_cells d r)(c := x))\<rparr>"

definition next_line :: "display \<Rightarrow> display" where
  "next_line d =
     (if d_row d + 1 < d_rows d then d\<lparr>d_row := d_row d + 1, d_col := 0\<rparr>
      else d\<lparr>d_cells := (\<lambda>r c. if r + 1 < d_rows d then d_cells d (r + 1) c else (32, plain)), d_col := 0\<rparr>)"

definition put_width :: "nat \<Rightarrow> nat \<Rightarrow> display \<Rightarrow> display" where
  "put_width w c d =
     (if w = 0 then d
      else
        (let d = (if d_col d + w > d_cols d then next_line d else d);
             d' = d_set (d_row d) (d_col d) (c, d_attr d) d
         in (if w = 2 then d_set (d_row d) (d_col d + 1) (0, d_attr d) d' else d')\<lparr>d_col := d_col d + w\<rparr>))"

text \<open>Parameters: decimal numbers separated by semicolons, empty for 0.\<close>

definition num :: "ustr \<Rightarrow> nat" where
  "num s = fold (\<lambda>c n. n * 10 + (c - 48)) s 0"

definition set_color :: "nat \<Rightarrow> color \<Rightarrow> attr \<Rightarrow> attr" where
  "set_color p c a = (if p = 38 then a\<lparr>at_fg := c\<rparr> else a\<lparr>at_bg := c\<rparr>)"

definition sgr_flag :: "nat \<Rightarrow> attr \<Rightarrow> attr" where
  "sgr_flag p a =
     (if p = 0 then plain else if p = 1 then a\<lparr>at_bold := True\<rparr> else if p = 2 then a\<lparr>at_dim := True\<rparr>
      else if p = 3 then a\<lparr>at_italic := True\<rparr> else if p = 4 then a\<lparr>at_underline := True\<rparr>
      else if p = 7 then a\<lparr>at_reverse := True\<rparr> else if p = 8 then a\<lparr>at_hidden := True\<rparr>
      else if p = 9 then a\<lparr>at_strike := True\<rparr> else a)"

fun sgr_run :: "nat list \<Rightarrow> attr \<Rightarrow> attr" where
  "sgr_run [] a = a"
| "sgr_run (p # ps) a =
     (if p = 38 \<or> p = 48 then
        (case ps of
           m # n # qs \<Rightarrow>
             if m = 5 then sgr_run qs (set_color p (Indexed (of_nat n)) a)
             else if m = 2 then
               (case qs of g # b # qs' \<Rightarrow> sgr_run qs' (set_color p (Rgb (of_nat n) (of_nat g) (of_nat b)) a) | _ \<Rightarrow> a)
             else a
         | _ \<Rightarrow> a)
      else sgr_run ps (sgr_flag p a))"

definition nth_or :: "nat \<Rightarrow> nat list \<Rightarrow> nat \<Rightarrow> nat" where
  "nth_or i ps z = (if i < length ps then ps ! i else z)"

text \<open>The sequences: cursor position, erase in line, attributes, cursor visibility. Others are ignored.\<close>

definition csi_run :: "ustr \<Rightarrow> nat \<Rightarrow> display \<Rightarrow> display" where
  "csi_run s final d =
     (let ps = map num (split_at 59 s)
      in if final = 72 then d\<lparr>d_row := min (nth_or 0 ps 1 - 1) (d_rows d - 1), d_col := min (nth_or 1 ps 1 - 1) (d_cols d - 1)\<rparr>
         else if final = 75 then
           (if nth_or 0 ps 0 = 2 then d\<lparr>d_cells := (d_cells d)(d_row d := (\<lambda>c. (32, plain\<lparr>at_bg := at_bg (d_attr d)\<rparr>)))\<rparr> else d)
         else if final = 109 then d\<lparr>d_attr := sgr_run ps (d_attr d)\<rparr>
         else if s = uni ''?25'' \<and> final = 104 then d\<lparr>d_visible := True\<rparr>
         else if s = uni ''?25'' \<and> final = 108 then d\<lparr>d_visible := False\<rparr>
         else d)"

datatype parsing = Ground | Escape | Csi ustr

text \<open>One character. A sequence starts with \<open>ESC [\<close>; its parameters are below \<^verbatim>\<open>@\<close>, its final character is not.\<close>

fun term_char :: "(nat \<Rightarrow> nat) \<Rightarrow> nat \<Rightarrow> parsing \<times> display \<Rightarrow> parsing \<times> display" where
  "term_char width c (Ground, d) =
     (if c = 27 then (Escape, d) else if c < 32 \<or> c = 127 then (Ground, d) else (Ground, put_width (width c) c d))"
| "term_char width c (Escape, d) = (if c = 91 then (Csi [], d) else (Ground, d))"
| "term_char width c (Csi s, d) = (if c < 64 then (Csi (s @ [c]), d) else (Ground, csi_run s c d))"

definition term_run :: "(nat \<Rightarrow> nat) \<Rightarrow> ustr \<Rightarrow> parsing \<times> display \<Rightarrow> parsing \<times> display" where
  "term_run width s st = fold (term_char width) s st"


section \<open>Sequences are read as they are written\<close>

lemma term_run_append [simp]: "term_run width (s @ t) st = term_run width t (term_run width s st)"
  by (simp add: term_run_def)

lemma term_run_Nil [simp]: "term_run width [] st = st"
  by (simp add: term_run_def)

lemma term_run_Cons: "term_run width (c # s) st = term_run width s (term_char width c st)"
  by (simp add: term_run_def)

lemma term_run_seq: "term_run width s st = st1 \<Longrightarrow> term_run width t st1 = st2 \<Longrightarrow> term_run width (s @ t) st = st2"
  by simp

lemma term_run_params: "\<forall>c \<in> set s. c < 64 \<Longrightarrow> term_run width s (Csi p, d) = (Csi (p @ s), d)"
  by (induction s arbitrary: p) (simp_all add: term_run_Cons)

lemma term_run_csi:
  assumes "\<forall>c \<in> set s. c < 64" "64 \<le> final"
  shows "term_run width (csi @ s @ [final]) (Ground, d) = (Ground, csi_run s final d)"
  using assms by (simp add: csi_def term_run_params term_run_Cons)

lemma num_snoc: "num (s @ [c]) = num s * 10 + (c - 48)"
  by (simp add: num_def)

lemma num_udec [simp]: "num (udec n) = n"
proof (induction n rule: dec_digits.induct)
  case (1 n)
  show ?case
  proof (cases "n < 10")
    case True
    then show ?thesis unfolding udec_def by (subst dec_digits.simps) (use unat_digit [OF True] in \<open>simp add: num_def\<close>)
  next
    case False
    have "udec n = udec (n div 10) @ [48 + n mod 10]"
      unfolding udec_def by (subst dec_digits.simps) (use False unat_digit [of "n mod 10"] in simp)
    then show ?thesis using 1 False by (simp add: num_snoc)
  qed
qed

lemma udec_small: "c \<in> set (udec n) \<Longrightarrow> c < 58 \<and> c \<noteq> 59"
  using udec_digits [of c n] by (simp add: is_ascii_digit_def)

lemma udec_not_sep [simp]: "59 \<notin> set (udec n)"
  using udec_small by blast


section \<open>Attributes\<close>

text \<open>How a cell is meant to look, and what the renderer's sequence can make of it: it has nothing for hidden and struck text
  (see the end of this theory).\<close>

definition look :: "u8 \<Rightarrow> color \<Rightarrow> color \<Rightarrow> attr" where
  "look fl fgc bgc =
     \<lparr>at_bold = (fl AND BOLD \<noteq> 0), at_dim = (fl AND DIM \<noteq> 0), at_italic = (fl AND ITALIC \<noteq> 0),
      at_underline = (fl AND (UNDERLINE OR PREDICTED) \<noteq> 0), at_reverse = (fl AND REVERSE \<noteq> 0),
      at_hidden = (fl AND HIDDEN \<noteq> 0), at_strike = (fl AND STRIKE \<noteq> 0), at_fg = fgc, at_bg = bgc\<rparr>"

definition painted_look :: "u8 \<Rightarrow> color \<Rightarrow> color \<Rightarrow> attr" where
  "painted_look fl fgc bgc = (look fl fgc bgc)\<lparr>at_hidden := False, at_strike := False\<rparr>"

lemma look_painted: "fl AND HIDDEN = 0 \<Longrightarrow> fl AND STRIKE = 0 \<Longrightarrow> painted_look fl fgc bgc = look fl fgc bgc"
  by (simp add: painted_look_def look_def)

definition color_list :: "nat \<Rightarrow> color \<Rightarrow> nat list" where
  "color_list kind c = (case c of DefaultColor \<Rightarrow> [] | Indexed n \<Rightarrow> [kind, 5, unat n] | Rgb r g b \<Rightarrow> [kind, 2, unat r, unat g, unat b])"

definition sgr_list :: "u8 \<Rightarrow> color \<Rightarrow> color \<Rightarrow> nat list" where
  "sgr_list fl fgc bgc =
     (if fl AND BOLD \<noteq> 0 then [1] else []) @ (if fl AND DIM \<noteq> 0 then [2] else []) @ (if fl AND ITALIC \<noteq> 0 then [3] else []) @
     (if fl AND (UNDERLINE OR PREDICTED) \<noteq> 0 then [4] else []) @ (if fl AND REVERSE \<noteq> 0 then [7] else []) @
     color_list 38 fgc @ color_list 48 bgc"

lemma join_with_Cons: "join_with x (s # ss) = s @ concat (map (\<lambda>t. x # t) ss)"
  by (induction ss arbitrary: s) simp_all

lemma udec_literals: "udec 0 = uni ''0''" "udec 1 = uni ''1''" "udec (Suc 0) = uni ''1''" "udec 2 = uni ''2''" "udec 3 = uni ''3''" "udec 4 = uni ''4''"
  "udec 5 = uni ''5''" "udec 7 = uni ''7''" "udec 38 = uni ''38''" "udec 48 = uni ''48''"
  by code_simp+

lemma uni_append: "uni (s @ t) = uni s @ uni t" "uni [] = []" "uni ('';'') = [59]" "uni (CHR '';'' # s) = 59 # uni s"
  by (simp_all add: uni_def)

lemma color_params_list: "color_params ''38'' c = concat (map (\<lambda>p. 59 # udec p) (color_list 38 c))"
  "color_params ''48'' c = concat (map (\<lambda>p. 59 # udec p) (color_list 48 c))"
  by (simp_all add: color_params_def color_list_def udec_literals uni_def split: color.split)

lemma sgr_for_list: "sgr_for fl fgc bgc = csi @ join_with 59 (map udec (0 # sgr_list fl fgc bgc)) @ [109]"
  unfolding list.map join_with_Cons sgr_for_def sgr_list_def
  by (simp add: color_params_list udec_literals comp_def) (simp add: uni_def)

lemma params_join [simp]: "map num (split_at 59 (join_with 59 (map udec (p # ps)))) = p # ps"
proof -
  have "split_at 59 (join_with 59 (map udec (p # ps))) = map udec (p # ps)" by (rule split_join) auto
  then show ?thesis by (simp add: comp_def)
qed

lemma params_small: "c \<in> set (join_with 59 (map udec ps)) \<Longrightarrow> c < 64"
  by (cases ps) (auto simp: join_with_Cons split: if_splits dest: udec_small)

lemma sgr_run_flag: "p \<noteq> 38 \<Longrightarrow> p \<noteq> 48 \<Longrightarrow> sgr_run ((if b then [p] else []) @ ps) a = sgr_run ps (if b then sgr_flag p a else a)"
  by simp

lemma sgr_run_color:
  "kind \<in> {38, 48} \<Longrightarrow> sgr_run (color_list kind c @ ps) a = sgr_run ps (if c = DefaultColor then a else set_color kind c a)"
  by (cases c) (auto simp: color_list_def)

lemma sgr_run_look: "sgr_run (0 # sgr_list fl fgc bgc) a = painted_look fl fgc bgc"
proof -
  have "sgr_run (color_list 48 bgc) b = (if bgc = DefaultColor then b else set_color 48 bgc b)" for b
    using sgr_run_color [of 48 bgc "[]"] by simp
  then show ?thesis
    unfolding sgr_list_def sgr_run.simps(2)
    by (simp add: sgr_run_flag sgr_run_color) (simp add: sgr_flag_def plain_def set_color_def painted_look_def look_def)
qed

text \<open>The attribute sequence of a cell, whatever was in effect before.\<close>

lemma term_run_sgr: "term_run width (sgr_for fl fgc bgc) (Ground, d) = (Ground, d\<lparr>d_attr := painted_look fl fgc bgc\<rparr>)"
proof -
  have "\<forall>c \<in> set (join_with 59 (map udec (0 # sgr_list fl fgc bgc))). c < 64" using params_small by blast
  then show ?thesis
    unfolding sgr_for_list by (subst term_run_csi) (simp_all only: csi_run_def Let_def params_join sgr_run_look, simp_all)
qed


section \<open>Rows\<close>

text \<open>A row that can be shown: printable characters, neither hidden nor struck, a wide one followed by its second half.\<close>

fun row_ok :: "(nat \<Rightarrow> nat) \<Rightarrow> cell list \<Rightarrow> bool" where
  "row_ok width [] = True"
| "row_ok width (c # cs) =
     (ch c \<ge> 32 \<and> ch c \<noteq> 127 \<and> cflags c AND HIDDEN = 0 \<and> cflags c AND STRIKE = 0 \<and>
      (if width (ch c) = 1 then row_ok width cs
       else width (ch c) = 2 \<and> (case cs of s # cs' \<Rightarrow> ch s = 0 \<and> row_ok width cs' | [] \<Rightarrow> False)))"

text \<open>A glyph is shown with its attributes; the second half of a wide one belongs to the first.\<close>

definition cell_shown :: "cell \<Rightarrow> nat \<times> attr \<Rightarrow> bool" where
  "cell_shown c x \<longleftrightarrow> fst x = ch c \<and> (ch c \<noteq> 0 \<longrightarrow> snd x = look (cflags c) (fg c) (bg c))"

text \<open>What writing into one row changes: \<open>n\<close> cells from \<open>k\<close> on, and the cursor behind them.\<close>

definition row_written :: "nat \<Rightarrow> cell list \<Rightarrow> display \<Rightarrow> display \<Rightarrow> bool" where
  "row_written k cs d d' \<longleftrightarrow>
     d_rows d' = d_rows d \<and> d_cols d' = d_cols d \<and> d_row d' = d_row d \<and> d_visible d' = d_visible d \<and> d_col d' = k + length cs \<and>
     (\<forall>r c. r \<noteq> d_row d \<or> c < k \<or> k + length cs \<le> c \<longrightarrow> d_cells d' r c = d_cells d r c) \<and>
     (\<forall>i < length cs. cell_shown (cs ! i) (d_cells d' (d_row d) (k + i)))"

lemma row_written_Nil: "d_col d = k \<Longrightarrow> row_written k [] d d"
  by (simp add: row_written_def)

lemma row_written_append:
  assumes "row_written k xs d d1" "row_written (k + length xs) ys d1 d2"
  shows "row_written k (xs @ ys) d d2"
proof -
  have shown: "cell_shown ((xs @ ys) ! i) (d_cells d2 (d_row d) (k + i))" if i: "i < length (xs @ ys)" for i
  proof (cases "i < length xs")
    case True
    then have "d_cells d2 (d_row d) (k + i) = d_cells d1 (d_row d) (k + i)" using assms(2) by (simp add: row_written_def)
    then show ?thesis using True assms(1) by (simp add: row_written_def nth_append)
  next
    case False
    then obtain j where "i = length xs + j" "j < length ys" using i by (metis add_diff_inverse_nat length_append nat_add_left_cancel_less)
    then show ?thesis using assms by (simp add: row_written_def nth_append add.assoc)
  qed
  have kept: "d_cells d2 r c = d_cells d r c" if "r \<noteq> d_row d \<or> c < k \<or> k + length (xs @ ys) \<le> c" for r c
  proof -
    have "d_cells d2 r c = d_cells d1 r c" using that assms by (auto simp: row_written_def)
    also have "\<dots> = d_cells d r c" using that assms(1) by (auto simp: row_written_def)
    finally show ?thesis .
  qed
  show ?thesis using shown kept assms by (simp add: row_written_def)
qed

text \<open>The attributes in effect, once a sequence was written.\<close>

definition in_effect :: "bool \<Rightarrow> u8 \<times> color \<times> color \<Rightarrow> display \<Rightarrow> bool" where
  "in_effect started cur d \<longleftrightarrow> (started \<longrightarrow> (case cur of (fl, fgc, bgc) \<Rightarrow> d_attr d = painted_look fl fgc bgc))"

text \<open>One cell of the loop: its attributes are in effect, then its character is written.\<close>

lemma row_cells_step:
  assumes "in_effect started cur d"
  shows "\<exists>started' cur'. term_run width (row_cells started cur (c # cs)) (Ground, d) =
       term_run width (row_cells started' cur' cs) (term_char width (ch c) (Ground, d\<lparr>d_attr := painted_look (cflags c) (fg c) (bg c)\<rparr>)) \<and>
     (\<forall>d'. d_attr d' = painted_look (cflags c) (fg c) (bg c) \<longrightarrow> in_effect started' cur' d')"
proof (cases "\<not> started \<or> (cflags c, fg c, bg c) \<noteq> cur")
  case True
  then show ?thesis
    by (intro exI [of _ True] exI [of _ "(cflags c, fg c, bg c)"]) (simp add: in_effect_def term_run_sgr term_run_Cons)
next
  case False
  then have "d\<lparr>d_attr := painted_look (cflags c) (fg c) (bg c)\<rparr> = d" using assms by (auto simp: in_effect_def)
  then show ?thesis
    using False by (intro exI [of _ started] exI [of _ cur]) (auto simp: in_effect_def term_run_Cons)
qed

lemma put_narrow:
  assumes "width (ch c) = 1" "32 \<le> ch c" "ch c \<noteq> 127" "cflags c AND HIDDEN = 0" "cflags c AND STRIKE = 0" "d_col d < d_cols d" "d_attr d = painted_look (cflags c) (fg c) (bg c)"
  shows "\<exists>d'. term_char width (ch c) (Ground, d) = (Ground, d') \<and> d_attr d' = d_attr d \<and> row_written (d_col d) [c] d d'"
  using assms by (auto simp: put_width_def d_set_def row_written_def cell_shown_def look_painted)

lemma put_wide:
  assumes "width (ch c) = 2" "32 \<le> ch c" "ch c \<noteq> 127" "cflags c AND HIDDEN = 0" "cflags c AND STRIKE = 0" "d_col d + 1 < d_cols d" "d_attr d = painted_look (cflags c) (fg c) (bg c)" "ch s = 0"
  shows "\<exists>d'. term_char width (ch c) (Ground, d) = (Ground, d') \<and> d_attr d' = d_attr d \<and> row_written (d_col d) [c, s] d d'"
  using assms by (auto simp: put_width_def d_set_def row_written_def cell_shown_def look_painted less_Suc_eq)

lemma row_written_attr [simp]: "row_written k cs (d\<lparr>d_attr := a\<rparr>) d' = row_written k cs d d'" "row_written k cs d (d'\<lparr>d_attr := a\<rparr>) = row_written k cs d d'"
  by (simp_all add: row_written_def)

text \<open>The loop over the cells of a row shows them, from the cursor on.\<close>

lemma row_cells_run:
  "row_ok width cs \<Longrightarrow> in_effect started cur d \<Longrightarrow> d_col d + length cs \<le> d_cols d \<Longrightarrow>
   \<exists>d'. term_run width (row_cells started cur cs) (Ground, d) = (Ground, d') \<and> row_written (d_col d) cs d d'"
proof (induction width cs arbitrary: started cur d rule: row_ok.induct)
  case (2 width c cs)
  let ?d = "d\<lparr>d_attr := painted_look (cflags c) (fg c) (bg c)\<rparr>"
  obtain st cur1 where step: "term_run width (row_cells started cur (c # cs)) (Ground, d) =
      term_run width (row_cells st cur1 cs) (term_char width (ch c) (Ground, ?d))"
    and eff: "\<And>d'. d_attr d' = painted_look (cflags c) (fg c) (bg c) \<Longrightarrow> in_effect st cur1 d'"
    using row_cells_step [OF "2.prems"(2)] by blast
  show ?case
  proof (cases "width (ch c) = 1")
    case True
    obtain d1 where d1: "term_char width (ch c) (Ground, ?d) = (Ground, d1)" "d_attr d1 = painted_look (cflags c) (fg c) (bg c)" "row_written (d_col d) [c] d d1"
      using put_narrow [of width c ?d] True "2.prems" by auto
    then obtain d2 where d2: "term_run width (row_cells st cur1 cs) (Ground, d1) = (Ground, d2)" "row_written (d_col d1) cs d1 d2"
      using "2.IH"(1) [OF True, of st cur1 d1] eff "2.prems" True by (auto simp: row_written_def)
    have "row_written (d_col d) ([c] @ cs) d d2"
      using d1(3) d2(2) by (intro row_written_append) (auto simp: row_written_def)
    then show ?thesis using step d1(1) d2(1) by auto
  next
    case False
    then obtain s cs' where cs: "cs = s # cs'" "ch s = 0" "row_ok width cs'" "width (ch c) = 2"
      using "2.prems"(1) by (auto split: list.splits)
    obtain d1 where d1: "term_char width (ch c) (Ground, ?d) = (Ground, d1)" "d_attr d1 = painted_look (cflags c) (fg c) (bg c)" "row_written (d_col d) [c, s] d d1"
      using put_wide [of width c ?d s] cs "2.prems" by auto
    obtain st2 cur2 where step2: "term_run width (row_cells st cur1 (s # cs')) (Ground, d1) =
        term_run width (row_cells st2 cur2 cs') (term_char width (ch s) (Ground, d1\<lparr>d_attr := painted_look (cflags s) (fg s) (bg s)\<rparr>))"
      and eff2: "\<And>d'. d_attr d' = painted_look (cflags s) (fg s) (bg s) \<Longrightarrow> in_effect st2 cur2 d'"
      using row_cells_step [OF eff [OF d1(2)]] by blast
    let ?d1 = "d1\<lparr>d_attr := painted_look (cflags s) (fg s) (bg s)\<rparr>"
    have here: "row_written (d_col d) [c, s] d ?d1" using d1(3) by simp
    then obtain d2 where d2: "term_run width (row_cells st2 cur2 cs') (Ground, ?d1) = (Ground, d2)" "row_written (d_col ?d1) cs' ?d1 d2"
      using "2.IH"(2) [OF False cs(1), of st2 cur2 ?d1] eff2 [of ?d1] "2.prems"(3) cs by (auto simp: row_written_def)
    have "row_written (d_col d) ([c, s] @ cs') d d2"
      using here d2(2) by (intro row_written_append) (auto simp: row_written_def)
    then show ?thesis using step step2 d1(1) d2(1) cs(1,2) by auto
  qed
qed (simp add: row_written_Nil)


section \<open>The screen\<close>

lemma term_run_params_csi:
  assumes "64 \<le> final"
  shows "term_run width (csi @ join_with 59 (map udec (p # ps)) @ [final]) (Ground, d) = (Ground, csi_run (join_with 59 (map udec (p # ps))) final d)"
  using params_small by (intro term_run_csi [OF _ assms]) blast

lemma term_run_move:
  "term_run width (csi @ udec a @ uni '';'' @ udec b @ uni ''H'') (Ground, d) =
     (Ground, d\<lparr>d_row := min (a - 1) (d_rows d - 1), d_col := min (b - 1) (d_cols d - 1)\<rparr>)"
proof -
  have "csi @ udec a @ uni '';'' @ udec b @ uni ''H'' = csi @ join_with 59 (map udec (a # [b])) @ [72]" by (simp add: uni_def)
  then show ?thesis
    using term_run_params_csi [of 72 width a "[b]" d] by (simp only:) (simp only: csi_run_def Let_def params_join, simp add: nth_or_def)
qed

lemma term_run_erase:
  "term_run width (csi @ uni ''2K'') (Ground, d) =
     (Ground, d\<lparr>d_cells := (d_cells d)(d_row d := (\<lambda>c. (32, plain\<lparr>at_bg := at_bg (d_attr d)\<rparr>)))\<rparr>)"
proof -
  have "csi @ uni ''2K'' = csi @ join_with 59 (map udec (2 # [])) @ [75]" by (simp add: udec_literals uni_def)
  then show ?thesis
    using term_run_params_csi [of 75 width 2 "[]" d] by (simp only:) (simp only: csi_run_def Let_def params_join, simp add: nth_or_def)
qed

lemma term_run_plain: "term_run width (csi @ uni ''0m'') (Ground, d) = (Ground, d\<lparr>d_attr := plain\<rparr>)"
proof -
  have "csi @ uni ''0m'' = csi @ join_with 59 (map udec (0 # [])) @ [109]" by (simp add: udec_literals uni_def)
  then show ?thesis
    using term_run_params_csi [of 109 width 0 "[]" d] by (simp only:) (simp only: csi_run_def Let_def params_join, simp add: sgr_flag_def)
qed

lemma term_run_cursor:
  "term_run width (csi @ uni ''?25h'') (Ground, d) = (Ground, d\<lparr>d_visible := True\<rparr>)"
  "term_run width (csi @ uni ''?25l'') (Ground, d) = (Ground, d\<lparr>d_visible := False\<rparr>)"
  using term_run_csi [of "uni ''?25''" 104 width d] term_run_csi [of "uni ''?25''" 108 width d]
  by (simp_all add: csi_run_def Let_def uni_def)

text \<open>A row of the grid is shown by the display.\<close>

definition row_shown :: "grid \<Rightarrow> nat \<Rightarrow> display \<Rightarrow> bool" where
  "row_shown g row d \<longleftrightarrow> (\<forall>c < g_cols g. cell_shown (grid_cell g row c) (d_cells d row c))"

definition same_size :: "grid \<Rightarrow> display \<Rightarrow> bool" where
  "same_size g d \<longleftrightarrow> d_rows d = g_rows g \<and> d_cols d = g_cols g"

text \<open>Painting a row erases it and writes its cells from the first column on.\<close>

definition erased :: "nat \<Rightarrow> display \<Rightarrow> display" where
  "erased row d = d\<lparr>d_row := row, d_col := 0, d_cells := (d_cells d)(row := (\<lambda>c. (32, plain\<lparr>at_bg := at_bg (d_attr d)\<rparr>)))\<rparr>"

lemma paint_row_steps:
  assumes size: "same_size g d" and row: "row < g_rows g"
    and cells: "term_run width (row_cells False (0, DefaultColor, DefaultColor) (map (grid_cell g row) [0..<g_cols g])) (Ground, erased row d) = (Ground, d')"
  shows "term_run width (paint_row g row) (Ground, d) = (Ground, d'\<lparr>d_attr := plain\<rparr>)"
proof -
  let ?cs = "map (grid_cell g row) [0..<g_cols g]"
  let ?d1 = "d\<lparr>d_row := row, d_col := 0\<rparr>"
  have move: "term_run width (csi @ udec (row + 1) @ uni '';'' @ udec 1 @ uni ''H'') (Ground, d) = (Ground, ?d1)"
    unfolding term_run_move using size row by (simp add: same_size_def)
  have erase: "term_run width (csi @ uni ''2K'') (Ground, ?d1) = (Ground, erased row d)"
    unfolding term_run_erase by (simp add: erased_def)
  have "term_run width ((csi @ udec (row + 1) @ uni '';'' @ udec 1 @ uni ''H'') @ (csi @ uni ''2K'') @
      row_cells False (0, DefaultColor, DefaultColor) ?cs @ csi @ uni ''0m'') (Ground, d) = (Ground, d'\<lparr>d_attr := plain\<rparr>)"
    by (rule term_run_seq [OF move term_run_seq [OF erase term_run_seq [OF cells term_run_plain]]])
  moreover have "paint_row g row = (csi @ udec (row + 1) @ uni '';'' @ udec 1 @ uni ''H'') @ (csi @ uni ''2K'') @
      row_cells False (0, DefaultColor, DefaultColor) ?cs @ csi @ uni ''0m''"
    by (simp add: paint_row_def udec_literals) (simp add: uni_def)
  ultimately show ?thesis by (simp only:)
qed

lemma paint_row_run:
  assumes size: "same_size g d" and row: "row < g_rows g" and ok: "row_ok width (map (grid_cell g row) [0..<g_cols g])"
  shows "\<exists>d'. term_run width (paint_row g row) (Ground, d) = (Ground, d') \<and> same_size g d' \<and> d_visible d' = d_visible d \<and>
    (\<forall>r c. r \<noteq> row \<longrightarrow> d_cells d' r c = d_cells d r c) \<and> row_shown g row d'"
proof -
  let ?cs = "map (grid_cell g row) [0..<g_cols g]"
  obtain d3 where d3: "term_run width (row_cells False (0, DefaultColor, DefaultColor) ?cs) (Ground, erased row d) = (Ground, d3)"
    "row_written 0 ?cs (erased row d) d3"
    using row_cells_run [OF ok, of False "(0, DefaultColor, DefaultColor)" "erased row d"] size by (auto simp: in_effect_def same_size_def erased_def)
  show ?thesis
    using paint_row_steps [OF size row d3(1)] d3(2) size by (auto simp: row_written_def row_shown_def same_size_def erased_def)
qed

lemma row_shown_cong: "(\<And>c. d_cells d' row c = d_cells d row c) \<Longrightarrow> row_shown g row d' = row_shown g row d"
  by (simp add: row_shown_def)

lemma paint_rows_run:
  assumes ok: "\<And>row. row < g_rows g \<Longrightarrow> row_ok width (map (grid_cell g row) [0..<g_cols g])"
  shows "same_size g d \<Longrightarrow> \<forall>r \<in> set rs. r < g_rows g \<Longrightarrow>
    \<exists>d'. term_run width (concat (map (paint_row g) rs)) (Ground, d) = (Ground, d') \<and> same_size g d' \<and> d_visible d' = d_visible d \<and>
      (\<forall>r c. r \<notin> set rs \<longrightarrow> d_cells d' r c = d_cells d r c) \<and> (\<forall>r \<in> set rs. row_shown g r d') \<and>
      (rs = [] \<longrightarrow> d' = d)"
proof (induction rs arbitrary: d)
  case (Cons row rs)
  have lt: "row < g_rows g" using Cons.prems(2) by simp
  obtain d1 where d1: "term_run width (paint_row g row) (Ground, d) = (Ground, d1)" "same_size g d1" "d_visible d1 = d_visible d"
    "\<forall>r c. r \<noteq> row \<longrightarrow> d_cells d1 r c = d_cells d r c" "row_shown g row d1"
    using paint_row_run [OF Cons.prems(1) lt ok [OF lt]] by blast
  obtain d2 where d2: "term_run width (concat (map (paint_row g) rs)) (Ground, d1) = (Ground, d2)" "same_size g d2" "d_visible d2 = d_visible d1"
    "\<forall>r c. r \<notin> set rs \<longrightarrow> d_cells d2 r c = d_cells d1 r c" "\<forall>r \<in> set rs. row_shown g r d2"
    using Cons.IH [OF d1(2)] Cons.prems(2) by auto
  have "row_shown g row d2" using d2(4,5) d1(5) row_shown_cong [of d2 row d1 g] by (cases "row \<in> set rs") auto
  then show ?case using d1 d2 by auto
qed simp

text \<open>The end of a frame: the cursor was hidden for repainting, or its visibility is as it was unless it changed.\<close>

lemma term_run_visibility:
  assumes "hidden \<Longrightarrow> \<not> d_visible d" "\<not> hidden \<Longrightarrow> \<not> changed \<Longrightarrow> d_visible d = v"
  shows "term_run width (if hidden then (if v then csi @ uni ''?25h'' else [])
      else if changed then (if v then csi @ uni ''?25h'' else csi @ uni ''?25l'') else []) (Ground, d) = (Ground, d\<lparr>d_visible := v\<rparr>)"
proof -
  have same: "d\<lparr>d_visible := v\<rparr> = d" if "d_visible d = v" using that by (cases d) simp
  show ?thesis
    using assms term_run_cursor [of width d] same by (cases hidden; cases changed; cases v) (simp_all del: term_run_append)
qed

text \<open>The display shows the grid.\<close>

definition shows_grid :: "grid \<Rightarrow> display \<Rightarrow> bool" where
  "shows_grid g d \<longleftrightarrow> same_size g d \<and> (\<forall>row < g_rows g. row_shown g row d) \<and> d_row d = cursor_row g \<and> d_col d = cursor_col g \<and>
     d_visible d = cursor_visible g"

text \<open>The renderer knows what is on the display, if it remembers a frame of its size.\<close>

definition tracks :: "renderer \<Rightarrow> display \<Rightarrow> bool" where
  "tracks r d \<longleftrightarrow> (\<forall>p. rd_last r = Some p \<longrightarrow> same_size p d \<longrightarrow> shows_grid p d)"

lemma tracks_invalidate: "tracks (invalidate r) d"
  by (simp add: tracks_def invalidate_def)

lemma unchanged_row:
  assumes "tracks r d" "same_size g d" "row < g_rows g" "row \<notin> set (changed_rows g r)"
  shows "row_shown g row d"
proof -
  obtain p where p: "rd_last r = Some p" "same_size p d" "\<forall>c < g_cols g. grid_cell p row c = grid_cell g row c"
    using assms(2-4) by (auto simp: changed_rows_def Let_def same_size_def list_ex_iff split: option.splits)
  then have "row_shown p row d" using assms(1-3) by (auto simp: tracks_def shows_grid_def same_size_def)
  then show ?thesis using p(2,3) assms(2) by (simp add: row_shown_def same_size_def)
qed

lemma unmoved:
  assumes "tracks r d" "same_size g d" "changed_rows g r = []" "0 < g_rows g"
  shows "\<not> cursor_moved g r \<Longrightarrow> d_row d = cursor_row g \<and> d_col d = cursor_col g"
    and "\<not> vis_changed g r \<Longrightarrow> d_visible d = cursor_visible g"
proof -
  obtain p where "rd_last r = Some p" "same_size p d"
    using assms(2-4) by (auto simp: changed_rows_def Let_def same_size_def filter_empty_conv split: option.splits if_splits)
  then have "rd_last r = Some p" "shows_grid p d" using assms(1) by (auto simp: tracks_def)
  then show "\<not> cursor_moved g r \<Longrightarrow> d_row d = cursor_row g \<and> d_col d = cursor_col g" "\<not> vis_changed g r \<Longrightarrow> d_visible d = cursor_visible g"
    by (auto simp: cursor_moved_def vis_changed_def shows_grid_def)
qed

lemma changed_rows_range: "r \<in> set (changed_rows g rd) \<Longrightarrow> r < g_rows g"
  by (simp add: changed_rows_def Let_def)

lemma nothing_to_paint: "rd_last r = Some g \<Longrightarrow> paint_text g r = None"
  by (simp add: paint_text_def Let_def changed_rows_def cursor_moved_def vis_changed_def list_ex_iff filter_empty_conv)

lemma paint_shows_frame:
  assumes track: "tracks r d" and size: "same_size g d"
    and ok: "\<And>row. row < g_rows g \<Longrightarrow> row_ok width (map (grid_cell g row) [0..<g_cols g])"
    and cursor: "cursor_row g < g_rows g" "cursor_col g < g_cols g"
  shows "case paint_text g r of
      None \<Rightarrow> shows_grid g d
    | Some buf \<Rightarrow> (\<exists>d'. term_run width buf (Ground, d) = (Ground, d') \<and> shows_grid g d' \<and> tracks (r\<lparr>rd_last := Some g\<rparr>) d' \<and>
        paint_text g (r\<lparr>rd_last := Some g\<rparr>) = None)"
proof -
  let ?rows = "changed_rows g r"
  have pos: "0 < g_rows g" using cursor by simp
  have kept: "row_shown g row d" if "row < g_rows g" "row \<notin> set ?rows" for row
    using unchanged_row [OF track size that] .
  show ?thesis
  proof (cases "paint_text g r")
    case None
    then have "?rows = []" "\<not> cursor_moved g r" "\<not> vis_changed g r" by (auto simp: paint_text_def Let_def split: if_splits)
    then show ?thesis using None kept size unmoved [OF track size _ pos] by (simp add: shows_grid_def)
  next
    case (Some buf)
    let ?d0 = "if ?rows \<noteq> [] then d\<lparr>d_visible := False\<rparr> else d"
    have size0: "same_size g ?d0" using size by (simp add: same_size_def)
    obtain d1 where d1: "term_run width (concat (map (paint_row g) ?rows)) (Ground, ?d0) = (Ground, d1)" "same_size g d1" "d_visible d1 = d_visible ?d0"
      "\<forall>r c. r \<notin> set ?rows \<longrightarrow> d_cells d1 r c = d_cells ?d0 r c" "\<forall>r \<in> set ?rows. row_shown g r d1" "?rows = [] \<longrightarrow> d1 = ?d0"
      using paint_rows_run [OF ok size0, of ?rows] changed_rows_range by blast
    let ?moved = "?rows \<noteq> [] \<or> cursor_moved g r"
    let ?d2 = "if ?moved then d1\<lparr>d_row := cursor_row g, d_col := cursor_col g\<rparr> else d1"
    let ?d3 = "?d2\<lparr>d_visible := cursor_visible g\<rparr>"
    have move: "term_run width (if ?moved then csi @ udec (cursor_row g + 1) @ uni '';'' @ udec (cursor_col g + 1) @ uni ''H'' else []) (Ground, d1) = (Ground, ?d2)"
      using term_run_move [of width "cursor_row g + 1" "cursor_col g + 1" d1] d1(2) cursor by (simp del: term_run_append add: same_size_def)
    have vis2: "d_visible ?d2 = (if ?rows \<noteq> [] then False else d_visible d)" using d1(3) by simp
    have vis: "term_run width (if ?rows \<noteq> [] then (if cursor_visible g then csi @ uni ''?25h'' else [])
        else if vis_changed g r then (if cursor_visible g then csi @ uni ''?25h'' else csi @ uni ''?25l'') else []) (Ground, ?d2) = (Ground, ?d3)"
      using vis2 unmoved(2) [OF track size _ pos] by (intro term_run_visibility) auto
    have hide: "term_run width (if ?rows \<noteq> [] then csi @ uni ''?25l'' else []) (Ground, d) = (Ground, ?d0)"
      using term_run_cursor(2) [of width d] by (simp del: term_run_append)
    have buf: "buf = (if ?rows \<noteq> [] then csi @ uni ''?25l'' else []) @ concat (map (paint_row g) ?rows) @
        (if ?moved then csi @ udec (cursor_row g + 1) @ uni '';'' @ udec (cursor_col g + 1) @ uni ''H'' else []) @
        (if ?rows \<noteq> [] then (if cursor_visible g then csi @ uni ''?25h'' else [])
         else if vis_changed g r then (if cursor_visible g then csi @ uni ''?25h'' else csi @ uni ''?25l'') else [])"
      using Some by (simp add: paint_text_def Let_def split: if_splits)
    have run: "term_run width buf (Ground, d) = (Ground, ?d3)"
      unfolding buf by (rule term_run_seq [OF hide term_run_seq [OF d1(1) term_run_seq [OF move vis]]])
    have rows: "row_shown g row d1" if "row < g_rows g" for row
      using kept [OF that] d1(4,5) row_shown_cong [of d1 row d g] by (cases "row \<in> set ?rows") auto
    then have "shows_grid g ?d3"
      using d1(2,6) unmoved(1) [OF track size _ pos] by (auto simp: shows_grid_def same_size_def row_shown_def)
    then show ?thesis using Some run by (auto simp: tracks_def nothing_to_paint)
  qed
qed

text \<open>C12: the user sees the screen. If the renderer knows what the terminal shows, and the terminal has the size of the
  grid, then after what \<^verbatim>\<open>paint\<close> writes the terminal shows the grid: every glyph with its attributes, the cursor
  and its visibility; and the renderer knows it, so that painting the same frame again writes nothing. The
  rows must hold printable characters, neither hidden nor struck out, each wide one followed by its second half.\<close>

theorem paint_shows_grid:
  assumes track: "tracks r d" and size: "same_size g d"
    and ok: "\<And>row. row < g_rows g \<Longrightarrow> row_ok width (map (grid_cell g row) [0..<g_cols g])"
    and cursor: "cursor_row g < g_rows g" "cursor_col g < g_cols g"
  shows "case paint_text g r of
      None \<Rightarrow> shows_grid g d
    | Some buf \<Rightarrow> (\<exists>d'. term_run width buf (Ground, d) = (Ground, d') \<and> shows_grid g d' \<and> tracks (r\<lparr>rd_last := Some g\<rparr>) d' \<and>
        paint_text g (r\<lparr>rd_last := Some g\<rparr>) = None)"
  by (rule paint_shows_frame [OF assms])

text \<open>A demonstration: a wide character on a screen of two columns.\<close>

definition demo_width :: "nat \<Rightarrow> nat" where
  "demo_width c = (if c = 0x4e16 then 2 else if c < 32 then 0 else 1)"

definition demo_grid :: "nat list \<Rightarrow> grid" where
  "demo_grid cs = (grid_new 1 (length cs))\<lparr>g_cells := map (\<lambda>c. blank\<lparr>ch := c\<rparr>) cs\<rparr>"

definition demo_display :: "nat \<Rightarrow> display" where
  "demo_display n = \<lparr>d_rows = 1, d_cols = n, d_cells = (\<lambda>r c. (63, plain)), d_row = 0, d_col = 0, d_attr = plain, d_visible = True\<rparr>"

theorem paint_shows_grid_witness:
  "case paint_text (demo_grid [0x4e16, 0]) renderer_new of
      None \<Rightarrow> shows_grid (demo_grid [0x4e16, 0]) (demo_display 2)
    | Some buf \<Rightarrow> (\<exists>d'. term_run demo_width buf (Ground, demo_display 2) = (Ground, d') \<and> shows_grid (demo_grid [0x4e16, 0]) d' \<and>
        tracks (renderer_new\<lparr>rd_last := Some (demo_grid [0x4e16, 0])\<rparr>) d' \<and> paint_text (demo_grid [0x4e16, 0]) (renderer_new\<lparr>rd_last := Some (demo_grid [0x4e16, 0])\<rparr>) = None)"
proof (rule paint_shows_grid)
  show "tracks renderer_new (demo_display 2)" by (simp add: tracks_def renderer_new_def)
  show "same_size (demo_grid [0x4e16, 0]) (demo_display 2)" "cursor_row (demo_grid [0x4e16, 0]) < g_rows (demo_grid [0x4e16, 0])"
    "cursor_col (demo_grid [0x4e16, 0]) < g_cols (demo_grid [0x4e16, 0])"
    by (simp_all add: same_size_def demo_grid_def demo_display_def grid_new_def Let_def)
  show "row_ok demo_width (map (grid_cell (demo_grid [0x4e16, 0]) row) [0..<g_cols (demo_grid [0x4e16, 0])])"
    if "row < g_rows (demo_grid [0x4e16, 0])" for row
    using that by (simp add: demo_grid_def grid_new_def Let_def grid_cell_def idx_def blank_def demo_width_def upt_conv_Cons)
qed


section \<open>What is not shown\<close>

text \<open>A finding. The emulator records hidden and struck text, the renderer has no sequence for them: hidden text is
  painted like any other.\<close>

theorem hidden_text_painted: "sgr_for (fl OR HIDDEN) fgc bgc = sgr_for fl fgc bgc"
proof -
  have "(fl OR HIDDEN) AND m = fl AND m" if "HIDDEN AND m = 0" for m
    using that by (simp add: word_bw_comms(1) word_ao_dist2 bit.conj_disj_distrib2)
  moreover have "HIDDEN AND m = 0" if "m \<in> {BOLD, DIM, ITALIC, UNDERLINE OR PREDICTED, REVERSE}" for m
    using that by (auto simp: HIDDEN_def BOLD_def DIM_def ITALIC_def UNDERLINE_def PREDICTED_def REVERSE_def)
  ultimately show ?thesis by (simp add: sgr_for_def)
qed

text \<open>A finding. A narrow character written over the first half of a wide one leaves the second half behind, and the rest
  of the row is painted one column too far to the left.\<close>

theorem orphaned_half_shifts_row:
  fixes g :: grid
  defines "g \<equiv> demo_grid [120, 0, 121]"
  shows "do { a \<leftarrow> put_char demo_width 0x4e16 (grid_new 1 3); b \<leftarrow> put_char demo_width 121 a;
      c \<leftarrow> put_char demo_width 120 (b\<lparr>cursor_col := 0, wrap_pending := False\<rparr>); Some (g_cells c) } = Some (g_cells g)"
    and "ch (grid_cell g 0 2) = 121"
    and "fst (d_cells (snd (term_run demo_width (paint_row g 0) (Ground, demo_display 3))) 0 1) = 121"
proof -
  show "do { a \<leftarrow> put_char demo_width 0x4e16 (grid_new 1 3); b \<leftarrow> put_char demo_width 121 a;
      c \<leftarrow> put_char demo_width 120 (b\<lparr>cursor_col := 0, wrap_pending := False\<rparr>); Some (g_cells c) } = Some (g_cells g)"
    by (simp add: g_def demo_grid_def put_char_def put_wrap_def put_fit_def put_glyph_def put_at_def idx_def grid_new_def Let_def demo_width_def
        numeral_2_eq_2 numeral_3_eq_3 blank_def)
  have cells: "map (grid_cell g 0) [0..<g_cols g] = [blank\<lparr>ch := 120\<rparr>, blank\<lparr>ch := 0\<rparr>, blank\<lparr>ch := 121\<rparr>]"
    by (simp add: g_def demo_grid_def grid_new_def Let_def grid_cell_def idx_def upt_conv_Cons)
  show "ch (grid_cell g 0 2) = 121"
    by (simp add: g_def demo_grid_def grid_new_def Let_def grid_cell_def idx_def)
  have "\<exists>d. term_run demo_width (row_cells False (0, DefaultColor, DefaultColor) (map (grid_cell g 0) [0..<g_cols g])) (Ground, erased 0 (demo_display 3)) = (Ground, d) \<and>
      fst (d_cells d 0 1) = 121"
    unfolding cells by (simp add: blank_def term_run_sgr term_run_Cons put_width_def d_set_def demo_width_def erased_def demo_display_def)
  then obtain d where d: "term_run demo_width (row_cells False (0, DefaultColor, DefaultColor) (map (grid_cell g 0) [0..<g_cols g])) (Ground, erased 0 (demo_display 3)) = (Ground, d)"
    "fst (d_cells d 0 1) = 121" by blast
  have "same_size g (demo_display 3)" "0 < g_rows g" by (simp_all add: same_size_def g_def demo_grid_def demo_display_def grid_new_def Let_def)
  then show "fst (d_cells (snd (term_run demo_width (paint_row g 0) (Ground, demo_display 3))) 0 1) = 121"
    using paint_row_steps [OF _ _ d(1)] d(2) by simp
qed

text \<open>A finding. A cell may hold any character that the server sends, and the renderer writes it as it is: here four cells
  hide everything that follows them in the row.\<close>

theorem control_character_reaches_terminal:
  fixes g :: grid
  defines "g \<equiv> demo_grid [27, 91, 56, 109, 120]"
  shows "d_cells (snd (term_run demo_width (paint_row g 0) (Ground, demo_display 5))) 0 0 = (120, plain\<lparr>at_hidden := True\<rparr>)"
proof -
  have cells: "map (grid_cell g 0) [0..<g_cols g] = [blank\<lparr>ch := 27\<rparr>, blank\<lparr>ch := 91\<rparr>, blank\<lparr>ch := 56\<rparr>, blank\<lparr>ch := 109\<rparr>, blank\<lparr>ch := 120\<rparr>]"
    by (simp add: g_def demo_grid_def grid_new_def Let_def grid_cell_def idx_def upt_conv_Cons)
  have plain: "painted_look 0 DefaultColor DefaultColor = plain" by (simp add: painted_look_def look_def plain_def)
  have "\<exists>d. term_run demo_width (row_cells False (0, DefaultColor, DefaultColor) (map (grid_cell g 0) [0..<g_cols g])) (Ground, erased 0 (demo_display 5)) = (Ground, d) \<and>
      d_cells d 0 0 = (120, plain\<lparr>at_hidden := True\<rparr>)"
    unfolding cells
    by (simp add: blank_def term_run_sgr term_run_Cons put_width_def d_set_def demo_width_def erased_def demo_display_def csi_run_def num_def plain sgr_flag_def)
  then obtain d where d: "term_run demo_width (row_cells False (0, DefaultColor, DefaultColor) (map (grid_cell g 0) [0..<g_cols g])) (Ground, erased 0 (demo_display 5)) = (Ground, d)"
    "d_cells d 0 0 = (120, plain\<lparr>at_hidden := True\<rparr>)" by blast
  have "same_size g (demo_display 5)" "0 < g_rows g" by (simp_all add: same_size_def g_def demo_grid_def demo_display_def grid_new_def Let_def)
  then show ?thesis using paint_row_steps [OF _ _ d(1)] d(2) by simp
qed

end
