(* ===== verification/Interactive.thy ===== *)
theory Interactive
  imports Program Status Screen DriverSafe
begin

text \<open>
  The interactive session, \<^verbatim>\<open>interactive_loop\<close> of \<^verbatim>\<open>src/bin/noissh.rs\<close>: one iteration of its loop, with the detach key, the window size,
  the keepalive, the status banner and the painting. Instants and durations are numbers of nanoseconds. Parameters are what
  an iteration finds: the signal flag, the datagrams and keystrokes that are ready, the window size, the clock, and
  the terminal \<open>'o\<close> with an operation that writes a text. Setting the terminal up and the wait in \<^verbatim>\<open>poll\<close> are not
  modelled; how long it waits is.
\<close>

definition SECOND :: nat where "SECOND = 1000000000"
definition KEEPALIVE :: nat where "KEEPALIVE = 3 * SECOND"
definition STALE_KEEPALIVE :: nat where "STALE_KEEPALIVE = SECOND"
definition STALE_AFTER :: nat where "STALE_AFTER = 2 * SECOND"
definition STALE_POLL :: nat where "STALE_POLL = SECOND"
definition ACTIVE_POLL :: nat where "ACTIVE_POLL = 40000000"

record ('s, 't, 'a, 'k) interactive =
  ia_driver :: "('s, 't, 'a, 'k) client_driver"
  ia_renderer :: renderer
  ia_last_size :: "u16 \<times> u16"
  ia_next_keepalive :: nat
  ia_last_contact :: nat
  ia_esc_pending :: bool

text \<open>What an iteration finds. The clock is read after receiving, before the keepalive, twice after it, and before painting.\<close>

record round_input =
  ri_signalled :: bool
  ri_datagrams :: "bytes list"
  ri_reads :: "bytes list"
  ri_window :: "(u16 \<times> u16) option"
  ri_received_at :: nat
  ri_keepalive_at :: nat
  ri_sent_at :: nat
  ri_rearmed_at :: nat
  ri_painted_at :: nat

datatype ('s, 't, 'a, 'k) round_result =
    IContinue "('s, 't, 'a, 'k) interactive"
  | IExit int
  | IFailed runtime_error

definition SHOW_CURSOR :: ustr where
  "SHOW_CURSOR = csi @ uni ''?25h'' @ [13, 10]"

text \<open>How long to wait for something to happen, in milliseconds.\<close>

definition poll_timeout :: "nat \<Rightarrow> nat \<Rightarrow> ('s, 't, 'a, 'k) interactive \<Rightarrow> nat" where
  "poll_timeout now now' st =
     (let stale = (now - ia_last_contact st \<ge> STALE_AFTER);
          timeout =
            (if has_outgoing (cd_core (ia_driver st)) then ACTIVE_POLL
             else (let base = min (ia_next_keepalive st - now') KEEPALIVE in if stale then min base STALE_POLL else base))
      in min (timeout div 1000000) 65535)"

text \<open>The keystrokes of one read: forwarded to the shell unless there is nothing to forward.\<close>

definition type_read :: "bytes \<Rightarrow> bool \<times> bool \<times> ('s, 't, 'a) client_core \<Rightarrow> bool \<times> bool \<times> ('s, 't, 'a) client_core" where
  "type_read buf =
     (\<lambda>(pending, quit, core).
        case process_input pending buf of (pending, outcome) \<Rightarrow>
          (pending, quit \<or> io_quit outcome, if io_forward outcome \<noteq> [] then cc_type_input (io_forward outcome) core else core))"

definition adopt_size :: "u16 \<times> u16 \<Rightarrow> ('s, 't, 'a, 'k) interactive \<Rightarrow> ('s, 't, 'a, 'k) interactive" where
  "adopt_size sz st =
     (if sz \<noteq> ia_last_size st then
        st\<lparr>ia_last_size := sz, ia_driver := (ia_driver st)\<lparr>cd_core := client_resize (fst sz) (snd sz) (cd_core (ia_driver st))\<rparr>,
           ia_renderer := invalidate (ia_renderer st)\<rparr>
      else st)"

definition keep_alive :: "('s, 't) snow \<Rightarrow> round_input \<Rightarrow> ('s, 't, 'a, 'k) interactive \<Rightarrow> bytes list \<times> ('s, 't, 'a, 'k) interactive" where
  "keep_alive sn ri st =
     (if ri_keepalive_at ri \<ge> ia_next_keepalive st then
        (case send_keepalive sn True (cd_core (ia_driver st)) of (out, core) \<Rightarrow>
           (out, st\<lparr>ia_driver := (ia_driver st)\<lparr>cd_core := core\<rparr>,
                   ia_next_keepalive := ri_rearmed_at ri + (if ri_sent_at ri - ia_last_contact st \<ge> STALE_AFTER then STALE_KEEPALIVE else KEEPALIVE)\<rparr>))
      else ([], st))"

text \<open>The frame to paint: the overlay, with the banner when the server has been silent. \<open>None\<close> is an access out of range.\<close>

definition frame_at :: "nat \<Rightarrow> ('s, 't, 'a, 'k) interactive \<Rightarrow> grid option" where
  "frame_at now st =
     (let overlay = cc_overlay (cd_core (ia_driver st))
      in case status_banner (now - ia_last_contact st) of Some banner \<Rightarrow> stamp_status banner overlay | None \<Rightarrow> Some overlay)"

text \<open>The end of an iteration: painting, and leaving when the shell has exited.\<close>

definition paint_round :: "(ustr \<Rightarrow> 'o \<Rightarrow> bool \<times> 'o) \<Rightarrow> round_input \<Rightarrow> ('s, 't, 'a, 'k) interactive \<Rightarrow> 'o \<Rightarrow>
    (('s, 't, 'a, 'k) round_result \<times> 'o) option" where
  "paint_round wr ri st w =
     do { frame \<leftarrow> frame_at (ri_painted_at ri) st;
          Some (case render_paint wr frame (ia_renderer st) w of (ok, rd, w) \<Rightarrow>
            if \<not> ok then (IFailed RIo, w)
            else case cc_exited (cd_core (ia_driver st)) of
              Some status \<Rightarrow> (case wr SHOW_CURSOR w of (ok, w) \<Rightarrow> (if ok then IExit (sint status) else IFailed RIo, w))
            | None \<Rightarrow> (IContinue (st\<lparr>ia_renderer := rd\<rparr>), w)) }"

definition service_agent :: "('k, 'l) net_ops \<Rightarrow> ('s, 't, 'a, 'k) client_driver \<Rightarrow> ('s, 't, 'a, 'k) client_driver option" where
  "service_agent nw d = (if cd_agent_sock d \<noteq> None then pump_agent nw d else Some d)"

text \<open>One iteration, after the wait. The datagrams sent are part of the result; \<open>None\<close> is a panic or a local agent
  that never stops sending.\<close>

definition interactive_round :: "('s, 't) snow \<Rightarrow> ('k, 'l) net_ops \<Rightarrow> (ustr \<Rightarrow> 'o \<Rightarrow> bool \<times> 'o) \<Rightarrow> round_input \<Rightarrow>
    ('s, 't, 'a, 'k) interactive \<Rightarrow> 'o \<Rightarrow> (('s, 't, 'a, 'k) round_result \<times> bytes list \<times> 'o) option" where
  "interactive_round sn nw wr ri st w =
     (if ri_signalled ri then Some (IExit 143, [], snd (wr SHOW_CURSOR w))
      else case recv_all sn (ri_datagrams ri) (cd_core (ia_driver st)) of
        (Inl err, out, core) \<Rightarrow> Some (IFailed err, out, w)
      | (Inr _, out, core) \<Rightarrow>
          do { d \<leftarrow> service_agent nw ((ia_driver st)\<lparr>cd_core := core\<rparr>);
               (case fold type_read (ri_reads ri) (ia_esc_pending st, False, cd_core d) of (pending, quit, core) \<Rightarrow>
                  (let st = st\<lparr>ia_driver := d\<lparr>cd_core := core\<rparr>, ia_esc_pending := pending,
                              ia_last_contact := (if ri_datagrams ri \<noteq> [] then ri_received_at ri else ia_last_contact st)\<rparr>
                   in if quit then
                        (case client_flush sn (send_bye core) of (out1, core) \<Rightarrow>
                         case wr SHOW_CURSOR w of (ok, w) \<Rightarrow> Some (if ok then IExit 0 else IFailed RIo, out @ out1, w))
                      else
                        (let st = adopt_size (terminal_size (ri_window ri)) st in
                         case client_flush sn (cd_core (ia_driver st)) of (out1, core) \<Rightarrow>
                         case keep_alive sn ri (st\<lparr>ia_driver := (ia_driver st)\<lparr>cd_core := core\<rparr>\<rparr>) of (out2, st) \<Rightarrow>
                           do { (r, w) \<leftarrow> paint_round wr ri st w; Some (r, out @ out1 @ out2, w) }))) })"


section \<open>Keystrokes\<close>

text \<open>Whatever is typed reaches the input channel in order, without what belongs to the detach key.\<close>

lemma push_nothing [simp]: "input_push [] x = x"
  by (simp add: input_push_def)

lemma push_twice: "input_push b (input_push a x) = input_push (a @ b) x"
  by (simp add: input_push_def)

lemma type_reads:
  "fold type_read rs (p, q, core) = (p', q', core') \<Longrightarrow>
   \<exists>oc. process_reads p rs = (p', oc) \<and> q' = (q \<or> io_quit oc) \<and>
     cs_input_tx (cc_shell core') = input_push (io_forward oc) (cs_input_tx (cc_shell core))"
proof (induction rs arbitrary: p q core)
  case (Cons r rs)
  obtain p1 o1 where r: "process_input p r = (p1, o1)" by fastforce
  let ?c = "if io_forward o1 \<noteq> [] then cc_type_input (io_forward o1) core else core"
  have tx: "cs_input_tx (cc_shell ?c) = input_push (io_forward o1) (cs_input_tx (cc_shell core))"
    by (simp add: cc_type_input_def type_input_def)
  have "type_read r (p, q, core) = (p1, q \<or> io_quit o1, ?c)" using r by (simp add: type_read_def)
  then have "fold type_read rs (p1, q \<or> io_quit o1, ?c) = (p', q', core')" using Cons.prems by (simp only: fold_simps)
  from Cons.IH [OF this] show ?case using r tx by (auto simp: push_twice add_outcome_def)
qed simp

text \<open>Nothing else in an iteration touches the channel.\<close>

lemma frames_shell:
  "open_shell_frames c = (fs, c') \<Longrightarrow> cc_shell c' = cc_shell c" "remote_forward_frames c = (fs, c') \<Longrightarrow> cc_shell c' = cc_shell c"
  "stream_frames c = (fs, c') \<Longrightarrow> cc_shell c' = cc_shell c"
  by (auto simp: open_shell_frames_def remote_forward_frames_def stream_frames_def Let_def split: prod.splits if_splits)

lemma outgoing_shell: "outgoing sn c = (r, c') \<Longrightarrow> cc_shell c' = cc_shell c"
  by (auto simp: outgoing_def Let_def dest!: frames_shell split: option.splits prod.splits sum.splits if_splits)

lemma flush_shell: "client_flush sn c = (out, c') \<Longrightarrow> cc_shell c' = cc_shell c"
  by (auto simp: client_flush_def client_tick_def dest: outgoing_shell split: prod.splits)

interpretation shell_pumped: pumped_core "client_streams i" "\<lambda>c c'. cc_shell c' = cc_shell c" for i
  by unfold_locales (auto simp: client_streams_def cc_stream_read_def cc_stream_write_def cc_stream_close_def split: prod.splits)

lemma pump_agent_one_shell: "pump_agent_one nw i d = Some d' \<Longrightarrow> cc_shell (cd_core d') = cc_shell (cd_core d)"
  by (auto simp: pump_agent_one_def dest!: shell_pumped.R_pump_conn split: option.splits bind_splits)

lemma pump_agents_shell: "opt_fold (pump_agent_one nw) is d = Some d' \<Longrightarrow> cc_shell (cd_core d') = cc_shell (cd_core d)"
  by (induction "is" arbitrary: d) (auto dest: pump_agent_one_shell split: bind_splits)

lemma agent_events_shell: "cc_shell (cd_core (fold (agent_event nw) evs d)) = cc_shell (cd_core d)"
proof (induction evs arbitrary: d)
  case (Cons ev evs)
  have "cc_shell (cd_core (agent_event nw ev d)) = cc_shell (cd_core d)"
    by (cases ev) (auto simp: cc_stream_close_def split: option.splits)
  then show ?case using Cons.IH by simp
qed simp

lemma service_agent_shell: "service_agent nw d = Some d' \<Longrightarrow> cc_shell (cd_core d') = cc_shell (cd_core d)"
  by (auto simp: service_agent_def pump_agent_def cc_take_events_def agent_events_shell Let_def dest!: pump_agents_shell split: if_splits)

lemma adopt_size_keeps:
  "cc_shell (cd_core (ia_driver (adopt_size sz st))) = cc_shell (cd_core (ia_driver st))"
  "ia_esc_pending (adopt_size sz st) = ia_esc_pending st" "ia_last_contact (adopt_size sz st) = ia_last_contact st"
  "tracks (ia_renderer st) d \<Longrightarrow> tracks (ia_renderer (adopt_size sz st)) d"
  by (simp_all add: adopt_size_def client_resize_def tracks_invalidate)

lemma keep_alive_keeps:
  assumes "keep_alive sn ri st = (out, st')"
  shows "cc_shell (cd_core (ia_driver st')) = cc_shell (cd_core (ia_driver st)) \<and> ia_esc_pending st' = ia_esc_pending st \<and>
    ia_renderer st' = ia_renderer st \<and> ia_last_contact st' = ia_last_contact st"
  using assms by (auto simp: keep_alive_def send_keepalive_def keepalive_def split: if_splits prod.splits option.splits)


section \<open>What the user sees and types\<close>

text \<open>The frame that the user should see: the screen of the shell, and from four seconds of silence on a message at the
  right end of its top row, in reverse bold.\<close>

definition silence_message :: "nat \<Rightarrow> ustr" where
  "silence_message seconds =
     uni ''[noissh] last contact '' @ udec seconds @ uni ''s ago '' @ [0x2014] @ uni '' reconnecting'' @ [0x2026] @ uni ''  (Ctrl-^ . to quit)''"

definition expected_frame :: "nat \<Rightarrow> grid \<Rightarrow> grid" where
  "expected_frame silence g =
     (if silence < 4000000000 then g
      else (let msg = silence_message (silence div 1000000000)
            in g\<lparr>g_cells := take (g_cols g - length msg) (g_cells g) @
                   map (\<lambda>c. \<lparr>ch = c, fg = DefaultColor, bg = DefaultColor, cflags = REVERSE OR BOLD\<rparr>) (take (g_cols g) msg) @
                   drop (g_cols g) (g_cells g)\<rparr>))"

lemma frame_at_expected:
  assumes "length (g_cells g) = g_rows g * g_cols g" "0 < g_rows g" "g = cc_overlay (cd_core (ia_driver st))"
  shows "frame_at now st = Some (expected_frame (now - ia_last_contact st) g)"
proof -
  have "banner_cell = (\<lambda>c. \<lparr>ch = c, fg = DefaultColor, bg = DefaultColor, cflags = REVERSE OR BOLD\<rparr>)"
    by (simp add: fun_eq_iff banner_cell_def)
  then show ?thesis
    using stamp_status_cells [OF assms(1,2), of "silence_message ((now - ia_last_contact st) div 1000000000)"]
    by (simp add: frame_at_def status_banner_def SHOW_AFTER_def expected_frame_def silence_message_def Let_def assms(3) [symmetric])
qed

text \<open>A frame that the user's terminal can show: the overlay has its cells, its cursor is on it, the terminal has its size, and its
  rows are printable.\<close>

definition showable :: "(nat \<Rightarrow> nat) \<Rightarrow> display \<Rightarrow> grid \<Rightarrow> grid \<Rightarrow> bool" where
  "showable width d ov g \<longleftrightarrow> length (g_cells ov) = g_rows ov * g_cols ov \<and> cursor_row ov < g_rows ov \<and> cursor_col ov < g_cols ov \<and>
     same_size ov d \<and> (\<forall>row < g_rows g. row_ok width (map (grid_cell g row) [0..<g_cols g]))"

lemma expected_frame_shape [simp]:
  "g_rows (expected_frame n g) = g_rows g" "g_cols (expected_frame n g) = g_cols g"
  "cursor_row (expected_frame n g) = cursor_row g" "cursor_col (expected_frame n g) = cursor_col g"
  "same_size (expected_frame n g) d = same_size g d"
  by (simp_all add: expected_frame_def same_size_def Let_def)

lemma paint_round_shows:
  assumes tty: "\<And>buf o1 o2. wr buf o1 = (True, o2) \<Longrightarrow> screen o2 = term_run width buf (screen o1)"
    and run: "paint_round wr ri st w = Some (IContinue st', w')"
    and start: "screen w = (Ground, d)" "tracks (ia_renderer st) d"
    and ov: "ov = cc_overlay (cd_core (ia_driver st))" and g: "g = expected_frame (ri_painted_at ri - ia_last_contact st) ov"
    and frame: "showable width d ov g"
  shows "\<exists>d'. screen w' = (Ground, d') \<and> shows_grid g d' \<and> tracks (ia_renderer st') d'"
proof -
  have at: "frame_at (ri_painted_at ri) st = Some g"
    unfolding g by (rule frame_at_expected) (use frame ov in \<open>auto simp: showable_def\<close>)
  then obtain rd where p: "render_paint wr g (ia_renderer st) w = (True, rd, w')" and st': "st' = st\<lparr>ia_renderer := rd\<rparr>"
    using run by (auto simp: paint_round_def split: prod.splits if_splits option.splits)
  have f: "same_size g d" "cursor_row g < g_rows g" "cursor_col g < g_cols g"
    "\<And>row. row < g_rows g \<Longrightarrow> row_ok width (map (grid_cell g row) [0..<g_cols g])" using frame by (auto simp: showable_def g)
  note shown = paint_shows_frame [OF start(2) f(1) f(4) f(2,3)]
  show ?thesis
  proof (cases "paint_text g (ia_renderer st)")
    case None
    then show ?thesis using shown p st' start by (auto simp: render_paint_def)
  next
    case (Some buf)
    then have "wr buf w = (True, w')" "rd = (ia_renderer st)\<lparr>rd_last := Some g\<rparr>" using p by (auto simp: render_paint_def split: prod.splits if_splits)
    then show ?thesis using shown Some tty st' start by auto
  qed
qed

text \<open>The steps of an iteration that goes on, up to painting.\<close>

lemma interactive_round_steps:
  assumes run: "interactive_round sn nw wr ri st w = Some (IContinue st', out, w')"
  shows "\<exists>out0 core0 oc st3. recv_all sn (ri_datagrams ri) (cd_core (ia_driver st)) = (Inr (), out0, core0) \<and>
    process_reads (ia_esc_pending st) (ri_reads ri) = (ia_esc_pending st3, oc) \<and> \<not> io_quit oc \<and>
    cs_input_tx (cc_shell (cd_core (ia_driver st3))) = input_push (io_forward oc) (cs_input_tx (cc_shell core0)) \<and>
    ia_last_contact st3 = (if ri_datagrams ri \<noteq> [] then ri_received_at ri else ia_last_contact st) \<and>
    (\<forall>d. tracks (ia_renderer st) d \<longrightarrow> tracks (ia_renderer st3) d) \<and>
    paint_round wr ri st3 w = Some (IContinue st', w') \<and> (\<exists>rd. st' = st3\<lparr>ia_renderer := rd\<rparr>)"
proof -
  obtain out0 core0 where rcv: "recv_all sn (ri_datagrams ri) (cd_core (ia_driver st)) = (Inr (), out0, core0)"
    using run by (auto simp: interactive_round_def split: if_splits prod.splits sum.splits)
  obtain d1 where ag: "service_agent nw ((ia_driver st)\<lparr>cd_core := core0\<rparr>) = Some d1"
    using run rcv by (auto simp: interactive_round_def split: if_splits bind_splits)
  obtain p q core1 where ty: "fold type_read (ri_reads ri) (ia_esc_pending st, False, cd_core d1) = (p, q, core1)"
    by (metis prod.collapse)
  define st1 where "st1 = st\<lparr>ia_driver := d1\<lparr>cd_core := core1\<rparr>, ia_esc_pending := p,
    ia_last_contact := (if ri_datagrams ri \<noteq> [] then ri_received_at ri else ia_last_contact st)\<rparr>"
  define st2 where "st2 = adopt_size (terminal_size (ri_window ri)) st1"
  obtain out1 core2 where fl: "client_flush sn (cd_core (ia_driver st2)) = (out1, core2)" by fastforce
  obtain out2 st3 where ka: "keep_alive sn ri (st2\<lparr>ia_driver := (ia_driver st2)\<lparr>cd_core := core2\<rparr>\<rparr>) = (out2, st3)" by fastforce
  have q: "\<not> q" and pr: "paint_round wr ri st3 w = Some (IContinue st', w')"
    using run rcv ag ty fl ka by (auto simp: interactive_round_def Let_def st1_def [symmetric] st2_def [symmetric] split: if_splits prod.splits bind_splits)
  obtain oc where o: "process_reads (ia_esc_pending st) (ri_reads ri) = (p, oc)" "\<not> io_quit oc"
    "cs_input_tx (cc_shell core1) = input_push (io_forward oc) (cs_input_tx (cc_shell (cd_core d1)))"
    using type_reads [OF ty] q by auto
  note kept = keep_alive_keeps [OF ka] adopt_size_keeps [where sz = "terminal_size (ri_window ri)" and st = st1, folded st2_def]
  have "\<forall>d. tracks (ia_renderer st) d \<longrightarrow> tracks (ia_renderer st3) d" using kept by (simp add: st1_def)
  moreover have "cc_shell (cd_core (ia_driver st3)) = cc_shell core1" using kept flush_shell [OF fl] by (simp add: st1_def)
  moreover have "ia_esc_pending st3 = p" "ia_last_contact st3 = ia_last_contact st1" using kept by (simp_all add: st1_def)
  moreover have "cc_shell (cd_core d1) = cc_shell core0" using service_agent_shell [OF ag] by simp
  moreover have "\<exists>rd. st' = st3\<lparr>ia_renderer := rd\<rparr>"
    using pr by (auto simp: paint_round_def split: bind_splits prod.splits if_splits option.splits)
  ultimately show ?thesis using rcv o pr by (intro exI [of _ out0] exI [of _ core0] exI [of _ oc] exI [of _ st3]) (simp add: st1_def)
qed

text \<open>C13: what is typed is sent and what is shown is the screen. In an iteration of the interactive session that goes on, let the
  bytes read, behind a detach key left over from the iteration before, be the keystrokes \<open>ks\<close>: none of them asks to quit, exactly
  the bytes they stand for are added to the reliable input channel, in order, and a detach key at the end is kept for the next
  iteration. The instant of the last contact is when the datagrams were received, if there were any. At the end the terminal
  shows the predicted screen as it is, or, when the last contact is four seconds or more ago, with the message that says so
  at the right end of the top row; and the renderer knows what is shown. This is for a terminal that does what it is told,
  has the size of that screen, and can show its rows (printable, neither hidden nor struck out).\<close>

theorem interactive_round_faithful:
  assumes tty: "\<And>buf o1 o2. wr buf o1 = (True, o2) \<Longrightarrow> screen o2 = term_run width buf (screen o1)"
    and run: "interactive_round sn nw wr ri st w = Some (IContinue st', out, w')"
    and typed: "typed ks half ((if ia_esc_pending st then [0x1e] else []) @ concat (ri_reads ri))"
    and start: "screen w = (Ground, d)" "tracks (ia_renderer st) d"
    and ov: "ov = cc_overlay (cd_core (ia_driver st'))" and g: "g = expected_frame (ri_painted_at ri - ia_last_contact st') ov"
    and frame: "showable width d ov g"
  shows "(\<exists>out0 core0. recv_all sn (ri_datagrams ri) (cd_core (ia_driver st)) = (Inr (), out0, core0) \<and>
      cs_input_tx (cc_shell (cd_core (ia_driver st'))) = input_push (concat (map key_sends ks)) (cs_input_tx (cc_shell core0))) \<and>
    Command 46 \<notin> set ks \<and> Command 113 \<notin> set ks \<and> ia_esc_pending st' = half \<and>
    ia_last_contact st' = (if ri_datagrams ri \<noteq> [] then ri_received_at ri else ia_last_contact st) \<and>
    (\<exists>d'. screen w' = (Ground, d') \<and> shows_grid g d' \<and> tracks (ia_renderer st') d')"
proof -
  obtain out0 core0 oc st3 rd where rcv: "recv_all sn (ri_datagrams ri) (cd_core (ia_driver st)) = (Inr (), out0, core0)"
    and o: "process_reads (ia_esc_pending st) (ri_reads ri) = (ia_esc_pending st3, oc)" "\<not> io_quit oc"
      "cs_input_tx (cc_shell (cd_core (ia_driver st3))) = input_push (io_forward oc) (cs_input_tx (cc_shell core0))"
    and contact: "ia_last_contact st3 = (if ri_datagrams ri \<noteq> [] then ri_received_at ri else ia_last_contact st)"
    and tr: "tracks (ia_renderer st3) d" and pr: "paint_round wr ri st3 w = Some (IContinue st', w')" and st': "st' = st3\<lparr>ia_renderer := rd\<rparr>"
    using interactive_round_steps [OF run] start(2) by blast
  have "\<exists>d'. screen w' = (Ground, d') \<and> shows_grid g d' \<and> tracks (ia_renderer st') d'"
    by (rule paint_round_shows [where screen = screen and width = width and wr = wr and ri = ri and st = st3 and w = w and d = d and ov = ov,
        OF tty pr start(1) tr _ _ frame])
      (use ov g st' in simp_all)
  then show ?thesis using rcv o contact process_reads_typed [OF typed] st' by auto
qed


text \<open>A demonstration: a key typed on a screen of two columns.\<close>

definition demo_session :: "(nat \<times> bytes \<times> bytes option, unit, nat, unit) interactive" where
  "demo_session =
     \<lparr>ia_driver = \<lparr>cd_core = (demo_first [])\<lparr>cc_shell := with_prediction Never (client_shell_new 1 2)\<rparr>, cd_agent_sock = None, cd_agent_conns = []\<rparr>,
      ia_renderer = renderer_new, ia_last_size = (80, 24), ia_next_keepalive = 9, ia_last_contact = 0, ia_esc_pending = False\<rparr>"

definition demo_round :: round_input where
  "demo_round = \<lparr>ri_signalled = False, ri_datagrams = [], ri_reads = [[65]], ri_window = None, ri_received_at = 0, ri_keepalive_at = 0,
     ri_sent_at = 0, ri_rearmed_at = 0, ri_painted_at = 0\<rparr>"

definition demo_tty :: "ustr \<Rightarrow> parsing \<times> display \<Rightarrow> bool \<times> parsing \<times> display" where
  "demo_tty buf w = (True, term_run demo_width buf w)"

definition demo_typed :: "(nat \<times> bytes \<times> bytes option, unit, nat, unit) interactive" where
  "demo_typed = demo_session\<lparr>ia_driver := (ia_driver demo_session)\<lparr>cd_core := cc_type_input [65] (cd_core (ia_driver demo_session))\<rparr>\<rparr>"

lemma demo_type: "type_read [65] (False, False, core) = (False, False, cc_type_input [65] core)"
  by (simp add: type_read_def process_input_def ESCAPE_KEY_def)

lemma demo_frame: "cc_overlay (cd_core (ia_driver demo_typed)) = grid_new 1 2"
proof -
  have "base_grid (advance_cursor p) = base_grid p \<and> p_mode (advance_cursor p) = p_mode p" for p
    by (simp add: advance_cursor_def Let_def split: prod.split)
  then have "base_grid (predict_byte b p) = base_grid p \<and> p_mode (predict_byte b p) = p_mode p" for b p
    by (simp add: predict_byte_def forget_preds_def Let_def split: prod.split)
  then have "base_grid (predict_input bs p) = base_grid p \<and> p_mode (predict_input bs p) = p_mode p" for bs p
    unfolding predict_input_def by (induction bs arbitrary: p) simp_all
  then show ?thesis
    by (simp add: demo_typed_def demo_session_def cc_overlay_def client_overlay_def cc_type_input_def type_input_def overlay_def
        displaying_def with_prediction_def set_mode_def client_shell_new_def predictor_new_def Let_def)
qed

lemma demo_iteration:
  "\<exists>st' out w'. interactive_round toy_snow nw demo_tty demo_round demo_session (Ground, demo_display 2) = Some (IContinue st', out, w') \<and>
     cc_overlay (cd_core (ia_driver st')) = grid_new 1 2"
proof -
  have quiet: "cc_session (cd_core (ia_driver demo_typed)) = None" "cc_exited (cd_core (ia_driver demo_typed)) = None" "ia_next_keepalive demo_typed = 9"
    by (simp_all add: demo_typed_def demo_session_def cc_type_input_def demo_first_def client_core_new_def handshaker_client_def handshake_new_def
        write_message_def toy_snow_def rbind_def map_err_def)
  then have fl: "client_flush toy_snow (cd_core (ia_driver demo_typed)) = ([], cd_core (ia_driver demo_typed))"
    by (simp add: client_flush_def client_tick_def outgoing_def)
  have sz: "adopt_size (80, 24) demo_typed = demo_typed" by (simp add: adopt_size_def demo_typed_def demo_session_def)
  have ka: "keep_alive toy_snow demo_round demo_typed = ([], demo_typed)" using quiet by (simp add: keep_alive_def demo_round_def)
  obtain ok rd w' where p: "render_paint demo_tty (grid_new 1 2) (ia_renderer demo_typed) (Ground, demo_display 2) = (ok, rd, w')"
    by (metis prod.collapse)
  then have ok: "ok" by (auto simp: render_paint_def demo_tty_def split: option.splits)
  have pr: "paint_round demo_tty demo_round demo_typed (Ground, demo_display 2) = Some (IContinue (demo_typed\<lparr>ia_renderer := rd\<rparr>), w')"
    using p ok quiet demo_frame by (simp add: paint_round_def demo_round_def frame_at_def status_banner_def SHOW_AFTER_def)
  have typed: "demo_session\<lparr>ia_driver := (ia_driver demo_session)\<lparr>cd_core := cc_type_input [65] (cd_core (ia_driver demo_session))\<rparr>,
      ia_esc_pending := False, ia_last_contact := ia_last_contact demo_session\<rparr> = demo_typed"
    by (simp add: demo_typed_def demo_session_def)
  have start: "ri_datagrams demo_round = []" "ri_reads demo_round = [[65]]" "\<not> ri_signalled demo_round" "terminal_size (ri_window demo_round) = (80, 24)"
    "cd_agent_sock (ia_driver demo_session) = None" "ia_esc_pending demo_session = False"
    by (simp_all add: demo_round_def demo_session_def terminal_size_def)
  have "interactive_round toy_snow nw demo_tty demo_round demo_session (Ground, demo_display 2) = Some (IContinue (demo_typed\<lparr>ia_renderer := rd\<rparr>), [], w')"
    using start typed sz fl ka pr by (simp add: interactive_round_def service_agent_def demo_type)
  then show ?thesis using demo_frame by auto
qed

theorem interactive_round_faithful_witness:
  "\<forall>nw :: (unit, unit) net_ops. \<exists>st' out w'. interactive_round toy_snow nw demo_tty demo_round demo_session (Ground, demo_display 2) = Some (IContinue st', out, w') \<and>
     typed [Plain 65] False (concat (ri_reads demo_round)) \<and> \<not> ia_esc_pending st' \<and> ia_last_contact st' = 0 \<and>
     cs_input_tx (cc_shell (cd_core (ia_driver st'))) = input_push [65] (cs_input_tx (cc_shell (cd_core (ia_driver demo_session)))) \<and>
     (\<exists>d'. w' = (Ground, d') \<and> shows_grid (grid_new 1 2) d')"
proof
  fix nw :: "(unit, unit) net_ops"
  obtain st' out w' where run: "interactive_round toy_snow nw demo_tty demo_round demo_session (Ground, demo_display 2) = Some (IContinue st', out, w')"
    and g: "cc_overlay (cd_core (ia_driver st')) = grid_new 1 2" using demo_iteration by blast
  have at: "ri_painted_at demo_round = 0" by (simp add: demo_round_def)
  have typed: "typed [Plain 65] False ((if ia_esc_pending demo_session then [0x1e] else []) @ concat (ri_reads demo_round))"
    by (simp add: typed_def demo_session_def demo_round_def)
  have "(\<exists>out0 core0. recv_all toy_snow (ri_datagrams demo_round) (cd_core (ia_driver demo_session)) = (Inr (), out0, core0) \<and>
      cs_input_tx (cc_shell (cd_core (ia_driver st'))) = input_push (concat (map key_sends [Plain 65])) (cs_input_tx (cc_shell core0))) \<and>
    Command 46 \<notin> set [Plain 65] \<and> Command 113 \<notin> set [Plain 65] \<and> ia_esc_pending st' = False \<and>
    ia_last_contact st' = (if ri_datagrams demo_round \<noteq> [] then ri_received_at demo_round else ia_last_contact demo_session) \<and>
    (\<exists>d'. id w' = (Ground, d') \<and> shows_grid (grid_new 1 2) d' \<and> tracks (ia_renderer st') d')"
  proof (rule interactive_round_faithful [where wr = demo_tty and screen = id and width = demo_width and d = "demo_display 2" and ov = "grid_new 1 2", OF _ run typed])
    show "id o2 = term_run demo_width buf (id o1)" if "demo_tty buf o1 = (True, o2)" for buf o1 o2 using that by (simp add: demo_tty_def)
    show "tracks (ia_renderer demo_session) (demo_display 2)" by (simp add: tracks_def demo_session_def renderer_new_def)
    show "grid_new 1 2 = expected_frame (ri_painted_at demo_round - ia_last_contact st') (grid_new 1 2)" by (simp add: at expected_frame_def)
    show "showable demo_width (demo_display 2) (grid_new 1 2) (grid_new 1 2)"
      by (auto simp: showable_def same_size_def grid_new_def demo_display_def grid_cell_def idx_def demo_width_def blank_def upt_conv_Cons Let_def)
  qed (simp_all add: g)
  moreover have "recv_all toy_snow (ri_datagrams demo_round) core = (Inr (), [], core)" for core :: "(nat \<times> bytes \<times> bytes option, unit, nat) client_core"
    by (simp add: demo_round_def)
  ultimately show "\<exists>st' out w'. interactive_round toy_snow nw demo_tty demo_round demo_session (Ground, demo_display 2) = Some (IContinue st', out, w') \<and>
     typed [Plain 65] False (concat (ri_reads demo_round)) \<and> \<not> ia_esc_pending st' \<and> ia_last_contact st' = 0 \<and>
     cs_input_tx (cc_shell (cd_core (ia_driver st'))) = input_push [65] (cs_input_tx (cc_shell (cd_core (ia_driver demo_session)))) \<and>
     (\<exists>d'. w' = (Ground, d') \<and> shows_grid (grid_new 1 2) d')"
    using run typed by (intro exI [of _ st'] exI [of _ out] exI [of _ w']) (auto simp: demo_round_def demo_session_def)
qed

end
