(* ===== verification/Daemon.thy ===== *)
theory Daemon
  imports Cli Config Bootstrap ServerDriver
begin

text \<open>
  The server program, \<^verbatim>\<open>src/bin/noisshd.rs\<close>, and the key program, \<^verbatim>\<open>src/bin/noissh-keygen.rs\<close>: their arguments, the standalone and the
  one-shot server up to the service loop, and the loop's decision to go on. Parameters are the files, the keys, binding a socket
  and base64; of the addresses IPv4 is modelled and the text form of IPv6 is a parameter. What is printed on
  standard error is not modelled; \<^verbatim>\<open>daemonize\<close> is system calls whose failure is a parameter.
\<close>

section \<open>Arguments of the server\<close>

record daemon_args =
  da_one_shot :: bool
  da_listen :: "ustr option"
  da_bind :: "ustr option"
  da_key :: "ustr option"
  da_authorized_keys :: "ustr option"
  da_authorize :: "ustr option"
  da_command :: "ustr list option"
  da_user :: "ustr option"
  da_verbose :: bool

definition daemon_args_default :: daemon_args where
  "daemon_args_default = \<lparr>da_one_shot = False, da_listen = None, da_bind = None, da_key = None, da_authorized_keys = None,
     da_authorize = None, da_command = None, da_user = None, da_verbose = False\<rparr>"

text \<open>The options with a value take the next argument, or nothing when there is none.\<close>

definition daemon_valued :: "ustr \<Rightarrow> (ustr option \<Rightarrow> daemon_args \<Rightarrow> daemon_args) option" where
  "daemon_valued opt =
     (if opt = uni ''--listen'' then Some (\<lambda>v a. a\<lparr>da_listen := v\<rparr>)
      else if opt = uni ''--bind'' then Some (\<lambda>v a. a\<lparr>da_bind := v\<rparr>)
      else if opt = uni ''--key'' then Some (\<lambda>v a. a\<lparr>da_key := v\<rparr>)
      else if opt = uni ''--authorized-keys'' then Some (\<lambda>v a. a\<lparr>da_authorized_keys := v\<rparr>)
      else if opt = uni ''--authorize'' then Some (\<lambda>v a. a\<lparr>da_authorize := v\<rparr>)
      else if opt = uni ''--user'' then Some (\<lambda>v a. a\<lparr>da_user := v\<rparr>)
      else None)"

fun daemon_parse :: "ustr list \<Rightarrow> daemon_args \<Rightarrow> cli_exit + daemon_args" where
  "daemon_parse [] a = Inr a"
| "daemon_parse (opt # it) a =
     (if opt = uni ''-h'' \<or> opt = uni ''--help'' then Inl ExitHelp
      else if opt = uni ''-V'' \<or> opt = uni ''--version'' then Inl ExitVersion
      else if opt = uni ''--one-shot'' then daemon_parse it (a\<lparr>da_one_shot := True\<rparr>)
      else if opt = uni ''-v'' \<or> opt = uni ''--verbose'' then daemon_parse it (a\<lparr>da_verbose := True\<rparr>)
      else if opt = uni ''--command'' then Inr (a\<lparr>da_command := Some it\<rparr>)
      else case daemon_valued opt of
        Some set_it \<Rightarrow> (case it of v # it' \<Rightarrow> daemon_parse it' (set_it (Some v) a) | [] \<Rightarrow> Inr (set_it None a))
      | None \<Rightarrow> daemon_parse it a)"

declare daemon_parse.simps(2) [simp del]


section \<open>Socket addresses\<close>

datatype sock_addr = AddrV4 "nat list" nat | AddrV6 bytes nat

fun sock_port :: "sock_addr \<Rightarrow> nat" where
  "sock_port (AddrV4 _ p) = p"
| "sock_port (AddrV6 _ p) = p"

text \<open>A number of one to three digits below 256 without a leading zero.\<close>

definition parse_octet :: "ustr \<Rightarrow> nat option" where
  "parse_octet s =
     (if s = [] \<or> length s > 3 \<or> \<not> list_all is_ascii_digit s \<or> (length s > 1 \<and> hd s = 48) then None
      else parse_uint 256 (map of_nat s))"

definition parse_port :: "ustr \<Rightarrow> nat option" where
  "parse_port s = (if s = [] \<or> \<not> list_all is_ascii_digit s then None else parse_uint 65536 (map of_nat s))"

definition parse_v4 :: "ustr \<Rightarrow> sock_addr option" where
  "parse_v4 s =
     (case split_once_at (\<lambda>c. c = 58) s of
        None \<Rightarrow> None
      | Some (ip, port) \<Rightarrow>
          (case map parse_octet (split_at 46 ip) of
             [Some a, Some b, Some c, Some d] \<Rightarrow> map_option (AddrV4 [a, b, c, d]) (parse_port port)
           | _ \<Rightarrow> None))"

definition parse_sock_addr :: "(ustr \<Rightarrow> sock_addr option) \<Rightarrow> ustr \<Rightarrow> sock_addr option" where
  "parse_sock_addr v6 s = (case parse_v4 s of Some a \<Rightarrow> Some a | None \<Rightarrow> v6 s)"


section \<open>Starting a server\<close>

text \<open>Binding gives the port that was bound. \<^verbatim>\<open>dm_detach\<close> is the success of detaching from the terminal.\<close>

record 'f daemon_env =
  dm_store :: "'f text_store"
  dm_keys :: key_env
  dm_dir :: bytes
  dm_v6 :: "ustr \<Rightarrow> sock_addr option"
  dm_bind :: "sock_addr \<Rightarrow> nat option"
  dm_version :: ustr
  dm_detach :: bool

record ('s, 't, 'y, 'p, 'a) started =
  sr_core :: "('s, 't, 'y, 'p, 'a) server_core"
  sr_port :: nat
  sr_stdout :: ustr

definition bad_listen :: "ustr \<Rightarrow> ustr" where
  "bad_listen s = uni ''invalid --listen address '' @ dq @ s @ dq @ uni '' (expected ADDR:PORT, e.g. 0.0.0.0:51820)''"

definition fixed_command :: "ustr list option \<Rightarrow> ('s, 't, 'y, 'p, 'a) server_core \<Rightarrow> ('s, 't, 'y, 'p, 'a) server_core" where
  "fixed_command cmd core = (case cmd of Some c \<Rightarrow> with_command (map utf8_encode c) core | None \<Rightarrow> core)"

definition run_standalone :: "'f daemon_env \<Rightarrow> daemon_args \<Rightarrow> 'f \<Rightarrow> (runtime_error + ('s, 't, 'y, 'p, 'a) started) \<times> 'f" where
  "run_standalone e a f =
     (let key_path = (case da_key a of Some p \<Rightarrow> utf8_encode p | None \<Rightarrow> path_join (dm_dir e) (asc ''noisshd_key''));
          ak_path = (case da_authorized_keys a of Some p \<Rightarrow> utf8_encode p | None \<Rightarrow> path_join (dm_dir e) (asc ''authorized_keys''))
      in case load_or_generate_keypair (dm_store e) (dm_keys e) key_path f of
           (Inl err, f) \<Rightarrow> (Inl err, f)
         | (Inr kp, f) \<Rightarrow>
             (case load_authorized_keys (dm_store e) (ke_b64d (dm_keys e)) ak_path f of
                Inl err \<Rightarrow> (Inl err, f)
              | Inr authorized \<Rightarrow>
                  (let listen_str = (case da_listen a of Some l \<Rightarrow> l | None \<Rightarrow> uni ''0.0.0.0:51820'')
                   in case parse_sock_addr (dm_v6 e) listen_str of
                        None \<Rightarrow> (Inl (RBadAddress (bad_listen listen_str)), f)
                      | Some listen \<Rightarrow>
                          (let core = fixed_command (da_command a) (server_core_new (kp_private kp) authorized None);
                               core = (case da_user a of Some u \<Rightarrow> with_user (Some (utf8_encode u)) core | None \<Rightarrow> core)
                           in case dm_bind e listen of
                                None \<Rightarrow> (Inl RIo, f)
                              | Some port \<Rightarrow> (Inr \<lparr>sr_core = core, sr_port = port, sr_stdout = []\<rparr>, f)))))"

definition authorize_missing :: ustr where
  "authorize_missing = uni ''--one-shot requires --authorize <base64-public-key> (it is normally launched by the noissh client'' @ sq @ uni ''s SSH bootstrap, not by hand)''"

definition bad_bind :: "ustr \<Rightarrow> ustr" where
  "bad_bind s = uni ''invalid --bind address '' @ dq @ s @ dq @ uni '' (expected ADDR:PORT)''"

definition ANY_V4 :: sock_addr where
  "ANY_V4 = AddrV4 [0, 0, 0, 0] 0"

text \<open>The requested address, or any port when it has a port that is taken.\<close>

definition bind_or_ephemeral :: "'f daemon_env \<Rightarrow> sock_addr \<Rightarrow> nat option" where
  "bind_or_ephemeral e addr =
     (case dm_bind e addr of
        Some port \<Rightarrow> Some port
      | None \<Rightarrow> if sock_port addr \<noteq> 0 then dm_bind e ANY_V4 else None)"

definition one_shot_core :: "keypair \<Rightarrow> public_key \<Rightarrow> ustr list option \<Rightarrow> ('s, 't, 'y, 'p, 'a) server_core" where
  "one_shot_core kp client cmd =
     fixed_command cmd (server_core_new (kp_private kp) (ak_add client (uni ''ssh-bootstrap'') \<lparr>ak_keys = []\<rparr>) None)"

definition run_one_shot :: "'f daemon_env \<Rightarrow> daemon_args \<Rightarrow> runtime_error + ('s, 't, 'y, 'p, 'a) started" where
  "run_one_shot e a =
     (case ke_generate (dm_keys e) of
        Inl err \<Rightarrow> Inl (RNoise err)
      | Inr kp \<Rightarrow>
          (case da_authorize a of
             None \<Rightarrow> Inl (RUsage authorize_missing)
           | Some b64 \<Rightarrow>
               (case ke_b64d (dm_keys e) b64 of
                  None \<Rightarrow> Inl (RUsage (uni ''--authorize value is not valid base64''))
                | Some raw \<Rightarrow>
                    (case key_from_bytes raw of
                       Inl err \<Rightarrow> Inl (RAuth err)
                     | Inr client \<Rightarrow>
                         (let bind_str = (case da_bind a of Some b \<Rightarrow> b | None \<Rightarrow> uni ''0.0.0.0:0'')
                          in case parse_sock_addr (dm_v6 e) bind_str of
                               None \<Rightarrow> Inl (RBadAddress (bad_bind bind_str))
                             | Some addr \<Rightarrow>
                                 (case bind_or_ephemeral e addr of
                                    None \<Rightarrow> Inl RIo
                                  | Some port \<Rightarrow>
                                      if dm_detach e then
                                        Inr \<lparr>sr_core = one_shot_core kp client (da_command a), sr_port = port,
                                             sr_stdout = version_line (dm_version e) @ 10 # connect_line (ke_b64e (dm_keys e)) port (kp_public kp) @ [10]\<rparr>
                                      else Inl RIo))))))"

definition daemon_run :: "'f daemon_env \<Rightarrow> daemon_args \<Rightarrow> 'f \<Rightarrow> (runtime_error + ('s, 't, 'y, 'p, 'a) started) \<times> 'f" where
  "daemon_run e a f = (if da_one_shot a then (run_one_shot e a, f) else run_standalone e a f)"


section \<open>The service loop\<close>

definition GRACE :: nat where
  "GRACE = 60 * 1000000000"

datatype serving = GoOn | StopNow | FlushAndStop

text \<open>What the one-shot server does after an iteration, given whether it could be polled and the time since the start; before
  stopping because all is done it polls twenty times more.\<close>

definition one_shot_next :: "bool \<Rightarrow> nat \<Rightarrow> ('s, 't, 'y, 'p, 'a) server_core \<Rightarrow> serving" where
  "one_shot_next polled elapsed core =
     (if \<not> polled then StopNow
      else if all_done core then FlushAndStop
      else if session_count core = 0 \<and> elapsed > GRACE then StopNow
      else GoOn)"


section \<open>The key program\<close>

datatype keygen_mode = KeygenInfo | KeygenUsage | KeygenPath "ustr option"

fun keygen_args :: "ustr list \<Rightarrow> ustr option \<Rightarrow> keygen_mode" where
  "keygen_args [] p = KeygenPath p"
| "keygen_args (opt # it) p =
     (if opt = uni ''--help'' \<or> opt = uni ''-h'' \<or> opt = uni ''--version'' \<or> opt = uni ''-V'' then KeygenInfo
      else if opt = uni ''--key'' then (case it of v # it' \<Rightarrow> keygen_args it' (Some v) | [] \<Rightarrow> KeygenUsage)
      else KeygenUsage)"

text \<open>The exit code and the line on standard output.\<close>

definition keygen_run :: "'f text_store \<Rightarrow> key_env \<Rightarrow> bytes \<Rightarrow> ustr list \<Rightarrow> 'f \<Rightarrow> (nat \<times> ustr option) \<times> 'f" where
  "keygen_run st e dir argv f =
     (case keygen_args argv None of
        KeygenInfo \<Rightarrow> ((0, None), f)
      | KeygenUsage \<Rightarrow> ((2, None), f)
      | KeygenPath p \<Rightarrow>
          (case load_or_generate_keypair st e (case p of Some q \<Rightarrow> utf8_encode q | None \<Rightarrow> path_join dir (asc ''id'')) f of
             (Inl err, f) \<Rightarrow> ((1, None), f)
           | (Inr kp, f) \<Rightarrow>
               (case key_from_bytes (kp_public kp) of
                  Inl err \<Rightarrow> ((1, None), f)
                | Inr key \<Rightarrow> ((0, Some (key_to_text (ke_b64e e) key @ [10])), f))))"


section \<open>Both ends agree\<close>

lemma parse_octet_zero: "parse_octet [48] = Some 0"
  by (simp add: parse_octet_def is_ascii_digit_def parse_uint_def is_digit_def)

lemma parse_port_udec: "p < 65536 \<Longrightarrow> parse_port (udec p) = Some p"
proof -
  assume p: "p < 65536"
  have "map of_nat (udec p) = dec_digits p" by (simp add: udec_def comp_def)
  moreover have "list_all is_ascii_digit (udec p)" using udec_digits by (auto simp: list_all_iff)
  ultimately show ?thesis using parse_uint_dec [OF p] by (simp add: parse_port_def)
qed

lemma parse_any_address:
  assumes "p < 65536"
  shows "parse_sock_addr v6 (uni ''0.0.0.0:'' @ udec p) = Some (AddrV4 [0, 0, 0, 0] p)"
proof -
  have "uni ''0.0.0.0:'' @ udec p = [48, 46, 48, 46, 48, 46, 48] @ 58 # udec p" by (simp add: uni_def)
  moreover have "split_once_at (\<lambda>c. c = 58) ([48, 46, 48, 46, 48, 46, 48] @ 58 # udec p) = Some ([48, 46, 48, 46, 48, 46, 48], udec p)"
    by (rule split_once_at_append) simp_all
  ultimately show ?thesis using parse_port_udec [OF assms] by (simp add: parse_sock_addr_def parse_v4_def parse_octet_zero)
qed

text \<open>The words behind the server command in the call of \<^verbatim>\<open>ssh\<close>.\<close>

definition server_words :: "('x, 'w) ssh_env \<Rightarrow> bytes \<Rightarrow> nat \<Rightarrow> ustr list" where
  "server_words c key p = [uni ''--one-shot'', uni ''--authorize'', sh_b64e c key, uni ''--bind'', uni ''0.0.0.0:'' @ udec p]"

lemma server_words_called: "attempt_args c target cmd key extra (Some p) = extra @ [uni ''--'', target] @ cmd @ server_words c key p"
  by (simp add: attempt_args_def server_words_def)

lemma server_words_parsed:
  "daemon_parse (server_words c key p) daemon_args_default =
     Inr (daemon_args_default\<lparr>da_one_shot := True, da_authorize := Some (sh_b64e c key), da_bind := Some (uni ''0.0.0.0:'' @ udec p)\<rparr>)"
  by (simp add: server_words_def daemon_parse.simps(2) daemon_valued_def)

lemma one_shot_authorizes: "length key = KEY_LEN \<Longrightarrow> authorize_client (sc_authorized (one_shot_core kp key cmd)) k \<longleftrightarrow> k = key"
  by (auto simp: authorize_client_def one_shot_core_def fixed_command_def server_core_new_def with_command_def ak_add_def ak_contains_def key_from_bytes_def
      split: option.splits)

text \<open>C4: after the bootstrap both ends know each other. The words that the client puts behind the server command are understood by
  the server as a one-shot server for the client's key. If the server can bind the port, or another one in its place,
  it lets in exactly this key; and from what it prints, behind any complete lines of the remote side, the client reads
  exactly the port that was bound, the public key that belongs to the server's private key, and its version.\<close>

theorem bootstrap_ends_agree:
  assumes b64: "base64_ok b64e b64d" "sh_b64e c = b64e" "sh_b64d c = b64d" "ke_b64e (dm_keys e) = b64e" "ke_b64d (dm_keys e) = b64d"
    and keys: "length key = 32" "ke_generate (dm_keys e) = Inr kp" "length (kp_public kp) = 32"
    and port: "p < 65536" "bind_or_ephemeral e (AddrV4 [0, 0, 0, 0] p) = Some port" "port < 65536"
    and rest: "dm_detach e" "announced (dm_version e)" "banner = [] \<or> last banner = 10" "sh_resolve c udp_host port = Some (addr # others)"
  shows "attempt_args c target cmd key extra (Some p) = extra @ [uni ''--'', target] @ cmd @ server_words c key p \<and>
    (\<exists>a (st :: ('s, 't, 'y, 'p, 'q) started). daemon_parse (server_words c key p) daemon_args_default = Inr a \<and> daemon_run e a f = (Inr st, f) \<and> sr_port st = port \<and>
      sc_private (sr_core st) = kp_private kp \<and> (\<forall>k. authorize_client (sc_authorized (sr_core st)) k \<longleftrightarrow> k = key) \<and>
      read_attempt c udp_host \<lparr>ou_code = code, ou_stdout = banner @ sr_stdout st, ou_stderr = err\<rparr> =
        Inr (AConnected \<lparr>bo_addr = addr, bo_port = port, bo_pubkey = kp_public kp, bo_version = Some (dm_version e)\<rparr>))"
proof -
  let ?a = "daemon_args_default\<lparr>da_one_shot := True, da_authorize := Some (sh_b64e c key), da_bind := Some (uni ''0.0.0.0:'' @ udec p)\<rparr>"
  let ?st = "\<lparr>sr_core = one_shot_core kp key None, sr_port = port,
    sr_stdout = version_line (dm_version e) @ 10 # connect_line b64e port (kp_public kp) @ [10]\<rparr> :: ('s, 't, 'y, 'p, 'q) started"
  have "b64d (b64e key) = Some key" using b64(1) keys(1) by (simp add: base64_ok_def KEY_LEN_def)
  then have "daemon_run e ?a f = (Inr ?st, f)"
    using b64 keys(1,2) port(2) rest(1)
    by (simp add: daemon_run_def run_one_shot_def parse_any_address [OF port(1)] daemon_args_default_def key_from_bytes_def KEY_LEN_def)
  moreover have "read_attempt c udp_host \<lparr>ou_code = code, ou_stdout = banner @ sr_stdout ?st, ou_stderr = err\<rparr> =
      Inr (AConnected \<lparr>bo_addr = addr, bo_port = port, bo_pubkey = kp_public kp, bo_version = Some (dm_version e)\<rparr>)"
    using last_lines_read [OF _ keys(3) port(3) rest(2) _ rest(3,4), of b64e "\<lparr>ou_code = code, ou_stdout = banner @ sr_stdout ?st, ou_stderr = err\<rparr>"] b64 by simp
  moreover have "sc_private (sr_core ?st) = kp_private kp" by (simp add: one_shot_core_def fixed_command_def server_core_new_def)
  moreover have "\<forall>k. authorize_client (sc_authorized (sr_core ?st)) k \<longleftrightarrow> k = key" using keys(1) by (simp add: one_shot_authorizes KEY_LEN_def)
  ultimately show ?thesis using server_words_called server_words_parsed by (metis started.select_convs(2))
qed

definition demo_daemon :: "(path \<Rightarrow> (ustr \<times> nat) option) daemon_env" where
  "demo_daemon = \<lparr>dm_store = toy_store, dm_keys = demo_keys, dm_dir = [], dm_v6 = (\<lambda>_. None), dm_bind = (\<lambda>a. Some 40000),
     dm_version = uni ''1.0'', dm_detach = True\<rparr>"

definition demo_link :: "(nat, unit) ssh_env" where
  "demo_link = \<lparr>sh_run = (\<lambda>argv w. (None, w)), sh_resolve = (\<lambda>h p. Some [9]), sh_b64e = toy_b64e, sh_b64d = toy_b64d, sh_ours = uni ''1'',
     sh_remote_noisshd = None, sh_prompt = (\<lambda>q w. (None, w))\<rparr>"

theorem bootstrap_ends_agree_witness:
  "\<exists>a (st :: (unit, unit, unit, unit, unit) started). daemon_parse (server_words demo_link (replicate 32 1) 51820) daemon_args_default = Inr a \<and>
     daemon_run demo_daemon a (\<lambda>_. None) = (Inr st, \<lambda>_. None) \<and> (\<forall>k. authorize_client (sc_authorized (sr_core st)) k \<longleftrightarrow> k = replicate 32 1) \<and>
     read_attempt demo_link [] \<lparr>ou_code = None, ou_stdout = sr_stdout st, ou_stderr = []\<rparr> =
       Inr (AConnected \<lparr>bo_addr = 9, bo_port = 40000, bo_pubkey = replicate 32 3, bo_version = Some (uni ''1.0'')\<rparr>)"
proof -
  have fields: "sh_b64e demo_link = toy_b64e" "sh_b64d demo_link = toy_b64d" "ke_b64e (dm_keys demo_daemon) = toy_b64e" "ke_b64d (dm_keys demo_daemon) = toy_b64d"
    "ke_generate (dm_keys demo_daemon) = Inr demo_keypair" "length (kp_public demo_keypair) = 32" "length (replicate 32 (1 :: u8)) = 32"
    "bind_or_ephemeral demo_daemon (AddrV4 [0, 0, 0, 0] 51820) = Some 40000" "dm_detach demo_daemon" "announced (dm_version demo_daemon)"
    "sh_resolve demo_link [] 40000 = Some (9 # [])" "[] = [] \<or> last [] = (10 :: nat)"
    by (simp_all add: demo_link_def demo_daemon_def demo_keys_def demo_keypair_def bind_or_ephemeral_def announced_def is_ascii_digit_def
        version_letter_def uni_def)
  note agree = bootstrap_ends_agree [OF toy_b64_ok fields(1-4,7,5,6) _ fields(8) _ fields(9,10,12,11),
      where target = "[]" and cmd = "[]" and extra = "[]" and f = "\<lambda>_. None" and code = None and err = "[]"]
  then obtain a and st :: "(unit, unit, unit, unit, unit) started" where
    "daemon_parse (server_words demo_link (replicate 32 1) 51820) daemon_args_default = Inr a" "daemon_run demo_daemon a (\<lambda>_. None) = (Inr st, \<lambda>_. None)"
    "\<forall>k. authorize_client (sc_authorized (sr_core st)) k \<longleftrightarrow> k = replicate 32 1"
    "read_attempt demo_link [] \<lparr>ou_code = None, ou_stdout = [] @ sr_stdout st, ou_stderr = []\<rparr> =
       Inr (AConnected \<lparr>bo_addr = 9, bo_port = 40000, bo_pubkey = kp_public demo_keypair, bo_version = Some (dm_version demo_daemon)\<rparr>)"
    using agree by auto
  then show ?thesis by (auto simp: demo_keypair_def demo_daemon_def)
qed

text \<open>A finding. When the requested port is taken, the server listens on any port of every interface, whatever address it was asked
  to bind.\<close>

theorem taken_port_binds_every_interface:
  "dm_bind e (AddrV4 [127, 0, 0, 1] p) = None \<Longrightarrow> 0 < p \<Longrightarrow> bind_or_ephemeral e (AddrV4 [127, 0, 0, 1] p) = dm_bind e (AddrV4 [0, 0, 0, 0] 0)"
  by (simp add: bind_or_ephemeral_def ANY_V4_def)

end
