(* ===== verification/Pty.thy ===== *)
theory Pty
  imports ServerSafe Exec
begin

text \<open>
  Login sessions on a pseudo-terminal, \<^verbatim>\<open>crates/pty/src/lib.rs\<close> and \<^verbatim>\<open>login.rs\<close>: which program is started, as whom, where and with which
  environment; reading and writing, and the exit status. Parameters are the user database, the environment of the server
  and the operations of the \<^verbatim>\<open>pty_process\<close> library on a terminal \<open>'m\<close> and a child process \<open>'c\<close>.
\<close>

datatype pty_error = PtyIo | PtyLib | PtyWouldBlock | PtyUnknownUser bytes | PtyNix

record user =
  us_name :: bytes
  us_uid :: nat
  us_gid :: nat
  us_dir :: bytes
  us_shell :: bytes

text \<open>What \<^verbatim>\<open>Command\<close> collects before it is started; a variable that is set twice has the later value.\<close>

record launch_plan =
  lp_program :: bytes
  lp_arg0 :: "bytes option"
  lp_args :: "bytes list"
  lp_dir :: bytes
  lp_env :: "(bytes \<times> bytes) list"
  lp_ids :: "(nat \<times> nat) option"

datatype pty_read_result = PtyGot bytes | PtyInterrupted | PtyNotReady | PtyGone

record ('m, 'c) pty_os =
  po_by_name :: "bytes \<Rightarrow> pty_error + user option"
  po_by_uid :: "nat \<Rightarrow> pty_error + user option"
  po_uid :: nat
  po_shell_var :: "bytes option"
  po_open :: "pty_error + 'm"
  po_resize :: "nat \<Rightarrow> nat \<Rightarrow> 'm \<Rightarrow> (pty_error + unit) \<times> 'm"
  po_start :: "launch_plan \<Rightarrow> 'm \<Rightarrow> pty_error + 'c"
  po_read :: "nat \<Rightarrow> 'm \<Rightarrow> pty_read_result \<times> 'm"
  po_write :: "bytes \<Rightarrow> 'm \<Rightarrow> (pty_error + nat) \<times> 'm"
  po_try_wait :: "'c \<Rightarrow> (pty_error + exit_status option) \<times> 'c"
  po_wait :: "'c \<Rightarrow> (pty_error + exit_status) \<times> 'c"
  po_kill :: "'c \<Rightarrow> 'c"

record ('m, 'c) pty_handle =
  ph_master :: 'm
  ph_child :: 'c
  ph_status :: "u32 option"


section \<open>Starting\<close>

definition target_user :: "('m, 'c) pty_os \<Rightarrow> spawn_request \<Rightarrow> pty_error + user" where
  "target_user os req =
     (case sr_user req of
        Some name \<Rightarrow>
          (case po_by_name os name of Inl err \<Rightarrow> Inl err | Inr None \<Rightarrow> Inl (PtyUnknownUser name) | Inr (Some u) \<Rightarrow> Inr u)
      | None \<Rightarrow>
          (case po_by_uid os (po_uid os) of
             Inl err \<Rightarrow> Inl err
           | Inr None \<Rightarrow> Inl (PtyUnknownUser (dec_digits (po_uid os)))
           | Inr (Some u) \<Rightarrow> Inr u))"

text \<open>The last component of a path.\<close>

definition base_name :: "bytes \<Rightarrow> bytes" where
  "base_name p = rev (takeWhile (\<lambda>b. b \<noteq> 47) (rev p))"

definition login_shell :: "('m, 'c) pty_os \<Rightarrow> user \<Rightarrow> bytes" where
  "login_shell os u = (case po_shell_var os of Some s \<Rightarrow> s | None \<Rightarrow> from_utf8_lossy (us_shell u))"

definition plan_launch :: "('m, 'c) pty_os \<Rightarrow> spawn_request \<Rightarrow> user \<Rightarrow> launch_plan" where
  "plan_launch os req u =
     (let shell = login_shell os u;
          plan = (case sr_command req of
                    Some (c # cs) \<Rightarrow> \<lparr>lp_program = c, lp_arg0 = None, lp_args = cs, lp_dir = us_dir u, lp_env = [], lp_ids = None\<rparr>
                  | _ \<Rightarrow> \<lparr>lp_program = shell, lp_arg0 = Some (45 # base_name shell), lp_args = [], lp_dir = us_dir u, lp_env = [], lp_ids = None\<rparr>)
      in plan\<lparr>lp_env := [(asc ''TERM'', sr_term req), (asc ''HOME'', us_dir u), (asc ''USER'', us_name u), (asc ''LOGNAME'', us_name u),
                        (asc ''SHELL'', shell)] @ sr_env req,
              lp_ids := (if sr_user req \<noteq> None then Some (us_uid u, us_gid u) else None)\<rparr>)"

definition pty_spawn :: "('m, 'c) pty_os \<Rightarrow> spawn_request \<Rightarrow> pty_error + ('m, 'c) pty_handle" where
  "pty_spawn os req =
     (case target_user os req of
        Inl err \<Rightarrow> Inl err
      | Inr u \<Rightarrow>
          (case po_open os of
             Inl err \<Rightarrow> Inl err
           | Inr m \<Rightarrow>
               (case po_resize os (sr_rows req) (sr_cols req) m of
                  (Inl err, m) \<Rightarrow> Inl err
                | (Inr _, m) \<Rightarrow>
                    (case po_start os (plan_launch os req u) m of
                       Inl err \<Rightarrow> Inl err
                     | Inr c \<Rightarrow> Inr \<lparr>ph_master = m, ph_child = c, ph_status = None\<rparr>))))"


section \<open>Using\<close>

text \<open>A read that is interrupted is repeated. \<open>Inr []\<close> is the end of file.\<close>

partial_function (option) pty_read_loop :: "('m, 'c) pty_os \<Rightarrow> nat \<Rightarrow> 'm \<Rightarrow> ((pty_error + bytes) \<times> 'm) option" where
  "pty_read_loop os n m =
     (case po_read os n m of
        (PtyGot bs, m) \<Rightarrow> Some (Inr bs, m)
      | (PtyInterrupted, m) \<Rightarrow> pty_read_loop os n m
      | (PtyNotReady, m) \<Rightarrow> Some (Inl PtyWouldBlock, m)
      | (PtyGone, m) \<Rightarrow> Some (Inr [], m))"

definition pty_read :: "('m, 'c) pty_os \<Rightarrow> nat \<Rightarrow> ('m, 'c) pty_handle \<Rightarrow> ((pty_error + bytes) \<times> ('m, 'c) pty_handle) option" where
  "pty_read os n h = map_option (\<lambda>(r, m). (r, h\<lparr>ph_master := m\<rparr>)) (pty_read_loop os n (ph_master h))"

definition pty_write :: "('m, 'c) pty_os \<Rightarrow> bytes \<Rightarrow> ('m, 'c) pty_handle \<Rightarrow> (pty_error + nat) \<times> ('m, 'c) pty_handle" where
  "pty_write os bs h = (case po_write os bs (ph_master h) of (r, m) \<Rightarrow> (r, h\<lparr>ph_master := m\<rparr>))"

definition pty_set_winsize :: "('m, 'c) pty_os \<Rightarrow> nat \<Rightarrow> nat \<Rightarrow> ('m, 'c) pty_handle \<Rightarrow> (pty_error + unit) \<times> ('m, 'c) pty_handle" where
  "pty_set_winsize os rows cols h = (case po_resize os rows cols (ph_master h) of (r, m) \<Rightarrow> (r, h\<lparr>ph_master := m\<rparr>))"

definition pty_try_wait :: "('m, 'c) pty_os \<Rightarrow> ('m, 'c) pty_handle \<Rightarrow> (pty_error + u32 option) \<times> ('m, 'c) pty_handle" where
  "pty_try_wait os h =
     (case ph_status h of
        Some s \<Rightarrow> (Inr (Some s), h)
      | None \<Rightarrow>
          (case po_try_wait os (ph_child h) of
             (Inl err, c) \<Rightarrow> (Inl err, h\<lparr>ph_child := c\<rparr>)
           | (Inr (Some es), c) \<Rightarrow> (Inr (Some (status_code es)), h\<lparr>ph_child := c, ph_status := Some (status_code es)\<rparr>)
           | (Inr None, c) \<Rightarrow> (Inr None, h\<lparr>ph_child := c\<rparr>)))"

definition pty_wait :: "('m, 'c) pty_os \<Rightarrow> ('m, 'c) pty_handle \<Rightarrow> (pty_error + u32) \<times> ('m, 'c) pty_handle" where
  "pty_wait os h =
     (case ph_status h of
        Some s \<Rightarrow> (Inr s, h)
      | None \<Rightarrow>
          (case po_wait os (ph_child h) of
             (Inl err, c) \<Rightarrow> (Inl err, h\<lparr>ph_child := c\<rparr>)
           | (Inr es, c) \<Rightarrow> (Inr (status_code es), h\<lparr>ph_child := c, ph_status := Some (status_code es)\<rparr>)))"

definition pty_kill :: "('m, 'c) pty_os \<Rightarrow> ('m, 'c) pty_handle \<Rightarrow> ('m, 'c) pty_handle" where
  "pty_kill os h = h\<lparr>ph_child := po_kill os (ph_child h)\<rparr>"

text \<open>What is left of the child when the handle is dropped: it is killed and waited for unless its status is known.\<close>

definition pty_drop :: "('m, 'c) pty_os \<Rightarrow> ('m, 'c) pty_handle \<Rightarrow> 'c" where
  "pty_drop os h = (if ph_status h = None then snd (po_wait os (po_kill os (ph_child h))) else ph_child h)"


section \<open>Who runs\<close>

text \<open>The value a started program sees for a variable that the plan sets.\<close>

definition env_value :: "launch_plan \<Rightarrow> bytes \<Rightarrow> bytes option" where
  "env_value plan k = map_of (rev (lp_env plan)) k"

lemma map_of_append_other: "k \<notin> fst ` set ys \<Longrightarrow> map_of (rev (xs @ ys)) k = map_of (rev xs) k"
  using map_of_eq_None_iff [of "rev ys" k] by (simp add: map_add_def)

text \<open>A session runs as its user. When a session starts, the program runs in the home directory of the user it was
  asked to run as, or of the server's own user if none, with that user's name and home in its environment unless the request
  says otherwise, and with that user's ids exactly when one was named; an unknown user starts nothing.\<close>

theorem session_runs_as_user:
  assumes "pty_spawn os req = Inr h" "fst ` set (sr_env req) \<inter> {asc ''HOME'', asc ''USER'', asc ''LOGNAME''} = {}"
  shows "\<exists>u m. (case sr_user req of Some name \<Rightarrow> po_by_name os name | None \<Rightarrow> po_by_uid os (po_uid os)) = Inr (Some u) \<and>
    po_start os (plan_launch os req u) m = Inr (ph_child h) \<and> lp_dir (plan_launch os req u) = us_dir u \<and>
    env_value (plan_launch os req u) (asc ''HOME'') = Some (us_dir u) \<and> env_value (plan_launch os req u) (asc ''USER'') = Some (us_name u) \<and>
    env_value (plan_launch os req u) (asc ''LOGNAME'') = Some (us_name u) \<and>
    lp_ids (plan_launch os req u) = (if sr_user req = None then None else Some (us_uid u, us_gid u))"
proof -
  obtain u m where u: "target_user os req = Inr u" and s: "po_start os (plan_launch os req u) m = Inr (ph_child h)"
    using assms(1) by (auto simp: pty_spawn_def split: sum.splits prod.splits)
  have "(case sr_user req of Some name \<Rightarrow> po_by_name os name | None \<Rightarrow> po_by_uid os (po_uid os)) = Inr (Some u)"
    using u by (auto simp: target_user_def split: option.splits sum.splits)
  moreover have "lp_dir (plan_launch os req u) = us_dir u"
    by (simp add: plan_launch_def Let_def split: option.split list.split)
  moreover have "lp_ids (plan_launch os req u) = (if sr_user req = None then None else Some (us_uid u, us_gid u))"
    by (simp add: plan_launch_def Let_def)
  moreover have "env_value (plan_launch os req u) k = map_of (rev [(asc ''TERM'', sr_term req), (asc ''HOME'', us_dir u), (asc ''USER'', us_name u),
      (asc ''LOGNAME'', us_name u), (asc ''SHELL'', login_shell os u)]) k" if "k \<in> {asc ''HOME'', asc ''USER'', asc ''LOGNAME''}" for k
  proof -
    have "k \<notin> fst ` set (sr_env req)" using assms(2) that by blast
    then show ?thesis unfolding env_value_def plan_launch_def Let_def by (simp add: map_of_append_other del: rev_append append_Cons)
  qed
  moreover have "asc a = asc b \<longleftrightarrow> a = b" if "a \<in> {''TERM'', ''HOME'', ''USER'', ''LOGNAME'', ''SHELL''}" "b \<in> {''TERM'', ''HOME'', ''USER'', ''LOGNAME'', ''SHELL''}" for a b
    using that by (auto simp: asc_def)
  ultimately show ?thesis using s by auto
qed

text \<open>A finding. The shell of a session is the one in the environment of the server when there is one, also for a session that
  runs as another user.\<close>

theorem shell_is_the_servers:
  "sr_command req = None \<Longrightarrow> po_shell_var os = Some s \<Longrightarrow> lp_program (plan_launch os req u) = s"
  by (simp add: plan_launch_def login_shell_def Let_def)


section \<open>The exit status\<close>

text \<open>The operations on a handle, as a client may interleave them.\<close>

datatype pty_op = OpRead nat | OpWrite bytes | OpResize nat nat | OpTryWait | OpWait | OpKill

fun pty_step :: "('m, 'c) pty_os \<Rightarrow> pty_op \<Rightarrow> ('m, 'c) pty_handle \<Rightarrow> ('m, 'c) pty_handle option" where
  "pty_step os (OpRead n) h = map_option snd (pty_read os n h)"
| "pty_step os (OpWrite bs) h = Some (snd (pty_write os bs h))"
| "pty_step os (OpResize r c) h = Some (snd (pty_set_winsize os r c h))"
| "pty_step os OpTryWait h = Some (snd (pty_try_wait os h))"
| "pty_step os OpWait h = Some (snd (pty_wait os h))"
| "pty_step os OpKill h = Some (pty_kill os h)"

interpretation pty_run: partial_machine "pty_step os" "\<lambda>h. ph_status h = Some s" for os s
proof unfold_locales
  fix op h h'
  assume "ph_status h = Some s" "pty_step os op h = Some h'"
  then show "ph_status h' = Some s"
    by (cases op) (auto simp: pty_read_def pty_write_def pty_set_winsize_def pty_try_wait_def pty_wait_def pty_kill_def split: prod.splits)
qed

text \<open>An exit status is final. Once waiting has given a status, whatever is done with the handle, every later wait gives the
  same, without asking the system again, and dropping the handle leaves the child alone.\<close>

theorem exit_status_final:
  assumes "fst (pty_try_wait os h0) = Inr (Some s)" "opt_fold (pty_step os) ops (snd (pty_try_wait os h0)) = Some h"
  shows "pty_try_wait os h = (Inr (Some s), h) \<and> pty_wait os h = (Inr s, h) \<and> pty_drop os h = ph_child h"
proof -
  have "ph_status (snd (pty_try_wait os h0)) = Some s"
    using assms(1) by (auto simp: pty_try_wait_def split: option.splits prod.splits sum.splits)
  then have "ph_status h = Some s" using assms(2) by (rule pty_run.run_inv)
  then show ?thesis by (simp add: pty_try_wait_def pty_wait_def pty_drop_def)
qed

end
