(* ===== verification/Spec2Isabelle.thy ===== *)
theory Spec2Isabelle
  imports StreamLink ShellLimits ServerLife SocksSafe ClientProps Interactive Daemon Pty
begin

text \<open>
  Verification of \<^verbatim>\<open>noissh\<close>, a remote shell that runs over UDP in Noise sessions, and that starts its server over
  \<^verbatim>\<open>ssh\<close> when none is listening.

  \<^bold>\<open>The program and its parts.\<close> A client and a server exchange datagrams. A datagram is a handshake message or a sealed
  list of frames (\<^verbatim>\<open>crates/wire\<close>, \<^verbatim>\<open>crates/transport\<close>); the handshake (\<^verbatim>\<open>crates/proto/src/handshake.rs\<close>) authenticates both keys, the
  server looks the client's key up among the authorized ones, the client compares the server's key with the pinned one
  (\<^verbatim>\<open>crates/auth\<close>). Over a session run: the shell, whose screen is sent as numbered diffs and whose keystrokes go through
  a reliable channel (\<^verbatim>\<open>crates/proto/src/shell.rs\<close>, \<^verbatim>\<open>crates/term\<close>, \<^verbatim>\<open>crates/predict\<close>), and byte streams (\<^verbatim>\<open>stream.rs\<close>) for forwarded
  connections, file transfers, remote commands and the agent. \<^verbatim>\<open>src/server.rs\<close> and \<^verbatim>\<open>src/client.rs\<close> hold the two cores and
  their drivers, \<^verbatim>\<open>src/bin\<close> the programs.

  \<^bold>\<open>Theories and what they model.\<close>
  \<^item> \<open>Prelude\<close>: results, ordered maps (\<^verbatim>\<open>BTreeMap\<close>), cursors over bytes, words, the locales \<open>ordered_map\<close>, \<open>codec\<close> and
    \<open>invariant_machine\<close>. \<open>RustStr\<close>, \<open>RustText\<close>, \<open>RustFmt\<close>: strings, UTF-8, splitting, numbers.
  \<^item> \<open>Wire\<close>: frames (\<^verbatim>\<open>crates/wire\<close>). \<open>Replay\<close>: the anti-replay window (\<^verbatim>\<open>replay.rs\<close>), interpreted as a \<open>replay_guard\<close>. \<open>Input\<close>:
    the keystroke channel (\<^verbatim>\<open>input.rs\<close>). \<open>Reassembly\<close>, \<open>Stream\<close>, \<open>Mux\<close>: the streams (\<^verbatim>\<open>stream.rs\<close>); \<open>StreamLink\<close> composes two
    ends over a network that loses, repeats and reorders. \<open>Transport\<close>: packets and sessions (\<^verbatim>\<open>transport/src/lib.rs\<close>).
  \<^item> \<open>Handshake\<close> (\<^verbatim>\<open>noise-core\<close>, \<^verbatim>\<open>handshake.rs\<close>), \<open>Auth\<close> (\<^verbatim>\<open>crates/auth\<close>, interpreted as a \<open>pin_store\<close>), \<open>Runtime\<close> (errors).
  \<^item> \<open>Grid\<close>, \<open>GridSafe\<close>, \<open>Diff\<close> (\<^verbatim>\<open>crates/term\<close>), \<open>Predict\<close>, \<open>Control\<close>, \<open>Shell\<close> with the interface \<open>screen_diff\<close>; \<open>ShellLink\<close> composes
    both ends, \<open>ShellLimits\<close> has the runs in which they part.
  \<^item> \<open>Server\<close> is \<^verbatim>\<open>ServerCore\<close>, with \<open>ServerSafe\<close>, \<open>ServerReply\<close> and \<open>ServerLife\<close>; \<open>Client\<close> is \<^verbatim>\<open>ClientCore\<close>, with \<open>ClientSafe\<close>.
  \<^item> \<open>Tcp\<close>, \<open>Forward\<close>, \<open>Forwarder\<close>, \<open>Socks\<close>, \<open>SocksSafe\<close>, \<open>Files\<close>, \<open>Exec\<close>: forwarding, SOCKS, transfers, commands, each pumped between
    a local side and a stream given by the interface \<open>session_stream\<close>. \<open>ServerDriver\<close> is one service iteration of the server with
    all of them (\<open>DriverSafe\<close>, \<open>DriverProps\<close>); \<open>ClientDriver\<close> the loops of the client (\<open>ClientProps\<close>).
  \<^item> \<open>SshConfig\<close> (\<^verbatim>\<open>sshconfig.rs\<close>), \<open>Config\<close> (\<^verbatim>\<open>config.rs\<close>), \<open>Bootstrap\<close> (\<^verbatim>\<open>ssh.rs\<close>), \<open>Status\<close> (\<^verbatim>\<open>status.rs\<close>), \<open>Tty\<close> (\<^verbatim>\<open>tty.rs\<close>); \<open>Screen\<close> is a
    reference terminal that executes what the renderer writes. \<open>Pty\<close> is \<^verbatim>\<open>crates/pty\<close>.
  \<^item> \<open>Cli\<close>, \<open>Program\<close>, \<open>Interactive\<close>: the program \<^verbatim>\<open>noissh\<close>. \<open>Daemon\<close>: the programs \<^verbatim>\<open>noisshd\<close> and \<^verbatim>\<open>noissh-keygen\<close>.

  A struct of the source is a record, an enum a datatype, a method a function from the old to the new state and its
  result; an error is a value. Machine integers are words where they wrap, numbers with the wrap-around written
  out (\<open>wrap32\<close>, \<open>wrap64\<close>) elsewhere. An access out of range, which panics, is \<open>None\<close>.

  \<^bold>\<open>What the theorems show.\<close>
  \<^item> Trust: every session of the server belongs to an authorized key that its handshake proved, also with all
    the work of the driver; the client talks only to the pinned server; the client program opens a session only with the pinned key,
    a new key that was asked for and saved, or the key from \<^verbatim>\<open>ssh\<close>; after the bootstrap both ends know each other's keys;
    forged datagrams change nothing and are not answered; a shell stays with its key.
  \<^item> Delivery: over a network that loses, repeats and reorders, the streams and the keystroke channel deliver a prefix of what was
    written, and end only with all of it; a datagram is processed once. One round of a pump keeps what it relays exact: a forwarded
    connection has passed on what its stream delivered except what is buffered, a command's streams hold what was read from
    its pipes, and its exit code follows everything it printed; a round also reads each side until it has no more, as far as
    buffer and send window go. Uploads and downloads arrive whole or not at all; the client reports an exit code after the output
    of streams that it has seen and that end within their grace period.
  \<^item> Screen: diffs reproduce the screen; the client shows only screens the server had, and converges while it has not reattached
    and no snapshot is overtaken; what is painted shows the screen on the reference terminal, for rows that are printable, neither hidden
    nor struck out; predictions are marked and in place; the emulator never panics on a screen of at least two columns.
  \<^item> Codecs, configuration, command line: round trips, equivalence with declarative specifications (globs, first value wins,
    SOCKS in any chunks), saved pins never torn, the command passed word for word.
  \<^item> Liveness: an undisturbed handshake completes and leaves sessions that can talk; silent sessions are reclaimed if the
    terminals' output pauses; what a terminal prints up to the first pause reaches the emulator.
  Theorems marked as findings show where the code does not do what it or its documentation means to; their runs are concrete.

  \<^bold>\<open>Loops, bounds and fuel.\<close> Loops over data are structural or have a measure. Loops that read until a peer has no more are
  \<^theory_text>\<open>partial_function\<close> with value \<open>None\<close> when the peer never stops; that they return is proved under the
  hypothesis that it does (\<open>honest_socket\<close> for sockets and pipes, \<open>output_pauses\<close> for terminals). Loops that wait for a deadline run over the list
  of rounds up to it. There is no fuel. The bound of 20050 ticks in \<open>ServerLife\<close> is the idle limit and the grace of streams.

  \<^bold>\<open>Parameters.\<close> The Noise library (\<open>snow\<close>), pseudo-terminal library, the parser of control sequences, the character width table, base64,
  the order in which a hash map is walked, sockets, listeners, files, child processes, the \<^verbatim>\<open>ssh\<close> program, name resolution, the
  user database, the clock, environment variables, arriving datagrams. What is relied on of them is a named hypothesis, and
  a witness has an instance of it. The hypothesis on the Noise library (\<open>xx_first\<close>) is limited to messages of 65535 bytes and to
  nonces below the reserved one; that on terminals allows echo.

  \<^bold>\<open>Not modelled.\<close> Texts printed on standard error and help texts; the progress display; raw mode, \<^verbatim>\<open>poll\<close>, signal handlers, detaching from the
  terminal and the modes and ownership checks when the agent socket is bound, which are sequences of system calls without results
  the rest depends on; the text form of IPv6 addresses; the fuzz targets, which only call the decoders modelled here.
\<close>

end
